(* ===== verification/Lifecycle.thy ===== *)
theory Lifecycle
  imports Prelude
begin

text \<open>
  The transition tables of the platform. Tasks (\<open>tasks/model.py\<close>), deployments
  (\<open>fabric/deployments.py\<close>) and tenants (\<open>fabric/tenants.py\<close>) each declare a dictionary from
  \<open>(source, target)\<close> to the actors who may make the move, refuse a move that is not in it, and
  append every move they make to a history. What they share is here: when a move is legal, when
  a history replays, and the locale of the tables' laws, interpreted by each component.
\<close>

type_synonym ('s, 'r) move_table = "(('s \<times> 's) \<times> 'r list) list"
type_synonym ('s, 'r) move = "'s \<times> 's \<times> 'r"

definition legal_move :: "('s, 'r) move_table \<Rightarrow> 's \<Rightarrow> 's \<Rightarrow> 'r \<Rightarrow> bool" where
  "legal_move table s t r = (case map_of table (s, t) of None \<Rightarrow> False | Some rs \<Rightarrow> r \<in> set rs)"

text \<open>A history replays from one state to another when its moves chain and each is legal.\<close>

fun replays :: "('s, 'r) move_table \<Rightarrow> 's \<Rightarrow> ('s, 'r) move list \<Rightarrow> 's \<Rightarrow> bool" where
  "replays table s [] t = (s = t)"
| "replays table s ((a, b, r) # h) t = (a = s \<and> legal_move table a b r \<and> replays table b h t)"

lemma replays_append:
  "replays table s (h @ h') t \<longleftrightarrow> (\<exists>u. replays table s h u \<and> replays table u h' t)"
  by (induction h arbitrary: s) auto

lemma replays_snoc:
  "replays table s (h @ [(a, b, r)]) t \<longleftrightarrow> replays table s h a \<and> legal_move table a b r \<and> b = t"
  by (auto simp: replays_append)

lemma replays_legal: "replays table s h t \<Longrightarrow> (a, b, r) \<in> set h \<Longrightarrow> legal_move table a b r"
  by (induction h arbitrary: s) auto

text \<open>The step relation a table describes, and its reachable states.\<close>

inductive moves :: "('s, 'r) move_table \<Rightarrow> 's \<Rightarrow> 's \<Rightarrow> bool" for table where
  move: "legal_move table s t r \<Longrightarrow> moves table s t"

inductive_simps moves_iff: "moves table s t"
inductive_cases movesE: "moves table s t"

lemma replays_reaches: "replays table s h t \<Longrightarrow> (moves table)\<^sup>*\<^sup>* s t"
proof (induction h arbitrary: s)
  case (Cons m h)
  obtain a b r where m: "m = (a, b, r)" by (cases m)
  with Cons have "moves table s b" and "(moves table)\<^sup>*\<^sup>* b t" by (auto intro: moves.move)
  then show ?case by (rule converse_rtranclp_into_rtranclp)
qed simp

lemma reaches_replays: "(moves table)\<^sup>*\<^sup>* s t \<Longrightarrow> \<exists>h. replays table s h t"
proof (induction rule: rtranclp_induct)
  case base
  then show ?case by (intro exI [of _ "[]"]) simp
next
  case (step u v)
  then obtain h r where "replays table s h u" and "legal_move table u v r"
    by (auto elim: movesE)
  then have "replays table s (h @ [(u, v, r)]) v" by (simp add: replays_snoc)
  then show ?case ..
qed

text \<open>The laws of a table: a terminal state has no way out, no move is a self-loop, and every
  listed move may be made by somebody.\<close>

locale lifecycle =
  fixes table :: "('s, 'r) move_table"
    and terminal :: "'s \<Rightarrow> bool"
  assumes no_exit: "map_of table (s, t) = Some rs \<Longrightarrow> \<not> terminal s"
    and no_loop: "map_of table (s, s) = None"
    and somebody: "map_of table (s, t) = Some rs \<Longrightarrow> rs \<noteq> []"
begin

lemma legal_not_terminal: "legal_move table s t r \<Longrightarrow> \<not> terminal s"
  by (auto simp: legal_move_def dest: no_exit split: option.splits)

lemma legal_changes: "legal_move table s t r \<Longrightarrow> s \<noteq> t"
  using no_loop by (auto simp: legal_move_def)

lemma terminal_stays: "terminal s \<Longrightarrow> replays table s h t \<longleftrightarrow> h = [] \<and> t = s"
  by (cases "(table, s, h, t)" rule: replays.cases) (auto dest: legal_not_terminal)

lemma terminal_unreached: "terminal s \<Longrightarrow> (moves table)\<^sup>*\<^sup>* s t \<Longrightarrow> t = s"
  by (auto dest: reaches_replays simp: terminal_stays)

text \<open>Once a history enters a terminal state it is over.\<close>

lemma terminal_last:
  "replays table s h t \<Longrightarrow> h = h1 @ (a, b, r) # h2 \<Longrightarrow> terminal b \<Longrightarrow> h2 = []"
  by (auto simp: replays_append terminal_stays)

lemma moves_somebody: "map_of table (s, t) = Some rs \<Longrightarrow> moves table s t"
  using somebody [of s t rs] by (cases rs) (auto simp: legal_move_def intro!: moves.move)

end

end
