(* ===== verification/TaskModel.thy ===== *)
theory TaskModel
  imports Lifecycle
begin

text \<open>
  Assigned work: the record, its lifecycle and the rules around it, from
  \<open>tasks/model.py\<close>, \<open>tasks/port.py\<close>, \<open>tasks/binding.py\<close>, \<open>tasks/authorization.py\<close> and
  \<open>tasks/divergence.py\<close>. A paired human is read through the five identity attributes that
  \<open>_identities\<close> reads, an absent attribute being \<open>None\<close>.
\<close>

section \<open>States, actors and priorities\<close>

datatype task_state =
  TaskOpen | TaskClaimed | TaskInProgress | TaskDone | TaskFailed | TaskCancelled

datatype task_actor = HumanSide | AgentSide

datatype task_priority = PrioUnknown | PrioUrgent | PrioHigh | PrioNormal | PrioLow

datatype approval_state = NotRequired | Pending | Approved | Rejected

fun task_state_value :: "task_state \<Rightarrow> string" where
  "task_state_value TaskOpen = ''open''"
| "task_state_value TaskClaimed = ''claimed''"
| "task_state_value TaskInProgress = ''in_progress''"
| "task_state_value TaskDone = ''done''"
| "task_state_value TaskFailed = ''failed''"
| "task_state_value TaskCancelled = ''cancelled''"

fun task_priority_value :: "task_priority \<Rightarrow> string" where
  "task_priority_value PrioUnknown = ''unknown''"
| "task_priority_value PrioUrgent = ''urgent''"
| "task_priority_value PrioHigh = ''high''"
| "task_priority_value PrioNormal = ''normal''"
| "task_priority_value PrioLow = ''low''"

fun priority_rank :: "task_priority \<Rightarrow> nat" where
  "priority_rank PrioUrgent = 0"
| "priority_rank PrioHigh = 1"
| "priority_rank PrioNormal = 2"
| "priority_rank PrioLow = 3"
| "priority_rank PrioUnknown = 4"

text \<open>The rank is a sort key with no ties, so it orders the priorities linearly.\<close>

lemma priority_rank_inj: "priority_rank p = priority_rank q \<Longrightarrow> p = q"
  by (cases p; cases q) simp_all

instantiation task_priority :: linorder
begin

definition less_eq_task_priority :: "task_priority \<Rightarrow> task_priority \<Rightarrow> bool" where
  "less_eq_task_priority p q \<longleftrightarrow> priority_rank p \<le> priority_rank q"

definition less_task_priority :: "task_priority \<Rightarrow> task_priority \<Rightarrow> bool" where
  "less_task_priority p q \<longleftrightarrow> priority_rank p < priority_rank q"

instance
  by standard (auto simp: less_eq_task_priority_def less_task_priority_def intro: priority_rank_inj)

end

section \<open>The transition table\<close>

definition task_transitions :: "(task_state, task_actor) move_table" where
  "task_transitions =
    [((TaskOpen, TaskClaimed), [AgentSide]),
     ((TaskOpen, TaskCancelled), [HumanSide]),
     ((TaskClaimed, TaskInProgress), [AgentSide]),
     ((TaskClaimed, TaskOpen), [AgentSide, HumanSide]),
     ((TaskClaimed, TaskFailed), [AgentSide]),
     ((TaskClaimed, TaskCancelled), [HumanSide]),
     ((TaskInProgress, TaskDone), [AgentSide]),
     ((TaskInProgress, TaskFailed), [AgentSide]),
     ((TaskInProgress, TaskCancelled), [HumanSide]),
     ((TaskDone, TaskOpen), [HumanSide]),
     ((TaskFailed, TaskOpen), [HumanSide])]"

definition task_terminal :: "task_state \<Rightarrow> bool" where
  "task_terminal s \<longleftrightarrow> s \<in> {TaskCancelled}"

definition task_closed :: "task_state \<Rightarrow> bool" where
  "task_closed s \<longleftrightarrow> s \<in> {TaskDone, TaskFailed, TaskCancelled}"

definition allowed_task_transitions :: "task_state \<Rightarrow> (task_state \<times> task_actor list) list" where
  "allowed_task_transitions state =
     map (\<lambda>((s, t), who). (t, who)) (filter (\<lambda>((s, t), who). s = state) task_transitions)"

datatype task_error =
    IllegalTaskTransition task_state task_state
  | TaskTransitionDenied task_state task_state task_actor "task_actor list"
  | UnknownTask string
  | TenantMismatch string string
  | RunAlreadyLinked string string string
  | NotTheAssignee string string string
  | AssignmentDenied string string string
  | RunnerRaised string

definition check_transition :: "task_state \<Rightarrow> task_state \<Rightarrow> task_actor \<Rightarrow> task_error + unit" where
  "check_transition source target actor =
     (case map_of task_transitions (source, target) of
        None \<Rightarrow> Inl (IllegalTaskTransition source target)
      | Some allowed \<Rightarrow>
          if actor \<notin> set allowed then Inl (TaskTransitionDenied source target actor allowed)
          else Inr ())"

interpretation task_machine: lifecycle task_transitions task_terminal
proof (unfold_locales, goal_cases)
  case (1 s t rs) then show ?case
    by (cases s; cases t) (simp_all add: task_transitions_def task_terminal_def)
next
  case (2 s) show ?case by (cases s) (simp_all add: task_transitions_def)
next
  case (3 s t rs) then show ?case by (cases s; cases t) (auto simp: task_transitions_def)
qed

lemma check_transition_iff: "check_transition s t a = Inr () \<longleftrightarrow> legal_move task_transitions s t a"
  by (simp add: check_transition_def legal_move_def split: option.splits)

lemma check_transition_InrD: "check_transition s t a = Inr u \<Longrightarrow> legal_move task_transitions s t a"
  by (cases u) (simp add: check_transition_iff)

lemma legal_task_move_cases:
  assumes "legal_move task_transitions s t a"
  shows "(s, t, a) \<in> {(TaskOpen, TaskClaimed, AgentSide), (TaskOpen, TaskCancelled, HumanSide),
    (TaskClaimed, TaskInProgress, AgentSide), (TaskClaimed, TaskOpen, AgentSide),
    (TaskClaimed, TaskOpen, HumanSide), (TaskClaimed, TaskFailed, AgentSide),
    (TaskClaimed, TaskCancelled, HumanSide), (TaskInProgress, TaskDone, AgentSide),
    (TaskInProgress, TaskFailed, AgentSide), (TaskInProgress, TaskCancelled, HumanSide),
    (TaskDone, TaskOpen, HumanSide), (TaskFailed, TaskOpen, HumanSide)}"
  using assms by (cases s; cases t; cases a) (simp_all add: legal_move_def task_transitions_def)

section \<open>The record\<close>

record task_event =
  te_at :: instant
  te_kind :: string
  te_actor :: string
  te_side :: task_actor
  te_source :: "task_state option"
  te_target :: "task_state option"
  te_detail :: string

record task_comment =
  tc_id :: string
  tc_at :: instant
  tc_author :: string
  tc_side :: task_actor
  tc_body :: string

record task_record =
  t_id :: string
  t_external_id :: string
  t_tenant_id :: string
  t_agent_id :: string
  t_session_id :: "string option"
  t_mission_id :: string
  t_approval_state :: approval_state
  t_title :: string
  t_priority :: task_priority
  t_priority_raw :: string
  t_description :: string
  t_assigner :: string
  t_state :: task_state
  t_events :: "task_event list"
  t_comments :: "task_comment list"
  t_created_at :: instant
  t_updated_at :: instant

definition task_prompt :: "task_record \<Rightarrow> string" where
  "task_prompt r = py_strip (t_title r @ [CHR 0x0A, CHR 0x0A] @ t_description r)"

section \<open>Backends and binding\<close>

datatype principal_kind = PrincipalNone | PrincipalHuman | PrincipalService

record backend_capabilities =
  bc_name :: string
  bc_principal_kind :: principal_kind
  bc_agent_principal_id :: string
  bc_tenant_id :: string
  bc_supports_non_human_assignee :: bool
  bc_reports_priority :: bool
  bc_notes :: string

datatype refusal =
    OnlyHuman | NoNonHuman | UnnamedPrincipal | NoNonHumanAssignee | NoTenantNamed
  | ServesOtherTenant string string

text \<open>\<open>BackendRefused(name, reason)\<close>; each reason is a constructor with what its message
  interpolates.\<close>

datatype backend_refused = BackendRefused string refusal

record 'b bound_backend =
  bb_port :: 'b
  bb_capabilities :: backend_capabilities
  bb_tenant_id :: string

definition bind_backend ::
  "('b \<Rightarrow> backend_capabilities) \<Rightarrow> 'b \<Rightarrow> string \<Rightarrow> backend_refused + 'b bound_backend" where
  "bind_backend capabilities port tenant_id =
     (let caps = capabilities port; name = bc_name caps in
      if bc_principal_kind caps = PrincipalHuman then Inl (BackendRefused name OnlyHuman)
      else if bc_principal_kind caps \<noteq> PrincipalService then Inl (BackendRefused name NoNonHuman)
      else if bc_agent_principal_id caps = [] then Inl (BackendRefused name UnnamedPrincipal)
      else if \<not> bc_supports_non_human_assignee caps
        then Inl (BackendRefused name NoNonHumanAssignee)
      else if tenant_id = [] then Inl (BackendRefused name NoTenantNamed)
      else if bc_tenant_id caps \<noteq> [] \<and> bc_tenant_id caps \<noteq> tenant_id
        then Inl (BackendRefused name (ServesOtherTenant (bc_tenant_id caps) tenant_id))
      else Inr \<lparr>bb_port = port, bb_capabilities = caps, bb_tenant_id = tenant_id\<rparr>)"

section \<open>Who may assign work\<close>

datatype human_role = Owner | Approver | Reviewer | Escalation | OperatorRole | Stakeholder

fun human_role_value :: "human_role \<Rightarrow> string" where
  "human_role_value Owner = ''owner''"
| "human_role_value Approver = ''approver''"
| "human_role_value Reviewer = ''reviewer''"
| "human_role_value Escalation = ''escalation''"
| "human_role_value OperatorRole = ''operator''"
| "human_role_value Stakeholder = ''stakeholder''"

definition assigning_roles :: "human_role list" where
  "assigning_roles = [Owner, Approver, OperatorRole]"

record human =
  hu_contact :: "string option"
  hu_email :: "string option"
  hu_user_id :: "string option"
  hu_name :: "string option"
  hu_display_name :: "string option"
  hu_roles :: "human_role list"

definition identities :: "human \<Rightarrow> string list" where
  "identities h =
     map (\<lambda>v. py_lower (py_strip v))
       (filter (\<lambda>v. v \<noteq> [])
         (List.map_filter id
           [hu_contact h, hu_email h, hu_user_id h, hu_name h, hu_display_name h]))"

definition roles_of_human :: "human \<Rightarrow> human_role list" where
  "roles_of_human h = (if hu_roles h \<noteq> [] then hu_roles h else [Owner])"

record agent_pairing =
  ap_agent_id :: string
  ap_humans :: "human list"

definition pairing_find :: "agent_pairing \<Rightarrow> string \<Rightarrow> human option" where
  "pairing_find p assigner =
     (let needle = py_lower (py_strip assigner) in
      if needle = [] then None
      else List.find (\<lambda>h. needle \<in> set (identities h)) (ap_humans p))"

definition directs :: "human \<Rightarrow> bool" where
  "directs h \<longleftrightarrow> (\<exists>r \<in> set (roles_of_human h). r \<in> set assigning_roles)"

definition may_assign :: "agent_pairing \<Rightarrow> string \<Rightarrow> bool" where
  "may_assign p assigner = (case pairing_find p assigner of None \<Rightarrow> False | Some h \<Rightarrow> directs h)"

definition pairing_check :: "agent_pairing \<Rightarrow> string \<Rightarrow> task_error + unit" where
  "pairing_check p assigner =
     (case pairing_find p assigner of
        None \<Rightarrow> Inl (AssignmentDenied (ap_agent_id p) assigner ''not paired with this agent'')
      | Some h \<Rightarrow>
          if \<not> directs h
          then Inl (AssignmentDenied (ap_agent_id p) assigner
            (''paired as '' @
             join_with '', '' (sort (map human_role_value (remdups (roles_of_human h)))) @
             '', which is not a capacity that directs it''))
          else Inr ())"

lemma pairing_check_iff: "pairing_check p a = Inr () \<longleftrightarrow> may_assign p a"
  by (simp add: pairing_check_def may_assign_def split: option.splits)

lemma may_assign_human:
  "may_assign p a \<Longrightarrow>
     \<exists>h \<in> set (ap_humans p). directs h \<and> py_lower (py_strip a) \<in> set (identities h)"
  by (auto simp: may_assign_def pairing_find_def Let_def split: option.splits if_splits
      dest: find_SomeD)

section \<open>Divergence between a task and its run\<close>

datatype session_state =
    SessionCreated | SessionRunning | SessionWaitingHuman
  | SessionCompleted | SessionFailed | SessionArchived

definition live_session :: "session_state \<Rightarrow> bool" where
  "live_session s \<longleftrightarrow> s \<in> {SessionCreated, SessionRunning, SessionWaitingHuman}"

definition finished_session :: "session_state \<Rightarrow> bool" where
  "finished_session s \<longleftrightarrow> s \<in> {SessionCompleted, SessionFailed, SessionArchived}"

definition open_task_state :: "task_state \<Rightarrow> bool" where
  "open_task_state s \<longleftrightarrow> s \<in> {TaskOpen, TaskClaimed, TaskInProgress}"

datatype divergence_kind = ClosedTaskLiveRun | FinishedRunOpenTask | MissingRun

text \<open>The message of a divergence repeats its states and its run, so it is not kept.\<close>

record divergence =
  dv_kind :: divergence_kind
  dv_task_id :: string
  dv_agent_id :: string
  dv_tenant_id :: string
  dv_session_id :: string
  dv_task_state :: task_state
  dv_session_state :: "session_state option"

definition made_divergence ::
  "task_record \<Rightarrow> string \<Rightarrow> session_state option \<Rightarrow> divergence_kind \<Rightarrow> divergence" where
  "made_divergence r sid session kind =
     \<lparr>dv_kind = kind, dv_task_id = t_id r, dv_agent_id = t_agent_id r,
      dv_tenant_id = t_tenant_id r, dv_session_id = sid, dv_task_state = t_state r,
      dv_session_state = session\<rparr>"

definition detect :: "task_record \<Rightarrow> session_state option \<Rightarrow> divergence option" where
  "detect r session =
     (case t_session_id r of
        None \<Rightarrow> None
      | Some sid \<Rightarrow>
          if sid = [] then None
          else (case session of
             None \<Rightarrow> Some (made_divergence r sid session MissingRun)
           | Some st \<Rightarrow>
               if task_closed (t_state r) \<and> live_session st
               then Some (made_divergence r sid session ClosedTaskLiveRun)
               else if open_task_state (t_state r) \<and> finished_session st
               then Some (made_divergence r sid session FinishedRunOpenTask)
               else None))"

lemma session_live_or_finished: "live_session s \<longleftrightarrow> \<not> finished_session s"
  by (cases s) (simp_all add: live_session_def finished_session_def)

lemma task_open_or_closed: "open_task_state s \<longleftrightarrow> \<not> task_closed s"
  by (cases s) (simp_all add: open_task_state_def task_closed_def)

end
