(* ===== verification/DocStore.thy ===== *)
theory DocStore
  imports Prelude
begin

text \<open>
  The document store of \<open>store.py\<close>: one table of JSON documents, keyed by
  \<open>(collection, id)\<close>. A collection is modelled as its own table, since no statement of the
  store reads across collections. A row keeps the document itself instead of its JSON text
  (\<open>model_dump_json\<close> and \<open>model_validate_json\<close> are pydantic's and invert each other on what
  the services write). \<open>updated_at\<close> is SQLite's \<open>datetime('now')\<close>: whole seconds. SQLite
  leaves the order of rows with equal \<open>updated_at\<close> open; the model keeps row order among
  them, and no property of the development depends on it.

  The locale \<open>doc_store\<close> is the contract the services rely on; it is interpreted here on the
  model of the store.
\<close>

section \<open>The table\<close>

record 'a row =
  row_id :: string
  row_parent :: "string option"
  row_name :: "string option"
  row_body :: 'a
  row_updated :: int

type_synonym 'a docs = "'a row list"

definition sql_now :: "instant \<Rightarrow> int" where
  "sql_now now = now div 1000000"

text \<open>\<open>INSERT \<dots> ON CONFLICT(collection, id) DO UPDATE\<close>: an existing row is rewritten in
  place, a new one appended. \<open>name\<close> is the already resolved
  \<open>name or getattr(obj, "name", None)\<close>.\<close>

definition store_put ::
  "instant \<Rightarrow> string \<Rightarrow> 'a \<Rightarrow> string option \<Rightarrow> string option \<Rightarrow> 'a docs \<Rightarrow> 'a docs" where
  "store_put now oid obj parent name rows =
     (let r = \<lparr>row_id = oid, row_parent = parent, row_name = name, row_body = obj,
               row_updated = sql_now now\<rparr>
      in if oid \<in> set (map row_id rows)
         then map (\<lambda>q. if row_id q = oid then r else q) rows
         else rows @ [r])"

definition store_get :: "'a docs \<Rightarrow> string \<Rightarrow> 'a option" where
  "store_get rows oid = map_option row_body (List.find (\<lambda>r. row_id r = oid) rows)"

definition store_list :: "string option \<Rightarrow> nat \<Rightarrow> nat \<Rightarrow> 'a docs \<Rightarrow> 'a list" where
  "store_list parent limit offset rows =
     (let hits = (case parent of None \<Rightarrow> rows
                  | Some p \<Rightarrow> filter (\<lambda>r. row_parent r = Some p) rows)
      in map row_body (take limit (drop offset (sort_key (\<lambda>r. - row_updated r) hits))))"

definition store_delete :: "string \<Rightarrow> 'a docs \<Rightarrow> 'a docs \<times> bool" where
  "store_delete oid rows =
     (filter (\<lambda>r. row_id r \<noteq> oid) rows, oid \<in> set (map row_id rows))"

definition store_count :: "'a docs \<Rightarrow> nat" where
  "store_count rows = length rows"

definition store_put_many :: "instant \<Rightarrow> (string \<times> 'a) list \<Rightarrow> 'a docs \<Rightarrow> 'a docs" where
  "store_put_many now objs rows =
     fold (\<lambda>(oid, obj) rs. store_put now oid obj None None rs) objs rows"

text \<open>The primary key: no two rows of a collection share an id.\<close>

definition wf_docs :: "'a docs \<Rightarrow> bool" where
  "wf_docs rows \<longleftrightarrow> distinct (map row_id rows)"

section \<open>The contract\<close>

locale doc_store =
  fixes get :: "'s \<Rightarrow> string \<Rightarrow> 'a option"
    and put :: "instant \<Rightarrow> string \<Rightarrow> 'a \<Rightarrow> string option \<Rightarrow> string option \<Rightarrow> 's \<Rightarrow> 's"
    and listing :: "string option \<Rightarrow> nat \<Rightarrow> nat \<Rightarrow> 's \<Rightarrow> 'a list"
    and delete :: "string \<Rightarrow> 's \<Rightarrow> 's \<times> bool"
    and rows_of :: "'s \<Rightarrow> nat"
    and wf :: "'s \<Rightarrow> bool"
  assumes get_put: "get (put now k x p n s) k' = (if k' = k then Some x else get s k')"
    and wf_put: "wf s \<Longrightarrow> wf (put now k x p n s)"
    and get_delete: "get (fst (delete k s)) k' = (if k' = k then None else get s k')"
    and wf_delete: "wf s \<Longrightarrow> wf (fst (delete k s))"
    and delete_found: "snd (delete k s) \<longleftrightarrow> get s k \<noteq> None"
    and listing_sound: "wf s \<Longrightarrow> x \<in> set (listing p limit offset s) \<Longrightarrow> \<exists>k. get s k = Some x"
    and listing_complete:
      "rows_of s \<le> limit \<Longrightarrow> get s k = Some x \<Longrightarrow> x \<in> set (listing None limit 0 s)"
    and rows_put: "rows_of (put now k x p n s) = rows_of s + (if get s k = None then 1 else 0)"
begin

lemma get_put_same [simp]: "get (put now k x p n s) k = Some x"
  by (simp add: get_put)

text \<open>What every document satisfies stays so under a write of a document that satisfies it.\<close>

lemma put_all:
  assumes "\<And>k x. get s k = Some x \<Longrightarrow> P k x" and "P k0 x0"
    and "get (put now k0 x0 p n s) k = Some x"
  shows "P k x"
  using assms by (auto simp: get_put split: if_splits)

lemma listing_all:
  assumes "wf s" and "\<And>k x. get s k = Some x \<Longrightarrow> P x" and "x \<in> set (listing p limit offset s)"
  shows "P x"
  using listing_sound [OF assms(1,3)] assms(2) by blast

lemma delete_gone: "get (fst (delete k s)) k = None"
  by (simp add: get_delete)

end

section \<open>The store keeps the contract\<close>

lemma find_row_map:
  "List.find (\<lambda>r. row_id r = k') (map (\<lambda>q. if row_id q = k then r else q) rows) =
     (if k' = k \<and> k \<in> set (map row_id rows) then Some r
      else List.find (\<lambda>r. row_id r = k') rows)"
  if "row_id r = k"
  using that by (induction rows) auto

lemma find_row_append:
  "List.find (\<lambda>r. row_id r = k') (rows @ [r]) =
     (case List.find (\<lambda>r. row_id r = k') rows of
        None \<Rightarrow> if row_id r = k' then Some r else None | Some q \<Rightarrow> Some q)"
  by (induction rows) auto

lemma find_row_None: "List.find (\<lambda>r. row_id r = k) rows = None \<longleftrightarrow> k \<notin> set (map row_id rows)"
  by (auto simp: find_None_iff)

lemma store_get_None: "store_get rows k = None \<longleftrightarrow> k \<notin> set (map row_id rows)"
  by (simp add: store_get_def find_row_None)

lemma store_get_put:
  "store_get (store_put now k x p n rows) k' = (if k' = k then Some x else store_get rows k')"
proof (cases "k \<in> set (map row_id rows)")
  case True
  then show ?thesis by (simp add: store_get_def store_put_def Let_def find_row_map)
next
  case False
  then have "List.find (\<lambda>r. row_id r = k) rows = None" by (simp only: find_row_None) simp
  with False show ?thesis
    by (auto simp: store_get_def store_put_def Let_def find_row_append simp del: set_map
        split: option.splits)
qed

lemma store_get_delete:
  "store_get (fst (store_delete k rows)) k' = (if k' = k then None else store_get rows k')"
  by (induction rows) (auto simp: store_get_def store_delete_def)

lemma map_row_id_replace:
  "row_id r = k \<Longrightarrow> map row_id (map (\<lambda>q. if row_id q = k then r else q) rows) = map row_id rows"
  by (induction rows) auto

lemma wf_docs_put: "wf_docs rows \<Longrightarrow> wf_docs (store_put now k x p n rows)"
  by (auto simp: wf_docs_def store_put_def Let_def map_row_id_replace simp del: map_map)

lemma wf_docs_delete: "wf_docs rows \<Longrightarrow> wf_docs (fst (store_delete k rows))"
  by (simp add: wf_docs_def store_delete_def distinct_map_filter)

lemma store_get_member: "wf_docs rows \<Longrightarrow> r \<in> set rows \<Longrightarrow> store_get rows (row_id r) = Some (row_body r)"
  by (induction rows) (auto simp: wf_docs_def store_get_def)

lemma store_list_rows:
  "x \<in> set (store_list p limit offset rows) \<Longrightarrow>
     \<exists>r \<in> set rows. row_body r = x \<and> (case p of None \<Rightarrow> True | Some q \<Rightarrow> row_parent r = Some q)"
  by (auto simp: store_list_def Let_def dest!: in_set_takeD in_set_dropD split: option.splits)

lemma store_list_all: "length rows \<le> limit \<Longrightarrow> set (store_list None limit 0 rows) = row_body ` set rows"
  by (simp add: store_list_def)

lemma store_get_row: "store_get rows k = Some x \<Longrightarrow> \<exists>r \<in> set rows. row_id r = k \<and> row_body r = x"
  by (auto simp: store_get_def dest: find_SomeD)

interpretation ds: doc_store store_get store_put store_list store_delete length wf_docs
proof (unfold_locales, goal_cases)
  case (1 now k x p n s k') show ?case by (rule store_get_put)
next
  case (2 s now k x p n) then show ?case by (rule wf_docs_put)
next
  case (3 k s k') show ?case by (rule store_get_delete)
next
  case (4 s k) then show ?case by (rule wf_docs_delete)
next
  case (5 k s) show ?case by (simp add: store_get_None store_delete_def)
next
  case (6 s x p limit offset)
  then show ?case using store_list_rows store_get_member by (metis)
next
  case (7 s limit k x)
  then show ?case by (auto simp: store_list_all dest: store_get_row)
next
  case (8 now k x p n s)
  then show ?case by (auto simp: store_put_def Let_def store_get_None)
qed

end
