(* ===== verification/TaskBackend.thy ===== *)
theory TaskBackend
  imports TaskModel DocStore
begin

text \<open>
  The local reference backend of \<open>tasks/local.py\<close>, over the document store, and the contract
  of the task port (\<open>tasks/port.py\<close>, checked by \<open>tasks/conformance.py\<close>) as a locale.
  An operation takes the instant it runs at and returns the backend with the written record, or
  the refusal; a refusal is raised before the record is saved, so the backend is unchanged.
\<close>

section \<open>The backend\<close>

record task_backend =
  tb_tenant_id :: string
  tb_principal :: string
  tb_store :: "task_record docs"

definition local_capabilities :: "task_backend \<Rightarrow> backend_capabilities" where
  "local_capabilities b =
     \<lparr>bc_name = ''local'',
      bc_principal_kind = (if tb_principal b \<noteq> [] then PrincipalService else PrincipalNone),
      bc_agent_principal_id = tb_principal b,
      bc_tenant_id = tb_tenant_id b,
      bc_supports_non_human_assignee = (tb_principal b \<noteq> []),
      bc_reports_priority = True,
      bc_notes = ''reference backend; exercises the port, stores nothing else''\<rparr>"

text \<open>\<open>name=record.title\<close>; an empty title falls back to the record's \<open>name\<close>, which it lacks.\<close>

definition tb_save :: "instant \<Rightarrow> task_backend \<Rightarrow> task_record \<Rightarrow> task_backend \<times> task_record" where
  "tb_save now b r =
     (let r' = r\<lparr>t_updated_at := now\<rparr>
      in (b\<lparr>tb_store := store_put now (t_id r') r' (Some (t_agent_id r'))
              (if t_title r' = [] then None else Some (t_title r')) (tb_store b)\<rparr>, r'))"

definition tb_get :: "task_backend \<Rightarrow> string \<Rightarrow> task_error + task_record option" where
  "tb_get b task_id =
     (case store_get (tb_store b) task_id of
        None \<Rightarrow> Inr None
      | Some r \<Rightarrow>
          if t_tenant_id r \<noteq> tb_tenant_id b
          then Inl (TenantMismatch (tb_tenant_id b) (t_tenant_id r))
          else Inr (Some r))"

definition tb_require :: "task_backend \<Rightarrow> string \<Rightarrow> task_error + task_record" where
  "tb_require b task_id =
     (case tb_get b task_id of
        Inl e \<Rightarrow> Inl e
      | Inr None \<Rightarrow> Inl (UnknownTask task_id)
      | Inr (Some r) \<Rightarrow> Inr r)"

definition tb_open_task ::
  "instant \<Rightarrow> string \<Rightarrow> task_backend \<Rightarrow> string \<Rightarrow> string \<Rightarrow> string \<Rightarrow> string \<Rightarrow> string \<Rightarrow>
     approval_state \<Rightarrow> string \<Rightarrow> task_priority \<Rightarrow> string \<Rightarrow> task_backend \<times> task_record" where
  "tb_open_task now fresh b agent_id assigner title description mission_id approval
     external_id priority priority_raw =
     tb_save now b
       \<lparr>t_id = fresh, t_external_id = external_id, t_tenant_id = tb_tenant_id b,
        t_agent_id = agent_id, t_session_id = None, t_mission_id = mission_id,
        t_approval_state = approval, t_title = title, t_priority = priority,
        t_priority_raw = (if priority_raw \<noteq> [] then priority_raw else task_priority_value priority),
        t_description = description, t_assigner = assigner, t_state = TaskOpen,
        t_events = [], t_comments = [], t_created_at = now, t_updated_at = now\<rparr>"

definition tb_move ::
  "instant \<Rightarrow> task_backend \<Rightarrow> string \<Rightarrow> task_state \<Rightarrow> task_actor \<Rightarrow> string \<Rightarrow> string \<Rightarrow>
     task_error + task_backend \<times> task_record" where
  "tb_move now b task_id target side actor detail =
     (case tb_require b task_id of
        Inl e \<Rightarrow> Inl e
      | Inr r \<Rightarrow>
          (case check_transition (t_state r) target side of
             Inl e \<Rightarrow> Inl e
           | Inr _ \<Rightarrow>
               Inr (tb_save now b
                 (r\<lparr>t_state := target,
                    t_events := t_events r @
                      [\<lparr>te_at = now, te_kind = ''transition'', te_actor = actor, te_side = side,
                        te_source = Some (t_state r), te_target = Some target,
                        te_detail = detail\<rparr>]\<rparr>))))"

definition tb_cancel where
  "tb_cancel now b task_id actor reason = tb_move now b task_id TaskCancelled HumanSide actor reason"

definition tb_reopen where
  "tb_reopen now b task_id actor reason = tb_move now b task_id TaskOpen HumanSide actor reason"

definition tb_assigned :: "task_backend \<Rightarrow> string \<Rightarrow> task_state option \<Rightarrow> nat \<Rightarrow> task_record list" where
  "tb_assigned b agent_id state limit =
     (let records = filter (\<lambda>r. t_tenant_id r = tb_tenant_id b)
                      (store_list (Some agent_id) limit 0 (tb_store b))
      in case state of None \<Rightarrow> records | Some st \<Rightarrow> filter (\<lambda>r. t_state r = st) records)"

definition tb_claim ::
  "instant \<Rightarrow> task_backend \<Rightarrow> string \<Rightarrow> string \<Rightarrow> task_error + task_backend \<times> task_record" where
  "tb_claim now b task_id agent_id =
     (case tb_require b task_id of
        Inl e \<Rightarrow> Inl e
      | Inr r \<Rightarrow>
          if t_agent_id r \<noteq> agent_id then Inl (NotTheAssignee task_id (t_agent_id r) agent_id)
          else tb_move now b task_id TaskClaimed AgentSide agent_id [])"

definition tb_link_run ::
  "instant \<Rightarrow> task_backend \<Rightarrow> string \<Rightarrow> string \<Rightarrow> task_error + task_backend \<times> task_record" where
  "tb_link_run now b task_id session_id =
     (case tb_require b task_id of
        Inl e \<Rightarrow> Inl e
      | Inr r \<Rightarrow>
          (case t_session_id r of
             Some sid \<Rightarrow> if sid \<noteq> [] \<and> sid \<noteq> session_id
                         then Inl (RunAlreadyLinked task_id sid session_id)
                         else Inr (tb_save now b (r\<lparr>t_session_id := Some session_id,
                           t_events := t_events r @
                             [\<lparr>te_at = now, te_kind = ''run_linked'', te_actor = t_agent_id r,
                               te_side = AgentSide, te_source = None, te_target = None,
                               te_detail = session_id\<rparr>]\<rparr>))
           | None \<Rightarrow> Inr (tb_save now b (r\<lparr>t_session_id := Some session_id,
                           t_events := t_events r @
                             [\<lparr>te_at = now, te_kind = ''run_linked'', te_actor = t_agent_id r,
                               te_side = AgentSide, te_source = None, te_target = None,
                               te_detail = session_id\<rparr>]\<rparr>))))"

definition tb_progress ::
  "instant \<Rightarrow> task_backend \<Rightarrow> string \<Rightarrow> string \<Rightarrow> task_error + task_backend \<times> task_record" where
  "tb_progress now b task_id note =
     (case tb_require b task_id of
        Inl e \<Rightarrow> Inl e
      | Inr r \<Rightarrow>
          if t_state r = TaskClaimed
          then tb_move now b task_id TaskInProgress AgentSide (t_agent_id r) note
          else Inr (tb_save now b (r\<lparr>t_events := t_events r @
                 [\<lparr>te_at = now, te_kind = ''progress'', te_actor = t_agent_id r,
                   te_side = AgentSide, te_source = None, te_target = None,
                   te_detail = note\<rparr>]\<rparr>)))"

definition tb_complete ::
  "instant \<Rightarrow> task_backend \<Rightarrow> string \<Rightarrow> string \<Rightarrow> task_error + task_backend \<times> task_record" where
  "tb_complete now b task_id summary =
     (case tb_require b task_id of
        Inl e \<Rightarrow> Inl e
      | Inr r \<Rightarrow> tb_move now b task_id TaskDone AgentSide (t_agent_id r) summary)"

definition tb_fail ::
  "instant \<Rightarrow> task_backend \<Rightarrow> string \<Rightarrow> string \<Rightarrow> task_error + task_backend \<times> task_record" where
  "tb_fail now b task_id reason =
     (case tb_require b task_id of
        Inl e \<Rightarrow> Inl e
      | Inr r \<Rightarrow> tb_move now b task_id TaskFailed AgentSide (t_agent_id r) reason)"

definition tb_comment ::
  "instant \<Rightarrow> string \<Rightarrow> task_backend \<Rightarrow> string \<Rightarrow> string \<Rightarrow> string \<Rightarrow>
     task_error + task_backend \<times> task_record" where
  "tb_comment now fresh b task_id author body =
     (case tb_require b task_id of
        Inl e \<Rightarrow> Inl e
      | Inr r \<Rightarrow>
          Inr (tb_save now b (r\<lparr>t_comments := t_comments r @
            [\<lparr>tc_id = fresh, tc_at = now, tc_author = author,
              tc_side = (if author = t_agent_id r then AgentSide else HumanSide),
              tc_body = body\<rparr>]\<rparr>)))"

text \<open>The operations as data, for runs of a backend.\<close>

datatype task_op =
    OpenTask string string string string string string approval_state string task_priority string
  | Cancel string string string
  | Reopen string string string
  | Claim string string
  | LinkRun string string
  | Progress string string
  | Complete string string
  | FailTask string string
  | Comment string string string string

fun task_apply :: "instant \<Rightarrow> task_backend \<Rightarrow> task_op \<Rightarrow> task_error + task_backend \<times> task_record" where
  "task_apply now b (OpenTask fresh ag asg title desc mis appr ext prio raw) =
     Inr (tb_open_task now fresh b ag asg title desc mis appr ext prio raw)"
| "task_apply now b (Cancel tid actor reason) = tb_cancel now b tid actor reason"
| "task_apply now b (Reopen tid actor reason) = tb_reopen now b tid actor reason"
| "task_apply now b (Claim tid ag) = tb_claim now b tid ag"
| "task_apply now b (LinkRun tid sid) = tb_link_run now b tid sid"
| "task_apply now b (Progress tid note) = tb_progress now b tid note"
| "task_apply now b (Complete tid summary) = tb_complete now b tid summary"
| "task_apply now b (FailTask tid reason) = tb_fail now b tid reason"
| "task_apply now b (Comment fresh tid author body) = tb_comment now fresh b tid author body"

text \<open>A run: every operation at its instant; a refused one leaves the backend as it was. An id
  that \<open>new_id\<close> mints for a new task is one the store does not hold.\<close>

definition fresh_op :: "task_backend \<Rightarrow> task_op \<Rightarrow> bool" where
  "fresh_op b op =
     (case op of OpenTask fresh _ _ _ _ _ _ _ _ _ \<Rightarrow> store_get (tb_store b) fresh = None
      | _ \<Rightarrow> True)"

inductive task_step :: "task_backend \<Rightarrow> task_backend \<Rightarrow> bool" where
  applied: "fresh_op b op \<Longrightarrow> task_apply now b op = Inr (b', r) \<Longrightarrow> task_step b b'"
| refused: "task_apply now b op = Inl e \<Longrightarrow> task_step b b"

inductive_cases task_stepE: "task_step b b'"

lemmas tb_op_defs = tb_cancel_def tb_reopen_def tb_claim_def tb_link_run_def tb_progress_def
  tb_complete_def tb_fail_def tb_comment_def tb_move_def

section \<open>What one write does\<close>

lemma tb_require_iff:
  "tb_require b k = Inr r \<longleftrightarrow>
     store_get (tb_store b) k = Some r \<and> t_tenant_id r = tb_tenant_id b"
  by (auto simp: tb_require_def tb_get_def split: option.splits if_splits)

lemma tb_save_get:
  "store_get (tb_store (fst (tb_save now b r))) k =
     (if k = t_id r then Some (r\<lparr>t_updated_at := now\<rparr>) else store_get (tb_store b) k)"
  by (simp add: tb_save_def Let_def store_get_put)

lemma tb_save_tenant [simp]: "tb_tenant_id (fst (tb_save now b r)) = tb_tenant_id b"
  by (simp add: tb_save_def Let_def)

lemma tb_save_record [simp]: "snd (tb_save now b r) = r\<lparr>t_updated_at := now\<rparr>"
  by (simp add: tb_save_def Let_def)

lemma tb_save_wf: "wf_docs (tb_store b) \<Longrightarrow> wf_docs (tb_store (fst (tb_save now b r)))"
  by (simp add: tb_save_def Let_def wf_docs_put)

text \<open>Every operation but \<open>open_task\<close> rewritten one stored record of the tenant; what it may
  change is its state (along the table, recorded as an event), its run, its comments.\<close>

definition transition_event :: "task_record \<Rightarrow> task_record \<Rightarrow> task_event \<Rightarrow> bool" where
  "transition_event r r' e \<longleftrightarrow>
     te_kind e = ''transition'' \<and> te_source e = Some (t_state r) \<and> te_target e = Some (t_state r') \<and>
     legal_move task_transitions (t_state r) (t_state r') (te_side e)"

definition other_event :: "task_event \<Rightarrow> bool" where
  "other_event e \<longleftrightarrow> te_kind e \<noteq> ''transition'' \<and> te_source e = None \<and> te_target e = None"

definition record_step :: "task_record \<Rightarrow> task_record \<Rightarrow> bool" where
  "record_step r r' \<longleftrightarrow>
     t_id r' = t_id r \<and> t_tenant_id r' = t_tenant_id r \<and> t_agent_id r' = t_agent_id r \<and>
     t_assigner r' = t_assigner r \<and> t_priority r' = t_priority r \<and>
     t_priority_raw r' = t_priority_raw r \<and>
     (\<forall>sid. t_session_id r = Some sid \<longrightarrow> sid \<noteq> [] \<longrightarrow> t_session_id r' = Some sid) \<and>
     prefix (t_comments r) (t_comments r') \<and>
     ((\<exists>e. t_events r' = t_events r @ [e] \<and>
        (transition_event r r' e \<or> (other_event e \<and> t_state r' = t_state r))) \<or>
      (t_events r' = t_events r \<and> t_state r' = t_state r))"

definition rewritten :: "instant \<Rightarrow> task_backend \<Rightarrow> task_backend \<Rightarrow> task_record \<Rightarrow> bool" where
  "rewritten now b b' r' \<longleftrightarrow>
     (\<exists>k r q. store_get (tb_store b) k = Some r \<and> t_tenant_id r = tb_tenant_id b \<and>
        record_step r q \<and> (b', r') = tb_save now b q)"

lemma rewrittenI:
  "tb_save now b q = (b', r') \<Longrightarrow> tb_require b k = Inr r \<Longrightarrow> record_step r q \<Longrightarrow>
     rewritten now b b' r'"
  unfolding rewritten_def by (metis tb_require_iff)

lemma tb_move_rewrites:
  assumes "tb_move now b k target side actor detail = Inr (b', r')"
  shows "rewritten now b b' r'"
proof -
  from assms obtain r where r: "tb_require b k = Inr r"
    and legal: "legal_move task_transitions (t_state r) target side"
    by (auto simp: tb_move_def split: sum.splits dest: check_transition_InrD)
  define e where "e = \<lparr>te_at = now, te_kind = ''transition'', te_actor = actor, te_side = side,
    te_source = Some (t_state r), te_target = Some target, te_detail = detail\<rparr>"
  have save: "tb_save now b (r\<lparr>t_state := target, t_events := t_events r @ [e]\<rparr>) = (b', r')"
    using assms r by (auto simp: tb_move_def e_def split: sum.splits)
  have "record_step r (r\<lparr>t_state := target, t_events := t_events r @ [e]\<rparr>)"
    using legal by (simp add: record_step_def transition_event_def e_def)
  with r save show ?thesis by (blast intro: rewrittenI)
qed

lemma task_apply_rewrites:
  assumes "task_apply now b op = Inr (b', r')" and "\<not> (\<exists>f a g t d m p x q w. op = OpenTask f a g t d m p x q w)"
  shows "rewritten now b b' r'"
proof (cases op)
  case (LinkRun tid sid)
  with assms obtain r where r: "tb_require b tid = Inr r"
    by (auto simp: tb_link_run_def split: sum.splits)
  with assms LinkRun show ?thesis
    by (auto simp: tb_link_run_def record_step_def other_event_def split: option.splits if_splits
        dest!: rewrittenI [OF _ r])
next
  case (Progress tid msg)
  with assms obtain r where r: "tb_require b tid = Inr r"
    by (auto simp: tb_progress_def split: sum.splits)
  show ?thesis
  proof (cases "t_state r = TaskClaimed")
    case True
    with assms Progress r show ?thesis by (auto simp: tb_progress_def intro: tb_move_rewrites)
  next
    case False
    with assms Progress r show ?thesis
      by (auto simp: tb_progress_def record_step_def other_event_def dest!: rewrittenI [OF _ r])
  qed
next
  case (Comment fresh tid author body)
  with assms obtain r where r: "tb_require b tid = Inr r"
    by (auto simp: tb_comment_def split: sum.splits)
  with assms Comment show ?thesis
    by (auto simp: tb_comment_def record_step_def dest!: rewrittenI [OF _ r])
qed (use assms in \<open>auto simp: tb_cancel_def tb_reopen_def tb_claim_def tb_complete_def tb_fail_def
       split: sum.splits if_splits intro: tb_move_rewrites\<close>)


section \<open>Invariant: every history replays to the state it is in\<close>

definition moves_of :: "task_event list \<Rightarrow> (task_state, task_actor) move list" where
  "moves_of es =
     List.map_filter (\<lambda>e. case (te_source e, te_target e) of
         (Some a, Some b) \<Rightarrow> Some (a, b, te_side e) | _ \<Rightarrow> None) es"

definition history_ok :: "task_record \<Rightarrow> bool" where
  "history_ok r \<longleftrightarrow> replays task_transitions TaskOpen (moves_of (t_events r)) (t_state r)"

definition tb_inv :: "task_backend \<Rightarrow> bool" where
  "tb_inv b \<longleftrightarrow> wf_docs (tb_store b) \<and>
     (\<forall>k r. store_get (tb_store b) k = Some r \<longrightarrow> t_id r = k \<and> history_ok r)"

lemma moves_of_append: "moves_of (es @ es') = moves_of es @ moves_of es'"
  by (simp add: moves_of_def map_filter_def)

lemma moves_of_transition:
  "transition_event r r' e \<Longrightarrow> moves_of [e] = [(t_state r, t_state r', te_side e)]"
  by (simp add: moves_of_def transition_event_def map_filter_def)

lemma moves_of_other: "other_event e \<Longrightarrow> moves_of [e] = []"
  by (simp add: moves_of_def other_event_def map_filter_def)

lemma record_step_history: "record_step r q \<Longrightarrow> history_ok r \<Longrightarrow> history_ok q"
  by (auto simp: record_step_def history_ok_def moves_of_append moves_of_transition
      moves_of_other replays_snoc) (auto simp: transition_event_def)

lemma history_ok_updated_at [simp]: "history_ok (r\<lparr>t_updated_at := now\<rparr>) = history_ok r"
  by (simp add: history_ok_def)

lemma open_task_history:
  "t_events r = [] \<Longrightarrow> t_state r = TaskOpen \<Longrightarrow> history_ok r"
  by (simp add: history_ok_def moves_of_def map_filter_def)

text \<open>What one step of a backend does: nothing, one new open record under a fresh id, or one
  record of this tenant rewritten.\<close>

lemma task_step_shape:
  assumes "task_step b b'"
  obtains "b' = b"
  | now q where "b' = fst (tb_save now b q)" and "store_get (tb_store b) (t_id q) = None"
      and "t_events q = []" and "t_state q = TaskOpen" and "t_tenant_id q = tb_tenant_id b"
  | now k r q where "b' = fst (tb_save now b q)" and "store_get (tb_store b) k = Some r"
      and "record_step r q" and "t_tenant_id r = tb_tenant_id b"
  using assms
proof (cases rule: task_step.cases)
  case (applied op now r)
  show ?thesis
  proof (cases "\<exists>f a g t d m p x q w. op = OpenTask f a g t d m p x q w")
    case True
    then obtain f a g t d m p x q w where op: "op = OpenTask f a g t d m p x q w" by blast
    with applied have "fst (tb_open_task now f b a g t d m p x q w) = b'"
      and "store_get (tb_store b) f = None"
      by (auto simp: fresh_op_def dest: arg_cong [where f = fst])
    then show ?thesis unfolding tb_open_task_def by (elim that(2) [OF sym]) simp_all
  next
    case False
    with applied(2) have "rewritten now b b' r" by (rule task_apply_rewrites)
    then obtain k r0 q where "store_get (tb_store b) k = Some r0" "t_tenant_id r0 = tb_tenant_id b"
      "record_step r0 q" and save: "(b', r) = tb_save now b q"
      unfolding rewritten_def by blast
    moreover from save have "b' = fst (tb_save now b q)" by (metis fst_conv)
    ultimately show ?thesis by (intro that(3))
  qed
qed (use that(1) in blast)

lemma tb_inv_save:
  assumes "tb_inv b" and "history_ok q"
  shows "tb_inv (fst (tb_save now b q))"
  using assms by (auto simp: tb_inv_def tb_save_get tb_save_wf)

lemma task_step_inv [inv_intros]: "task_step b b' \<Longrightarrow> tb_inv b \<Longrightarrow> tb_inv b'"
proof (erule task_step_shape, goal_cases)
  case (3 now k r q)
  then have "history_ok r" by (simp add: tb_inv_def)
  with 3(4) have "history_ok q" by (rule record_step_history)
  with 3(1,2) show ?case by (simp add: tb_inv_save)
qed (auto intro: tb_inv_save open_task_history)

lemma task_steps_inv: "task_step\<^sup>*\<^sup>* b b' \<Longrightarrow> tb_inv b \<Longrightarrow> tb_inv b'"
  by (induction rule: rtranclp_induct) (auto intro: inv_intros)

lemma task_step_tenant: "task_step b b' \<Longrightarrow> tb_tenant_id b' = tb_tenant_id b"
  by (erule task_step_shape) simp_all

lemma task_steps_tenant: "task_step\<^sup>*\<^sup>* b b' \<Longrightarrow> tb_tenant_id b' = tb_tenant_id b"
  by (induction rule: rtranclp_induct) (auto dest: task_step_tenant)

section \<open>How a record may evolve\<close>

definition evolves :: "task_record \<Rightarrow> task_record \<Rightarrow> bool" where
  "evolves r r' \<longleftrightarrow>
     t_id r' = t_id r \<and> t_tenant_id r' = t_tenant_id r \<and> t_agent_id r' = t_agent_id r \<and>
     t_assigner r' = t_assigner r \<and> t_priority r' = t_priority r \<and>
     t_priority_raw r' = t_priority_raw r \<and>
     (\<forall>sid. t_session_id r = Some sid \<longrightarrow> sid \<noteq> [] \<longrightarrow> t_session_id r' = Some sid) \<and>
     prefix (t_comments r) (t_comments r') \<and> prefix (t_events r) (t_events r') \<and>
     (t_state r = TaskCancelled \<longrightarrow> t_state r' = TaskCancelled)"

lemma evolves_refl [simp]: "evolves r r"
  by (simp add: evolves_def)

lemma evolves_trans: "evolves a b \<Longrightarrow> evolves b c \<Longrightarrow> evolves a c"
  unfolding evolves_def by (metis prefix_order.trans)

lemma transition_event_not_cancelled: "transition_event r r' e \<Longrightarrow> t_state r \<noteq> TaskCancelled"
  using task_machine.legal_not_terminal by (auto simp: transition_event_def task_terminal_def)

lemma record_step_evolves: "record_step r q \<Longrightarrow> evolves r (q\<lparr>t_updated_at := now\<rparr>)"
  by (auto simp: record_step_def evolves_def dest: transition_event_not_cancelled)

lemma record_step_id: "record_step r q \<Longrightarrow> t_id q = t_id r"
  by (simp add: record_step_def)

lemma task_step_evolves:
  assumes "task_step b b'" and "tb_inv b" and "store_get (tb_store b) k = Some r"
  shows "\<exists>r'. store_get (tb_store b') k = Some r' \<and> evolves r r' \<and>
           (t_tenant_id r \<noteq> tb_tenant_id b \<longrightarrow> r' = r)"
  using assms(1)
proof (cases rule: task_step_shape)
  case (3 now k' r0 q)
  then have "t_id q = k'" using assms(2) record_step_id by (auto simp: tb_inv_def)
  with 3 assms(3) show ?thesis
    by (cases "k = k'") (auto simp: tb_save_get intro: record_step_evolves)
qed (use assms(3) in \<open>auto simp: tb_save_get\<close>)

lemma task_steps_evolve:
  assumes "task_step\<^sup>*\<^sup>* b b'" and "tb_inv b" and "store_get (tb_store b) k = Some r"
  shows "\<exists>r'. store_get (tb_store b') k = Some r' \<and> evolves r r' \<and>
           (t_tenant_id r \<noteq> tb_tenant_id b \<longrightarrow> r' = r)"
  using assms(1)
proof (induction rule: rtranclp_induct)
  case base
  with assms(3) show ?case by simp
next
  case (step u v)
  then obtain s where s: "store_get (tb_store u) k = Some s" "evolves r s"
    "t_tenant_id r \<noteq> tb_tenant_id b \<longrightarrow> s = r" by blast
  have "tb_inv u" using step(1) assms(2) by (rule task_steps_inv)
  from task_step_evolves [OF step(2) this s(1)] s task_steps_tenant [OF step(1)]
  show ?case by (auto simp: evolves_def intro: evolves_trans dest: evolves_trans)
qed

end
