(* ===== verification/TaskService.thy ===== *)
theory TaskService
  imports TaskBackend
begin

text \<open>
  Turning assigned work into a run and back (\<open>tasks/service.py\<close>). The port is a record of its
  operations, as the \<open>Protocol\<close> of \<open>tasks/port.py\<close> is; its contract is the locale
  \<open>task_port_laws\<close>, in which the facts about \<open>start\<close> are proved, and which is interpreted on
  the local backend. The agent runtime is the argument \<open>run\<close>: given agent, prompt and the
  creator, it raises (\<open>Inl\<close>) or returns the attributes of the result that \<open>start\<close> reads.
\<close>

section \<open>The service\<close>

record 'b task_port =
  p_get :: "'b \<Rightarrow> string \<Rightarrow> task_error + task_record option"
  p_assigned :: "'b \<Rightarrow> string \<Rightarrow> task_state option \<Rightarrow> nat \<Rightarrow> task_record list"
  p_claim :: "instant \<Rightarrow> 'b \<Rightarrow> string \<Rightarrow> string \<Rightarrow> task_error + 'b \<times> task_record"
  p_link_run :: "instant \<Rightarrow> 'b \<Rightarrow> string \<Rightarrow> string \<Rightarrow> task_error + 'b \<times> task_record"
  p_progress :: "instant \<Rightarrow> 'b \<Rightarrow> string \<Rightarrow> string \<Rightarrow> task_error + 'b \<times> task_record"
  p_complete :: "instant \<Rightarrow> 'b \<Rightarrow> string \<Rightarrow> string \<Rightarrow> task_error + 'b \<times> task_record"
  p_fail :: "instant \<Rightarrow> 'b \<Rightarrow> string \<Rightarrow> string \<Rightarrow> task_error + 'b \<times> task_record"

definition local_port :: "task_backend task_port" where
  "local_port = \<lparr>p_get = tb_get, p_assigned = tb_assigned, p_claim = tb_claim,
     p_link_run = tb_link_run, p_progress = tb_progress, p_complete = tb_complete,
     p_fail = tb_fail\<rparr>"

record run_result =
  rr_session_id :: "string option"
  rr_error :: "string option"
  rr_output :: "string option"
  rr_state :: "session_state option"

record task_run =
  tr_task :: task_record
  tr_session_id :: string
  tr_state :: session_state
  tr_output :: string
  tr_error :: "string option"

definition or_empty :: "string option \<Rightarrow> string" where
  "or_empty s = (case s of None \<Rightarrow> [] | Some v \<Rightarrow> v)"

definition truthy_opt :: "string option \<Rightarrow> bool" where
  "truthy_opt s \<longleftrightarrow> or_empty s \<noteq> []"

definition inbox :: "'b task_port \<Rightarrow> 'b \<Rightarrow> string \<Rightarrow> task_record list" where
  "inbox P b agent_id = p_assigned P b agent_id (Some TaskOpen) 100"

definition actionable ::
  "'b task_port \<Rightarrow> (string \<times> agent_pairing) list \<Rightarrow> 'b \<Rightarrow> string \<Rightarrow> task_record list" where
  "actionable P pairings b agent_id =
     (case map_of pairings agent_id of
        None \<Rightarrow> []
      | Some pairing \<Rightarrow> filter (\<lambda>t. may_assign pairing (t_assigner t)) (inbox P b agent_id))"

text \<open>What \<open>start\<close> checks before it touches the port.\<close>

definition start_checks ::
  "'b task_port \<Rightarrow> string \<Rightarrow> (string \<times> agent_pairing) list \<Rightarrow> 'b \<Rightarrow> string \<Rightarrow>
     task_error + task_record" where
  "start_checks P tenant_id pairings b task_id =
     (case p_get P b task_id of
        Inl e \<Rightarrow> Inl e
      | Inr None \<Rightarrow> Inl (UnknownTask task_id)
      | Inr (Some r) \<Rightarrow>
          if t_tenant_id r \<noteq> tenant_id then Inl (TenantMismatch tenant_id (t_tenant_id r))
          else (case map_of pairings (t_agent_id r) of
             None \<Rightarrow> Inl (AssignmentDenied (t_agent_id r) (t_assigner r)
               ''no pairing is known for this agent, so nobody is authorized to direct it'')
           | Some pairing \<Rightarrow>
               (case pairing_check pairing (t_assigner r) of
                  Inl e \<Rightarrow> Inl e
                | Inr _ \<Rightarrow>
                    if truthy_opt (t_session_id r)
                    then Inl (RunAlreadyLinked task_id (or_empty (t_session_id r)) ''<new run>'')
                    else Inr r)))"

text \<open>What \<open>start\<close> records once the run is over: the session first, then the outcome.\<close>

definition start_record ::
  "'b task_port \<Rightarrow> (nat \<Rightarrow> instant) \<Rightarrow> 'b \<Rightarrow> string \<Rightarrow> task_record \<Rightarrow> run_result \<Rightarrow>
     'b \<times> (task_error + task_run)" where
  "start_record P clk b task_id r res =
     (let session_id = or_empty (rr_session_id res);
          error = rr_error res;
          output = or_empty (rr_output res);
          state = (case rr_state res of None \<Rightarrow> SessionFailed | Some s \<Rightarrow> s)
      in case (if session_id \<noteq> [] then p_link_run P (clk 2) b task_id session_id else Inr (b, r)) of
           Inl e \<Rightarrow> (b, Inl e)
         | Inr (b2, r2) \<Rightarrow>
             (case (if truthy_opt error then p_fail P (clk 3) b2 task_id (or_empty error)
                    else p_complete P (clk 3) b2 task_id (take 2000 output)) of
                Inl e \<Rightarrow> (b2, Inl e)
              | Inr (b3, r3) \<Rightarrow>
                  (b3, Inr \<lparr>tr_task = r3, tr_session_id = session_id, tr_state = state,
                            tr_output = output, tr_error = error\<rparr>)))"

definition task_start ::
  "'b task_port \<Rightarrow> string \<Rightarrow> (string \<times> agent_pairing) list \<Rightarrow>
     (string \<Rightarrow> string \<Rightarrow> string \<Rightarrow> string + run_result) \<Rightarrow> (nat \<Rightarrow> instant) \<Rightarrow> 'b \<Rightarrow> string \<Rightarrow>
     'b \<times> (task_error + task_run)" where
  "task_start P tenant_id pairings run clk b task_id =
     (case start_checks P tenant_id pairings b task_id of
        Inl e \<Rightarrow> (b, Inl e)
      | Inr r \<Rightarrow>
          (case p_claim P (clk 0) b task_id (t_agent_id r) of
             Inl e \<Rightarrow> (b, Inl e)
           | Inr (b0, r0) \<Rightarrow>
               (case p_progress P (clk 1) b0 task_id ''starting agent run'' of
                  Inl e \<Rightarrow> (b0, Inl e)
                | Inr (b1, r1) \<Rightarrow>
                    (case run (t_agent_id r1) (task_prompt r1) (t_assigner r1) of
                       Inl e \<Rightarrow> (b1, Inl (RunnerRaised e))
                     | Inr res \<Rightarrow> start_record P clk b1 task_id r1 res))))"

text \<open>\<open>divergences\<close> reports and changes nothing; \<open>sessions\<close> is the runtime's session lookup. The
  set of agent ids it walks has no order in Python; the order of the pairings is used here.\<close>

definition divergences ::
  "'b task_port \<Rightarrow> (string \<times> agent_pairing) list \<Rightarrow> (string \<Rightarrow> session_state option) \<Rightarrow> 'b \<Rightarrow>
     string option \<Rightarrow> divergence list" where
  "divergences P pairings sessions b agent_id =
     (let records = (case agent_id of
          Some aid \<Rightarrow> p_assigned P b aid None 1000
        | None \<Rightarrow> concat (map (\<lambda>aid. p_assigned P b aid None 1000)
            (fromkeys (map (\<lambda>(k, p). ap_agent_id p) pairings))))
      in List.map_filter (\<lambda>r. if truthy_opt (t_session_id r)
           then detect r (sessions (or_empty (t_session_id r))) else None) records)"

section \<open>The contract of a port\<close>

locale task_port_laws =
  fixes P :: "'b task_port"
    and view :: "'b \<Rightarrow> string \<Rightarrow> task_record option"
    and ok :: "'b \<Rightarrow> bool"
  assumes get_view: "p_get P b k = Inr (Some r) \<Longrightarrow> view b k = Some r"
    and claim_law: "p_claim P now b k ag = Inr (b', r') \<Longrightarrow> ok b \<Longrightarrow> ok b' \<and>
      (\<exists>r. view b k = Some r \<and> t_state r = TaskOpen \<and> t_agent_id r = ag \<and>
          view b' k = Some r' \<and> t_state r' = TaskClaimed \<and> t_session_id r' = t_session_id r \<and>
          t_agent_id r' = ag \<and> t_assigner r' = t_assigner r \<and> task_prompt r' = task_prompt r)"
    and progress_law: "p_progress P now b k msg = Inr (b', r') \<Longrightarrow> ok b \<Longrightarrow> view b k = Some r \<Longrightarrow>
      t_state r = TaskClaimed \<Longrightarrow> ok b' \<and>
      view b' k = Some r' \<and> t_state r' = TaskInProgress \<and> t_session_id r' = t_session_id r \<and>
      t_agent_id r' = t_agent_id r \<and> t_assigner r' = t_assigner r \<and> task_prompt r' = task_prompt r"
    and link_law: "p_link_run P now b k sid = Inr (b', r') \<Longrightarrow> ok b \<Longrightarrow> ok b' \<and>
      (\<exists>r. view b k = Some r \<and> (truthy_opt (t_session_id r) \<longrightarrow> t_session_id r = Some sid) \<and>
          view b' k = Some r' \<and> t_state r' = t_state r \<and> t_session_id r' = Some sid)"
    and complete_law: "p_complete P now b k summary = Inr (b', r') \<Longrightarrow> ok b \<Longrightarrow> ok b' \<and>
      (\<exists>r. view b k = Some r \<and> t_state r = TaskInProgress \<and>
          view b' k = Some r' \<and> t_state r' = TaskDone \<and> t_session_id r' = t_session_id r)"
    and fail_law: "p_fail P now b k reason = Inr (b', r') \<Longrightarrow> ok b \<Longrightarrow> ok b' \<and>
      (\<exists>r. view b k = Some r \<and> t_state r \<in> {TaskClaimed, TaskInProgress} \<and>
          view b' k = Some r' \<and> t_state r' = TaskFailed \<and> t_session_id r' = t_session_id r)"
begin

lemma start_checks_Inr:
  assumes "start_checks P tenant pairings b k = Inr r"
  shows "view b k = Some r" and "t_tenant_id r = tenant" and "\<not> truthy_opt (t_session_id r)"
    and "\<exists>p. map_of pairings (t_agent_id r) = Some p \<and> may_assign p (t_assigner r)"
  using assms get_view
  by (auto simp: start_checks_def pairing_check_iff [symmetric]
      split: sum.splits option.splits if_splits)

text \<open>A run that is returned was started from an open, unlinked task whose assigner directs the
  agent; the task is left closed, as the run's error says, and linked to the run.\<close>

lemma start_result:
  assumes "task_start P tenant pairings run clk b k = (b', Inr tr)" and "ok b"
  shows "\<exists>r r'. view b k = Some r \<and> t_tenant_id r = tenant \<and> t_state r = TaskOpen \<and>
      \<not> truthy_opt (t_session_id r) \<and>
      (\<exists>p. map_of pairings (t_agent_id r) = Some p \<and> may_assign p (t_assigner r)) \<and>
      (\<exists>res. run (t_agent_id r) (task_prompt r) (t_assigner r) = Inr res \<and>
             tr_session_id tr = or_empty (rr_session_id res) \<and> tr_error tr = rr_error res) \<and>
      view b' k = Some r' \<and> tr_task tr = r' \<and>
      t_state r' = (if truthy_opt (tr_error tr) then TaskFailed else TaskDone) \<and>
      (tr_session_id tr \<noteq> [] \<longrightarrow> t_session_id r' = Some (tr_session_id tr))"
proof -
  from assms obtain r b0 r0 b1 r1 res where
    chk: "start_checks P tenant pairings b k = Inr r"
    and cl: "p_claim P (clk 0) b k (t_agent_id r) = Inr (b0, r0)"
    and pr: "p_progress P (clk 1) b0 k ''starting agent run'' = Inr (b1, r1)"
    and rn: "run (t_agent_id r1) (task_prompt r1) (t_assigner r1) = Inr res"
    and rec: "start_record P clk b1 k r1 res = (b', Inr tr)"
    by (auto simp: task_start_def split: sum.splits)
  note r = start_checks_Inr [OF chk]
  from claim_law [OF cl assms(2)] r(1) have
    r0: "ok b0" "view b0 k = Some r0" "t_state r0 = TaskClaimed" and op: "t_state r = TaskOpen"
    and eq0: "t_agent_id r0 = t_agent_id r" "t_assigner r0 = t_assigner r"
      "task_prompt r0 = task_prompt r" by auto
  from progress_law [OF pr r0] have
    r1: "ok b1" "view b1 k = Some r1" "t_state r1 = TaskInProgress"
    and eq1: "t_agent_id r1 = t_agent_id r0" "t_assigner r1 = t_assigner r0"
      "task_prompt r1 = task_prompt r0" by auto
  define sid where "sid = or_empty (rr_session_id res)"
  from rec [unfolded start_record_def Let_def, folded sid_def] obtain b2 r2 where
    ln: "(if sid \<noteq> [] then p_link_run P (clk 2) b1 k sid else Inr (b1, r1)) = Inr (b2, r2)"
    and fin: "(if truthy_opt (rr_error res) then p_fail P (clk 3) b2 k (or_empty (rr_error res))
        else p_complete P (clk 3) b2 k (take 2000 (or_empty (rr_output res)))) = Inr (b', tr_task tr)"
    and tr: "tr_session_id tr = sid" "tr_error tr = rr_error res"
    by (auto split: sum.splits prod.splits)
  have "ok b2 \<and> view b2 k = Some r2 \<and> (sid \<noteq> [] \<longrightarrow> t_session_id r2 = Some sid)"
    using ln r1 by (auto split: if_splits dest!: link_law)
  then have "view b' k = Some (tr_task tr) \<and>
      t_state (tr_task tr) = (if truthy_opt (rr_error res) then TaskFailed else TaskDone) \<and>
      (sid \<noteq> [] \<longrightarrow> t_session_id (tr_task tr) = Some sid)"
    using fin by (auto split: if_splits dest!: fail_law complete_law)
  then show ?thesis using r op tr rn eq0 eq1 by (auto simp: sid_def)
qed

text \<open>A refused start that never reached the claim leaves the port as it was, whatever the runner
  would have done.\<close>

lemma start_refused:
  assumes "start_checks P tenant pairings b k = Inl e"
  shows "task_start P tenant pairings run clk b k = (b, Inl e)"
  using assms by (simp add: task_start_def)

end

text \<open>A port that also does what it is allowed to do: each call of \<open>start\<close> succeeds on a task in
  the state the call is for.\<close>

locale task_port_live = task_port_laws +
  assumes get_ok: "ok b \<Longrightarrow> view b k = Some r \<Longrightarrow> p_get P b k = Inr (Some r)"
    and claim_ok: "ok b \<Longrightarrow> view b k = Some r \<Longrightarrow> t_state r = TaskOpen \<Longrightarrow>
      \<exists>b' r'. p_claim P now b k (t_agent_id r) = Inr (b', r')"
    and progress_ok: "ok b \<Longrightarrow> view b k = Some r \<Longrightarrow> t_state r = TaskClaimed \<Longrightarrow>
      \<exists>b' r'. p_progress P now b k msg = Inr (b', r')"
    and link_ok: "ok b \<Longrightarrow> view b k = Some r \<Longrightarrow> \<not> truthy_opt (t_session_id r) \<Longrightarrow>
      \<exists>b' r'. p_link_run P now b k sid = Inr (b', r')"
    and complete_ok: "ok b \<Longrightarrow> view b k = Some r \<Longrightarrow> t_state r = TaskInProgress \<Longrightarrow>
      \<exists>b' r'. p_complete P now b k msg = Inr (b', r')"
    and fail_ok: "ok b \<Longrightarrow> view b k = Some r \<Longrightarrow> t_state r = TaskInProgress \<Longrightarrow>
      \<exists>b' r'. p_fail P now b k msg = Inr (b', r')"
begin

lemma record_completes:
  assumes "ok b" and "view b k = Some r" and "t_state r = TaskInProgress"
    and "\<not> truthy_opt (t_session_id r)"
  shows "\<exists>b' tr. start_record P clk b k r res = (b', Inr tr)"
proof -
  define sid where "sid = or_empty (rr_session_id res)"
  obtain b2 r2 where
    link: "(if sid \<noteq> [] then p_link_run P (clk 2) b k sid else Inr (b, r)) = Inr (b2, r2)"
    using link_ok [OF assms(1,2,4), of "clk 2" sid] by (cases "sid = []") auto
  have "ok b2 \<and> view b2 k = Some r2 \<and> t_state r2 = TaskInProgress"
    using link assms by (cases "sid = []") (auto dest: link_law)
  then obtain b3 r3 where fin: "(if truthy_opt (rr_error res) then p_fail P (clk 3) b2 k (or_empty (rr_error res))
      else p_complete P (clk 3) b2 k (take 2000 (or_empty (rr_output res)))) = Inr (b3, r3)"
    using complete_ok fail_ok by (cases "truthy_opt (rr_error res)") force+
  show ?thesis
    unfolding start_record_def Let_def sid_def [symmetric] link by (simp add: fin)
qed

lemma start_completes:
  assumes "ok b" and "start_checks P tenant pairings b k = Inr r" and "t_state r = TaskOpen"
    and "run (t_agent_id r) (task_prompt r) (t_assigner r) = Inr res"
  shows "\<exists>b' tr. task_start P tenant pairings run clk b k = (b', Inr tr)"
proof -
  note chk = start_checks_Inr [OF assms(2)]
  obtain b0 r0 where cl: "p_claim P (clk 0) b k (t_agent_id r) = Inr (b0, r0)"
    using claim_ok [OF assms(1) chk(1) assms(3)] by blast
  from claim_law [OF cl assms(1)] chk(1) have r0: "ok b0" "view b0 k = Some r0" "t_state r0 = TaskClaimed"
    and eq0: "t_session_id r0 = t_session_id r" "t_agent_id r0 = t_agent_id r" "t_assigner r0 = t_assigner r"
      "task_prompt r0 = task_prompt r" by auto
  obtain b1 r1 where pr: "p_progress P (clk 1) b0 k ''starting agent run'' = Inr (b1, r1)"
    using progress_ok [OF r0] by blast
  from progress_law [OF pr r0] have r1: "ok b1" "view b1 k = Some r1" "t_state r1 = TaskInProgress"
    and eq1: "t_session_id r1 = t_session_id r0" "t_agent_id r1 = t_agent_id r0"
      "t_assigner r1 = t_assigner r0" "task_prompt r1 = task_prompt r0" by auto
  have "\<exists>b' tr. start_record P clk b1 k r1 res = (b', Inr tr)"
    by (rule record_completes [OF r1]) (simp add: eq1 eq0 chk(3))
  then show ?thesis using assms(2,4) cl pr eq0 eq1 by (simp add: task_start_def)
qed

end

section \<open>The local backend keeps the contract\<close>

definition tb_view :: "task_backend \<Rightarrow> string \<Rightarrow> task_record option" where
  "tb_view b k = (case store_get (tb_store b) k of
     None \<Rightarrow> None | Some r \<Rightarrow> if t_tenant_id r = tb_tenant_id b then Some r else None)"

lemma task_prompt_update [simp]:
  "task_prompt (r\<lparr>t_updated_at := a\<rparr>) = task_prompt r"
  "task_prompt (r\<lparr>t_events := es\<rparr>) = task_prompt r"
  "task_prompt (r\<lparr>t_state := s\<rparr>) = task_prompt r"
  by (simp_all add: task_prompt_def)


lemma tb_view_require: "tb_require b k = Inr r \<longleftrightarrow> tb_view b k = Some r" if "tb_inv b"
  using that by (auto simp: tb_require_iff tb_view_def tb_inv_def split: option.splits)

lemma tb_save_iff:
  "tb_save now b q = (b', r') \<longleftrightarrow> b' = fst (tb_save now b q) \<and> r' = q\<lparr>t_updated_at := now\<rparr>"
  by (auto simp: tb_save_def Let_def)

lemma tb_save_view:
  assumes "tb_require b k = Inr r" and "record_step r q" and "tb_inv b" and "tb_save now b q = (b', r')"
  shows "tb_inv b' \<and> tb_view b' k = Some r'"
proof -
  have r: "store_get (tb_store b) k = Some r" "t_tenant_id r = tb_tenant_id b"
    using assms(1) by (simp_all add: tb_require_iff)
  then have "history_ok r" and k: "t_id r = k" using assms(3) by (auto simp: tb_inv_def)
  with assms(2,3) have "tb_inv (fst (tb_save now b q))" by (auto intro: tb_inv_save record_step_history)
  with assms(2,4) r k show ?thesis
    by (auto simp: tb_save_iff tb_view_def tb_save_get record_step_def)
qed

lemma tb_move_effect:
  assumes "tb_move now b k target side actor detail = Inr (b', r')" and "tb_inv b"
  shows "tb_inv b' \<and> (\<exists>r. tb_view b k = Some r \<and> legal_move task_transitions (t_state r) target side \<and>
    tb_view b' k = Some r' \<and> t_state r' = target \<and> t_session_id r' = t_session_id r \<and>
    t_agent_id r' = t_agent_id r \<and> t_assigner r' = t_assigner r \<and> task_prompt r' = task_prompt r)"
proof -
  from assms(1) obtain r where r: "tb_require b k = Inr r"
    and legal: "legal_move task_transitions (t_state r) target side"
    by (auto simp: tb_move_def split: sum.splits dest: check_transition_InrD)
  define e where "e = \<lparr>te_at = now, te_kind = ''transition'', te_actor = actor, te_side = side,
    te_source = Some (t_state r), te_target = Some target, te_detail = detail\<rparr>"
  have save: "tb_save now b (r\<lparr>t_state := target, t_events := t_events r @ [e]\<rparr>) = (b', r')"
    using assms r by (auto simp: tb_move_def e_def split: sum.splits)
  have "record_step r (r\<lparr>t_state := target, t_events := t_events r @ [e]\<rparr>)"
    using legal by (simp add: record_step_def transition_event_def e_def)
  from tb_save_view [OF r this assms(2) save] save r legal assms(2) show ?thesis
    by (auto simp: tb_view_require tb_save_iff)
qed

lemma legal_task_sources:
  "legal_move task_transitions s TaskClaimed a \<Longrightarrow> s = TaskOpen"
  "legal_move task_transitions s TaskDone a \<Longrightarrow> s = TaskInProgress"
  "legal_move task_transitions s TaskFailed a \<Longrightarrow> s \<in> {TaskClaimed, TaskInProgress}"
  by (auto dest: legal_task_move_cases)

lemma tb_link_effect:
  assumes "tb_link_run now b k sid = Inr (b', r')" and "tb_inv b"
  shows "tb_inv b' \<and> (\<exists>r. tb_view b k = Some r \<and>
    (truthy_opt (t_session_id r) \<longrightarrow> t_session_id r = Some sid) \<and>
    tb_view b' k = Some r' \<and> t_state r' = t_state r \<and> t_session_id r' = Some sid)"
proof -
  from assms(1) obtain r where r: "tb_require b k = Inr r"
    by (auto simp: tb_link_run_def split: sum.splits)
  define e where "e = \<lparr>te_at = now, te_kind = ''run_linked'', te_actor = t_agent_id r,
    te_side = AgentSide, te_source = None, te_target = None, te_detail = sid\<rparr>"
  define q where "q = r\<lparr>t_session_id := Some sid, t_events := t_events r @ [e]\<rparr>"
  have save: "tb_save now b q = (b', r')" and old: "truthy_opt (t_session_id r) \<longrightarrow> t_session_id r = Some sid"
    using assms r
    by (auto simp: tb_link_run_def e_def q_def truthy_opt_def or_empty_def
        split: option.splits if_splits)
  have "record_step r q"
    using old by (auto simp: record_step_def other_event_def e_def q_def truthy_opt_def or_empty_def)
  from tb_save_view [OF r this assms(2) save] save r old assms(2) show ?thesis
    by (auto simp: tb_view_require tb_save_iff q_def)
qed

interpretation local: task_port_laws local_port tb_view tb_inv
proof (unfold_locales, goal_cases)
  case (1 b k r) then show ?case
    by (auto simp: local_port_def tb_get_def tb_view_def split: option.splits if_splits)
next
  case (2 now b k ag b' r')
  then have "tb_move now b k TaskClaimed AgentSide ag [] = Inr (b', r')"
    and "\<exists>r. tb_require b k = Inr r \<and> t_agent_id r = ag"
    by (auto simp: local_port_def tb_claim_def split: sum.splits if_splits)
  with 2 tb_move_effect show ?case by (fastforce simp: tb_view_require dest: legal_task_sources)
next
  case (3 now b k msg b' r' r)
  then have "tb_require b k = Inr r" by (simp add: tb_view_require)
  with 3 have "tb_move now b k TaskInProgress AgentSide (t_agent_id r) msg = Inr (b', r')"
    by (simp add: local_port_def tb_progress_def)
  with 3 tb_move_effect show ?case by fastforce
next
  case (4 now b k sid b' r')
  then show ?case using tb_link_effect by (simp add: local_port_def)
next
  case (5 now b k summary b' r')
  then obtain a where "tb_move now b k TaskDone AgentSide a summary = Inr (b', r')"
    by (auto simp: local_port_def tb_complete_def split: sum.splits)
  with 5 tb_move_effect show ?case by (fastforce dest: legal_task_sources)
next
  case (6 now b k reason b' r')
  then obtain a where "tb_move now b k TaskFailed AgentSide a reason = Inr (b', r')"
    by (auto simp: local_port_def tb_fail_def split: sum.splits)
  with 6 tb_move_effect show ?case by (fastforce dest: legal_task_sources)
qed

lemma tb_move_ok:
  "tb_require b k = Inr r \<Longrightarrow> legal_move task_transitions (t_state r) target side \<Longrightarrow>
   \<exists>b' r'. tb_move now b k target side actor detail = Inr (b', r')"
  by (simp add: tb_move_def check_transition_iff [symmetric] tb_save_def Let_def)

lemma legal_task_moves:
  "legal_move task_transitions TaskOpen TaskClaimed AgentSide"
  "legal_move task_transitions TaskClaimed TaskInProgress AgentSide"
  "legal_move task_transitions TaskInProgress TaskDone AgentSide"
  "legal_move task_transitions TaskInProgress TaskFailed AgentSide"
  by code_simp+

interpretation local: task_port_live local_port tb_view tb_inv
proof (unfold_locales, goal_cases)
  case (1 b k r) then show ?case
    by (auto simp: local_port_def tb_get_def tb_view_def split: option.splits if_splits)
next
  case (2 b k r now)
  then show ?case using tb_move_ok [of b k r] legal_task_moves(1)
    by (simp add: local_port_def tb_claim_def tb_view_require [symmetric])
next
  case (3 b k r now msg)
  then show ?case using tb_move_ok [of b k r] legal_task_moves(2)
    by (simp add: local_port_def tb_progress_def tb_view_require [symmetric])
next
  case (4 b k r now sid)
  then show ?case
    by (auto simp: local_port_def tb_link_run_def tb_view_require [symmetric] tb_save_def Let_def
        truthy_opt_def or_empty_def split: option.splits)
next
  case (5 b k r now msg)
  then show ?case using tb_move_ok [of b k r] legal_task_moves(3)
    by (simp add: local_port_def tb_complete_def tb_view_require [symmetric])
next
  case (6 b k r now msg)
  then show ?case using tb_move_ok [of b k r] legal_task_moves(4)
    by (simp add: local_port_def tb_fail_def tb_view_require [symmetric])
qed

section \<open>Properties\<close>

definition empty_backend :: "string \<Rightarrow> task_backend" where
  "empty_backend tenant = \<lparr>tb_tenant_id = tenant, tb_principal = ''agents'', tb_store = []\<rparr>"

lemma empty_backend_inv [simp]: "tb_inv (empty_backend t)"
  by (simp add: tb_inv_def empty_backend_def wf_docs_def store_get_def)

lemma apply_step: "fresh_op b op \<Longrightarrow> task_apply now b op = Inr y \<Longrightarrow> task_step b (fst y)"
  by (metis applied prod.collapse)

text \<open>C38: Nothing but the lifecycle moves a task: whatever operations run against a backend that
  started empty, each stored record's events replay, move by legal move, from open to the state
  the record is in.\<close>

theorem task_history_replays:
  assumes "task_step\<^sup>*\<^sup>* (empty_backend tenant) b" and "store_get (tb_store b) k = Some r"
  shows "t_id r = k \<and> replays task_transitions TaskOpen (moves_of (t_events r)) (t_state r)"
proof -
  have "tb_inv b" using task_steps_inv [OF assms(1)] by simp
  then have "t_id r = k \<and> history_ok r" using assms(2) unfolding tb_inv_def by blast
  then show ?thesis by (simp add: history_ok_def)
qed

text \<open>A small run: Ana opens a task for an agent, who claims it.\<close>

definition opened :: task_backend where
  "opened = fst (tb_open_task 0 ''k'' (empty_backend ''acme'') ''agent'' ''ana'' ''Plan'' ''now'' []
     NotRequired [] PrioNormal [])"

definition claimed :: "task_backend \<times> task_record" where
  "claimed = projr (tb_claim 1 opened ''k'' ''agent'')"

lemmas task_eval = opened_def claimed_def empty_backend_def tb_open_task_def tb_claim_def tb_move_def
  tb_require_def tb_get_def tb_save_def store_put_def store_get_def check_transition_def
  task_transitions_def Let_def

lemma claimed_Inr: "tb_claim 1 opened ''k'' ''agent'' = Inr claimed"
proof -
  have "\<not> isl (tb_claim 1 opened ''k'' ''agent'')" by code_simp
  then show ?thesis unfolding claimed_def by simp
qed

lemma claimed_reachable: "task_step\<^sup>*\<^sup>* (empty_backend ''acme'') (fst claimed)"
proof -
  have "task_step (empty_backend ''acme'') opened"
    unfolding opened_def
    by (rule apply_step [where op = "OpenTask ''k'' ''agent'' ''ana'' ''Plan'' ''now'' [] NotRequired [] PrioNormal []"
          and now = 0]) (simp_all add: fresh_op_def store_get_def empty_backend_def)
  moreover have "task_step opened (fst claimed)"
    by (rule apply_step [where op = "Claim ''k'' ''agent''" and now = 1])
      (simp_all add: fresh_op_def claimed_Inr)
  ultimately show ?thesis by (rule converse_rtranclp_into_rtranclp [OF _ r_into_rtranclp])
qed

theorem task_history_replays_witness:
  "\<exists>r. store_get (tb_store (fst claimed)) ''k'' = Some r \<and> t_state r = TaskClaimed \<and>
     replays task_transitions TaskOpen (moves_of (t_events r)) (t_state r)"
proof -
  have "store_get (tb_store (fst claimed)) ''k'' = Some (snd claimed)" "t_state (snd claimed) = TaskClaimed"
    by code_simp+
  with task_history_replays [OF claimed_reachable this(1)] show ?thesis by blast
qed

text \<open>What no operation can undo. Over any run of a backend, a record keeps its tenant, agent,
  assigner and priority, its event and comment histories only grow, the run it was linked to is
  never replaced, a cancelled task stays cancelled, and a record of another tenant is not touched
  at all.\<close>

theorem task_record_history_is_append_only:
  assumes "task_step\<^sup>*\<^sup>* b b'" and "tb_inv b" and "store_get (tb_store b) k = Some r"
  shows "\<exists>r'. store_get (tb_store b') k = Some r' \<and>
    t_tenant_id r' = t_tenant_id r \<and> t_agent_id r' = t_agent_id r \<and> t_assigner r' = t_assigner r \<and>
    t_priority r' = t_priority r \<and>
    prefix (t_events r) (t_events r') \<and> prefix (t_comments r) (t_comments r') \<and>
    (\<forall>sid. t_session_id r = Some sid \<longrightarrow> sid \<noteq> [] \<longrightarrow> t_session_id r' = Some sid) \<and>
    (t_state r = TaskCancelled \<longrightarrow> t_state r' = TaskCancelled) \<and>
    (t_tenant_id r \<noteq> tb_tenant_id b \<longrightarrow> r' = r)"
  using task_steps_evolve [OF assms] by (auto simp: evolves_def)

theorem task_record_history_is_append_only_witness:
  "\<exists>r r'. store_get (tb_store opened) ''k'' = Some r \<and> store_get (tb_store (fst claimed)) ''k'' = Some r' \<and>
     prefix (t_events r) (t_events r') \<and> t_events r' \<noteq> []"
proof -
  have step: "task_step opened (fst claimed)"
    by (rule apply_step [where op = "Claim ''k'' ''agent''" and now = 1])
      (simp_all add: fresh_op_def claimed_Inr)
  have inv: "tb_inv opened"
    unfolding opened_def tb_open_task_def by (rule tb_inv_save) (auto intro: open_task_history)
  have r': "store_get (tb_store (fst claimed)) ''k'' = Some (snd claimed)" "t_events (snd claimed) \<noteq> []"
    by code_simp+
  obtain r where r: "store_get (tb_store opened) ''k'' = Some r" by (simp add: task_eval)
  from task_record_history_is_append_only [OF r_into_rtranclp [where r = task_step, OF step] inv r] r' r
  show ?thesis by auto
qed

text \<open>C37: A run that \<open>start\<close> reports was authorized work, run once: the task was this tenant's,
  open and not linked to a run; a human paired with the agent and holding an assigning role had
  assigned it; the agent ran on the task's prompt in the assigner's name. The task is left failed
  when the run reported an error and done otherwise, and carries the run's session.\<close>

theorem start_runs_authorized_work_once:
  assumes "tb_inv b"
    and "task_start local_port tenant pairings run clk b k = (b', Inr tr)"
  shows "\<exists>r p h res. tb_view b k = Some r \<and> t_tenant_id r = tenant \<and> t_state r = TaskOpen \<and>
      or_empty (t_session_id r) = [] \<and>
      map_of pairings (t_agent_id r) = Some p \<and> h \<in> set (ap_humans p) \<and>
      py_lower (py_strip (t_assigner r)) \<in> set (identities h) \<and> directs h \<and>
      run (t_agent_id r) (task_prompt r) (t_assigner r) = Inr res \<and>
      tb_view b' k = Some (tr_task tr) \<and>
      t_state (tr_task tr) = (if or_empty (rr_error res) \<noteq> [] then TaskFailed else TaskDone) \<and>
      (or_empty (rr_session_id res) \<noteq> [] \<longrightarrow>
         t_session_id (tr_task tr) = Some (or_empty (rr_session_id res)))"
proof -
  from local.start_result [OF assms(2,1)] obtain r p res where
    "tb_view b k = Some r" "t_tenant_id r = tenant" "t_state r = TaskOpen" "\<not> truthy_opt (t_session_id r)"
    "map_of pairings (t_agent_id r) = Some p" and may: "may_assign p (t_assigner r)"
    and "run (t_agent_id r) (task_prompt r) (t_assigner r) = Inr res"
    "tr_session_id tr = or_empty (rr_session_id res)" "tr_error tr = rr_error res"
    "tb_view b' k = Some (tr_task tr)"
    "t_state (tr_task tr) = (if truthy_opt (tr_error tr) then TaskFailed else TaskDone)"
    "tr_session_id tr \<noteq> [] \<longrightarrow> t_session_id (tr_task tr) = Some (tr_session_id tr)"
    by blast
  moreover from may_assign_human [OF may] obtain h where "h \<in> set (ap_humans p)" "directs h"
    "py_lower (py_strip (t_assigner r)) \<in> set (identities h)" by blast
  ultimately show ?thesis by (auto simp: truthy_opt_def)
qed

definition ana_pairing :: agent_pairing where
  "ana_pairing = \<lparr>ap_agent_id = ''agent'', ap_humans =
     [\<lparr>hu_contact = Some ''Ana'', hu_email = None, hu_user_id = None, hu_name = None,
       hu_display_name = None, hu_roles = [Owner]\<rparr>]\<rparr>"

definition fine_run :: "string \<Rightarrow> string \<Rightarrow> string \<Rightarrow> string + run_result" where
  "fine_run agent prompt creator =
     Inr \<lparr>rr_session_id = Some ''sess'', rr_error = None, rr_output = Some ''ok'',
          rr_state = Some SessionCompleted\<rparr>"

definition started :: "task_backend \<times> (task_error + task_run)" where
  "started = task_start local_port ''acme'' [(''agent'', ana_pairing)] fine_run int opened ''k''"

theorem start_runs_authorized_work_once_witness:
  "\<exists>r. tb_view (fst started) ''k'' = Some r \<and> t_state r = TaskDone \<and> t_session_id r = Some ''sess''"
proof -
  have inv: "tb_inv opened"
    unfolding opened_def tb_open_task_def by (rule tb_inv_save) (auto intro: open_task_history)
  have "\<not> isl (snd started)" by code_simp
  then obtain tr where "task_start local_port ''acme'' [(''agent'', ana_pairing)] fine_run int opened ''k''
      = (fst started, Inr tr)"
    unfolding started_def by (metis prod.collapse sum.collapse(2))
  from start_runs_authorized_work_once [OF inv this] show ?thesis
    by (auto simp: fine_run_def or_empty_def)
qed

text \<open>Unauthorized work is refused before anything is spent on it: when no human who is paired
  with the task's agent under the assigner's name directs it, \<open>start\<close> raises
  \<open>AssignmentDenied\<close>, the backend is as it was, and the agent is not run.\<close>

theorem start_refuses_unauthorized_work:
  assumes "tb_get b k = Inr (Some r)" and "t_tenant_id r = tenant"
    and "\<And>p. map_of pairings (t_agent_id r) = Some p \<Longrightarrow> \<not> may_assign p (t_assigner r)"
  shows "\<exists>agent reason. \<forall>run clk. task_start local_port tenant pairings run clk b k =
    (b, Inl (AssignmentDenied agent (t_assigner r) reason))"
proof -
  have "\<exists>agent reason. start_checks local_port tenant pairings b k =
      Inl (AssignmentDenied agent (t_assigner r) reason)"
    using assms by (auto simp: start_checks_def local_port_def pairing_check_def may_assign_def
        split: option.splits)
  then show ?thesis using local.start_refused by blast
qed

theorem start_refuses_unauthorized_work_witness:
  "\<exists>agent reason. task_start local_port ''acme'' [] fine_run int opened ''k'' =
     (opened, Inl (AssignmentDenied agent ''ana'' reason))"
proof -
  define r where "r = the (projr (tb_get opened ''k''))"
  have get: "tb_get opened ''k'' = Inr (Some r)" and r: "t_tenant_id r = ''acme''" "t_assigner r = ''ana''"
    unfolding r_def by (simp_all add: task_eval)
  from start_refuses_unauthorized_work [OF get r(1), of "[]"] r(2) show ?thesis by auto
qed

text \<open>\<open>start\<close> finishes what it may start: an open task that passes the checks is claimed, run,
  linked and closed, whatever the runtime returns; only a runtime that raises stops it.\<close>

theorem start_of_authorized_work_completes:
  assumes "tb_inv b" and "start_checks local_port tenant pairings b k = Inr r" and "t_state r = TaskOpen"
    and "run (t_agent_id r) (task_prompt r) (t_assigner r) = Inr res"
  shows "\<exists>b' tr. task_start local_port tenant pairings run clk b k = (b', Inr tr) \<and>
    task_closed (t_state (tr_task tr))"
proof -
  from local.start_completes [where run = run, OF assms] obtain b' tr where
    run: "task_start local_port tenant pairings run clk b k = (b', Inr tr)" by blast
  from local.start_result [OF this assms(1)] have "t_state (tr_task tr) \<in> {TaskFailed, TaskDone}"
    by (auto split: if_splits)
  with run show ?thesis by (auto simp: task_closed_def)
qed

theorem start_of_authorized_work_completes_witness:
  "\<exists>b' tr. task_start local_port ''acme'' [(''agent'', ana_pairing)] fine_run int opened ''k'' = (b', Inr tr) \<and>
     task_closed (t_state (tr_task tr))"
proof -
  define r where "r = projr (start_checks local_port ''acme'' [(''agent'', ana_pairing)] opened ''k'')"
  have inv: "tb_inv opened"
    unfolding opened_def tb_open_task_def by (rule tb_inv_save) (auto intro: open_task_history)
  have "\<not> isl (start_checks local_port ''acme'' [(''agent'', ana_pairing)] opened ''k'')" by code_simp
  then have chk: "start_checks local_port ''acme'' [(''agent'', ana_pairing)] opened ''k'' = Inr r"
    unfolding r_def by simp
  have "t_state r = TaskOpen" unfolding r_def by code_simp
  from start_of_authorized_work_completes [where run = fine_run, OF inv chk this fine_run_def] show ?thesis .
qed

text \<open>A backend is bound exactly when agents act through a service principal it names, it can
  assign work to a non-human, the binding names a tenant, and the backend serves that tenant or
  any.\<close>

theorem bind_backend_exactly:
  "bind_backend capabilities port tenant =
     Inr \<lparr>bb_port = port, bb_capabilities = capabilities port, bb_tenant_id = tenant\<rparr> \<longleftrightarrow>
   bc_principal_kind (capabilities port) = PrincipalService \<and>
   bc_agent_principal_id (capabilities port) \<noteq> [] \<and>
   bc_supports_non_human_assignee (capabilities port) \<and> tenant \<noteq> [] \<and>
   bc_tenant_id (capabilities port) \<in> {[], tenant}"
  by (auto simp: bind_backend_def Let_def split: if_splits)

text \<open>Divergence detection is exact: a linked task is reported as having no divergence just when
  its run exists and the run is over exactly when the task is closed.\<close>

theorem no_divergence_iff_task_and_run_agree:
  "detect r session = None \<longleftrightarrow>
     or_empty (t_session_id r) = [] \<or> (\<exists>st. session = Some st \<and> (task_closed (t_state r) \<longleftrightarrow> finished_session st))"
  by (auto simp: detect_def or_empty_def session_live_or_finished task_open_or_closed
      split: option.splits if_splits)

text \<open>\<open>assigned\<close> applies the limit before it filters by state, so an agent's inbox can miss its
  open task when enough closed ones were updated later.\<close>

lemma assigned_limit_hides_open_work:
  "\<exists>b r. store_get (tb_store b) ''k'' = Some r \<and> t_state r = TaskOpen \<and> t_tenant_id r = tb_tenant_id b \<and>
     t_agent_id r = ''agent'' \<and> tb_assigned b ''agent'' (Some TaskOpen) 1 = []"
proof -
  define b where "b = fst (projr (tb_cancel 20000000 (fst (tb_open_task 10000000 ''j'' opened ''agent'' ''ana'' ''B'' []
     [] NotRequired [] PrioNormal [])) ''j'' ''ana'' ''x''))"
  define r where "r = the (store_get (tb_store b) ''k'')"
  have "store_get (tb_store b) ''k'' \<noteq> None" unfolding b_def by code_simp
  moreover have "t_state r = TaskOpen \<and> t_tenant_id r = tb_tenant_id b \<and> t_agent_id r = ''agent''"
    unfolding r_def b_def by code_simp
  moreover have "tb_assigned b ''agent'' (Some TaskOpen) 1 = []" unfolding b_def by code_simp
  ultimately show ?thesis by (intro exI [of _ b] exI [of _ r]) (auto simp: r_def)
qed

end
