(* ===== verification/Deployments.thy ===== *)
theory Deployments
  imports Lifecycle DocStore
begin

text \<open>
  The deployment lifecycle of the fabric (\<open>fabric/deployments.py\<close>): the states, the operator
  roles, the transition table with who may make each move, and the service that creates
  deployments and moves them over the document store.
\<close>

section \<open>States, roles and the table\<close>

datatype deployment_state =
    DepRequested | DepGenerated | DepDeployed | DepRunning | DepStopped | DepQuarantined
  | DepRetired

datatype operator_role = RoleAutomation | RoleOperator | RoleAdmin

fun deployment_state_value :: "deployment_state \<Rightarrow> string" where
  "deployment_state_value DepRequested = ''requested''"
| "deployment_state_value DepGenerated = ''generated''"
| "deployment_state_value DepDeployed = ''deployed''"
| "deployment_state_value DepRunning = ''running''"
| "deployment_state_value DepStopped = ''stopped''"
| "deployment_state_value DepQuarantined = ''quarantined''"
| "deployment_state_value DepRetired = ''retired''"

fun operator_role_value :: "operator_role \<Rightarrow> string" where
  "operator_role_value RoleAutomation = ''fabric_automation''"
| "operator_role_value RoleOperator = ''fabric_operator''"
| "operator_role_value RoleAdmin = ''fabric_admin''"

definition deployment_transitions :: "(deployment_state, operator_role) move_table" where
  "deployment_transitions =
    [((DepRequested, DepGenerated), [RoleAutomation, RoleOperator]),
     ((DepRequested, DepRetired), [RoleOperator, RoleAdmin]),
     ((DepGenerated, DepDeployed), [RoleOperator, RoleAdmin]),
     ((DepGenerated, DepRetired), [RoleOperator, RoleAdmin]),
     ((DepDeployed, DepRunning), [RoleAutomation, RoleOperator]),
     ((DepDeployed, DepStopped), [RoleOperator, RoleAdmin]),
     ((DepDeployed, DepQuarantined), [RoleAutomation, RoleOperator, RoleAdmin]),
     ((DepRunning, DepStopped), [RoleOperator, RoleAdmin]),
     ((DepRunning, DepQuarantined), [RoleAutomation, RoleOperator, RoleAdmin]),
     ((DepStopped, DepRunning), [RoleOperator, RoleAdmin]),
     ((DepStopped, DepQuarantined), [RoleAutomation, RoleOperator, RoleAdmin]),
     ((DepStopped, DepRetired), [RoleOperator, RoleAdmin]),
     ((DepQuarantined, DepStopped), [RoleAdmin]),
     ((DepQuarantined, DepRetired), [RoleAdmin])]"

definition deployment_terminal :: "deployment_state \<Rightarrow> bool" where
  "deployment_terminal s \<longleftrightarrow> s \<in> {DepRetired}"

definition allowed_transitions ::
  "deployment_state \<Rightarrow> (deployment_state \<times> operator_role list) list" where
  "allowed_transitions state =
     map (\<lambda>((s, t), roles). (t, roles)) (filter (\<lambda>((s, t), roles). s = state) deployment_transitions)"

interpretation deployment_machine: lifecycle deployment_transitions deployment_terminal
proof (unfold_locales, goal_cases)
  case (1 s t rs) then show ?case
    by (cases s; cases t) (simp_all add: deployment_transitions_def deployment_terminal_def)
next
  case (2 s) show ?case by (cases s) (simp_all add: deployment_transitions_def)
next
  case (3 s t rs) then show ?case by (cases s; cases t) (auto simp: deployment_transitions_def)
qed

section \<open>Deployments and the service\<close>

record deployment_event =
  tv_at :: instant
  tv_source :: deployment_state
  tv_target :: deployment_state
  tv_actor :: string
  tv_role :: operator_role
  tv_reason :: string

record deployment =
  d_id :: string
  d_tenant_id :: string
  d_name :: string
  d_system_id :: string
  d_revision :: string
  d_target :: string
  d_state :: deployment_state
  d_history :: "deployment_event list"
  d_created_at :: instant
  d_updated_at :: instant

datatype deployment_error =
    NoSuchDeployment string
  | IllegalTransition deployment_state deployment_state
  | TransitionDenied deployment_state deployment_state operator_role "operator_role list"

type_synonym deployment_service = "deployment docs"

definition dep_save :: "instant \<Rightarrow> deployment \<Rightarrow> deployment_service \<Rightarrow> deployment_service" where
  "dep_save now d s = store_put now (d_id d) d (Some (d_tenant_id d)) (Some (d_name d)) s"

definition dep_request ::
  "instant \<Rightarrow> string \<Rightarrow> string \<Rightarrow> string \<Rightarrow> string \<Rightarrow> string \<Rightarrow> string \<Rightarrow> deployment_service \<Rightarrow>
     deployment_service \<times> deployment" where
  "dep_request now fresh tenant_id name system_id revision target s =
     (let d = \<lparr>d_id = fresh, d_tenant_id = tenant_id, d_name = name, d_system_id = system_id,
               d_revision = revision, d_target = target, d_state = DepRequested, d_history = [],
               d_created_at = now, d_updated_at = now\<rparr>
      in (dep_save now d s, d))"

definition dep_get :: "deployment_service \<Rightarrow> string \<Rightarrow> deployment option" where
  "dep_get s k = store_get s k"

definition dep_list :: "deployment_service \<Rightarrow> string option \<Rightarrow> deployment list" where
  "dep_list s tenant_id = store_list tenant_id 500 0 s"

definition dep_transition ::
  "instant \<Rightarrow> deployment_service \<Rightarrow> string \<Rightarrow> deployment_state \<Rightarrow> string \<Rightarrow> operator_role \<Rightarrow> string \<Rightarrow>
     deployment_error + deployment_service \<times> deployment" where
  "dep_transition now s deployment_id target actor role reason =
     (case dep_get s deployment_id of
        None \<Rightarrow> Inl (NoSuchDeployment deployment_id)
      | Some d \<Rightarrow>
          (case map_of deployment_transitions (d_state d, target) of
             None \<Rightarrow> Inl (IllegalTransition (d_state d) target)
           | Some allowed \<Rightarrow>
               if role \<notin> set allowed
               then Inl (TransitionDenied (d_state d) target role allowed)
               else let d' = d\<lparr>d_history := d_history d @
                          [\<lparr>tv_at = now, tv_source = d_state d, tv_target = target,
                            tv_actor = actor, tv_role = role, tv_reason = reason\<rparr>],
                        d_state := target, d_updated_at := now\<rparr>
                    in Inr (dep_save now d' s, d')))"

definition dep_history :: "deployment_service \<Rightarrow> string \<Rightarrow> deployment_event list" where
  "dep_history s k = (case dep_get s k of None \<Rightarrow> [] | Some d \<Rightarrow> d_history d)"

text \<open>A run of the service: requests under fresh ids, and transitions; a refused transition
  changes nothing.\<close>

inductive dep_step :: "deployment_service \<Rightarrow> deployment_service \<Rightarrow> bool" where
  requested: "dep_get s fresh = None \<Longrightarrow>
     dep_step s (fst (dep_request now fresh tenant name system revision target s))"
| transitioned: "dep_transition now s k target actor role reason = Inr (s', d) \<Longrightarrow> dep_step s s'"
| refused: "dep_transition now s k target actor role reason = Inl e \<Longrightarrow> dep_step s s"

inductive_cases dep_stepE: "dep_step s s'"

section \<open>Every deployment's history replays to its state\<close>

definition dep_moves :: "deployment_event list \<Rightarrow> (deployment_state, operator_role) move list" where
  "dep_moves es = map (\<lambda>e. (tv_source e, tv_target e, tv_role e)) es"

definition dep_ok :: "deployment \<Rightarrow> bool" where
  "dep_ok d \<longleftrightarrow> replays deployment_transitions DepRequested (dep_moves (d_history d)) (d_state d)"

definition dep_inv :: "deployment_service \<Rightarrow> bool" where
  "dep_inv s \<longleftrightarrow> wf_docs s \<and> (\<forall>k d. dep_get s k = Some d \<longrightarrow> d_id d = k \<and> dep_ok d)"

lemma dep_inv_save: "dep_inv s \<Longrightarrow> dep_ok d \<Longrightarrow> dep_inv (dep_save now d s)"
  by (auto simp: dep_inv_def dep_save_def dep_get_def store_get_put wf_docs_put)

lemma dep_transition_Inr:
  "dep_transition now s k target actor role reason = Inr (s', d') \<longleftrightarrow>
     (\<exists>d. dep_get s k = Some d \<and> legal_move deployment_transitions (d_state d) target role \<and>
        d' = d\<lparr>d_history := d_history d @
               [\<lparr>tv_at = now, tv_source = d_state d, tv_target = target, tv_actor = actor,
                 tv_role = role, tv_reason = reason\<rparr>],
               d_state := target, d_updated_at := now\<rparr> \<and>
        s' = dep_save now d' s)"
  by (auto simp: dep_transition_def legal_move_def Let_def split: option.splits)

lemma dep_step_inv [inv_intros]: "dep_step s s' \<Longrightarrow> dep_inv s \<Longrightarrow> dep_inv s'"
proof (induction rule: dep_step.induct)
  case (requested s fresh now tenant name system revision target)
  then show ?case by (simp add: dep_request_def Let_def dep_inv_save dep_ok_def dep_moves_def)
next
  case (transitioned now s k target actor role reason s' d')
  then obtain d where d: "dep_get s k = Some d" "dep_ok d"
    and legal: "legal_move deployment_transitions (d_state d) target role"
    and d': "d' = d\<lparr>d_history := d_history d @
               [\<lparr>tv_at = now, tv_source = d_state d, tv_target = target, tv_actor = actor,
                 tv_role = role, tv_reason = reason\<rparr>],
               d_state := target, d_updated_at := now\<rparr>" and s': "s' = dep_save now d' s"
    unfolding dep_transition_Inr dep_inv_def by blast
  then have "dep_ok d'" by (simp add: dep_ok_def dep_moves_def replays_append)
  with transitioned.prems s' show ?case by (simp add: dep_inv_save)
qed

lemma dep_steps_inv: "dep_step\<^sup>*\<^sup>* s s' \<Longrightarrow> dep_inv s \<Longrightarrow> dep_inv s'"
  by (induction rule: rtranclp_induct) (auto intro: inv_intros)

lemma dep_inv_empty: "dep_inv []"
  by (simp add: dep_inv_def wf_docs_def dep_get_def store_get_def)

section \<open>What a history can hold\<close>

lemma legal_dep_target:
  "legal_move deployment_transitions s DepRunning r \<Longrightarrow> s = DepDeployed \<or> s = DepStopped"
  "legal_move deployment_transitions s DepDeployed r \<Longrightarrow> s = DepGenerated"
  "legal_move deployment_transitions s DepGenerated r \<Longrightarrow> s = DepRequested"
  "legal_move deployment_transitions s DepStopped r \<Longrightarrow>
     s = DepDeployed \<or> s = DepRunning \<or> s = DepQuarantined"
  "legal_move deployment_transitions s DepQuarantined r \<Longrightarrow>
     s = DepDeployed \<or> s = DepRunning \<or> s = DepStopped"
  by (cases s; simp add: legal_move_def deployment_transitions_def)+

lemma legal_dep_quarantine_exit:
  "legal_move deployment_transitions DepQuarantined t r \<Longrightarrow>
     r = RoleAdmin \<and> (t = DepStopped \<or> t = DepRetired)"
  by (cases t) (simp_all add: legal_move_def deployment_transitions_def)

text \<open>A deployment that is past \<open>generated\<close> was generated and was deployed by a person.\<close>

definition was_deployed :: "(deployment_state, operator_role) move list \<Rightarrow> bool" where
  "was_deployed h \<longleftrightarrow> (\<exists>r. r \<noteq> RoleAutomation \<and> (DepGenerated, DepDeployed, r) \<in> set h)"

lemma legal_dep_deploy: "legal_move deployment_transitions DepGenerated DepDeployed r \<Longrightarrow> r \<noteq> RoleAutomation"
  by (auto simp: legal_move_def deployment_transitions_def)

lemma replay_deployed:
  "replays deployment_transitions DepRequested h t \<Longrightarrow>
     t \<in> {DepDeployed, DepRunning, DepStopped, DepQuarantined} \<Longrightarrow> was_deployed h"
proof (induction h arbitrary: t rule: rev_induct)
  case (snoc m h)
  obtain a b r where m: "m = (a, b, r)" by (cases m)
  with snoc.prems have h: "replays deployment_transitions DepRequested h a"
    and l: "legal_move deployment_transitions a b r" and b: "b = t" by (auto simp: replays_snoc)
  show ?case
  proof (cases "t = DepDeployed")
    case True
    with l b have "a = DepGenerated" "r \<noteq> RoleAutomation"
      using legal_dep_target(2) legal_dep_deploy by blast+
    with True m b show ?thesis by (auto simp: was_deployed_def)
  next
    case False
    with l b snoc.prems(2) have "a \<in> {DepDeployed, DepRunning, DepStopped, DepQuarantined}"
      by (auto dest: legal_dep_target)
    with h have "was_deployed h" by (rule snoc.IH)
    then show ?thesis by (auto simp: was_deployed_def)
  qed
qed simp

lemma replay_leaves_quarantine:
  "replays deployment_transitions DepQuarantined h t \<Longrightarrow> t \<noteq> DepQuarantined \<Longrightarrow>
     \<exists>u. (DepQuarantined, u, RoleAdmin) \<in> set h"
proof (cases h)
  case (Cons m h')
  assume "replays deployment_transitions DepQuarantined h t"
  with Cons show ?thesis by (cases m) (auto dest: legal_dep_quarantine_exit)
qed simp

text \<open>The transitions of one deployment in a row, those that are refused left out.\<close>

fun dep_run :: "deployment_service \<Rightarrow> string \<Rightarrow> (deployment_state \<times> operator_role) list \<Rightarrow> deployment_service" where
  "dep_run s k [] = s"
| "dep_run s k ((t, role) # ms) =
     (case dep_transition 7 s k t ''ana'' role [] of
        Inl e \<Rightarrow> dep_run s k ms | Inr (s', d) \<Rightarrow> dep_run s' k ms)"

lemma dep_run_steps: "dep_step\<^sup>*\<^sup>* s0 s \<Longrightarrow> dep_step\<^sup>*\<^sup>* s0 (dep_run s k ms)"
proof (induction ms arbitrary: s)
  case (Cons m ms)
  obtain t role where m: "m = (t, role)" by (cases m)
  show ?case
  proof (cases "dep_transition 7 s k t ''ana'' role []")
    case (Inl e)
    with Cons m show ?thesis by simp
  next
    case (Inr r)
    obtain s' d where r: "r = (s', d)" by (cases r)
    with Inr have "dep_step s s'" by (auto intro: dep_step.transitioned)
    with Cons.prems have "dep_step\<^sup>*\<^sup>* s0 s'" by (rule rtranclp.rtrancl_into_rtrancl)
    with Cons.IH Inr m r show ?thesis by simp
  qed
qed simp

section \<open>Properties\<close>

text \<open>
  In every run of the deployment service from an empty store, the recorded history of every
  deployment replays along the transition table from \<open>requested\<close> to the state the deployment is
  in, each move made by a role the table lists for it; a retired deployment is in no later move.
\<close>

theorem deployment_history_replays:
  assumes "dep_step\<^sup>*\<^sup>* [] s" and "dep_get s k = Some d"
  shows "replays deployment_transitions DepRequested (dep_moves (d_history d)) (d_state d) \<and>
    (\<forall>e \<in> set (d_history d). tv_source e \<noteq> DepRetired)"
proof -
  have inv: "dep_inv s" using assms(1) dep_inv_empty by (rule dep_steps_inv)
  with assms(2) have r: "replays deployment_transitions DepRequested (dep_moves (d_history d)) (d_state d)"
    by (simp add: dep_inv_def dep_ok_def)
  have "tv_source e \<noteq> DepRetired" if "e \<in> set (d_history d)" for e
  proof -
    from that have "(tv_source e, tv_target e, tv_role e) \<in> set (dep_moves (d_history d))"
      by (auto simp: dep_moves_def)
    with r have "legal_move deployment_transitions (tv_source e) (tv_target e) (tv_role e)"
      by (rule replays_legal)
    then show ?thesis
      by (auto dest: deployment_machine.legal_not_terminal simp: deployment_terminal_def)
  qed
  with r show ?thesis by blast
qed

definition example_service :: deployment_service where
  "example_service =
     fst (dep_request 5 ''dep_1'' ''tnt'' ''n'' ''sys'' ''rev'' ''local'' [])"

theorem deployment_history_replays_witness:
  "\<exists>d. dep_get example_service ''dep_1'' = Some d \<and>
    replays deployment_transitions DepRequested (dep_moves (d_history d)) (d_state d)"
proof -
  have "dep_step [] example_service"
    unfolding example_service_def by (rule dep_step.requested) (simp add: dep_get_def store_get_def)
  then have steps: "dep_step\<^sup>*\<^sup>* [] example_service" by blast
  obtain d where d: "dep_get example_service ''dep_1'' = Some d"
    by (simp add: example_service_def dep_request_def Let_def dep_save_def dep_get_def store_get_put)
  from deployment_history_replays [OF steps d] d show ?thesis by blast
qed

text \<open>
  A deployment is running, stopped or quarantined only after a person moved it from
  \<open>generated\<close> to \<open>deployed\<close>: in every run the automation role alone never brings one up.
\<close>

theorem running_was_deployed_by_a_person:
  assumes "dep_step\<^sup>*\<^sup>* [] s" and "dep_get s k = Some d"
    and "d_state d \<in> {DepDeployed, DepRunning, DepStopped, DepQuarantined}"
  shows "\<exists>e \<in> set (d_history d). tv_source e = DepGenerated \<and> tv_target e = DepDeployed \<and>
    tv_role e \<in> {RoleOperator, RoleAdmin}"
proof -
  have "dep_inv s" using assms(1) dep_inv_empty by (rule dep_steps_inv)
  with assms(2) have "replays deployment_transitions DepRequested (dep_moves (d_history d)) (d_state d)"
    by (simp add: dep_inv_def dep_ok_def)
  then have "was_deployed (dep_moves (d_history d))" using assms(3) by (rule replay_deployed)
  then obtain e where "e \<in> set (d_history d)" "tv_source e = DepGenerated"
    "tv_target e = DepDeployed" "tv_role e \<noteq> RoleAutomation"
    by (auto simp: was_deployed_def dep_moves_def)
  then show ?thesis by (cases "tv_role e") auto
qed


definition example_running :: deployment_service where
  "example_running = dep_run example_service ''dep_1''
     [(DepGenerated, RoleAutomation), (DepDeployed, RoleAutomation), (DepDeployed, RoleOperator),
      (DepRunning, RoleAutomation)]"

lemma example_running_reached: "dep_step\<^sup>*\<^sup>* [] example_running"
proof -
  have "dep_step [] example_service"
    unfolding example_service_def by (rule dep_step.requested) (simp add: dep_get_def store_get_def)
  then show ?thesis unfolding example_running_def by (intro dep_run_steps) blast
qed

lemma example_running_state: "map_option d_state (dep_get example_running ''dep_1'') = Some DepRunning"
  by code_simp

theorem running_was_deployed_by_a_person_witness:
  "\<exists>d. dep_get example_running ''dep_1'' = Some d \<and> d_state d = DepRunning \<and>
    (\<exists>e \<in> set (d_history d). tv_source e = DepGenerated \<and> tv_target e = DepDeployed \<and>
      tv_role e \<in> {RoleOperator, RoleAdmin})"
proof -
  from example_running_state obtain d
    where d: "dep_get example_running ''dep_1'' = Some d" "d_state d = DepRunning" by auto
  from d(2) have st: "d_state d \<in> {DepDeployed, DepRunning, DepStopped, DepQuarantined}" by simp
  from running_was_deployed_by_a_person [OF example_running_reached d(1) st] d show ?thesis by blast
qed

text \<open>
  A deployment that was quarantined is out of quarantine only if the history after the
  quarantine holds a move out of it made by an admin, and that move leads to \<open>stopped\<close> or to
  \<open>retired\<close>, never straight back to \<open>running\<close>.
\<close>

theorem quarantine_lifted_by_admin:
  assumes "dep_step\<^sup>*\<^sup>* [] s" and "dep_get s k = Some d"
    and "d_history d = before @ e # after" and "tv_target e = DepQuarantined"
    and "d_state d \<noteq> DepQuarantined"
  shows "\<exists>x \<in> set after. tv_source x = DepQuarantined \<and> tv_role x = RoleAdmin \<and>
    tv_target x \<in> {DepStopped, DepRetired}"
proof -
  have "dep_inv s" using assms(1) dep_inv_empty by (rule dep_steps_inv)
  with assms(2) have "replays deployment_transitions DepRequested (dep_moves (d_history d)) (d_state d)"
    by (simp add: dep_inv_def dep_ok_def)
  with assms(3,4) have r: "replays deployment_transitions DepQuarantined (dep_moves after) (d_state d)"
    by (auto simp: dep_moves_def replays_append)
  from replay_leaves_quarantine [OF this assms(5)] obtain x where
    x: "x \<in> set after" "tv_source x = DepQuarantined" "tv_role x = RoleAdmin"
    by (auto simp: dep_moves_def)
  then have "(DepQuarantined, tv_target x, RoleAdmin) \<in> set (dep_moves after)"
    by (force simp: dep_moves_def)
  with r have "legal_move deployment_transitions DepQuarantined (tv_target x) RoleAdmin"
    by (rule replays_legal)
  then have "tv_target x \<in> {DepStopped, DepRetired}" by (auto dest: legal_dep_quarantine_exit)
  with x show ?thesis by blast
qed

definition example_lifted :: deployment_service where
  "example_lifted = dep_run example_running ''dep_1''
     [(DepQuarantined, RoleAutomation), (DepRunning, RoleAdmin), (DepStopped, RoleOperator),
      (DepStopped, RoleAdmin)]"

lemma example_lifted_state:
  "map_option (\<lambda>d. (d_state d, length (d_history d), tv_target (d_history d ! 3)))
     (dep_get example_lifted ''dep_1'') = Some (DepStopped, 5, DepQuarantined)"
  by code_simp

theorem quarantine_lifted_by_admin_witness:
  "\<exists>d x. dep_get example_lifted ''dep_1'' = Some d \<and> x \<in> set (d_history d) \<and>
    tv_source x = DepQuarantined \<and> tv_role x = RoleAdmin \<and> tv_target x \<in> {DepStopped, DepRetired}"
proof -
  have steps: "dep_step\<^sup>*\<^sup>* [] example_lifted"
    unfolding example_lifted_def by (intro dep_run_steps example_running_reached)
  from example_lifted_state obtain d where d: "dep_get example_lifted ''dep_1'' = Some d"
    and st: "d_state d = DepStopped" and len: "length (d_history d) = 5"
    and q: "tv_target (d_history d ! 3) = DepQuarantined" by auto
  have split: "d_history d = take 3 (d_history d) @ (d_history d ! 3) # drop 4 (d_history d)"
    using id_take_nth_drop [of 3 "d_history d"] len by simp
  from st have out: "d_state d \<noteq> DepQuarantined" by simp
  from quarantine_lifted_by_admin [OF steps d split q out] d show ?thesis
    by (auto dest: in_set_dropD)
qed

end
