(* ===== verification/Tenants.thy ===== *)
theory Tenants
  imports Deployments
begin

text \<open>
  Tenants and their isolation domains (\<open>fabric/tenants.py\<close>). The namespace prefix is the
  load-bearing part: \<open>normalize_prefix\<close> and \<open>validate_prefix\<close> are modelled character by
  character, Python's \<open>$\<close> included, which also matches before a final line feed. The registry
  works over the document store; \<open>list\<close> reads at most 10000 rows, and the collision check of
  \<open>register\<close> is against what \<open>list\<close> returns, so the runs below carry that bound as a guard.
\<close>

section \<open>Status and its table\<close>

datatype tenant_status = TenPending | TenActive | TenSuspended | TenRetired

definition tenant_transitions :: "(tenant_status, operator_role) move_table" where
  "tenant_transitions =
    [((TenPending, TenActive), [RoleOperator, RoleAdmin]),
     ((TenPending, TenSuspended), [RoleOperator, RoleAdmin]),
     ((TenPending, TenRetired), [RoleAdmin]),
     ((TenActive, TenSuspended), [RoleOperator, RoleAdmin]),
     ((TenActive, TenRetired), [RoleAdmin]),
     ((TenSuspended, TenActive), [RoleOperator, RoleAdmin]),
     ((TenSuspended, TenRetired), [RoleAdmin])]"

definition tenant_terminal :: "tenant_status \<Rightarrow> bool" where
  "tenant_terminal s \<longleftrightarrow> s \<in> {TenRetired}"

interpretation tenant_machine: lifecycle tenant_transitions tenant_terminal
proof (unfold_locales, goal_cases)
  case (1 s t rs) then show ?case
    by (cases s; cases t) (simp_all add: tenant_transitions_def tenant_terminal_def)
next
  case (2 s) show ?case by (cases s) (simp_all add: tenant_transitions_def)
next
  case (3 s t rs) then show ?case by (cases s; cases t) (auto simp: tenant_transitions_def)
qed

definition allowed_tenant_transitions :: "tenant_status \<Rightarrow> (tenant_status \<times> operator_role list) list" where
  "allowed_tenant_transitions status =
     map (\<lambda>((s, t), roles). (t, roles)) (filter (\<lambda>((s, t), roles). s = status) tenant_transitions)"

definition live_deployment_state :: "deployment_state \<Rightarrow> bool" where
  "live_deployment_state s \<longleftrightarrow>
     s \<in> {DepRequested, DepGenerated, DepDeployed, DepRunning, DepQuarantined}"

definition live_deployments :: "deployment list \<Rightarrow> string list" where
  "live_deployments ds = map d_id (filter (\<lambda>d. live_deployment_state (d_state d)) ds)"

section \<open>Namespace prefixes\<close>

definition is_lower_letter :: "char \<Rightarrow> bool" where
  "is_lower_letter c = (let n = (of_char c :: nat) in 97 \<le> n \<and> n \<le> 122)"

definition is_lower_alnum :: "char \<Rightarrow> bool" where
  "is_lower_alnum c \<longleftrightarrow> is_lower_letter c \<or> is_digit c"

definition is_prefix_char :: "char \<Rightarrow> bool" where
  "is_prefix_char c \<longleftrightarrow> is_lower_alnum c \<or> c = CHR ''-''"

text \<open>\<open>[a-z][a-z0-9-]{1,18}[a-z0-9]\<close> over a whole string.\<close>

definition prefix_shape :: "string \<Rightarrow> bool" where
  "prefix_shape s \<longleftrightarrow> 3 \<le> length s \<and> length s \<le> 20 \<and> is_lower_letter (hd s) \<and>
     list_all is_prefix_char (butlast (tl s)) \<and> is_lower_alnum (last s)"

text \<open>\<open>PREFIX_PATTERN.match\<close>: \<open>$\<close> matches at the end and before a final line feed.\<close>

definition prefix_pattern_match :: "string \<Rightarrow> bool" where
  "prefix_pattern_match s \<longleftrightarrow>
     prefix_shape s \<or> (s \<noteq> [] \<and> last s = CHR 0x0A \<and> prefix_shape (butlast s))"

definition reserved_prefixes :: "string list" where
  "reserved_prefixes =
    [''orgagents'', ''fabric'', ''designer'', ''platform'', ''system'', ''default'',
     ''control'', ''egress'', ''isolated'', ''admin'', ''root'', ''local'', ''terraform'']"

text \<open>\<open>re.sub("[^a-z0-9-]+", "-", s)\<close>: every maximal run of other characters is one hyphen.\<close>

function squash :: "(char \<Rightarrow> bool) \<Rightarrow> string \<Rightarrow> string" where
  "squash ok [] = []"
| "squash ok (c # cs) =
     (if ok c then c # squash ok cs
      else CHR ''-'' # squash ok (dropWhile (\<lambda>x. \<not> ok x) cs))"
  by pat_completeness auto
termination
  by (relation "measure (\<lambda>(ok, s). length s)") (auto simp: le_imp_less_Suc length_dropWhile_le)

definition normalize_prefix :: "string \<Rightarrow> string" where
  "normalize_prefix v =
     strip_by (\<lambda>c. c = CHR ''-'') (squash is_prefix_char (py_lower (py_strip v)))"

definition collides :: "string \<Rightarrow> string \<Rightarrow> bool" where
  "collides p other \<longleftrightarrow>
     p = other \<or> prefix (other @ ''-'') p \<or> prefix (p @ ''-'') other"

datatype tenant_error =
    PrefixUnsafe string
  | PrefixDoubleHyphen string
  | PrefixReserved string
  | PrefixCollides string string
  | TenantExists string
  | NoSuchTenant string
  | TenantIllegalTransition tenant_status tenant_status
  | TenantTransitionDenied tenant_status tenant_status operator_role "operator_role list"
  | TenantRetirementBlocked string "string list"

text \<open>\<open>taken\<close> is a set in the source; only which colliding name is reported depends on its
  order.\<close>

definition validate_prefix :: "string \<Rightarrow> string list \<Rightarrow> tenant_error + string" where
  "validate_prefix p taken =
     (if \<not> prefix_pattern_match p then Inl (PrefixUnsafe p)
      else if sublist ''--'' p then Inl (PrefixDoubleHyphen p)
      else if p \<in> set reserved_prefixes then Inl (PrefixReserved p)
      else (case List.find (\<lambda>other. collides p other) taken of
              Some other \<Rightarrow> Inl (PrefixCollides p other)
            | None \<Rightarrow> Inr p))"

section \<open>The tenant\<close>

record isolation_domain =
  iso_id :: string
  iso_network :: string
  iso_identity_realm :: string
  iso_secret_scope :: string
  iso_data_scope :: string
  iso_cloud_boundary :: string

definition derive_domain :: "string \<Rightarrow> isolation_domain" where
  "derive_domain p =
     \<lparr>iso_id = p @ ''-domain'', iso_network = p @ ''-net'', iso_identity_realm = p @ ''-identities'',
      iso_secret_scope = p @ ''-secrets'', iso_data_scope = p @ ''-data'', iso_cloud_boundary = []\<rparr>"

record tenant_event =
  tne_at :: instant
  tne_source :: tenant_status
  tne_target :: tenant_status
  tne_actor :: string
  tne_role :: operator_role
  tne_reason :: string

record tenant =
  tn_id :: string
  tn_name :: string
  tn_namespace_prefix :: string
  tn_isolation_domain :: isolation_domain
  tn_entitlements :: "string list"
  tn_status :: tenant_status
  tn_history :: "tenant_event list"
  tn_created_at :: instant

definition tenant_owns :: "tenant \<Rightarrow> string \<Rightarrow> bool" where
  "tenant_owns t x \<longleftrightarrow> prefix (tn_namespace_prefix t @ ''-'') x"

definition tenant_qualify :: "tenant \<Rightarrow> string \<Rightarrow> string" where
  "tenant_qualify t x = (if tenant_owns t x then x else tn_namespace_prefix t @ ''-'' @ x)"

definition entitled_to :: "tenant \<Rightarrow> string \<Rightarrow> bool" where
  "entitled_to t e \<longleftrightarrow> e \<in> set (tn_entitlements t)"

definition may_deploy :: "tenant \<Rightarrow> bool" where
  "may_deploy t \<longleftrightarrow> tn_status t = TenActive"

record tenant_ir =
  ti_id :: string
  ti_namespace_prefix :: string
  ti_isolation_domain :: string
  ti_entitlements :: "string list"
  ti_cloud_boundary :: string

definition tenant_to_ir :: "tenant \<Rightarrow> tenant_ir" where
  "tenant_to_ir t =
     \<lparr>ti_id = tn_id t, ti_namespace_prefix = tn_namespace_prefix t,
      ti_isolation_domain = iso_id (tn_isolation_domain t),
      ti_entitlements = tn_entitlements t,
      ti_cloud_boundary = iso_cloud_boundary (tn_isolation_domain t)\<rparr>"

section \<open>The registry\<close>

type_synonym tenant_registry = "tenant docs"

definition reg_list :: "tenant_registry \<Rightarrow> tenant list" where
  "reg_list s = sort_key tn_id (store_list None 10000 0 s)"

definition reg_get :: "tenant_registry \<Rightarrow> string \<Rightarrow> tenant option" where
  "reg_get s k = store_get s k"

definition reg_require :: "tenant_registry \<Rightarrow> string \<Rightarrow> tenant_error + tenant" where
  "reg_require s k = (case reg_get s k of None \<Rightarrow> Inl (NoSuchTenant k) | Some t \<Rightarrow> Inr t)"

definition reg_by_prefix :: "tenant_registry \<Rightarrow> string \<Rightarrow> tenant option" where
  "reg_by_prefix s p = List.find (\<lambda>t. tn_namespace_prefix t = p) (reg_list s)"

definition reg_prefixes :: "tenant_registry \<Rightarrow> string option \<Rightarrow> string list" where
  "reg_prefixes s exclude =
     remdups (map tn_namespace_prefix (filter (\<lambda>t. Some (tn_id t) \<noteq> exclude) (reg_list s)))"

definition reg_save :: "instant \<Rightarrow> tenant \<Rightarrow> tenant_registry \<Rightarrow> tenant_registry" where
  "reg_save now t s = store_put now (tn_id t) t None (Some (tn_name t)) s"

definition reg_register ::
  "instant \<Rightarrow> tenant_registry \<Rightarrow> string \<Rightarrow> string \<Rightarrow> string option \<Rightarrow> string list \<Rightarrow> string \<Rightarrow>
     tenant_status \<Rightarrow> tenant_error + tenant_registry \<times> tenant" where
  "reg_register now s k name namespace_prefix entitlements cloud_boundary status =
     (if reg_get s k \<noteq> None then Inl (TenantExists k)
      else
        let p = normalize_prefix
                  (case namespace_prefix of None \<Rightarrow> k | Some q \<Rightarrow> if q = [] then k else q)
        in case validate_prefix p (reg_prefixes s None) of
             Inl e \<Rightarrow> Inl e
           | Inr _ \<Rightarrow>
               let t = \<lparr>tn_id = k, tn_name = name, tn_namespace_prefix = p,
                        tn_isolation_domain = (derive_domain p)\<lparr>iso_cloud_boundary := cloud_boundary\<rparr>,
                        tn_entitlements = sort entitlements, tn_status = status,
                        tn_history = [], tn_created_at = now\<rparr>
               in Inr (reg_save now t s, t))"

definition reg_set_status ::
  "instant \<Rightarrow> tenant_registry \<Rightarrow> string \<Rightarrow> tenant_status \<Rightarrow> tenant_error + tenant_registry \<times> tenant" where
  "reg_set_status now s k status =
     (case reg_require s k of Inl e \<Rightarrow> Inl e
      | Inr t \<Rightarrow> let t' = t\<lparr>tn_status := status\<rparr> in Inr (reg_save now t' s, t'))"

definition reg_set_cloud_boundary ::
  "instant \<Rightarrow> tenant_registry \<Rightarrow> string \<Rightarrow> string \<Rightarrow> tenant_error + tenant_registry \<times> tenant" where
  "reg_set_cloud_boundary now s k boundary =
     (case reg_require s k of Inl e \<Rightarrow> Inl e
      | Inr t \<Rightarrow>
          let t' = t\<lparr>tn_isolation_domain := (tn_isolation_domain t)\<lparr>iso_cloud_boundary := boundary\<rparr>\<rparr>
          in Inr (reg_save now t' s, t'))"

definition reg_transition ::
  "instant \<Rightarrow> tenant_registry \<Rightarrow> string \<Rightarrow> tenant_status \<Rightarrow> string \<Rightarrow> operator_role \<Rightarrow> string \<Rightarrow>
     deployment list \<Rightarrow> tenant_error + tenant_registry \<times> tenant" where
  "reg_transition now s k target actor role reason deployments =
     (case reg_require s k of
        Inl e \<Rightarrow> Inl e
      | Inr t \<Rightarrow>
          (case map_of tenant_transitions (tn_status t, target) of
             None \<Rightarrow> Inl (TenantIllegalTransition (tn_status t) target)
           | Some allowed \<Rightarrow>
               if role \<notin> set allowed
               then Inl (TenantTransitionDenied (tn_status t) target role allowed)
               else if target = TenRetired \<and> live_deployments deployments \<noteq> []
               then Inl (TenantRetirementBlocked k (sort (live_deployments deployments)))
               else let t' = t\<lparr>tn_history := tn_history t @
                          [\<lparr>tne_at = now, tne_source = tn_status t, tne_target = target,
                            tne_actor = actor, tne_role = role, tne_reason = reason\<rparr>],
                        tn_status := target\<rparr>
                    in Inr (reg_save now t' s, t')))"

definition reg_retire ::
  "instant \<Rightarrow> tenant_registry \<Rightarrow> string \<Rightarrow> string \<Rightarrow> operator_role \<Rightarrow> string \<Rightarrow> deployment list \<Rightarrow>
     tenant_error + tenant_registry \<times> tenant" where
  "reg_retire now s k actor role reason deployments =
     reg_transition now s k TenRetired actor role reason deployments"

text \<open>A run of the registry: any operation that succeeds. The guard on \<open>register\<close> is the bound
  of \<open>list\<close>: past 10000 tenants the collision check does not see every prefix.\<close>

inductive reg_step :: "tenant_registry \<Rightarrow> tenant_registry \<Rightarrow> bool" where
  registered: "length s \<le> 10000 \<Longrightarrow>
     reg_register now s k name p ents boundary status = Inr (s', t) \<Longrightarrow> reg_step s s'"
| status_set: "reg_set_status now s k status = Inr (s', t) \<Longrightarrow> reg_step s s'"
| boundary_set: "reg_set_cloud_boundary now s k boundary = Inr (s', t) \<Longrightarrow> reg_step s s'"
| moved: "reg_transition now s k target actor role reason deployments = Inr (s', t) \<Longrightarrow> reg_step s s'"


section \<open>Prefixes that a registration produces\<close>

lemma squash_chars: "ok (CHR ''-'') \<Longrightarrow> c \<in> set (squash ok s) \<Longrightarrow> ok c"
  by (induction ok s rule: squash.induct) (auto split: if_splits)

lemma strip_by_subset: "set (strip_by p s) \<subseteq> set s"
  by (auto simp: strip_by_def dest!: set_dropWhileD)

lemma normalize_prefix_chars: "c \<in> set (normalize_prefix v) \<Longrightarrow> is_prefix_char c"
  using strip_by_subset squash_chars [of is_prefix_char]
  by (fastforce simp: normalize_prefix_def is_prefix_char_def)

lemma newline_not_prefix_char: "\<not> is_prefix_char (CHR 0x0A)"
  by (simp add: is_prefix_char_def is_lower_alnum_def is_lower_letter_def is_digit_def)

lemma normalized_pattern_match:
  "prefix_pattern_match (normalize_prefix v) \<longleftrightarrow> prefix_shape (normalize_prefix v)"
proof -
  have "last (normalize_prefix v) \<noteq> CHR 0x0A" if "normalize_prefix v \<noteq> []"
    using that normalize_prefix_chars newline_not_prefix_char by (metis last_in_set)
  then show ?thesis by (auto simp: prefix_pattern_match_def)
qed

lemma validate_prefix_Inr:
  "validate_prefix p taken = Inr q \<longleftrightarrow>
     q = p \<and> prefix_pattern_match p \<and> \<not> sublist ''--'' p \<and> p \<notin> set reserved_prefixes \<and>
     (\<forall>other \<in> set taken. \<not> collides p other)"
  by (auto simp: validate_prefix_def find_None_iff' find_Some_iff split: option.splits)

section \<open>Ownership of names\<close>

lemma collides_sym: "collides p q = collides q p"
  by (auto simp: collides_def)

lemma owned_by_one:
  assumes "\<not> collides p q" and "prefix (p @ ''-'') x"
  shows "\<not> prefix (q @ ''-'') x"
proof
  assume "prefix (q @ ''-'') x"
  with assms(2) have "prefix (p @ ''-'') (q @ ''-'') \<or> prefix (q @ ''-'') (p @ ''-'')"
    using prefix_same_cases by blast
  with assms(1) show False by (auto simp: collides_def)
qed

lemma tenant_owns_qualified: "tenant_owns t (tenant_qualify t x)"
  by (auto simp: tenant_qualify_def tenant_owns_def)

section \<open>The registry's invariant\<close>

definition domain_ok :: "tenant \<Rightarrow> bool" where
  "domain_ok t \<longleftrightarrow> tn_isolation_domain t =
     (derive_domain (tn_namespace_prefix t))
       \<lparr>iso_cloud_boundary := iso_cloud_boundary (tn_isolation_domain t)\<rparr>"

definition tenant_ok :: "tenant \<Rightarrow> bool" where
  "tenant_ok t \<longleftrightarrow> domain_ok t \<and> prefix_shape (tn_namespace_prefix t) \<and>
     \<not> sublist ''--'' (tn_namespace_prefix t) \<and> tn_namespace_prefix t \<notin> set reserved_prefixes"

definition reg_inv :: "tenant_registry \<Rightarrow> bool" where
  "reg_inv s \<longleftrightarrow> wf_docs s \<and>
     (\<forall>k t. reg_get s k = Some t \<longrightarrow> tn_id t = k \<and> tenant_ok t) \<and>
     (\<forall>k k' t t'. k \<noteq> k' \<longrightarrow> reg_get s k = Some t \<longrightarrow> reg_get s k' = Some t' \<longrightarrow>
        \<not> collides (tn_namespace_prefix t) (tn_namespace_prefix t'))"

lemma reg_invD:
  assumes "reg_inv s" and "reg_get s k = Some t"
  shows "tn_id t = k" and "tenant_ok t"
    and "k \<noteq> k' \<Longrightarrow> reg_get s k' = Some t' \<Longrightarrow> \<not> collides (tn_namespace_prefix t) (tn_namespace_prefix t')"
  using assms unfolding reg_inv_def by blast+

lemma reg_get_save: "reg_get (reg_save now t s) k = (if k = tn_id t then Some t else reg_get s k)"
  by (simp add: reg_get_def reg_save_def store_get_put)

lemma reg_list_complete: "length s \<le> 10000 \<Longrightarrow> reg_get s k = Some t \<Longrightarrow> t \<in> set (reg_list s)"
  using ds.listing_complete by (auto simp: reg_get_def reg_list_def)

lemma reg_prefixes_complete:
  "length s \<le> 10000 \<Longrightarrow> reg_get s k = Some t \<Longrightarrow> tn_namespace_prefix t \<in> set (reg_prefixes s None)"
  by (auto simp: reg_prefixes_def dest: reg_list_complete)

lemma reg_inv_update:
  assumes inv: "reg_inv s" and old: "reg_get s k = Some t"
    and new: "tn_id t' = tn_id t" "tn_namespace_prefix t' = tn_namespace_prefix t" "tenant_ok t'"
  shows "reg_inv (reg_save now t' s)"
proof -
  have k: "tn_id t' = k" using reg_invD(1) [OF inv old] new(1) by simp
  have "wf_docs (reg_save now t' s)" using inv by (simp add: reg_inv_def reg_save_def wf_docs_put)
  moreover have "\<not> collides (tn_namespace_prefix a) (tn_namespace_prefix b)"
    if "i \<noteq> j" "reg_get (reg_save now t' s) i = Some a" "reg_get (reg_save now t' s) j = Some b"
    for i j a b
    using that reg_invD(3) [OF inv] old k new(2)
    by (auto simp: reg_get_save split: if_splits)
  ultimately show ?thesis
    using inv new(3) k by (auto simp: reg_inv_def reg_get_save)
qed

lemma reg_register_Inr:
  assumes "reg_register now s k name np ents boundary status = Inr (s', t)"
  shows "reg_get s k = None" and "tn_id t = k" and "s' = reg_save now t s" and "tenant_ok t"
    and "\<And>q. q \<in> set (reg_prefixes s None) \<Longrightarrow> \<not> collides (tn_namespace_prefix t) q"
    and "tn_status t = status" and "tn_history t = []"
  using assms
  by (auto simp: reg_register_def Let_def validate_prefix_Inr tenant_ok_def domain_ok_def
      derive_domain_def normalized_pattern_match split: if_splits sum.splits)

lemma reg_inv_register:
  assumes inv: "reg_inv s" and bound: "length s \<le> 10000"
    and reg: "reg_register now s k name np ents boundary status = Inr (s', t)"
  shows "reg_inv s'"
proof -
  note r = reg_register_Inr [OF reg]
  have free: "\<not> collides (tn_namespace_prefix t) (tn_namespace_prefix u)" if "reg_get s j = Some u" for j u
    using r(5) reg_prefixes_complete [OF bound that] .
  then have free': "\<not> collides (tn_namespace_prefix u) (tn_namespace_prefix t)" if "reg_get s j = Some u" for j u
    using that collides_sym by blast
  have "wf_docs s'" using inv r(3) by (simp add: reg_inv_def reg_save_def wf_docs_put)
  then show ?thesis
    using inv r(2,3,4) free free' unfolding reg_inv_def
    by (auto simp: reg_get_save split: if_splits)
qed

lemma reg_require_Inr: "reg_require s k = Inr t \<longleftrightarrow> reg_get s k = Some t"
  by (simp add: reg_require_def split: option.splits)

lemma reg_transition_Inr:
  assumes "reg_transition now s k target actor role reason deployments = Inr (s', t')"
  shows "\<exists>t. reg_get s k = Some t \<and> legal_move tenant_transitions (tn_status t) target role \<and>
    (target = TenRetired \<longrightarrow> live_deployments deployments = []) \<and>
    t' = t\<lparr>tn_history := tn_history t @
           [\<lparr>tne_at = now, tne_source = tn_status t, tne_target = target, tne_actor = actor,
             tne_role = role, tne_reason = reason\<rparr>], tn_status := target\<rparr> \<and>
    s' = reg_save now t' s"
  using assms
  by (auto simp: reg_transition_def reg_require_Inr legal_move_def Let_def
      split: sum.splits option.splits if_splits)

lemma reg_step_inv [inv_intros]: "reg_step s s' \<Longrightarrow> reg_inv s \<Longrightarrow> reg_inv s'"
proof (induction rule: reg_step.induct)
  case (registered s now k name p ents boundary status s' t)
  then show ?case by (blast intro: reg_inv_register)
next
  case (status_set now s k status s' t)
  then obtain u where "reg_get s k = Some u" "s' = reg_save now (u\<lparr>tn_status := status\<rparr>) s"
    by (auto simp: reg_set_status_def reg_require_Inr Let_def split: sum.splits)
  then show ?case using status_set.prems reg_invD(2) [OF status_set.prems]
    by (auto simp: tenant_ok_def domain_ok_def intro!: reg_inv_update)
next
  case (boundary_set now s k boundary s' t)
  then obtain u where u: "reg_get s k = Some u" "s' = reg_save now (u\<lparr>tn_isolation_domain :=
      (tn_isolation_domain u)\<lparr>iso_cloud_boundary := boundary\<rparr>\<rparr>) s"
    by (auto simp: reg_set_cloud_boundary_def reg_require_Inr Let_def split: sum.splits)
  have "tenant_ok u" using reg_invD(2) [OF boundary_set.prems u(1)] .
  then have "tenant_ok (u\<lparr>tn_isolation_domain := (tn_isolation_domain u)\<lparr>iso_cloud_boundary := boundary\<rparr>\<rparr>)"
    by (auto simp: tenant_ok_def domain_ok_def) (metis isolation_domain.surjective isolation_domain.update_convs(6))
  then show ?case using boundary_set.prems u by (auto intro: reg_inv_update)
next
  case (moved now s k target actor role reason deployments s' t')
  then obtain t where t: "reg_get s k = Some t" "tn_id t' = tn_id t"
    "tn_namespace_prefix t' = tn_namespace_prefix t" "tn_isolation_domain t' = tn_isolation_domain t"
    "s' = reg_save now t' s" using reg_transition_Inr by fastforce
  then have "tenant_ok t'" using reg_invD(2) [OF moved.prems t(1)]
    by (simp add: tenant_ok_def domain_ok_def)
  with t moved.prems show ?case by (auto intro: reg_inv_update)
qed

lemma reg_steps_inv: "reg_step\<^sup>*\<^sup>* s s' \<Longrightarrow> reg_inv s \<Longrightarrow> reg_inv s'"
  by (induction rule: rtranclp_induct) (auto intro: inv_intros)

lemma reg_inv_empty: "reg_inv []"
  by (simp add: reg_inv_def wf_docs_def reg_get_def store_get_def)


section \<open>Properties\<close>

text \<open>
  In every run of the tenant registry from an empty fabric, no identifier is owned by two
  tenants, retired ones included, and the names two tenants generate by qualification never
  coincide, whatever names they start from; each tenant owns what it qualifies.
\<close>

theorem tenant_ownership_exclusive:
  assumes "reg_step\<^sup>*\<^sup>* [] s" and "k \<noteq> k'" and "reg_get s k = Some t" and "reg_get s k' = Some t'"
  shows "\<not> (tenant_owns t x \<and> tenant_owns t' x) \<and> tenant_qualify t y \<noteq> tenant_qualify t' z \<and>
    tenant_owns t (tenant_qualify t y)"
proof -
  have "reg_inv s" using assms(1) reg_inv_empty by (rule reg_steps_inv)
  then have "\<not> collides (tn_namespace_prefix t) (tn_namespace_prefix t')"
    using assms(2-4) reg_invD(3) by blast
  then have one: "\<not> (tenant_owns t a \<and> tenant_owns t' a)" for a
    using owned_by_one by (auto simp: tenant_owns_def)
  with tenant_owns_qualified [of t y] tenant_owns_qualified [of t' z] show ?thesis by metis
qed

text \<open>Registrations in a row, those that are refused left out.\<close>

fun reg_run :: "tenant_registry \<Rightarrow> (string \<times> string option) list \<Rightarrow> tenant_registry" where
  "reg_run s [] = s"
| "reg_run s ((k, p) # ms) =
     (case reg_register 3 s k k p [] [] TenActive of
        Inl e \<Rightarrow> reg_run s ms | Inr (s', t) \<Rightarrow> reg_run s' ms)"

lemma reg_run_steps:
  "reg_step\<^sup>*\<^sup>* s0 s \<Longrightarrow> length s + length ms \<le> 10000 \<Longrightarrow> reg_step\<^sup>*\<^sup>* s0 (reg_run s ms)"
proof (induction ms arbitrary: s)
  case (Cons m ms)
  obtain k p where m: "m = (k, p)" by (cases m)
  show ?case
  proof (cases "reg_register 3 s k k p [] [] TenActive")
    case (Inl e)
    with Cons m show ?thesis by simp
  next
    case (Inr r)
    obtain s' t where r: "r = (s', t)" by (cases r)
    from Cons.prems(2) have "length s \<le> 10000" by simp
    with Inr r have "reg_step s s'" by (auto intro: reg_step.registered)
    with Cons.prems(1) have s0: "reg_step\<^sup>*\<^sup>* s0 s'" by (rule rtranclp.rtrancl_into_rtrancl)
    have "length s' \<le> length s + 1"
      using reg_register_Inr(3) [OF Inr [unfolded r]] ds.rows_put [of 3 _ _ _ _ s]
      by (simp add: reg_save_def)
    with Cons.prems(2) have "length s' + length ms \<le> 10000" by simp
    with Cons.IH [OF s0] Inr m r show ?thesis by simp
  qed
qed simp

definition example_registry :: tenant_registry where
  "example_registry = reg_run [] [(''acme'', None), (''t2'', Some '' Beta!''), (''t3'', Some ''acme-x'')]"

lemma example_registry_reached: "reg_step\<^sup>*\<^sup>* [] example_registry"
  unfolding example_registry_def by (rule reg_run_steps) simp_all

lemma example_registry_content:
  "map (\<lambda>r. (row_id r, tn_namespace_prefix (row_body r))) example_registry =
     [(''acme'', ''acme''), (''t2'', ''beta'')]"
  by code_simp

lemma example_registry_tenants:
  obtains t t' where "reg_get example_registry ''acme'' = Some t" "tn_namespace_prefix t = ''acme''"
    and "reg_get example_registry ''t2'' = Some t'" "tn_namespace_prefix t' = ''beta''"
proof -
  from example_registry_content obtain z za where eq: "example_registry = [z, za]"
    and ids: "row_id z = ''acme''" "tn_namespace_prefix (row_body z) = ''acme''"
    "row_id za = ''t2''" "tn_namespace_prefix (row_body za) = ''beta''"
    by (auto simp: map_eq_Cons_conv)
  show thesis
    by (rule that [of "row_body z" "row_body za"])
      (simp_all add: reg_get_def store_get_def eq ids)
qed

theorem tenant_ownership_exclusive_witness:
  "\<exists>t t'. reg_get example_registry ''acme'' = Some t \<and> reg_get example_registry ''t2'' = Some t' \<and>
    tenant_owns t ''acme-agents'' \<and> \<not> tenant_owns t' ''acme-agents'' \<and>
    tenant_qualify t ''n'' \<noteq> tenant_qualify t' ''n''"
proof -
  obtain t t' where t: "reg_get example_registry ''acme'' = Some t" "tn_namespace_prefix t = ''acme''"
    "reg_get example_registry ''t2'' = Some t'" by (rule example_registry_tenants)
  then have "tenant_owns t ''acme-agents''" by (simp add: tenant_owns_def)
  moreover have "''acme'' \<noteq> ''t2''" by simp
  ultimately show ?thesis
    using t(1,3) tenant_ownership_exclusive [OF example_registry_reached _ t(1) t(3)] by blast
qed

text \<open>
  Registering a tenant succeeds only with a prefix that is safe in every generated identifier
  (the pattern over the whole string, no double hyphen, not reserved) and that collides with no
  prefix in a registry of at most 10000 tenants, and the isolation domain it is given is the one
  derived from that prefix.
\<close>

theorem register_assigns_safe_prefix:
  assumes "length s \<le> 10000" and "reg_register now s k name np ents boundary status = Inr (s', t)"
  shows "prefix_shape (tn_namespace_prefix t) \<and> \<not> sublist ''--'' (tn_namespace_prefix t) \<and>
    tn_namespace_prefix t \<notin> set reserved_prefixes \<and>
    (\<forall>j u. reg_get s j = Some u \<longrightarrow> \<not> collides (tn_namespace_prefix t) (tn_namespace_prefix u)) \<and>
    domain_ok t \<and> reg_get s k = None \<and> reg_get s' k = Some t"
proof -
  note r = reg_register_Inr [OF assms(2)]
  have "\<not> collides (tn_namespace_prefix t) (tn_namespace_prefix u)" if "reg_get s j = Some u" for j u
    using r(5) reg_prefixes_complete [OF assms(1) that] .
  with r(1-4) show ?thesis by (auto simp: tenant_ok_def reg_get_save)
qed

lemma example_register:
  "\<exists>s t. reg_register 1 [] ''acme'' ''Acme'' (Some ''Beta!'') [] [] TenActive = Inr (s, t) \<and>
     tn_namespace_prefix t = ''beta''"
proof -
  have "(case reg_register 1 [] ''acme'' ''Acme'' (Some ''Beta!'') [] [] TenActive of
      Inl _ \<Rightarrow> False | Inr (s, t) \<Rightarrow> tn_namespace_prefix t = ''beta'')" by code_simp
  then show ?thesis by (auto split: sum.splits)
qed

theorem register_assigns_safe_prefix_witness:
  "\<exists>s t. reg_register 1 [] ''acme'' ''Acme'' (Some ''Beta!'') [] [] TenActive = Inr (s, t) \<and>
    prefix_shape (tn_namespace_prefix t) \<and> domain_ok t \<and> reg_get s ''acme'' = Some t"
proof -
  obtain s t where r: "reg_register 1 [] ''acme'' ''Acme'' (Some ''Beta!'') [] [] TenActive = Inr (s, t)"
    using example_register by blast
  have "length ([] :: tenant_registry) \<le> 10000" by simp
  from register_assigns_safe_prefix [OF this r] r show ?thesis by blast
qed

text \<open>
  A tenant is retired through the guarded move only by an admin, only from a status that is
  not already retired, and only when none of the deployments the caller names is live; the
  tenant's prefix and isolation domain are kept, so they stay spent. A refused move returns no
  registry at all: nothing is written.
\<close>

theorem retirement_guarded:
  assumes "reg_retire now s k actor role reason deployments = Inr (s', t')"
  shows "role = RoleAdmin \<and> (\<forall>d \<in> set deployments. \<not> live_deployment_state (d_state d)) \<and>
    (\<exists>t. reg_get s k = Some t \<and> tn_status t \<noteq> TenRetired \<and>
       tn_namespace_prefix t' = tn_namespace_prefix t \<and>
       tn_isolation_domain t' = tn_isolation_domain t \<and>
       length (tn_history t') = Suc (length (tn_history t))) \<and>
    tn_status t' = TenRetired"
proof -
  from reg_transition_Inr [OF assms [unfolded reg_retire_def]] obtain t where
    t: "reg_get s k = Some t" "legal_move tenant_transitions (tn_status t) TenRetired role"
      "live_deployments deployments = []" and
    t': "t' = t\<lparr>tn_history := tn_history t @
           [\<lparr>tne_at = now, tne_source = tn_status t, tne_target = TenRetired, tne_actor = actor,
             tne_role = role, tne_reason = reason\<rparr>], tn_status := TenRetired\<rparr>" by auto
  have "role = RoleAdmin" using t(2)
    by (cases "tn_status t") (simp_all add: legal_move_def tenant_transitions_def)
  moreover have "tn_status t \<noteq> TenRetired"
    using tenant_machine.legal_changes [OF t(2)] .
  moreover have "\<forall>d \<in> set deployments. \<not> live_deployment_state (d_state d)"
    using t(3) by (auto simp: live_deployments_def filter_empty_conv)
  ultimately show ?thesis using t(1) t' by simp
qed

definition example_tenant :: tenant where
  "example_tenant = \<lparr>tn_id = ''t'', tn_name = ''T'', tn_namespace_prefix = ''acme'',
     tn_isolation_domain = derive_domain ''acme'', tn_entitlements = [], tn_status = TenSuspended,
     tn_history = [], tn_created_at = 0\<rparr>"

theorem retirement_guarded_witness:
  "\<exists>s t. reg_retire 9 (reg_save 1 example_tenant []) ''t'' ''root'' RoleAdmin [] [] = Inr (s, t) \<and>
     tn_status t = TenRetired"
proof -
  have "\<exists>s t. reg_retire 9 (reg_save 1 example_tenant []) ''t'' ''root'' RoleAdmin [] [] = Inr (s, t)"
    by (simp add: reg_retire_def reg_transition_def reg_require_def reg_get_save example_tenant_def
        tenant_transitions_def live_deployments_def Let_def)
  then obtain s t where
    r: "reg_retire 9 (reg_save 1 example_tenant []) ''t'' ''root'' RoleAdmin [] [] = Inr (s, t)" by blast
  from retirement_guarded [OF r] r show ?thesis by blast
qed

text \<open>A prefix that ends in a line feed passes the pattern: \<open>$\<close> matches before it. Registration
  never produces one, since normalisation leaves prefix characters only.\<close>

lemma validate_prefix_accepts_line_feed:
  "validate_prefix (''abc'' @ [CHR 0x0A]) [] = Inr (''abc'' @ [CHR 0x0A])"
  by code_simp

end
