(* ===== verification/Quotas.thy ===== *)
theory Quotas
  imports DocStore
begin

text \<open>
  Quotas and entitlements (\<open>fabric/quotas.py\<close>): the pure decision \<open>evaluate\<close> and the service
  that keeps one entitlement document per tenant. The document's \<open>id\<close> is the tenant id
  (the model validator fills it in), so the store key is \<open>en_id\<close>. A breach row keeps its four
  values; \<open>kind.value\<close> and \<open>decision.value\<close> name their enum members.
\<close>

section \<open>Decisions\<close>

datatype quota_kind =
  QDeployments | QAgents | QConcurrentSessions | QMonthlySpendUsd | QTokensPerDay

datatype quota_decision = Allow | AllowDegraded | Refuse

definition unbounded :: int where
  "unbounded = -1"

record quota =
  q_kind :: quota_kind
  q_soft_limit :: int
  q_hard_ceiling :: int
  q_unit :: string

definition quota_refuses :: "quota \<Rightarrow> bool" where
  "quota_refuses q \<longleftrightarrow> q_hard_ceiling q \<noteq> unbounded"

record quota_verdict =
  v_kind :: quota_kind
  v_decision :: quota_decision
  v_usage_before :: int
  v_usage_after :: int
  v_soft_limit :: int
  v_hard_ceiling :: int
  v_reason :: string

definition verdict_allowed :: "quota_verdict \<Rightarrow> bool" where
  "verdict_allowed v \<longleftrightarrow> v_decision v \<noteq> Refuse"

definition verdict_breached :: "quota_verdict \<Rightarrow> bool" where
  "verdict_breached v \<longleftrightarrow> v_decision v \<noteq> Allow"

definition evaluate :: "quota \<Rightarrow> int \<Rightarrow> int \<Rightarrow> quota_verdict" where
  "evaluate q usage_before amount =
     (let after = usage_before + amount;
          (decision, reason) =
            (if after \<le> q_soft_limit q then (Allow, ''within the quota'')
             else if quota_refuses q \<and> after > q_hard_ceiling q
             then (Refuse, ''would reach '' @ show_int after @ '', past the hard ceiling of '' @
                           show_int (q_hard_ceiling q))
             else (AllowDegraded, ''over the soft limit of '' @ show_int (q_soft_limit q) @
                   ''; served and reported so an operator decides in daylight, not at 3am''))
      in \<lparr>v_kind = q_kind q, v_decision = decision, v_usage_before = usage_before,
          v_usage_after = (if decision \<noteq> Refuse then after else usage_before),
          v_soft_limit = q_soft_limit q, v_hard_ceiling = q_hard_ceiling q, v_reason = reason\<rparr>)"

section \<open>The service\<close>

record breach =
  br_at :: instant
  br_kind :: quota_kind
  br_decision :: quota_decision
  br_reason :: string

record entitlements =
  en_id :: string
  en_tenant_id :: string
  en_quotas :: "(quota_kind \<times> quota) list"
  en_catalog_entries :: "string list"
  en_usage :: "(quota_kind \<times> int) list"
  en_breaches :: "breach list"
  en_updated_at :: instant

datatype quota_error = NoEntitlements string | NotEntitled string string

type_synonym quota_service = "entitlements docs"

definition id_follows_tenant :: "entitlements \<Rightarrow> entitlements" where
  "id_follows_tenant e = (if en_id e = [] then e\<lparr>en_id := en_tenant_id e\<rparr> else e)"

definition set_entitlements :: "instant \<Rightarrow> quota_service \<Rightarrow> entitlements \<Rightarrow> quota_service" where
  "set_entitlements now s e =
     store_put now (en_id e) (e\<lparr>en_updated_at := now\<rparr>) (Some (en_tenant_id e)) None s"

definition q_entitlements :: "quota_service \<Rightarrow> string \<Rightarrow> entitlements option" where
  "q_entitlements s tenant_id = store_get s tenant_id"

definition q_require :: "quota_service \<Rightarrow> string \<Rightarrow> quota_error + entitlements" where
  "q_require s tenant_id =
     (case q_entitlements s tenant_id of None \<Rightarrow> Inl (NoEntitlements tenant_id) | Some e \<Rightarrow> Inr e)"

definition may_use :: "quota_service \<Rightarrow> string \<Rightarrow> string \<Rightarrow> quota_error + bool" where
  "may_use s tenant_id entry_id =
     ebind (q_require s tenant_id) (\<lambda>e. Inr (entry_id \<in> set (en_catalog_entries e)))"

definition require_entry :: "quota_service \<Rightarrow> string \<Rightarrow> string \<Rightarrow> quota_error + unit" where
  "require_entry s tenant_id entry_id =
     ebind (may_use s tenant_id entry_id)
       (\<lambda>ok. if \<not> ok then Inl (NotEntitled tenant_id entry_id) else Inr ())"

text \<open>The decision on one entitlement document; a kind with no quota is served and reported.\<close>

definition check_entitlements :: "entitlements \<Rightarrow> quota_kind \<Rightarrow> int \<Rightarrow> quota_verdict" where
  "check_entitlements e kind amount =
     (case map_of (en_quotas e) kind of
        None \<Rightarrow> \<lparr>v_kind = kind, v_decision = AllowDegraded,
                v_usage_before = dict_get (en_usage e) kind 0,
                v_usage_after = dict_get (en_usage e) kind 0 + amount,
                v_soft_limit = 0, v_hard_ceiling = unbounded,
                v_reason = ''no quota is set for this kind; served and reported''\<rparr>
      | Some q \<Rightarrow> evaluate q (dict_get (en_usage e) kind 0) amount)"

definition q_check :: "quota_service \<Rightarrow> string \<Rightarrow> quota_kind \<Rightarrow> int \<Rightarrow> quota_error + quota_verdict" where
  "q_check s tenant_id kind amount =
     ebind (q_require s tenant_id) (\<lambda>e. Inr (check_entitlements e kind amount))"

text \<open>What \<open>consume\<close> does to the document: the usage if allowed, a breach row if breached.\<close>

definition record_verdict ::
  "instant \<Rightarrow> quota_kind \<Rightarrow> quota_verdict \<Rightarrow> entitlements \<Rightarrow> entitlements" where
  "record_verdict now kind v e =
     (let e1 = (if verdict_allowed v
                then e\<lparr>en_usage := AList.update kind (v_usage_after v) (en_usage e)\<rparr> else e)
      in if verdict_breached v
         then e1\<lparr>en_breaches := en_breaches e1 @
                [\<lparr>br_at = now, br_kind = kind, br_decision = v_decision v,
                  br_reason = v_reason v\<rparr>]\<rparr> else e1)"

definition q_consume ::
  "instant \<Rightarrow> quota_service \<Rightarrow> string \<Rightarrow> quota_kind \<Rightarrow> int \<Rightarrow>
     quota_error + quota_service \<times> quota_verdict" where
  "q_consume now s tenant_id kind amount =
     ebind (q_require s tenant_id) (\<lambda>e.
       ebind (q_check s tenant_id kind amount) (\<lambda>v.
         Inr (set_entitlements now s (record_verdict now kind v e), v)))"

definition q_release ::
  "instant \<Rightarrow> quota_service \<Rightarrow> string \<Rightarrow> quota_kind \<Rightarrow> int \<Rightarrow> quota_error + quota_service \<times> int" where
  "q_release now s tenant_id kind amount =
     ebind (q_require s tenant_id) (\<lambda>e.
       let remaining = max 0 (dict_get (en_usage e) kind 0 - amount)
       in Inr (set_entitlements now s (e\<lparr>en_usage := AList.update kind remaining (en_usage e)\<rparr>),
               remaining))"

definition q_breaches :: "quota_service \<Rightarrow> string \<Rightarrow> quota_error + breach list" where
  "q_breaches s tenant_id = ebind (q_require s tenant_id) (\<lambda>e. Inr (en_breaches e))"

definition q_usage :: "quota_service \<Rightarrow> string \<Rightarrow> quota_kind \<Rightarrow> int" where
  "q_usage s tenant_id kind =
     (case q_entitlements s tenant_id of None \<Rightarrow> 0 | Some e \<Rightarrow> dict_get (en_usage e) kind 0)"

text \<open>A run of calls on one tenant: consumption of non-negative amounts and release.\<close>

inductive quota_step :: "string \<Rightarrow> quota_service \<Rightarrow> quota_service \<Rightarrow> bool" for tenant_id where
  consumed: "0 \<le> amount \<Longrightarrow> q_consume now s tenant_id kind amount = Inr (s', v) \<Longrightarrow>
     quota_step tenant_id s s'"
| released: "0 \<le> amount \<Longrightarrow> q_release now s tenant_id kind amount = Inr (s', n) \<Longrightarrow>
     quota_step tenant_id s s'"

section \<open>Facts about the decision\<close>

lemma evaluate_decision:
  "v_decision (evaluate q u a) =
     (if u + a \<le> q_soft_limit q then Allow
      else if quota_refuses q \<and> u + a > q_hard_ceiling q then Refuse else AllowDegraded)"
  by (simp add: evaluate_def Let_def)

lemma evaluate_after:
  "v_usage_after (evaluate q u a) = (if v_decision (evaluate q u a) = Refuse then u else u + a)"
  by (simp add: evaluate_def Let_def)

lemma q_require_Inr: "q_require s t = Inr e \<longleftrightarrow> q_entitlements s t = Some e"
  by (simp add: q_require_def split: option.splits)

lemma record_verdict_sel [simp]:
  "en_id (record_verdict now kind v e) = en_id e"
  "en_quotas (record_verdict now kind v e) = en_quotas e"
  "dict_get (en_usage (record_verdict now kind v e)) k 0 =
     (if k = kind \<and> v_decision v \<noteq> Refuse then v_usage_after v else dict_get (en_usage e) k 0)"
  "en_breaches (record_verdict now kind v e) =
     (if v_decision v = Allow then en_breaches e
      else en_breaches e @ [\<lparr>br_at = now, br_kind = kind, br_decision = v_decision v,
                             br_reason = v_reason v\<rparr>])"
  by (simp_all add: record_verdict_def Let_def verdict_allowed_def verdict_breached_def)

lemma q_consume_Inr:
  "q_consume now s t kind amount = Inr (s', v) \<longleftrightarrow>
     (\<exists>e. q_entitlements s t = Some e \<and> v = check_entitlements e kind amount \<and>
        s' = set_entitlements now s (record_verdict now kind v e))"
  by (auto simp: q_consume_def q_check_def ebind_eq_Inr q_require_Inr)

lemma q_release_Inr:
  "q_release now s t kind amount = Inr (s', n) \<longleftrightarrow>
     (\<exists>e. q_entitlements s t = Some e \<and> n = max 0 (dict_get (en_usage e) kind 0 - amount) \<and>
        s' = set_entitlements now s (e\<lparr>en_usage := AList.update kind n (en_usage e)\<rparr>))"
  by (auto simp: q_release_def ebind_eq_Inr q_require_Inr Let_def)

text \<open>An entitlement document is bounded when, for every quota that refuses and is not set below
  its own soft limit, the usage is at most the ceiling.\<close>

definition quota_sane :: "quota \<Rightarrow> bool" where
  "quota_sane q \<longleftrightarrow> quota_refuses q \<and> q_soft_limit q \<le> q_hard_ceiling q \<and> 0 \<le> q_hard_ceiling q"

definition bounded_usage :: "entitlements \<Rightarrow> bool" where
  "bounded_usage e \<longleftrightarrow> (\<forall>kind q. map_of (en_quotas e) kind = Some q \<longrightarrow> quota_sane q \<longrightarrow>
     dict_get (en_usage e) kind 0 \<le> q_hard_ceiling q)"

definition quota_inv :: "string \<Rightarrow> quota_service \<Rightarrow> bool" where
  "quota_inv t s \<longleftrightarrow> (\<exists>e. q_entitlements s t = Some e \<and> en_id e = t \<and> bounded_usage e)"

lemma q_entitlements_set:
  "q_entitlements (set_entitlements now s e) t =
     (if t = en_id e then Some (e\<lparr>en_updated_at := now\<rparr>) else q_entitlements s t)"
  by (simp add: q_entitlements_def set_entitlements_def store_get_put)

lemma check_bounded:
  assumes "bounded_usage e" and "map_of (en_quotas e) kind = Some q" and "quota_sane q"
  shows "v_usage_after (check_entitlements e kind amount) \<le> q_hard_ceiling q"
  using assms
  by (auto simp: check_entitlements_def evaluate_after evaluate_decision bounded_usage_def
      quota_sane_def split: if_splits)

lemma quota_step_inv [inv_intros]: "quota_step t s s' \<Longrightarrow> quota_inv t s \<Longrightarrow> quota_inv t s'"
proof (induction rule: quota_step.induct)
  case (consumed amount now s kind s' v)
  from consumed.prems obtain e where e: "q_entitlements s t = Some e" "en_id e = t" "bounded_usage e"
    by (auto simp: quota_inv_def)
  with consumed.hyps(2) have v: "v = check_entitlements e kind amount"
    by (auto simp: q_consume_Inr)
  have "bounded_usage (record_verdict now kind v e)"
    using e(3) check_bounded [OF e(3)] v by (auto simp: bounded_usage_def)
  moreover from consumed.hyps(2) e(1) have "s' = set_entitlements now s (record_verdict now kind v e)"
    by (simp add: q_consume_Inr)
  ultimately show ?case using e(2) by (simp add: quota_inv_def q_entitlements_set bounded_usage_def)
next
  case (released amount now s kind s' n)
  from released.prems obtain e where e: "q_entitlements s t = Some e" "en_id e = t" "bounded_usage e"
    by (auto simp: quota_inv_def)
  with released.hyps have "n = max 0 (dict_get (en_usage e) kind 0 - amount)"
    "s' = set_entitlements now s (e\<lparr>en_usage := AList.update kind n (en_usage e)\<rparr>)"
    by (auto simp: q_release_Inr)
  moreover have "bounded_usage (e\<lparr>en_usage := AList.update kind n (en_usage e)\<rparr>)"
    using calculation(1) e(3) released.hyps(1)
    by (fastforce simp: bounded_usage_def quota_sane_def)
  ultimately show ?case using e by (simp add: quota_inv_def q_entitlements_set bounded_usage_def)
qed

lemma quota_steps_inv: "(quota_step t)\<^sup>*\<^sup>* s s' \<Longrightarrow> quota_inv t s \<Longrightarrow> quota_inv t s'"
  by (induction rule: rtranclp_induct) (auto intro: inv_intros)

section \<open>Properties\<close>

text \<open>
  A call on a quota decides as documented on every branch: it is allowed silently up to the
  soft limit, allowed and reported between the soft limit and the ceiling, and refused past the
  ceiling; a quota without a ceiling never refuses; a refused call records no usage.
\<close>

theorem evaluate_branches:
  "v_decision (evaluate q u a) =
     (if u + a \<le> q_soft_limit q then Allow
      else if q_hard_ceiling q \<noteq> unbounded \<and> q_hard_ceiling q < u + a then Refuse
      else AllowDegraded) \<and>
   v_usage_after (evaluate q u a) = (if verdict_allowed (evaluate q u a) then u + a else u) \<and>
   v_usage_before (evaluate q u a) = u"
  by (simp add: evaluate_def Let_def quota_refuses_def verdict_allowed_def)


definition example_quota :: quota where
  "example_quota = \<lparr>q_kind = QAgents, q_soft_limit = 2, q_hard_ceiling = 3, q_unit = ''agents''\<rparr>"

definition example_entitlements :: entitlements where
  "example_entitlements = \<lparr>en_id = ''t'', en_tenant_id = ''t'', en_quotas = [(QAgents, example_quota)],
     en_catalog_entries = [], en_usage = [(QAgents, 1)], en_breaches = [], en_updated_at = 0\<rparr>"

definition example_quotas :: quota_service where
  "example_quotas = set_entitlements 0 [] example_entitlements"

lemma example_quotas_step:
  "\<exists>s'. quota_step ''t'' example_quotas s' \<and> q_usage s' ''t'' QAgents = 3 \<and>
     (\<exists>e. q_entitlements s' ''t'' = Some e \<and> map_of (en_quotas e) QAgents = Some example_quota)"
proof -
  have "\<exists>s' v. q_consume 1 example_quotas ''t'' QAgents 2 = Inr (s', v) \<and>
      q_usage s' ''t'' QAgents = 3 \<and>
      (\<exists>e. q_entitlements s' ''t'' = Some e \<and> map_of (en_quotas e) QAgents = Some example_quota)"
    by (simp add: q_consume_Inr example_quotas_def q_entitlements_set example_entitlements_def
        check_entitlements_def evaluate_after evaluate_decision example_quota_def
        quota_refuses_def q_usage_def unbounded_def)
  then show ?thesis using quota_step.consumed [of 2] by fastforce
qed


text \<open>
  A consumption is accounted for exactly: its usage is what the verdict says, a refused call
  leaves usage as it was, every call that is not plainly allowed appends one breach row naming
  the decision, and other tenants' documents are untouched.
\<close>

theorem consume_accounts:
  assumes "q_consume now s t kind amount = Inr (s', v)" and "q_entitlements s t = Some e"
    and "en_id e = t"
  shows "q_usage s' t kind = (if v_decision v = Refuse then q_usage s t kind else q_usage s t kind + amount) \<and>
    (\<forall>other. other \<noteq> kind \<longrightarrow> q_usage s' t other = q_usage s t other) \<and>
    q_breaches s' t = Inr (if v_decision v = Allow then en_breaches e
      else en_breaches e @ [\<lparr>br_at = now, br_kind = kind, br_decision = v_decision v,
                             br_reason = v_reason v\<rparr>]) \<and>
    (\<forall>u. u \<noteq> t \<longrightarrow> q_entitlements s' u = q_entitlements s u)"
proof -
  from assms(1,2) have v: "v = check_entitlements e kind amount" by (auto simp: q_consume_Inr)
  have after: "v_usage_after v =
      (if v_decision v = Refuse then dict_get (en_usage e) kind 0 else dict_get (en_usage e) kind 0 + amount)"
    unfolding v by (auto simp: check_entitlements_def evaluate_after split: option.splits)
  have s': "s' = set_entitlements now s (record_verdict now kind v e)"
    using assms(1,2) by (simp add: q_consume_Inr)
  have new: "q_entitlements s' t = Some ((record_verdict now kind v e)\<lparr>en_updated_at := now\<rparr>)"
    unfolding s' by (simp add: q_entitlements_set assms(3))
  have "\<forall>u. u \<noteq> t \<longrightarrow> q_entitlements s' u = q_entitlements s u"
    unfolding s' by (simp add: q_entitlements_set assms(3))
  then show ?thesis
    using new assms(2) after by (simp add: q_usage_def q_breaches_def q_require_def)
qed

theorem consume_accounts_witness:
  "\<exists>s' v. q_consume 1 example_quotas ''t'' QAgents 5 = Inr (s', v) \<and> v_decision v = Refuse \<and>
     q_usage s' ''t'' QAgents = 1"
proof -
  have "\<exists>s' v e. q_consume 1 example_quotas ''t'' QAgents 5 = Inr (s', v) \<and> v_decision v = Refuse \<and>
      q_entitlements example_quotas ''t'' = Some e \<and> en_id e = ''t''"
    by (simp add: q_consume_Inr example_quotas_def q_entitlements_set example_entitlements_def
        check_entitlements_def evaluate_decision example_quota_def quota_refuses_def
        unbounded_def)
  then obtain s' v e where c: "q_consume 1 example_quotas ''t'' QAgents 5 = Inr (s', v)"
    and d: "v_decision v = Refuse" and e: "q_entitlements example_quotas ''t'' = Some e" "en_id e = ''t''"
    by blast
  have "q_usage example_quotas ''t'' QAgents = 1"
    by (simp add: q_usage_def example_quotas_def q_entitlements_set example_entitlements_def)
  with consume_accounts [OF c e] c d show ?thesis by auto
qed

text \<open>With a ceiling below the soft limit, a call past the ceiling is allowed: the soft limit is
  tested first, and nothing checks that the two are in order.\<close>

lemma ceiling_below_soft_limit:
  "v_decision (evaluate \<lparr>q_kind = QAgents, q_soft_limit = 10, q_hard_ceiling = 5, q_unit = []\<rparr> 0 8) = Allow"
  by (simp add: evaluate_decision)

end
