(* ===== verification/AccessControl.thy ===== *)
theory AccessControl
  imports Deployments
begin

text \<open>
  The two access-control models for people: the designer's (\<open>designer/rbac.py\<close>, with the user
  roles, members and workspaces of \<open>designer/models.py\<close>) and the fabric's
  (\<open>fabric/rbac.py\<close>). Permissions are the sources' strings. A frozenset is a list without
  duplicates; \<open>sorted\<close> of a set is \<open>sorted_set\<close>.
\<close>

section \<open>The designer\<close>

datatype user_role = UserOwner | UserAdmin | UserEditor | UserReviewer | UserViewer

fun user_role_value :: "user_role \<Rightarrow> string" where
  "user_role_value UserOwner = ''owner''"
| "user_role_value UserAdmin = ''admin''"
| "user_role_value UserEditor = ''editor''"
| "user_role_value UserReviewer = ''reviewer''"
| "user_role_value UserViewer = ''viewer''"

definition VIEW :: string where "VIEW = ''system.view''"
definition EDIT :: string where "EDIT = ''system.edit''"
definition CREATE :: string where "CREATE = ''system.create''"
definition DELETE :: string where "DELETE = ''system.delete''"
definition PUBLISH :: string where "PUBLISH = ''system.publish''"
definition REVIEW :: string where "REVIEW = ''system.review''"
definition RESTORE :: string where "RESTORE = ''revision.restore''"
definition LOCK :: string where "LOCK = ''lock.acquire''"
definition BREAK_LOCK :: string where "BREAK_LOCK = ''lock.break''"
definition MANAGE_MEMBERS :: string where "MANAGE_MEMBERS = ''workspace.members''"
definition MANAGE_SETTINGS :: string where "MANAGE_SETTINGS = ''designer.settings''"
definition READ_AUDIT :: string where "READ_AUDIT = ''audit.read''"
definition DELETE_WORKSPACE :: string where "DELETE_WORKSPACE = ''workspace.delete''"

lemmas designer_permission_defs = VIEW_def EDIT_def CREATE_def DELETE_def PUBLISH_def REVIEW_def
  RESTORE_def LOCK_def BREAK_LOCK_def MANAGE_MEMBERS_def MANAGE_SETTINGS_def READ_AUDIT_def
  DELETE_WORKSPACE_def

fun user_role_permissions :: "user_role \<Rightarrow> string list" where
  "user_role_permissions UserViewer = [VIEW]"
| "user_role_permissions UserReviewer = [VIEW, REVIEW]"
| "user_role_permissions UserEditor = [VIEW, EDIT, CREATE, LOCK, RESTORE]"
| "user_role_permissions UserAdmin =
     [VIEW, EDIT, CREATE, DELETE, PUBLISH, REVIEW, RESTORE, LOCK, BREAK_LOCK,
      MANAGE_MEMBERS, MANAGE_SETTINGS, READ_AUDIT]"
| "user_role_permissions UserOwner =
     [VIEW, EDIT, CREATE, DELETE, PUBLISH, REVIEW, RESTORE, LOCK, BREAK_LOCK,
      MANAGE_MEMBERS, MANAGE_SETTINGS, READ_AUDIT, DELETE_WORKSPACE]"

text \<open>\<open>ROLE_ORDER.index\<close>: roles in order of reach.\<close>

fun role_index :: "user_role \<Rightarrow> nat" where
  "role_index UserViewer = 0"
| "role_index UserReviewer = 1"
| "role_index UserEditor = 2"
| "role_index UserAdmin = 3"
| "role_index UserOwner = 4"

lemma role_index_inj: "role_index a = role_index b \<Longrightarrow> a = b"
  by (cases a; cases b) simp_all

instantiation user_role :: linorder
begin

definition less_eq_user_role :: "user_role \<Rightarrow> user_role \<Rightarrow> bool" where
  "less_eq_user_role a b \<longleftrightarrow> role_index a \<le> role_index b"

definition less_user_role :: "user_role \<Rightarrow> user_role \<Rightarrow> bool" where
  "less_user_role a b \<longleftrightarrow> role_index a < role_index b"

instance
  by standard (auto simp: less_eq_user_role_def less_user_role_def intro: role_index_inj)

end

record member =
  m_user_id :: string
  m_display_name :: string
  m_email :: string
  m_role :: user_role
  m_added_at :: string

record workspace =
  w_id :: string
  w_name :: string
  w_description :: string
  w_members :: "member list"
  w_created_at :: string

record principal =
  pr_user_id :: string
  pr_display_name :: string
  pr_email :: string
  pr_granted_roles :: "(string \<times> user_role) list"

definition principal_label :: "principal \<Rightarrow> string" where
  "principal_label p = (if pr_display_name p \<noteq> [] then pr_display_name p else pr_user_id p)"

definition workspace_member :: "workspace \<Rightarrow> string \<Rightarrow> member option" where
  "workspace_member w user_id = List.find (\<lambda>m. m_user_id m = user_id) (w_members w)"

text \<open>\<open>max(candidates, key=order.index)\<close> over the provider's grants.\<close>

definition granted_role :: "principal \<Rightarrow> string \<Rightarrow> user_role option" where
  "granted_role p workspace_id =
     (case (map_of (pr_granted_roles p) workspace_id, map_of (pr_granted_roles p) ''*'') of
        (None, r) \<Rightarrow> r
      | (Some a, None) \<Rightarrow> Some a
      | (Some a, Some b) \<Rightarrow> Some (max a b))"

definition role_of :: "workspace option \<Rightarrow> principal \<Rightarrow> user_role \<Rightarrow> user_role option" where
  "role_of workspace p dflt =
     (case workspace of
        None \<Rightarrow> Some dflt
      | Some w \<Rightarrow>
          (case workspace_member w (pr_user_id p) of
             Some m \<Rightarrow> Some (m_role m)
           | None \<Rightarrow> granted_role p (w_id w)))"

record designer_decision =
  dd_allowed :: bool
  dd_reason :: string
  dd_role :: "user_role option"

text \<open>Every \<open>UserRole\<close> is in \<open>ROLE_ORDER\<close>, so the \<open>ValueError\<close> branch is not reached.\<close>

definition designer_decide ::
  "workspace option \<Rightarrow> principal \<Rightarrow> string \<Rightarrow> user_role \<Rightarrow> user_role option \<Rightarrow> designer_decision" where
  "designer_decide workspace p permission dflt break_lock_requires =
     (case role_of workspace p dflt of
        None \<Rightarrow> \<lparr>dd_allowed = False,
                 dd_reason = principal_label p @ '' is not a member of this workspace'',
                 dd_role = None\<rparr>
      | Some role \<Rightarrow>
          (case (if permission = BREAK_LOCK then break_lock_requires else None) of
             Some needed \<Rightarrow>
               if role_index role \<ge> role_index needed
               then \<lparr>dd_allowed = True,
                     dd_reason = ''granted by role '' @ quoted (user_role_value role) @
                       '': this workspace requires '' @ quoted (user_role_value needed) @
                       '' or above to break a lock'', dd_role = Some role\<rparr>
               else \<lparr>dd_allowed = False,
                     dd_reason = ''role '' @ quoted (user_role_value role) @
                       '' may not break a lock here: this workspace requires '' @
                       quoted (user_role_value needed) @ '' or above'', dd_role = Some role\<rparr>
           | None \<Rightarrow>
               if permission \<in> set (user_role_permissions role)
               then \<lparr>dd_allowed = True,
                     dd_reason = ''granted by role '' @ quoted (user_role_value role),
                     dd_role = Some role\<rparr>
               else \<lparr>dd_allowed = False,
                     dd_reason = ''role '' @ quoted (user_role_value role) @ '' does not grant '' @
                       quoted permission, dd_role = Some role\<rparr>))"

text \<open>\<open>PermissionDenied(reason)\<close>.\<close>

definition designer_require ::
  "workspace option \<Rightarrow> principal \<Rightarrow> string \<Rightarrow> user_role \<Rightarrow> user_role option \<Rightarrow>
     string + designer_decision" where
  "designer_require workspace p permission dflt break_lock_requires =
     (let d = designer_decide workspace p permission dflt break_lock_requires
      in if \<not> dd_allowed d then Inl (dd_reason d) else Inr d)"

definition designer_permissions_for :: "user_role option \<Rightarrow> user_role option \<Rightarrow> string list" where
  "designer_permissions_for role break_lock_requires =
     (case role of
        None \<Rightarrow> []
      | Some r \<Rightarrow>
          (let held = user_role_permissions r
           in case break_lock_requires of
                None \<Rightarrow> sorted_set held
              | Some needed \<Rightarrow>
                  sorted_set (removeAll BREAK_LOCK held @
                    (if role_index r \<ge> role_index needed then [BREAK_LOCK] else []))))"

section \<open>The fabric\<close>

definition fabric_read_permissions :: "string list" where
  "fabric_read_permissions =
     [''fabric.tenant.read'', ''fabric.deployment.read'', ''fabric.health.read'',
      ''fabric.quota.read'', ''fabric.service.read'']"

definition fabric_all_permissions :: "string list" where
  "fabric_all_permissions = fabric_read_permissions @
     [''fabric.audit.read'', ''fabric.deployment.deploy'', ''fabric.deployment.stop'',
      ''fabric.deployment.quarantine'', ''fabric.deployment.redeploy'', ''fabric.quota.write'',
      ''fabric.operator.grant'', ''fabric.tenant.register'', ''fabric.tenant.lifecycle'']"

fun operator_permissions :: "operator_role \<Rightarrow> string list" where
  "operator_permissions RoleAutomation = fabric_read_permissions @ [''fabric.deployment.quarantine'']"
| "operator_permissions RoleOperator = fabric_read_permissions @
     [''fabric.deployment.deploy'', ''fabric.deployment.stop'', ''fabric.deployment.quarantine'',
      ''fabric.deployment.redeploy'', ''fabric.quota.write'', ''fabric.tenant.lifecycle'']"
| "operator_permissions RoleAdmin = fabric_read_permissions @
     [''fabric.audit.read'', ''fabric.deployment.deploy'', ''fabric.deployment.stop'',
      ''fabric.deployment.quarantine'', ''fabric.deployment.redeploy'', ''fabric.quota.write'',
      ''fabric.operator.grant'', ''fabric.tenant.register'', ''fabric.tenant.lifecycle'']"

definition operator_role_order :: "operator_role list" where
  "operator_role_order = [RoleAutomation, RoleOperator, RoleAdmin]"

record fabric_decision =
  fd_allowed :: bool
  fd_reason :: string
  fd_role :: "operator_role option"

definition fabric_permissions_for :: "operator_role list \<Rightarrow> string list" where
  "fabric_permissions_for roles = remdups (concat (map operator_permissions roles))"

definition fabric_decide :: "operator_role list \<Rightarrow> string \<Rightarrow> fabric_decision" where
  "fabric_decide roles permission =
     (if roles = []
      then \<lparr>fd_allowed = False,
            fd_reason = ''no platform-operator role is granted to this principal'', fd_role = None\<rparr>
      else (case List.find (\<lambda>r. r \<in> set roles \<and> permission \<in> set (operator_permissions r))
                   (rev operator_role_order) of
              Some role \<Rightarrow>
                \<lparr>fd_allowed = True,
                 fd_reason = ''granted by operator role '' @ quoted (operator_role_value role),
                 fd_role = Some role\<rparr>
            | None \<Rightarrow>
                \<lparr>fd_allowed = False,
                 fd_reason = ''operator roles ['' @
                   join_with '', '' (sort (map operator_role_value roles)) @
                   ''] do not grant '' @ quoted permission,
                 fd_role = None\<rparr>))"

definition fabric_require :: "operator_role list \<Rightarrow> string \<Rightarrow> string + fabric_decision" where
  "fabric_require roles permission =
     (let d = fabric_decide roles permission in if \<not> fd_allowed d then Inl (fd_reason d) else Inr d)"

definition disjoint_from :: "string list \<Rightarrow> bool" where
  "disjoint_from designer_permissions \<longleftrightarrow>
     filter (\<lambda>p. p \<in> set designer_permissions) fabric_all_permissions = []"

text \<open>The registry of operator grants: one row per person.\<close>

record operator_grant =
  og_id :: string
  og_user_id :: string
  og_roles :: "operator_role list"
  og_granted_by :: string
  og_reason :: string
  og_granted_at :: instant

type_synonym operator_registry = "operator_grant docs"

fun operator_role_index :: "operator_role \<Rightarrow> nat" where
  "operator_role_index RoleAutomation = 0"
| "operator_role_index RoleOperator = 1"
| "operator_role_index RoleAdmin = 2"

definition og_get :: "operator_registry \<Rightarrow> string \<Rightarrow> operator_grant option" where
  "og_get s user_id = store_get s user_id"

definition og_list :: "operator_registry \<Rightarrow> operator_grant list" where
  "og_list s = sort_key og_user_id (store_list None 10000 0 s)"

definition roles_for :: "operator_registry \<Rightarrow> string \<Rightarrow> operator_role list" where
  "roles_for s user_id = (case og_get s user_id of None \<Rightarrow> [] | Some g \<Rightarrow> og_roles g)"

text \<open>The row id is the user id; an empty user id leaves it empty.\<close>

definition og_grant ::
  "instant \<Rightarrow> operator_registry \<Rightarrow> string \<Rightarrow> operator_role list \<Rightarrow> string \<Rightarrow> string \<Rightarrow>
     operator_registry \<times> operator_grant" where
  "og_grant now s user_id roles granted_by reason =
     (let g = \<lparr>og_id = user_id, og_user_id = user_id,
               og_roles = sort_key operator_role_index (remdups roles),
               og_granted_by = granted_by, og_reason = reason, og_granted_at = now\<rparr>
      in (store_put now (og_id g) g None (if user_id = [] then None else Some user_id) s, g))"

definition og_revoke :: "operator_registry \<Rightarrow> string \<Rightarrow> operator_registry \<times> bool" where
  "og_revoke s user_id = store_delete user_id s"

definition og_bootstrap ::
  "instant \<Rightarrow> (string \<times> operator_role list) list \<Rightarrow> operator_registry \<Rightarrow> operator_registry" where
  "og_bootstrap now bootstrap s =
     fold (\<lambda>(user_id, roles) t.
       if og_get t user_id = None
       then fst (og_grant now t user_id roles ''bootstrap'' ''installation bootstrap'') else t)
     bootstrap s"

definition parse_operator_role :: "string \<Rightarrow> operator_role option" where
  "parse_operator_role v =
     List.find (\<lambda>r. operator_role_value r = v) [RoleAutomation, RoleOperator, RoleAdmin]"

definition partition_on :: "char \<Rightarrow> string \<Rightarrow> string \<times> string" where
  "partition_on sep s =
     (takeWhile (\<lambda>c. c \<noteq> sep) s, drop 1 (dropWhile (\<lambda>c. c \<noteq> sep) s))"

definition parse_bootstrap :: "string \<Rightarrow> (string \<times> operator_role list) list" where
  "parse_bootstrap config =
     fold (\<lambda>item grants.
       let (user, role) = partition_on (CHR ''='') (py_strip item)
       in if user = [] \<or> role = [] then grants
          else (case parse_operator_role (py_strip role) of
                  None \<Rightarrow> grants
                | Some r \<Rightarrow> AList.update user (dict_get grants user [] @ [r]) grants))
     (split_on (CHR '','') config) []"

section \<open>Facts\<close>

lemma designer_decide_allowed:
  "dd_allowed (designer_decide w p perm dflt blr) \<longleftrightarrow>
     (\<exists>r. role_of w p dflt = Some r \<and> perm \<in> set (designer_permissions_for (Some r) blr))"
  by (auto simp: designer_decide_def designer_permissions_for_def Let_def
      split: option.splits if_splits)

lemma user_role_permissions_mono: "a \<le> b \<Longrightarrow> a \<noteq> UserReviewer \<Longrightarrow>
  set (user_role_permissions a) \<subseteq> set (user_role_permissions b)"
  by (cases a; cases b) (auto simp: less_eq_user_role_def)

lemma fabric_find_role:
  "List.find (\<lambda>r. r \<in> set roles \<and> P r) (rev operator_role_order) = None \<longleftrightarrow>
     (\<forall>r \<in> set roles. \<not> P r)"
proof -
  have "set (rev operator_role_order) = UNIV"
    using operator_role.exhaust by (auto simp: operator_role_order_def)
  then show ?thesis by (auto simp: find_None_iff)
qed

lemma fabric_decide_allowed:
  "fd_allowed (fabric_decide roles p) \<longleftrightarrow> p \<in> set (fabric_permissions_for roles)"
proof (cases "List.find (\<lambda>r. r \<in> set roles \<and> p \<in> set (operator_permissions r)) (rev operator_role_order)")
  case None
  then have "\<forall>r \<in> set roles. p \<notin> set (operator_permissions r)" by (simp only: fabric_find_role)
  with None show ?thesis by (auto simp: fabric_decide_def fabric_permissions_for_def)
next
  case (Some r)
  then have "r \<in> set roles" "p \<in> set (operator_permissions r)" by (auto dest: find_SomeD)
  with Some show ?thesis by (auto simp: fabric_decide_def fabric_permissions_for_def)
qed

lemma roles_for_grant:
  "roles_for (fst (og_grant now s u roles by why)) v =
     (if v = u then sort_key operator_role_index (remdups roles) else roles_for s v)"
  by (simp add: roles_for_def og_get_def og_grant_def Let_def store_get_put)

lemma roles_for_revoke:
  "roles_for (fst (og_revoke s u)) v = (if v = u then [] else roles_for s v)"
  by (simp add: roles_for_def og_get_def og_revoke_def store_get_delete)

section \<open>Properties\<close>

text \<open>
  The designer answers every request as its permission list says: a principal is allowed a
  permission exactly when they have a role in the workspace and the permission is in what
  \<open>permissions_for\<close> reports for that role under the same lock-breaking setting. A principal
  with no role is allowed nothing, and \<open>require\<close> raises exactly when \<open>decide\<close> denies.
\<close>

theorem designer_decide_agrees_with_list:
  "(dd_allowed (designer_decide w p perm dflt blr) \<longleftrightarrow>
      (case role_of w p dflt of None \<Rightarrow> False
       | Some r \<Rightarrow> perm \<in> set (designer_permissions_for (Some r) blr))) \<and>
   (designer_require w p perm dflt blr =
      (if dd_allowed (designer_decide w p perm dflt blr)
       then Inr (designer_decide w p perm dflt blr)
       else Inl (dd_reason (designer_decide w p perm dflt blr))))"
  by (simp add: designer_decide_allowed designer_require_def Let_def split: option.split)

text \<open>
  The two models share no permission: no designer role, under any lock-breaking setting,
  is granted a permission an operator role grants, and the other way round; the exported
  \<open>disjoint_from\<close> holds of what any designer role may do.
\<close>

theorem designer_and_fabric_disjoint:
  "disjoint_from (designer_permissions_for r blr) \<and>
   set (designer_permissions_for r blr) \<inter> set (fabric_permissions_for roles) = {}"
proof -
  have ops: "set (operator_permissions q) \<subseteq> set fabric_all_permissions" for q
    by (cases q) (auto simp: fabric_all_permissions_def)
  have d: "set (designer_permissions_for r blr) \<subseteq> set (user_role_permissions UserOwner)"
  proof (cases r)
    case (Some x)
    have "set (designer_permissions_for (Some x) blr) \<subseteq> insert BREAK_LOCK (set (user_role_permissions x))"
      by (auto simp: designer_permissions_for_def Let_def split: option.splits if_splits)
    moreover have "set (user_role_permissions x) \<subseteq> set (user_role_permissions UserOwner)"
      by (cases x) (simp_all add: subset_insertI2 insert_subset)
    moreover have "BREAK_LOCK \<in> set (user_role_permissions UserOwner)" by simp
    ultimately show ?thesis using Some by blast
  qed (simp add: designer_permissions_for_def)
  have f: "set (user_role_permissions UserOwner) \<inter> set fabric_all_permissions = {}"
    by (simp add: designer_permission_defs fabric_all_permissions_def fabric_read_permissions_def)
  from d f have "set (designer_permissions_for r blr) \<inter> set fabric_all_permissions = {}" by blast
  then show ?thesis
    using ops by (auto simp: disjoint_from_def filter_empty_conv fabric_permissions_for_def)
qed

text \<open>
  An operator decision is deny-by-dflt: it allows a permission exactly when one of the
  held roles grants it, names a held role that grants it, and never lets the automation role
  deploy, stop, change a quota or grant an operator; granting operators, registering tenants and
  reading the operator log need the admin role.
\<close>

theorem fabric_decide_by_held_role:
  "(fd_allowed (fabric_decide roles perm) \<longleftrightarrow> (\<exists>r \<in> set roles. perm \<in> set (operator_permissions r))) \<and>
   (case fd_role (fabric_decide roles perm) of
      None \<Rightarrow> \<not> fd_allowed (fabric_decide roles perm)
    | Some r \<Rightarrow> r \<in> set roles \<and> perm \<in> set (operator_permissions r)) \<and>
   (fd_allowed (fabric_decide [RoleAutomation] perm) \<longleftrightarrow>
      perm \<in> set fabric_read_permissions \<or> perm = ''fabric.deployment.quarantine'') \<and>
   (perm \<in> {''fabric.operator.grant'', ''fabric.tenant.register'', ''fabric.audit.read''} \<and>
      fd_allowed (fabric_decide roles perm) \<longrightarrow> RoleAdmin \<in> set roles)"
proof -
  have "(case fd_role (fabric_decide roles perm) of
      None \<Rightarrow> \<not> fd_allowed (fabric_decide roles perm)
    | Some r \<Rightarrow> r \<in> set roles \<and> perm \<in> set (operator_permissions r))"
    by (auto simp: fabric_decide_def split: option.splits dest: find_SomeD)
  moreover have "r = RoleAdmin"
    if "perm \<in> {''fabric.operator.grant'', ''fabric.tenant.register'', ''fabric.audit.read''}"
      "perm \<in> set (operator_permissions r)" for r
    using that by (cases r) (auto simp: fabric_read_permissions_def)
  ultimately show ?thesis
    by (auto simp: fabric_decide_allowed fabric_permissions_for_def)
qed

theorem fabric_decide_by_held_role_witness:
  "fd_allowed (fabric_decide [RoleOperator, RoleAdmin] ''fabric.operator.grant'') \<and>
   RoleAdmin \<in> set [RoleOperator, RoleAdmin]"
proof -
  have "fd_allowed (fabric_decide [RoleOperator, RoleAdmin] ''fabric.operator.grant'')" by code_simp
  then show ?thesis
    using fabric_decide_by_held_role [of "[RoleOperator, RoleAdmin]" "''fabric.operator.grant''"]
    by blast
qed

text \<open>
  The operator registry is a record, one row per person: after a grant the person holds
  exactly the granted roles, each once, after a revocation none, and nobody else's roles change.
\<close>

theorem operator_registry_grants:
  "set (roles_for (fst (og_grant now s u roles by why)) u) = set roles \<and>
   distinct (roles_for (fst (og_grant now s u roles by why)) u) \<and>
   roles_for (fst (og_revoke s u)) u = [] \<and>
   (v = u \<or> roles_for (fst (og_grant now s u roles by why)) v = roles_for s v \<and>
            roles_for (fst (og_revoke s u)) v = roles_for s v)"
  by (simp add: roles_for_grant roles_for_revoke)

end
