(* ===== verification/Locks.thy ===== *)
theory Locks
  imports AccessControl
begin

text \<open>
  Advisory, time-boxed locks over a design (\<open>designer/locks.py\<close>, with \<open>Lock\<close> of
  \<open>designer/models.py\<close>). The manager works over the repository's three lock operations, a
  record of functions whose contract is the locale \<open>lock_repository\<close>; it is interpreted on the
  in-memory repository (\<open>designer/repository.py\<close>), a dictionary in insertion order.
  An operation returns the repository, the locks it announced as expired (\<open>on_expire\<close>), and its
  value. \<open>expires_at\<close> is the instant it denotes, \<open>None\<close> for the empty string; \<open>now\<close> is the
  instant of the call.
\<close>

section \<open>Locks and repositories\<close>

datatype lock_scope = ScopeSystem | ScopeComponent

record lock =
  l_id :: string
  l_system_id :: string
  l_scope :: lock_scope
  l_target :: string
  l_holder :: string
  l_holder_name :: string
  l_acquired_at :: instant
  l_expires_at :: "instant option"
  l_note :: string

definition covers :: "lock \<Rightarrow> string \<Rightarrow> bool" where
  "covers l target \<longleftrightarrow> l_scope l = ScopeSystem \<or> l_target l = target"

definition expired :: "lock \<Rightarrow> instant \<Rightarrow> bool" where
  "expired l now = (case l_expires_at l of None \<Rightarrow> False | Some t \<Rightarrow> t \<le> now)"

record 'r lock_repo =
  lr_locks :: "'r \<Rightarrow> string \<Rightarrow> lock list"
  lr_put :: "lock \<Rightarrow> 'r \<Rightarrow> 'r"
  lr_drop :: "string \<Rightarrow> 'r \<Rightarrow> 'r \<times> bool"

type_synonym memory_locks = "(string \<times> lock) list"

definition memory_locks_of :: "memory_locks \<Rightarrow> string \<Rightarrow> lock list" where
  "memory_locks_of r system_id = filter (\<lambda>l. l_system_id l = system_id) (map snd r)"

definition memory_put_lock :: "lock \<Rightarrow> memory_locks \<Rightarrow> memory_locks" where
  "memory_put_lock l r = AList.update (l_id l) l r"

definition memory_drop_lock :: "string \<Rightarrow> memory_locks \<Rightarrow> memory_locks \<times> bool" where
  "memory_drop_lock k r = (AList.delete k r, map_of r k \<noteq> None)"

definition memory_repo :: "memory_locks lock_repo" where
  "memory_repo = \<lparr>lr_locks = memory_locks_of, lr_put = memory_put_lock, lr_drop = memory_drop_lock\<rparr>"

section \<open>The lock manager\<close>

fun lm_active_loop :: "'r lock_repo \<Rightarrow> instant \<Rightarrow> lock list \<Rightarrow> 'r \<Rightarrow> 'r \<times> lock list \<times> lock list" where
  "lm_active_loop R now [] r = (r, [], [])"
| "lm_active_loop R now (l # ls) r =
     (if expired l now
      then (let (r', ann, live) = lm_active_loop R now ls (fst (lr_drop R (l_id l) r))
            in (r', l # ann, live))
      else (let (r', ann, live) = lm_active_loop R now ls r in (r', ann, l # live)))"

definition lm_active :: "'r lock_repo \<Rightarrow> instant \<Rightarrow> 'r \<Rightarrow> string \<Rightarrow> 'r \<times> lock list \<times> lock list" where
  "lm_active R now r system_id = lm_active_loop R now (lr_locks R r system_id) r"

definition lm_holder_of ::
  "'r lock_repo \<Rightarrow> instant \<Rightarrow> 'r \<Rightarrow> string \<Rightarrow> string \<Rightarrow> 'r \<times> lock list \<times> lock option" where
  "lm_holder_of R now r system_id target =
     (let (r', ann, live) = lm_active R now r system_id
      in (r', ann, List.find (\<lambda>l. covers l target) live))"

definition lm_blocks ::
  "'r lock_repo \<Rightarrow> instant \<Rightarrow> 'r \<Rightarrow> string \<Rightarrow> string \<Rightarrow> principal \<Rightarrow> 'r \<times> lock list \<times> lock option" where
  "lm_blocks R now r system_id target p =
     (let (r', ann, found) = lm_holder_of R now r system_id target
      in (r', ann, (case found of None \<Rightarrow> None
            | Some l \<Rightarrow> if l_holder l \<noteq> pr_user_id p then Some l else None)))"

definition seconds :: "nat \<Rightarrow> instant" where
  "seconds n = int n * 1000000"

text \<open>\<open>acquire\<close>: \<open>Inl\<close> is \<open>LockConflict\<close> with the blocking lock. \<open>effective_ttl\<close> is
  \<open>ttl_seconds or self.ttl_seconds\<close>, so 0 means the manager's own.\<close>

definition effective_ttl :: "nat \<Rightarrow> nat option \<Rightarrow> nat" where
  "effective_ttl own_ttl ttl_seconds =
     (case ttl_seconds of None \<Rightarrow> own_ttl | Some n \<Rightarrow> if n = 0 then own_ttl else n)"

definition lm_acquire ::
  "'r lock_repo \<Rightarrow> nat \<Rightarrow> instant \<Rightarrow> string \<Rightarrow> 'r \<Rightarrow> string \<Rightarrow> principal \<Rightarrow> lock_scope \<Rightarrow> string \<Rightarrow>
     string \<Rightarrow> nat option \<Rightarrow> 'r \<times> lock list \<times> (lock + lock)" where
  "lm_acquire R own_ttl now fresh r system_id p scope target note ttl_seconds =
     (let (r1, ann1, blocking) = lm_blocks R now r system_id target p in
      case blocking of
        Some l \<Rightarrow> (r1, ann1, Inl l)
      | None \<Rightarrow>
          (let (r2, ann2, mine) = lm_holder_of R now r1 system_id target;
               until = Some (now + seconds (effective_ttl own_ttl ttl_seconds));
               new = \<lparr>l_id = fresh, l_system_id = system_id, l_scope = scope, l_target = target,
                      l_holder = pr_user_id p, l_holder_name = principal_label p,
                      l_acquired_at = now, l_expires_at = until, l_note = note\<rparr>
           in case mine of
                Some m \<Rightarrow>
                  if l_holder m = pr_user_id p
                  then (lr_put R (m\<lparr>l_expires_at := until\<rparr>) r2, ann1 @ ann2,
                        Inr (m\<lparr>l_expires_at := until\<rparr>))
                  else (lr_put R new r2, ann1 @ ann2, Inr new)
              | None \<Rightarrow> (lr_put R new r2, ann1 @ ann2, Inr new)))"

definition lm_heartbeat ::
  "'r lock_repo \<Rightarrow> nat \<Rightarrow> instant \<Rightarrow> 'r \<Rightarrow> string \<Rightarrow> principal \<Rightarrow> string \<Rightarrow>
     'r \<times> lock list \<times> lock option" where
  "lm_heartbeat R own_ttl now r system_id p target =
     (let (r', ann, found) = lm_holder_of R now r system_id target in
      case found of
        None \<Rightarrow> (r', ann, None)
      | Some l \<Rightarrow>
          if l_holder l \<noteq> pr_user_id p then (r', ann, None)
          else let l' = l\<lparr>l_expires_at := Some (now + seconds own_ttl)\<rparr>
               in (lr_put R l' r', ann, Some l'))"

definition lm_release ::
  "'r lock_repo \<Rightarrow> instant \<Rightarrow> 'r \<Rightarrow> string \<Rightarrow> principal \<Rightarrow> string \<Rightarrow> 'r \<times> lock list \<times> bool" where
  "lm_release R now r system_id p target =
     (let (r', ann, found) = lm_holder_of R now r system_id target in
      case found of
        None \<Rightarrow> (r', ann, False)
      | Some l \<Rightarrow>
          if l_holder l \<noteq> pr_user_id p then (r', ann, False)
          else (fst (lr_drop R (l_id l) r'), ann, snd (lr_drop R (l_id l) r')))"

definition lm_break_lock ::
  "'r lock_repo \<Rightarrow> instant \<Rightarrow> 'r \<Rightarrow> string \<Rightarrow> string \<Rightarrow> 'r \<times> lock list \<times> bool" where
  "lm_break_lock R now r system_id target =
     (let (r', ann, found) = lm_holder_of R now r system_id target in
      case found of
        None \<Rightarrow> (r', ann, False)
      | Some l \<Rightarrow> (fst (lr_drop R (l_id l) r'), ann, snd (lr_drop R (l_id l) r')))"

fun lm_release_loop :: "'r lock_repo \<Rightarrow> string \<Rightarrow> lock list \<Rightarrow> 'r \<Rightarrow> 'r \<times> nat" where
  "lm_release_loop R user [] r = (r, 0)"
| "lm_release_loop R user (l # ls) r =
     (if l_holder l = user
      then (let (r', n) = lm_release_loop R user ls (fst (lr_drop R (l_id l) r))
            in (r', n + (if snd (lr_drop R (l_id l) r) then 1 else 0)))
      else lm_release_loop R user ls r)"

definition lm_release_all ::
  "'r lock_repo \<Rightarrow> instant \<Rightarrow> 'r \<Rightarrow> string \<Rightarrow> principal \<Rightarrow> 'r \<times> lock list \<times> nat" where
  "lm_release_all R now r system_id p =
     (let (r1, ann, live) = lm_active R now r system_id;
          (r2, n) = lm_release_loop R (pr_user_id p) live r1
      in (r2, ann, n))"

text \<open>One call on the manager, by anybody, on any system; a new lock's id is unused.\<close>

inductive lock_step :: "'r lock_repo \<Rightarrow> ('r \<Rightarrow> string \<Rightarrow> lock option) \<Rightarrow> 'r \<Rightarrow> 'r \<Rightarrow> bool"
  for R view where
  acquired: "view r fresh = None \<Longrightarrow>
     lm_acquire R own now fresh r sys p scope target msg ttl = (r', ann, res) \<Longrightarrow> lock_step R view r r'"
| heartbeat: "lm_heartbeat R own now r sys p target = (r', ann, res) \<Longrightarrow> lock_step R view r r'"
| released: "lm_release R now r sys p target = (r', ann, ok) \<Longrightarrow> lock_step R view r r'"
| broken: "lm_break_lock R now r sys target = (r', ann, ok) \<Longrightarrow> lock_step R view r r'"
| released_all: "lm_release_all R now r sys p = (r', ann, n) \<Longrightarrow> lock_step R view r r'"

section \<open>The contract of a repository, and the manager over it\<close>

lemma find_filter_first: "List.find P xs = Some x \<Longrightarrow> Q x \<Longrightarrow> List.find P (filter Q xs) = Some x"
  by (induction xs) (auto split: if_splits)

lemma find_append_None: "List.find P xs = None \<Longrightarrow> List.find P (xs @ ys) = List.find P ys"
  by (induction xs) (auto split: if_splits)

lemma find_map_first:
  "List.find P xs = Some x \<Longrightarrow> (\<And>y. y \<in> set xs \<Longrightarrow> P (f y) = P y) \<Longrightarrow> List.find P (map f xs) = Some (f x)"
  by (induction xs) (auto split: if_splits)

text \<open>No two locks of a system are both system-wide, or name the same target.\<close>

definition clash :: "lock \<Rightarrow> lock \<Rightarrow> bool" where
  "clash l m \<longleftrightarrow> l_system_id l = l_system_id m \<and>
     (l_target l = l_target m \<or> l_scope l = ScopeSystem \<and> l_scope m = ScopeSystem)"

definition exclusive :: "(string \<Rightarrow> lock option) \<Rightarrow> bool" where
  "exclusive view \<longleftrightarrow>
     (\<forall>k l. view k = Some l \<longrightarrow> l_id l = k) \<and>
     (\<forall>k k' l l'. view k = Some l \<longrightarrow> view k' = Some l' \<longrightarrow> k \<noteq> k' \<longrightarrow> \<not> clash l l')"

lemma clash_sym: "clash l m \<Longrightarrow> clash m l"
  by (auto simp: clash_def)

lemma exclusive_id: "exclusive view \<Longrightarrow> view k = Some l \<Longrightarrow> l_id l = k"
  by (simp add: exclusive_def)

lemma exclusive_pair:
  "exclusive view \<Longrightarrow> view k = Some l \<Longrightarrow> view k' = Some l' \<Longrightarrow> k \<noteq> k' \<Longrightarrow> \<not> clash l l'"
  by (simp add: exclusive_def)

lemma exclusive_insert:
  assumes "exclusive view" and "l_id l = k"
    and new: "\<And>k' m. view k' = Some m \<Longrightarrow> k' \<noteq> k \<Longrightarrow> \<not> clash l m"
  shows "exclusive (view(k \<mapsto> l))"
  unfolding exclusive_def
proof (intro conjI allI impI)
  show "l_id m = k'" if "(view(k \<mapsto> l)) k' = Some m" for k' m
    using that assms(2) exclusive_id [OF assms(1)] by (simp split: if_splits)
next
  fix j j' m m'
  assume m: "(view(k \<mapsto> l)) j = Some m" "(view(k \<mapsto> l)) j' = Some m'" and ne: "j \<noteq> j'"
  show "\<not> clash m m'"
  proof (cases "j = k")
    case True
    with m ne show ?thesis using new [of j' m'] by (simp split: if_splits)
  next
    case False
    note out = this
    show ?thesis
    proof (cases "j' = k")
      case True
      with m ne out new [of j m] clash_sym show ?thesis by (auto split: if_splits)
    next
      case False
      with m ne out show ?thesis by (simp add: exclusive_pair [OF assms(1)])
    qed
  qed
qed

lemma exclusive_le:
  "exclusive view \<Longrightarrow> (\<And>k l. view' k = Some l \<Longrightarrow> view k = Some l) \<Longrightarrow> exclusive view'"
  unfolding exclusive_def [of view'] by (meson exclusive_id exclusive_pair)

locale lock_repository =
  fixes R :: "'r lock_repo"
    and view :: "'r \<Rightarrow> string \<Rightarrow> lock option"
    and ok :: "'r \<Rightarrow> bool"
  assumes locks_iff: "ok r \<Longrightarrow> l \<in> set (lr_locks R r sys) \<longleftrightarrow> view r (l_id l) = Some l \<and> l_system_id l = sys"
    and view_put: "view (lr_put R l r) k = (if k = l_id l then Some l else view r k)"
    and ok_put: "ok r \<Longrightarrow> ok (lr_put R l r)"
    and locks_put_new: "ok r \<Longrightarrow> view r (l_id l) = None \<Longrightarrow>
      lr_locks R (lr_put R l r) (l_system_id l) = lr_locks R r (l_system_id l) @ [l]"
    and locks_put_same: "ok r \<Longrightarrow> view r (l_id l) = Some m \<Longrightarrow> l_system_id m = l_system_id l \<Longrightarrow>
      lr_locks R (lr_put R l r) sys =
        map (\<lambda>n. if l_id n = l_id l then l else n) (lr_locks R r sys)"
    and view_drop: "ok r \<Longrightarrow> view (fst (lr_drop R k r)) k' = (if k' = k then None else view r k')"
    and locks_drop: "ok r \<Longrightarrow>
      lr_locks R (fst (lr_drop R k r)) sys = filter (\<lambda>l. l_id l \<noteq> k) (lr_locks R r sys)"
    and ok_drop: "ok r \<Longrightarrow> ok (fst (lr_drop R k r))"
    and dropped: "snd (lr_drop R k r) \<longleftrightarrow> view r k \<noteq> None"
begin

lemma active_loop_spec:
  assumes "lm_active_loop R now ls r = (r', ann, live)" and "ok r"
  shows "ok r' \<and> live = filter (\<lambda>l. \<not> expired l now) ls \<and> ann = filter (\<lambda>l. expired l now) ls \<and>
    (\<forall>k. view r' k = (if \<exists>l \<in> set ann. l_id l = k then None else view r k))"
  using assms
proof (induction ls arbitrary: r r' ann live)
  case (Cons l ls)
  show ?case
  proof (cases "expired l now")
    case True
    obtain r1 a1 v1 where loop: "lm_active_loop R now ls (fst (lr_drop R (l_id l) r)) = (r1, a1, v1)"
      by (metis prod_cases3)
    from Cons.IH [OF loop ok_drop [OF Cons.prems(2)]] True Cons.prems loop show ?thesis
      by (auto simp: view_drop Let_def)
  next
    case False
    obtain r1 a1 v1 where loop: "lm_active_loop R now ls r = (r1, a1, v1)" by (metis prod_cases3)
    from Cons.IH [OF loop Cons.prems(2)] False Cons.prems(1) loop show ?thesis by auto
  qed
qed simp

lemma active_spec:
  assumes "lm_active R now r sys = (r', ann, live)" and "ok r"
  shows "ok r'" and "live = filter (\<lambda>l. \<not> expired l now) (lr_locks R r sys)"
    and "view r' k = Some l \<Longrightarrow> view r k = Some l"
    and "view r k = Some l \<Longrightarrow> l_id l = k \<Longrightarrow> l_system_id l \<noteq> sys \<or> \<not> expired l now \<Longrightarrow> view r' k = Some l"
    and "view r' k = Some l \<Longrightarrow> l_id l = k \<Longrightarrow> l_system_id l = sys \<Longrightarrow> l \<in> set live"
proof -
  note a = active_loop_spec [OF assms(1) [unfolded lm_active_def] assms(2)]
  show "ok r'" and live: "live = filter (\<lambda>l. \<not> expired l now) (lr_locks R r sys)" using a by auto
  have ann: "ann = filter (\<lambda>l. expired l now) (lr_locks R r sys)" using a by blast
  have view': "view r' k = (if \<exists>l \<in> set ann. l_id l = k then None else view r k)" for k using a by blast
  show earlier: "view r' k = Some l \<Longrightarrow> view r k = Some l"
    by (simp add: view' split: if_splits)
  show "view r k = Some l \<Longrightarrow> l_id l = k \<Longrightarrow> l_system_id l \<noteq> sys \<or> \<not> expired l now \<Longrightarrow> view r' k = Some l"
    by (auto simp: view' ann locks_iff [OF assms(2)])
  show "view r' k = Some l \<Longrightarrow> l_id l = k \<Longrightarrow> l_system_id l = sys \<Longrightarrow> l \<in> set live"
    using earlier by (auto simp: view' live ann locks_iff [OF assms(2)] split: if_splits)
qed

text \<open>A second look at the same instant finds nothing to drop.\<close>

lemma loop_fresh: "\<forall>l \<in> set ls. \<not> expired l now \<Longrightarrow> lm_active_loop R now ls r = (r, [], ls)"
  by (induction ls) auto

lemma active_loop_locks:
  assumes "lm_active_loop R now ls r = (r', ann, live)" and "ok r"
  shows "lr_locks R r' sys = filter (\<lambda>l. \<forall>e \<in> set ls. expired e now \<longrightarrow> l_id e \<noteq> l_id l) (lr_locks R r sys)"
  using assms
proof (induction ls arbitrary: r r' ann live)
  case (Cons l ls)
  show ?case
  proof (cases "expired l now")
    case True
    obtain r1 a1 v1 where loop: "lm_active_loop R now ls (fst (lr_drop R (l_id l) r)) = (r1, a1, v1)"
      by (metis prod_cases3)
    from Cons.IH [OF loop ok_drop [OF Cons.prems(2)]] True Cons.prems loop show ?thesis
      by (auto simp: locks_drop Let_def intro!: filter_cong)
  next
    case False
    obtain r1 a1 v1 where loop: "lm_active_loop R now ls r = (r1, a1, v1)" by (metis prod_cases3)
    from Cons.IH [OF loop Cons.prems(2)] False Cons.prems(1) loop show ?thesis by auto
  qed
qed simp

lemma active_locks:
  assumes "lm_active R now r sys = (r', ann, live)" and "ok r"
  shows "lr_locks R r' sys = live"
proof -
  have "lr_locks R r' sys =
      filter (\<lambda>l. \<forall>e \<in> set (lr_locks R r sys). expired e now \<longrightarrow> l_id e \<noteq> l_id l) (lr_locks R r sys)"
    using active_loop_locks [OF assms(1) [unfolded lm_active_def] assms(2)] .
  also have "\<dots> = live"
    unfolding active_spec(2) [OF assms]
    by (rule filter_cong [OF refl]) (metis assms(2) locks_iff option.inject)
  finally show ?thesis .
qed

lemma active_again:
  assumes "lm_active R now r sys = (r', ann, live)" and "ok r"
  shows "lm_active R now r' sys = (r', [], live)"
  using active_spec(2) [OF assms] by (simp add: lm_active_def active_locks [OF assms] loop_fresh)

lemma holder_again:
  assumes "lm_holder_of R now r sys target = (r', ann, found)" and "ok r"
  shows "lm_holder_of R now r' sys target = (r', [], found)"
  using assms by (auto simp: lm_holder_of_def active_again split: prod.splits)

lemma view_put_upd: "view (lr_put R l r) = (view r)(l_id l \<mapsto> l)"
  by (simp add: fun_eq_iff view_put)

lemma exclusive_put_same:
  assumes "exclusive (view r)" and "view r (l_id l) = Some m"
    and "l_target l = l_target m" "l_scope l = l_scope m" "l_system_id l = l_system_id m"
  shows "exclusive (view (lr_put R l r))"
  unfolding view_put_upd
proof (rule exclusive_insert [OF assms(1) refl])
  fix k n assume "view r k = Some n" "k \<noteq> l_id l"
  then have "\<not> clash m n" using exclusive_pair [OF assms(1,2)] by blast
  then show "\<not> clash l n" using assms(3-5) by (simp add: clash_def)
qed

lemma exclusive_put_new:
  assumes "exclusive (view r)"
    and "\<And>k m. view r k = Some m \<Longrightarrow> l_system_id m = l_system_id l \<Longrightarrow> \<not> covers m (l_target l)"
  shows "exclusive (view (lr_put R l r))"
  unfolding view_put_upd
proof (rule exclusive_insert [OF assms(1) refl])
  fix k m assume "view r k = Some m"
  from assms(2) [OF this] show "\<not> clash l m" by (auto simp: clash_def covers_def)
qed

lemma holder_spec:
  assumes "lm_holder_of R now r sys target = (r', ann, found)" and "ok r" and "exclusive (view r)"
  shows "ok r'" and "exclusive (view r')" and "view r k = None \<Longrightarrow> view r' k = None"
    and "found = Some l \<Longrightarrow> view r' (l_id l) = Some l \<and> l_system_id l = sys \<and>
           covers l target \<and> \<not> expired l now"
    and "found = None \<Longrightarrow> view r' k = Some m \<Longrightarrow> l_system_id m = sys \<Longrightarrow> \<not> covers m target"
proof -
  obtain live where act: "lm_active R now r sys = (r', ann, live)"
    and found: "found = List.find (\<lambda>l. covers l target) live"
    using assms(1) by (auto simp: lm_holder_of_def split: prod.splits)
  note a = active_spec [OF act assms(2)]
  show "ok r'" by (rule a(1))
  show excl: "exclusive (view r')" using assms(3) a(3) by (rule exclusive_le)
  show "view r k = None \<Longrightarrow> view r' k = None" using a(3) [of k] by (cases "view r' k") auto
  show "found = Some l \<Longrightarrow> view r' (l_id l) = Some l \<and> l_system_id l = sys \<and>
      covers l target \<and> \<not> expired l now"
    using find_SomeD [of "\<lambda>l. covers l target" live l] a(2,4) assms(2)
    by (auto simp: found locks_iff)
  show "found = None \<Longrightarrow> view r' k = Some m \<Longrightarrow> l_system_id m = sys \<Longrightarrow> \<not> covers m target"
    using a(5) exclusive_id [OF excl] by (auto simp: found find_None_iff')
qed

lemma acquire_cases:
  assumes "lm_holder_of R now r sys target = (r1, ann1, found)" and "ok r"
  shows "lm_acquire R own now fresh r sys p scope target msg ttl =
    (let until = Some (now + seconds (effective_ttl own ttl));
         new = \<lparr>l_id = fresh, l_system_id = sys, l_scope = scope, l_target = target,
           l_holder = pr_user_id p, l_holder_name = principal_label p, l_acquired_at = now,
           l_expires_at = until, l_note = msg\<rparr>
     in case found of
          None \<Rightarrow> (lr_put R new r1, ann1, Inr new)
        | Some l \<Rightarrow> if l_holder l \<noteq> pr_user_id p then (r1, ann1, Inl l)
            else (lr_put R (l\<lparr>l_expires_at := until\<rparr>) r1, ann1, Inr (l\<lparr>l_expires_at := until\<rparr>)))"
  by (simp add: lm_acquire_def lm_blocks_def assms(1) holder_again [OF assms] Let_def split: option.split)

lemma acquire_spec:
  assumes "lm_acquire R own now fresh r sys p scope target msg ttl = (r', ann, res)"
    and "ok r" and "exclusive (view r)" and "view r fresh = None"
  shows "ok r' \<and> exclusive (view r') \<and>
    (case res of
       Inl l \<Rightarrow> view r' (l_id l) = Some l \<and> covers l target \<and> l_system_id l = sys \<and>
                \<not> expired l now \<and> l_holder l \<noteq> pr_user_id p
     | Inr l \<Rightarrow> view r' (l_id l) = Some l \<and> covers l target \<and> l_system_id l = sys \<and>
                l_holder l = pr_user_id p)"
proof -
  obtain r1 ann1 found where h1: "lm_holder_of R now r sys target = (r1, ann1, found)"
    by (metis prod_cases3)
  note s1 = holder_spec [OF h1 assms(2,3)]
  define until where "until = Some (now + seconds (effective_ttl own ttl))"
  define new where "new = \<lparr>l_id = fresh, l_system_id = sys, l_scope = scope, l_target = target,
    l_holder = pr_user_id p, l_holder_name = principal_label p, l_acquired_at = now,
    l_expires_at = until, l_note = msg\<rparr>"
  have acq: "lm_acquire R own now fresh r sys p scope target msg ttl =
      (case found of
         None \<Rightarrow> (lr_put R new r1, ann1, Inr new)
       | Some l \<Rightarrow> if l_holder l \<noteq> pr_user_id p then (r1, ann1, Inl l)
           else (lr_put R (l\<lparr>l_expires_at := until\<rparr>) r1, ann1, Inr (l\<lparr>l_expires_at := until\<rparr>)))"
    unfolding new_def until_def by (simp add: acquire_cases [OF h1 assms(2)] Let_def)
  show ?thesis
  proof (cases found)
    case None
    then have "exclusive (view (lr_put R new r1))"
      using s1(2,5) by (intro exclusive_put_new) (simp_all add: new_def)
    with None acq assms(1) s1(1) show ?thesis
      by (auto simp: new_def ok_put view_put covers_def)
  next
    case (Some m)
    note m = s1(4) [OF Some]
    have "exclusive (view (lr_put R (m\<lparr>l_expires_at := until\<rparr>) r1))"
      using s1(2) m by (intro exclusive_put_same [where m = m]) simp_all
    with Some acq assms(1) s1(1,2) m show ?thesis
      by (auto simp: ok_put view_put covers_def split: if_splits)
  qed
qed

lemma drop_exclusive: "ok r \<Longrightarrow> exclusive (view r) \<Longrightarrow> exclusive (view (fst (lr_drop R k r)))"
  by (erule exclusive_le) (simp add: view_drop split: if_splits)

lemma release_loop_spec:
  "ok r \<Longrightarrow> exclusive (view r) \<Longrightarrow> lm_release_loop R user ls r = (r', n) \<Longrightarrow> ok r' \<and> exclusive (view r')"
proof (induction ls arbitrary: r r' n)
  case (Cons l ls)
  show ?case
  proof (cases "l_holder l = user")
    case True
    obtain r1 n1 where loop: "lm_release_loop R user ls (fst (lr_drop R (l_id l) r)) = (r1, n1)"
      by (metis prod.exhaust)
    have "r' = r1" using True Cons.prems(3) loop by simp
    with Cons.IH [OF ok_drop [OF Cons.prems(1)] drop_exclusive [OF Cons.prems(1,2)] loop]
    show ?thesis by simp
  next
    case False
    with Cons.prems(3) have "lm_release_loop R user ls r = (r', n)" by simp
    then show ?thesis by (rule Cons.IH [OF Cons.prems(1,2)])
  qed
qed simp

lemma lock_step_inv:
  assumes "lock_step R view r r'" and "ok r" and "exclusive (view r)"
  shows "ok r' \<and> exclusive (view r')"
  using assms(1)
proof cases
  case (acquired fresh own now sys p scope target msg ttl ann res)
  from acquire_spec [OF acquired(2) assms(2,3) acquired(1)] show ?thesis by (elim conjE, intro conjI)
next
  case (heartbeat own now sys p target ann res)
  obtain r1 ann1 found where h: "lm_holder_of R now r sys target = (r1, ann1, found)"
    by (metis prod_cases3)
  note s = holder_spec [OF h assms(2,3)]
  have "exclusive (view (lr_put R (l\<lparr>l_expires_at := u\<rparr>) r1))" if "found = Some l" for l u
    using s(2) s(4) [OF that] by (intro exclusive_put_same [where m = l]) simp_all
  with heartbeat h s(1,2) show ?thesis
    by (auto simp: lm_heartbeat_def Let_def ok_put split: option.splits if_splits)
next
  case (released now sys p target ann ok)
  obtain r1 ann1 found where h: "lm_holder_of R now r sys target = (r1, ann1, found)"
    by (metis prod_cases3)
  note s = holder_spec [OF h assms(2,3)]
  with released h show ?thesis
    by (auto simp: lm_release_def ok_drop drop_exclusive split: option.splits if_splits)
next
  case (broken now sys target ann ok)
  obtain r1 ann1 found where h: "lm_holder_of R now r sys target = (r1, ann1, found)"
    by (metis prod_cases3)
  note s = holder_spec [OF h assms(2,3)]
  with broken h show ?thesis
    by (auto simp: lm_break_lock_def ok_drop drop_exclusive split: option.splits if_splits)
next
  case (released_all now sys p ann n)
  obtain r1 ann1 live where a: "lm_active R now r sys = (r1, ann1, live)" by (metis prod_cases3)
  have ok: "ok r1" by (rule active_spec(1) [OF a assms(2)])
  have excl: "exclusive (view r1)" using assms(3) active_spec(3) [OF a assms(2)] by (rule exclusive_le)
  obtain r2 n2 where loop: "lm_release_loop R (pr_user_id p) live r1 = (r2, n2)" by (metis prod.exhaust)
  have "r' = r2" using released_all a loop by (simp add: lm_release_all_def)
  with release_loop_spec [OF ok excl loop] show ?thesis by simp
qed

lemma lock_steps_inv:
  "(lock_step R view)\<^sup>*\<^sup>* r r' \<Longrightarrow> ok r \<Longrightarrow> exclusive (view r) \<Longrightarrow> ok r' \<and> exclusive (view r')"
proof (induction rule: rtranclp_induct)
  case (step r1 r2) then show ?case using lock_step_inv [OF step.hyps(2)] by blast
qed blast

text \<open>A granted lock is the first one in everybody's way until it expires.\<close>

lemma holder_locks:
  assumes "lm_holder_of R now r sys target = (r', ann, found)" and "ok r"
  shows "List.find (\<lambda>l. covers l target) (lr_locks R r' sys) = found"
  using assms active_locks by (auto simp: lm_holder_of_def split: prod.splits)

lemma holder_of_first:
  assumes "ok r" and "List.find (\<lambda>l. covers l target) (lr_locks R r sys) = Some l" and "\<not> expired l now"
    and "lm_holder_of R now r sys target = (r2, ann, found)"
  shows "found = Some l"
proof -
  obtain live where act: "lm_active R now r sys = (r2, ann, live)"
    and "found = List.find (\<lambda>l. covers l target) live"
    using assms(4) by (auto simp: lm_holder_of_def split: prod.splits)
  then show ?thesis
    using active_spec(2) [OF act assms(1)] find_filter_first [OF assms(2), of "\<lambda>l. \<not> expired l now"] assms(3)
    by simp
qed

lemma granted_first:
  assumes "lm_acquire R own now fresh r sys p scope target msg ttl = (r', ann, Inr l)"
    and "ok r" and "exclusive (view r)" and "view r fresh = None"
  shows "List.find (\<lambda>l. covers l target) (lr_locks R r' sys) = Some l"
proof -
  obtain r1 ann1 found where h1: "lm_holder_of R now r sys target = (r1, ann1, found)"
    by (metis prod_cases3)
  note s1 = holder_spec [OF h1 assms(2,3)]
  have first: "List.find (\<lambda>l. covers l target) (lr_locks R r1 sys) = found"
    by (rule holder_locks [OF h1 assms(2)])
  note acq = acquire_cases [OF h1 assms(2), of own fresh p scope msg ttl, unfolded Let_def]
  show ?thesis
  proof (cases found)
    case None
    with assms(1) acq have r': "r' = lr_put R l r1" and l: "l_id l = fresh" "l_system_id l = sys" "covers l target"
      by (auto simp: covers_def)
    have "lr_locks R r' sys = lr_locks R r1 sys @ [l]"
      using locks_put_new [of r1 l] s1(1) s1(3) [OF assms(4)] l r' by simp
    with first None l(3) show ?thesis by (simp add: find_append_None)
  next
    case (Some m)
    note m = s1(4) [OF Some]
    from Some assms(1) acq obtain u where l: "l = m\<lparr>l_expires_at := u\<rparr>" and r': "r' = lr_put R l r1"
      by (auto split: if_splits)
    have locks: "lr_locks R r' sys = map (\<lambda>n. if l_id n = l_id l then l else n) (lr_locks R r1 sys)"
      unfolding r' using m s1(1) l by (intro locks_put_same [where m = m]) simp_all
    have same: "covers (if l_id n = l_id l then l else n) target = covers n target"
      if "n \<in> set (lr_locks R r1 sys)" for n
    proof (cases "l_id n = l_id l")
      case True
      have "view r1 (l_id n) = Some n" using that locks_iff [OF s1(1)] by blast
      moreover have "l_id n = l_id m" using True l by simp
      ultimately have "n = m" using m by simp
      then show ?thesis by (simp add: l covers_def)
    qed simp
    have found: "List.find (\<lambda>n. covers n target) (lr_locks R r1 sys) = Some m" using first Some by simp
    have "List.find (\<lambda>n. covers n target) (lr_locks R r' sys) = Some (if l_id m = l_id l then l else m)"
      unfolding locks
      by (rule find_map_first [where f = "\<lambda>n. if l_id n = l_id l then l else n"
            and P = "\<lambda>n. covers n target"]) (rule found, rule same)
    then show ?thesis by (simp add: l)
  qed
qed

lemma granted_blocks:
  assumes "lm_acquire R own now fresh r sys p scope target msg ttl = (r', ann, Inr l)"
    and "ok r" and "exclusive (view r)" and "view r fresh = None" and "\<not> expired l later"
    and "pr_user_id q \<noteq> pr_user_id p"
    and "lm_acquire R own' later fresh' r' sys q scope' target msg' ttl' = (r2, ann2, res)"
  shows "res = Inl l"
proof -
  from acquire_spec [OF assms(1-4)] have inv: "ok r'" "l_holder l = pr_user_id p" by auto
  obtain r1 ann1 found where h: "lm_holder_of R later r' sys target = (r1, ann1, found)"
    by (metis prod_cases3)
  have "found = Some l"
    by (rule holder_of_first [OF inv(1) granted_first [OF assms(1-4)] assms(5) h])
  with acquire_cases [OF h inv(1), of own' fresh' q scope' msg' ttl'] assms(6,7) inv(2)
  show ?thesis by simp
qed

end

section \<open>The in-memory repository keeps the contract\<close>

definition memory_ok :: "memory_locks \<Rightarrow> bool" where
  "memory_ok r \<longleftrightarrow> distinct (map fst r) \<and> (\<forall>(k, l) \<in> set r. l_id l = k)"

lemma memory_ok_put: "memory_ok r \<Longrightarrow> memory_ok (memory_put_lock l r)"
proof -
  assume ok: "memory_ok r"
  have "l_id m = k" if "(k, m) \<in> set (memory_put_lock l r)" for k m
  proof -
    have "distinct (map fst (memory_put_lock l r))"
      using ok by (simp add: memory_ok_def memory_put_lock_def distinct_update)
    with that have "map_of (memory_put_lock l r) k = Some m" by simp
    then show ?thesis
      using ok by (auto simp: memory_put_lock_def memory_ok_def split: if_splits dest: map_of_SomeD)
  qed
  with ok show ?thesis
    by (auto simp: memory_ok_def memory_put_lock_def distinct_update)
qed

lemma memory_ok_drop: "memory_ok r \<Longrightarrow> memory_ok (fst (memory_drop_lock k r))"
  using distinct_delete [of r k]
  by (auto simp: memory_ok_def memory_drop_lock_def) (auto simp: AList.delete_eq)

lemma update_new: "map_of r k = None \<Longrightarrow> AList.update k v r = r @ [(k, v)]"
  by (induction r) (auto split: if_splits)

lemma update_as_map:
  "memory_ok r \<Longrightarrow> map_of r k = Some m \<Longrightarrow>
   map snd (AList.update k l r) = map (\<lambda>n. if l_id n = k then l else n) (map snd r)"
  by (induction r) (auto simp: memory_ok_def rev_image_eqI)

lemma locks_update_same:
  assumes "memory_ok r" and "map_of r (l_id l) = Some m" and "l_system_id m = l_system_id l"
  shows "memory_locks_of (memory_put_lock l r) sys =
     map (\<lambda>n. if l_id n = l_id l then l else n) (memory_locks_of r sys)"
proof -
  have same: "l_system_id (if l_id n = l_id l then l else n) = l_system_id n" if n: "n \<in> set (map snd r)" for n
  proof (cases "l_id n = l_id l")
    case True
    have "(l_id n, n) \<in> set r" using n assms(1) by (auto simp: memory_ok_def)
    with True assms(1) have "map_of r (l_id l) = Some n" by (simp add: memory_ok_def)
    with assms(2) have "n = m" by simp
    with assms(3) show ?thesis by simp
  qed simp
  have "filter (\<lambda>n. l_system_id (if l_id n = l_id l then l else n) = sys) (map snd r) =
      filter (\<lambda>n. l_system_id n = sys) (map snd r)"
    by (rule filter_cong [OF refl]) (simp only: same)
  then show ?thesis
    using filter_map [of "\<lambda>n. l_system_id n = sys" "\<lambda>n. if l_id n = l_id l then l else n" "map snd r"]
    by (simp only: memory_locks_of_def memory_put_lock_def update_as_map [OF assms(1,2)] o_def)
qed

interpretation memory: lock_repository memory_repo map_of memory_ok
proof (unfold_locales, goal_cases)
  case (1 r l sys)
  then have "map_of r (l_id l) = Some l \<longleftrightarrow> (l_id l, l) \<in> set r" by (simp add: memory_ok_def)
  with 1 show ?case
    by (force simp: memory_repo_def memory_locks_of_def memory_ok_def)
next
  case (2 l r k) show ?case by (simp add: memory_repo_def memory_put_lock_def)
next
  case (3 r l) then show ?case by (simp add: memory_repo_def memory_ok_put)
next
  case (4 r l) then show ?case
    by (simp add: memory_repo_def memory_put_lock_def memory_locks_of_def update_new)
next
  case (5 r l m sys) then show ?case by (simp add: memory_repo_def locks_update_same)
next
  case (6 r k k') show ?case by (simp add: memory_repo_def memory_drop_lock_def delete_conv')
next
  case (7 r k sys)
  then show ?case
    by (induction r) (auto simp: memory_repo_def memory_drop_lock_def memory_locks_of_def memory_ok_def
        AList.delete_eq)
next
  case (8 r k) then show ?case by (simp add: memory_repo_def memory_ok_drop)
next
  case (9 k r) show ?case by (simp add: memory_repo_def memory_drop_lock_def)
qed

section \<open>Properties\<close>

lemma memory_start: "memory_ok [] \<and> exclusive (map_of [])"
  by (simp add: memory_ok_def exclusive_def)

lemma reachable_inv:
  "(lock_step memory_repo map_of)\<^sup>*\<^sup>* [] r \<Longrightarrow> memory_ok r \<and> exclusive (map_of r)"
  using memory.lock_steps_inv [of "[]" r] memory_start by blast

text \<open>Locks on a system never overlap: after any calls on the manager over the in-memory
  repository, no two stored locks of a system name the same target, and at most one is
  system-wide.\<close>

theorem locks_never_overlap:
  assumes "(lock_step memory_repo map_of)\<^sup>*\<^sup>* [] r"
    and "map_of r k = Some l" and "map_of r k' = Some l'" and "k \<noteq> k'"
    and "l_system_id l = l_system_id l'"
  shows "l_target l \<noteq> l_target l' \<and> \<not> (l_scope l = ScopeSystem \<and> l_scope l' = ScopeSystem)"
  using exclusive_pair [OF conjunct2 [OF reachable_inv [OF assms(1)]] assms(2-4)] assms(5)
  by (simp add: clash_def)

definition ana :: principal where
  "ana = \<lparr>pr_user_id = ''ana'', pr_display_name = [], pr_email = [], pr_granted_roles = []\<rparr>"
definition bob :: principal where
  "bob = \<lparr>pr_user_id = ''bob'', pr_display_name = [], pr_email = [], pr_granted_roles = []\<rparr>"

text \<open>Ana locks one component, then another.\<close>

definition one_lock :: "memory_locks \<times> lock list \<times> (lock + lock)" where
  "one_lock = lm_acquire memory_repo 900 0 ''L1'' [] ''s'' ana ScopeComponent ''agent-a'' [] None"
definition two_locks :: "memory_locks \<times> lock list \<times> (lock + lock)" where
  "two_locks = lm_acquire memory_repo 900 1 ''L2'' (fst one_lock) ''s'' ana ScopeComponent ''agent-b'' [] None"

lemmas lock_run = lm_acquire_def lm_blocks_def lm_holder_of_def lm_active_def
  memory_repo_def memory_locks_of_def memory_put_lock_def memory_drop_lock_def covers_def expired_def
  ana_def bob_def Let_def seconds_def effective_ttl_def principal_label_def

lemma one_lock_eq: "one_lock = ([(''L1'', \<lparr>l_id = ''L1'', l_system_id = ''s'', l_scope = ScopeComponent,
    l_target = ''agent-a'', l_holder = ''ana'', l_holder_name = ''ana'', l_acquired_at = 0,
    l_expires_at = Some 900000000, l_note = []\<rparr>)], [], Inr \<lparr>l_id = ''L1'', l_system_id = ''s'',
    l_scope = ScopeComponent, l_target = ''agent-a'', l_holder = ''ana'', l_holder_name = ''ana'',
    l_acquired_at = 0, l_expires_at = Some 900000000, l_note = []\<rparr>)"
  by (simp add: one_lock_def lock_run)

lemma acquired_fst:
  "view r fresh = None \<Longrightarrow>
   lock_step R view r (fst (lm_acquire R own now fresh r sys p scope target msg ttl))"
  by (rule acquired [OF _ prod.collapse [symmetric, THEN trans, OF arg_cong2 [where f = Pair,
        OF refl prod.collapse [symmetric]]]])

lemma run_reachable: "(lock_step memory_repo map_of)\<^sup>*\<^sup>* [] (fst two_locks)"
proof -
  have "lock_step memory_repo map_of [] (fst one_lock)"
    unfolding one_lock_def by (rule acquired_fst) simp
  moreover have "lock_step memory_repo map_of (fst one_lock) (fst two_locks)"
    unfolding two_locks_def by (rule acquired_fst) (simp add: one_lock_eq)
  ultimately show ?thesis by (rule converse_rtranclp_into_rtranclp [OF _ r_into_rtranclp])
qed

theorem locks_never_overlap_witness:
  "\<exists>l l'. map_of (fst two_locks) ''L1'' = Some l \<and> map_of (fst two_locks) ''L2'' = Some l' \<and>
     l_target l \<noteq> l_target l'"
proof -
  define l where "l = the (map_of (fst two_locks) ''L1'')"
  define l' where "l' = the (map_of (fst two_locks) ''L2'')"
  have eval: "map_of (fst two_locks) ''L1'' = Some l" "map_of (fst two_locks) ''L2'' = Some l'"
      "l_system_id l = l_system_id l'"
    by (simp_all add: l_def l'_def two_locks_def one_lock_eq lock_run)
  from locks_never_overlap [OF run_reachable eval(1,2) _ eval(3)] eval show ?thesis by auto
qed

text \<open>A lock that was granted keeps everyone else out until it expires: another principal who
  asks for the same target of the same system, in any scope and for any time to live, before the
  lock's expiry is refused with that very lock.\<close>

theorem granted_lock_blocks_others:
  assumes "(lock_step memory_repo map_of)\<^sup>*\<^sup>* [] r" and "map_of r fresh = None"
    and "lm_acquire memory_repo own now fresh r sys p scope target msg ttl = (r', ann, Inr l)"
    and "\<not> expired l later" and "pr_user_id q \<noteq> pr_user_id p"
  shows "snd (snd (lm_acquire memory_repo own' later fresh' r' sys q scope' target msg' ttl')) = Inl l"
proof -
  obtain r2 ann2 res where again:
    "lm_acquire memory_repo own' later fresh' r' sys q scope' target msg' ttl' = (r2, ann2, res)"
    by (metis prod_cases3)
  from reachable_inv [OF assms(1)] have inv: "memory_ok r" "exclusive (map_of r)" by blast+
  from memory.granted_blocks [OF assms(3) inv assms(2,4,5) again] again show ?thesis by simp
qed

theorem granted_lock_blocks_others_witness:
  "\<exists>l. snd (snd one_lock) = Inr l \<and>
     snd (snd (lm_acquire memory_repo 60 5 ''L9'' (fst one_lock) ''s'' bob ScopeComponent ''agent-a'' [] None)) = Inl l"
proof -
  obtain l where one: "one_lock = (fst one_lock, [], Inr l)" and late: "\<not> expired l 5"
    by (simp add: one_lock_eq expired_def)
  have "pr_user_id bob \<noteq> pr_user_id ana" by (simp add: ana_def bob_def)
  from granted_lock_blocks_others [OF rtranclp.rtrancl_refl _ trans [OF one_lock_def [symmetric] one] late this]
  have "snd (snd (lm_acquire memory_repo 60 5 ''L9'' (fst one_lock) ''s'' bob ScopeComponent ''agent-a'' [] None))
      = Inl l" by simp
  moreover have "snd (snd one_lock) = Inr l" by (subst one) simp
  ultimately show ?thesis by blast
qed

text \<open>The manager only looks for a lock that covers the requested target, so a request for the
  whole system is not refused by somebody else's lock on one component.\<close>

lemma system_lock_over_component_lock:
  "\<exists>l. snd (snd (lm_acquire memory_repo 900 5 ''L9'' (fst one_lock) ''s'' bob ScopeSystem ''*'' [] None)) = Inr l
     \<and> l_scope l = ScopeSystem \<and> l_holder l = ''bob''"
  by (simp add: one_lock_eq lock_run)

end
