(* ===== verification/Health.thy ===== *)
theory Health
  imports Deployments
begin

text \<open>
  Health and drift (\<open>fabric/health.py\<close>): what the fabric believes of a deployment against what a
  target reported, with the age of the report. A time stamp as a target writes it either parses
  to an instant or does not (\<open>_parse\<close>). Ages and the staleness horizon are kept in microseconds,
  where the code has seconds. The target is the argument \<open>observe\<close>; \<open>StubBackend\<close> is the
  dictionary it is in the tests.
\<close>

section \<open>Observations, signals and checks\<close>

datatype health_status = HealthHealthy | HealthDegraded | HealthUnhealthy | HealthUnknown

datatype confidence = ConfFresh | ConfStale | ConfUnobserved

datatype drift_kind =
  StateMismatch | RevisionMismatch | MissingOnTarget | UnknownToFabric | StaleBelief

datatype severity = SevInfo | SevWarning | SevCritical

fun health_status_value :: "health_status \<Rightarrow> string" where
  "health_status_value HealthHealthy = ''healthy''"
| "health_status_value HealthDegraded = ''degraded''"
| "health_status_value HealthUnhealthy = ''unhealthy''"
| "health_status_value HealthUnknown = ''unknown''"

datatype stamp = Unparsable string | At instant

fun parse_stamp :: "stamp \<Rightarrow> instant option" where
  "parse_stamp (Unparsable s) = None"
| "parse_stamp (At t) = Some t"

record target_observation =
  ob_deployment_id :: string
  ob_tenant_id :: string
  ob_state :: "deployment_state option"
  ob_revision :: string
  ob_status :: health_status
  ob_observed_at :: stamp

text \<open>The message of a signal, by what it interpolates.\<close>

datatype drift_detail =
  NeverHeardOf | LastObserved int int | NoUsableTimestamp | NotInState | OtherRevision | NoRecord

record drift_signal =
  sg_deployment_id :: string
  sg_tenant_id :: string
  sg_kind :: drift_kind
  sg_severity :: severity
  sg_believed :: string
  sg_observed :: string
  sg_detail :: drift_detail

record health_check =
  hc_id :: string
  hc_deployment_id :: string
  hc_tenant_id :: string
  hc_believed_state :: deployment_state
  hc_believed_revision :: string
  hc_observed_state :: "deployment_state option"
  hc_observed_revision :: string
  hc_status :: health_status
  hc_confidence :: confidence
  hc_observed_at :: "stamp option"
  hc_age :: "int option"
  hc_horizon :: int
  hc_signals :: "drift_signal list"
  hc_checked_at :: instant

definition is_stale :: "health_check \<Rightarrow> bool" where
  "is_stale c \<longleftrightarrow> hc_confidence c \<noteq> ConfFresh"

definition drifted :: "health_check \<Rightarrow> bool" where
  "drifted c \<longleftrightarrow> hc_signals c \<noteq> []"

type_synonym stub_backend = "(string \<times> target_observation) list"

definition stub_report :: "target_observation \<Rightarrow> stub_backend \<Rightarrow> stub_backend" where
  "stub_report o1 b = AList.update (ob_deployment_id o1) o1 b"

definition stub_forget :: "string \<Rightarrow> stub_backend \<Rightarrow> stub_backend" where
  "stub_forget k b = AList.delete k b"

definition stub_observe :: "stub_backend \<Rightarrow> deployment \<Rightarrow> target_observation option" where
  "stub_observe b d = map_of b (d_id d)"

definition expected_on_target :: "deployment_state \<Rightarrow> bool" where
  "expected_on_target s \<longleftrightarrow> s \<in> {DepDeployed, DepRunning, DepStopped, DepQuarantined}"

section \<open>The service\<close>

record health_service =
  hs_store :: "health_check docs"
  hs_deployments :: deployment_service
  hs_horizon :: int

definition drift :: "deployment \<Rightarrow> drift_kind \<Rightarrow> severity \<Rightarrow> string \<Rightarrow> string \<Rightarrow> drift_detail \<Rightarrow> drift_signal" where
  "drift d kind sev believed observed detail =
     \<lparr>sg_deployment_id = d_id d, sg_tenant_id = d_tenant_id d, sg_kind = kind, sg_severity = sev,
      sg_believed = believed, sg_observed = observed, sg_detail = detail\<rparr>"

definition fresh_check :: "int \<Rightarrow> instant \<Rightarrow> deployment \<Rightarrow> health_check" where
  "fresh_check horizon now d =
     \<lparr>hc_id = ''hc_'' @ d_id d, hc_deployment_id = d_id d, hc_tenant_id = d_tenant_id d,
      hc_believed_state = d_state d, hc_believed_revision = d_revision d,
      hc_observed_state = None, hc_observed_revision = [], hc_status = HealthUnknown,
      hc_confidence = ConfUnobserved, hc_observed_at = None, hc_age = None,
      hc_horizon = horizon, hc_signals = [], hc_checked_at = now\<rparr>"

text \<open>The comparison inside \<open>check\<close>, with no observation and with one.\<close>

definition check_absent :: "health_check \<Rightarrow> deployment \<Rightarrow> health_check" where
  "check_absent c d =
     c\<lparr>hc_confidence := ConfUnobserved, hc_status := HealthUnknown,
       hc_signals := (if expected_on_target (d_state d)
         then [drift d MissingOnTarget SevCritical (deployment_state_value (d_state d)) ''absent''
           NeverHeardOf] else [])\<rparr>"

definition check_observed :: "int \<Rightarrow> instant \<Rightarrow> health_check \<Rightarrow> deployment \<Rightarrow> target_observation \<Rightarrow> health_check" where
  "check_observed horizon now c d ob =
     (let age = map_option (\<lambda>t. now - t) (parse_stamp (ob_observed_at ob));
          fresh = (case age of None \<Rightarrow> False | Some a \<Rightarrow> a \<le> horizon)
      in c\<lparr>hc_observed_at := Some (ob_observed_at ob), hc_age := age,
           hc_observed_state := ob_state ob, hc_observed_revision := ob_revision ob,
           hc_confidence := (if fresh then ConfFresh else ConfStale),
           hc_status := (if fresh then ob_status ob else HealthUnknown),
           hc_signals :=
             (if fresh then [] else
               [drift d StaleBelief SevWarning (deployment_state_value (d_state d))
                  (health_status_value (ob_status ob))
                  (case age of Some a \<Rightarrow> LastObserved a horizon | None \<Rightarrow> NoUsableTimestamp)]) @
             (case ob_state ob of None \<Rightarrow> []
              | Some st \<Rightarrow> if st \<noteq> d_state d
                  then [drift d StateMismatch SevCritical (deployment_state_value (d_state d))
                    (deployment_state_value st) NotInState] else []) @
             (if d_revision d \<noteq> [] \<and> ob_revision ob \<noteq> [] \<and> ob_revision ob \<noteq> d_revision d
              then [drift d RevisionMismatch SevWarning (d_revision d) (ob_revision ob) OtherRevision]
              else [])\<rparr>)"

text \<open>\<open>Inl\<close> is the \<open>KeyError\<close> with the unknown id.\<close>

definition hs_check ::
  "(deployment \<Rightarrow> target_observation option) \<Rightarrow> instant \<Rightarrow> health_service \<Rightarrow> string \<Rightarrow>
     string + health_service \<times> health_check" where
  "hs_check observe now h deployment_id =
     (case dep_get (hs_deployments h) deployment_id of
        None \<Rightarrow> Inl deployment_id
      | Some d \<Rightarrow>
          let c = fresh_check (hs_horizon h) now d;
              c' = (case observe d of None \<Rightarrow> check_absent c d
                    | Some ob \<Rightarrow> check_observed (hs_horizon h) now c d ob)
          in Inr (h\<lparr>hs_store := store_put now (hc_id c') c' (Some (d_tenant_id d)) None (hs_store h)\<rparr>, c'))"

fun hs_check_all ::
  "(deployment \<Rightarrow> target_observation option) \<Rightarrow> instant \<Rightarrow> health_service \<Rightarrow> string list \<Rightarrow>
     string + health_service \<times> health_check list" where
  "hs_check_all observe now h [] = Inr (h, [])"
| "hs_check_all observe now h (k # ks) =
     ebind (hs_check observe now h k) (\<lambda>(h', c).
       ebind (hs_check_all observe now h' ks) (\<lambda>(h'', cs). Inr (h'', c # cs)))"

definition hs_check_tenant ::
  "(deployment \<Rightarrow> target_observation option) \<Rightarrow> instant \<Rightarrow> health_service \<Rightarrow> string \<Rightarrow>
     string + health_service \<times> health_check list" where
  "hs_check_tenant observe now h tenant_id =
     hs_check_all observe now h (map d_id (dep_list (hs_deployments h) (Some tenant_id)))"

definition hs_unknown_to_fabric :: "health_service \<Rightarrow> string \<Rightarrow> string list \<Rightarrow> drift_signal list" where
  "hs_unknown_to_fabric h tenant_id reported_ids =
     (let known = set (map d_id (dep_list (hs_deployments h) (Some tenant_id)))
      in map (\<lambda>k. \<lparr>sg_deployment_id = k, sg_tenant_id = tenant_id, sg_kind = UnknownToFabric,
                   sg_severity = SevCritical, sg_believed = ''absent'', sg_observed = k,
                   sg_detail = NoRecord\<rparr>)
           (filter (\<lambda>k. k \<notin> known) reported_ids))"

definition hs_last_check :: "health_service \<Rightarrow> string \<Rightarrow> health_check option" where
  "hs_last_check h deployment_id = store_get (hs_store h) (''hc_'' @ deployment_id)"

section \<open>Lemmas\<close>

lemma check_observed_simps [simp]:
  "hc_id (check_observed hz now c d ob) = hc_id c"
  "hc_id (check_absent c d) = hc_id c"
  by (simp_all add: check_observed_def check_absent_def Let_def)

lemma check_observed_health:
  assumes "hc_status (check_observed hz now c d ob) \<noteq> HealthUnknown"
  shows "\<exists>t. parse_stamp (ob_observed_at ob) = Some t \<and> now - t \<le> hz \<and>
    hc_status (check_observed hz now c d ob) = ob_status ob \<and>
    hc_confidence (check_observed hz now c d ob) = ConfFresh"
proof (cases "parse_stamp (ob_observed_at ob)")
  case None
  with assms show ?thesis by (simp add: check_observed_def)
next
  case (Some t)
  with assms show ?thesis by (cases "now - t \<le> hz") (simp_all add: check_observed_def)
qed

lemma hs_check_Inr:
  "hs_check observe now h k = Inr (h', c) \<longleftrightarrow>
     (\<exists>d. dep_get (hs_deployments h) k = Some d \<and>
        c = (case observe d of None \<Rightarrow> check_absent (fresh_check (hs_horizon h) now d) d
             | Some ob \<Rightarrow> check_observed (hs_horizon h) now (fresh_check (hs_horizon h) now d) d ob) \<and>
        h' = h\<lparr>hs_store := store_put now (hc_id c) c (Some (d_tenant_id d)) None (hs_store h)\<rparr>)"
  by (auto simp: hs_check_def Let_def split: option.splits)

lemma hs_check_all_ok:
  "\<forall>k \<in> set ks. dep_get (hs_deployments h) k \<noteq> None \<Longrightarrow>
   \<exists>h' cs. hs_check_all observe now h ks = Inr (h', cs) \<and> map hc_deployment_id cs =
     map (\<lambda>k. d_id (the (dep_get (hs_deployments h) k))) ks"
proof (induction ks arbitrary: h)
  case (Cons k ks)
  then obtain d where d: "dep_get (hs_deployments h) k = Some d" by auto
  obtain h1 c where c: "hs_check observe now h k = Inr (h1, c)"
    using d by (simp add: hs_check_def Let_def)
  then have same: "hs_deployments h1 = hs_deployments h" "hc_deployment_id c = d_id d"
    using d by (auto simp: hs_check_Inr check_absent_def check_observed_def fresh_check_def Let_def
        split: option.splits)
  with Cons.prems have "\<forall>k \<in> set ks. dep_get (hs_deployments h1) k \<noteq> None" by simp
  from Cons.IH [OF this] c same d show ?case by auto
qed simp

section \<open>Properties\<close>

text \<open>
  Health is never reported from a report that is too old: a check that says anything but
  \<open>unknown\<close> rests on an observation of that deployment whose time stamp parses and is at most the
  horizon old, says what that observation said, and is marked fresh.
\<close>

theorem health_rests_on_fresh_observation:
  assumes "hs_check observe now h k = Inr (h', c)" and "hc_status c \<noteq> HealthUnknown"
  shows "\<exists>d ob t. dep_get (hs_deployments h) k = Some d \<and> observe d = Some ob \<and>
    parse_stamp (ob_observed_at ob) = Some t \<and> now - t \<le> hs_horizon h \<and>
    hc_status c = ob_status ob \<and> hc_confidence c = ConfFresh"
proof -
  from assms(1) obtain d where d: "dep_get (hs_deployments h) k = Some d"
    and c: "c = (case observe d of None \<Rightarrow> check_absent (fresh_check (hs_horizon h) now d) d
      | Some ob \<Rightarrow> check_observed (hs_horizon h) now (fresh_check (hs_horizon h) now d) d ob)"
    unfolding hs_check_Inr by blast
  show ?thesis
  proof (cases "observe d")
    case None
    with c assms(2) show ?thesis by (simp add: check_absent_def)
  next
    case (Some ob)
    with c assms(2) d check_observed_health [of "hs_horizon h" now _ d ob] show ?thesis by fastforce
  qed
qed

definition example_fabric :: health_service where
  "example_fabric = \<lparr>hs_store = [], hs_deployments = example_running, hs_horizon = 300000000\<rparr>"

definition example_observe :: "deployment \<Rightarrow> target_observation option" where
  "example_observe = stub_observe (stub_report \<lparr>ob_deployment_id = ''dep_1'', ob_tenant_id = ''tnt'',
     ob_state = Some DepStopped, ob_revision = ''rev'', ob_status = HealthDegraded,
     ob_observed_at = At 5\<rparr> [])"

definition example_check :: "health_service \<times> health_check" where
  "example_check = projr (hs_check example_observe 60000005 example_fabric ''dep_1'')"

lemma example_check_Inr:
  "hs_check example_observe 60000005 example_fabric ''dep_1'' = Inr (fst example_check, snd example_check)"
proof -
  have "\<not> isl (hs_check example_observe 60000005 example_fabric ''dep_1'')" by code_simp
  then show ?thesis unfolding example_check_def by simp
qed

theorem health_rests_on_fresh_observation_witness:
  "hc_status (snd example_check) = HealthDegraded \<and> hc_confidence (snd example_check) = ConfFresh"
proof -
  have st: "hc_status (snd example_check) = HealthDegraded" by code_simp
  then have "hc_status (snd example_check) \<noteq> HealthUnknown" by simp
  from health_rests_on_fresh_observation [OF example_check_Inr this]
  have "hc_confidence (snd example_check) = ConfFresh" by (elim exE conjE)
  with st show ?thesis by (rule conjI)
qed

text \<open>
  A check raises no drift signal exactly when belief and observation agree: with no
  observation, when the deployment is in a state the target need not know; with one, when it is
  fresh, names the believed state or none, and names the believed revision unless one of the two
  is not known.
\<close>

theorem no_drift_iff_belief_and_observation_agree:
  assumes "hs_check observe now h k = Inr (h', c)" and "dep_get (hs_deployments h) k = Some d"
  shows "\<not> drifted c \<longleftrightarrow>
    (case observe d of
       None \<Rightarrow> d_state d \<in> {DepRequested, DepGenerated, DepRetired}
     | Some ob \<Rightarrow> (\<exists>t. parse_stamp (ob_observed_at ob) = Some t \<and> now - t \<le> hs_horizon h) \<and>
         ob_state ob \<in> {None, Some (d_state d)} \<and>
         (d_revision d = [] \<or> ob_revision ob = [] \<or> ob_revision ob = d_revision d))"
proof -
  have absent: "d_state d \<in> {DepRequested, DepGenerated, DepRetired} \<longleftrightarrow> \<not> expected_on_target (d_state d)"
    by (cases "d_state d") (simp_all add: expected_on_target_def)
  from assms show ?thesis
    unfolding absent
    by (auto simp: hs_check_Inr drifted_def check_absent_def check_observed_def fresh_check_def Let_def
        split: option.splits if_splits)
qed

theorem no_drift_iff_belief_and_observation_agree_witness:
  "drifted (snd example_check)"
proof -
  obtain d where d: "dep_get (hs_deployments example_fabric) ''dep_1'' = Some d" "d_state d = DepRunning"
    using example_running_state by (auto simp: example_fabric_def)
  moreover have "d_id d = ''dep_1''"
  proof -
    have "map_option d_id (dep_get example_running ''dep_1'') = Some ''dep_1''" by code_simp
    with d show ?thesis by (simp add: example_fabric_def)
  qed
  ultimately show ?thesis
    using no_drift_iff_belief_and_observation_agree [OF example_check_Inr d(1)]
    by (simp add: example_observe_def stub_observe_def stub_report_def)
qed

text \<open>
  Unmanaged workloads are found: while a tenant's deployments are within the listing limit of
  500, the reported ids that no deployment of the tenant has are signalled, each once per report,
  in the order reported, and no other.
\<close>

theorem unknown_workloads_are_signalled:
  assumes "dep_inv (hs_deployments h)" and "length (hs_deployments h) \<le> 500"
    and "\<And>r. r \<in> set (hs_deployments h) \<Longrightarrow> row_parent r = Some (d_tenant_id (row_body r))"
  shows "map sg_deployment_id (hs_unknown_to_fabric h tenant reported) =
    filter (\<lambda>k. \<not> (\<exists>d. dep_get (hs_deployments h) k = Some d \<and> d_tenant_id d = tenant)) reported"
proof -
  let ?s = "hs_deployments h"
  have ids: "store_get ?s (row_id r) = Some (row_body r) \<and> d_id (row_body r) = row_id r" if "r \<in> set ?s" for r
    using assms(1) that by (auto simp: dep_inv_def dep_get_def store_get_member)
  have "length (filter (\<lambda>r. row_parent r = Some tenant) ?s) \<le> 500"
    using assms(2) length_filter_le le_trans by blast
  then have listed: "set (dep_list ?s (Some tenant)) = row_body ` {r \<in> set ?s. row_parent r = Some tenant}"
    by (simp add: dep_list_def store_list_def Let_def)
  have "k \<in> d_id ` set (dep_list ?s (Some tenant)) \<longleftrightarrow> (\<exists>d. dep_get ?s k = Some d \<and> d_tenant_id d = tenant)"
    for k
  proof
    assume "k \<in> d_id ` set (dep_list ?s (Some tenant))"
    then show "\<exists>d. dep_get ?s k = Some d \<and> d_tenant_id d = tenant"
      using ids assms(3) by (auto simp: listed dep_get_def)
  next
    assume "\<exists>d. dep_get ?s k = Some d \<and> d_tenant_id d = tenant"
    then obtain d r where "r \<in> set ?s" "row_id r = k" "row_body r = d" "d_tenant_id d = tenant"
      by (auto simp: dep_get_def dest: store_get_row)
    then show "k \<in> d_id ` set (dep_list ?s (Some tenant))"
      using ids assms(3) unfolding listed by force
  qed
  then show ?thesis by (simp add: hs_unknown_to_fabric_def Let_def comp_def)
qed

theorem unknown_workloads_are_signalled_witness:
  "map sg_deployment_id (hs_unknown_to_fabric example_fabric ''tnt'' [''dep_1'', ''rogue'']) = [''rogue'']"
proof -
  have inv: "dep_inv (hs_deployments example_fabric)"
    using dep_steps_inv [OF example_running_reached dep_inv_empty] by (simp add: example_fabric_def)
  have len: "length (hs_deployments example_fabric) \<le> 500" by code_simp
  have "list_all (\<lambda>r. row_parent r = Some (d_tenant_id (row_body r))) (hs_deployments example_fabric)"
    by code_simp
  then have parents: "row_parent r = Some (d_tenant_id (row_body r))"
    if "r \<in> set (hs_deployments example_fabric)" for r using that by (simp add: list_all_iff)
  have "map_option d_tenant_id (dep_get (hs_deployments example_fabric) ''dep_1'') = Some ''tnt''"
    "dep_get (hs_deployments example_fabric) ''rogue'' = None" by code_simp+
  with unknown_workloads_are_signalled [OF inv len parents, of "''tnt''" "[''dep_1'', ''rogue'']"]
  show ?thesis by auto
qed

text \<open>A report dated after the check has a negative age, so it counts as fresh however far ahead
  its clock is.\<close>

lemma future_report_is_fresh:
  "parse_stamp (ob_observed_at ob) = Some t \<Longrightarrow> now < t \<Longrightarrow> 0 \<le> hz \<Longrightarrow>
   hc_confidence (check_observed hz now c d ob) = ConfFresh \<and>
   hc_status (check_observed hz now c d ob) = ob_status ob"
  by (simp add: check_observed_def Let_def)

end
