(* ===== verification/AuditLog.thy ===== *)
theory AuditLog
  imports DocStore
begin

text \<open>
  The two append-only audit logs: the fabric's over the document store (\<open>fabric/audit.py\<close>) and
  the designer's over the repository's audit slice (\<open>designer/audit.py\<close> with the in-memory
  \<open>append_audit\<close> and \<open>audit_events\<close> of \<open>designer/repository.py\<close>). Time stamps are the ISO strings
  the logs compare and sort by. An action is its value; the free-form \<open>detail\<close> dictionary is of a
  type of its own. Whether the storage backend raises is an argument of \<open>record\<close>, which then logs
  and returns \<open>None\<close>.
\<close>

section \<open>Events\<close>

datatype audit_outcome = OutSuccess | OutDenied | OutConflict | OutFailed

datatype fabric_action =
    TenantRead | DeploymentRead | HealthRead | QuotaRead | ServiceRead | AuditRead
  | TenantRegister | TenantLifecycle
  | ActDeploy | ActStop | ActQuarantine | ActRedeploy | ActRequota | ActGrant | ActRevoke

fun fabric_action_value :: "fabric_action \<Rightarrow> string" where
  "fabric_action_value TenantRead = ''fabric.tenant.read''"
| "fabric_action_value DeploymentRead = ''fabric.deployment.read''"
| "fabric_action_value HealthRead = ''fabric.health.read''"
| "fabric_action_value QuotaRead = ''fabric.quota.read''"
| "fabric_action_value ServiceRead = ''fabric.service.read''"
| "fabric_action_value AuditRead = ''fabric.audit.read''"
| "fabric_action_value TenantRegister = ''fabric.tenant.register''"
| "fabric_action_value TenantLifecycle = ''fabric.tenant.lifecycle''"
| "fabric_action_value ActDeploy = ''fabric.deployment.deploy''"
| "fabric_action_value ActStop = ''fabric.deployment.stop''"
| "fabric_action_value ActQuarantine = ''fabric.deployment.quarantine''"
| "fabric_action_value ActRedeploy = ''fabric.deployment.redeploy''"
| "fabric_action_value ActRequota = ''fabric.quota.write''"
| "fabric_action_value ActGrant = ''fabric.operator.grant''"
| "fabric_action_value ActRevoke = ''fabric.operator.revoke''"

record ('a, 'd) audit_event =
  ev_id :: string
  ev_timestamp :: string
  ev_actor :: string
  ev_actor_name :: string
  ev_action :: 'a
  ev_outcome :: audit_outcome
  ev_workspace_id :: string
  ev_system_id :: string
  ev_version_before :: "int option"
  ev_version_after :: "int option"
  ev_merged :: bool
  ev_conflict_paths :: "string list"
  ev_lock_target :: string
  ev_lock_holder :: string
  ev_permission :: string
  ev_reason :: string
  ev_detail :: 'd

record 'd fabric_event = "(fabric_action, 'd) audit_event" +
  fe_tenant_id :: string
  fe_deployment_id :: string
  fe_cross_tenant :: bool
  fe_route :: string
  fe_operator_roles :: "string list"

definition order_key :: "('a, 'd, 'z) audit_event_scheme \<Rightarrow> string \<times> string" where
  "order_key e = (ev_timestamp e, ev_id e)"

text \<open>\<open>list.sort(key=\<dots>, reverse=True)\<close>: descending, and stable.\<close>

definition newest_first :: "('a, 'd, 'z) audit_event_scheme list \<Rightarrow> ('a, 'd, 'z) audit_event_scheme list" where
  "newest_first es = rev (sort_key order_key (rev es))"

definition matches :: "'a option \<Rightarrow> 'a \<Rightarrow> bool" where
  "matches want x = (case want of None \<Rightarrow> True | Some y \<Rightarrow> x = y)"

section \<open>The fabric's log\<close>

definition fal_record ::
  "bool \<Rightarrow> instant \<Rightarrow> string \<Rightarrow> string \<Rightarrow> fabric_action \<Rightarrow> string \<Rightarrow> string \<Rightarrow> audit_outcome \<Rightarrow> string \<Rightarrow>
     string \<Rightarrow> bool \<Rightarrow> string \<Rightarrow> string \<Rightarrow> string \<Rightarrow> string list \<Rightarrow> 'd \<Rightarrow> 'd fabric_event docs \<Rightarrow>
     'd fabric_event docs \<times> 'd fabric_event option" where
  "fal_record storage_raises now fresh stamp action actor actor_name outcome tenant_id deployment_id
     cross_tenant route permission reason roles detail log =
     (let e = \<lparr>ev_id = fresh, ev_timestamp = stamp, ev_actor = actor, ev_actor_name = actor_name,
               ev_action = action, ev_outcome = outcome, ev_workspace_id = [], ev_system_id = [],
               ev_version_before = None, ev_version_after = None, ev_merged = False,
               ev_conflict_paths = [], ev_lock_target = [], ev_lock_holder = [],
               ev_permission = permission, ev_reason = reason, ev_detail = detail,
               fe_tenant_id = tenant_id, fe_deployment_id = deployment_id,
               fe_cross_tenant = cross_tenant, fe_route = route, fe_operator_roles = roles\<rparr>
      in if storage_raises then (log, None)
         else (store_put now (ev_id e) e (if tenant_id = [] then None else Some tenant_id)
                 (Some (fabric_action_value action)) log, Some e))"

definition fal_query ::
  "string option \<Rightarrow> string option \<Rightarrow> fabric_action option \<Rightarrow> audit_outcome option \<Rightarrow> bool \<Rightarrow> nat \<Rightarrow>
     'd fabric_event docs \<Rightarrow> 'd fabric_event list" where
  "fal_query tenant_id actor action outcome cross_tenant_only limit log =
     take limit (newest_first (filter (\<lambda>e.
         matches tenant_id (fe_tenant_id e) \<and> matches actor (ev_actor e) \<and>
         matches action (ev_action e) \<and> matches outcome (ev_outcome e) \<and>
         (cross_tenant_only \<longrightarrow> fe_cross_tenant e))
       (store_list None 10000 0 log)))"

definition max_scope_ids :: nat where
  "max_scope_ids = 50"

record scope_summary =
  sc_tenant_count :: nat
  sc_tenant_ids :: "string list"
  sc_truncated :: bool

definition scope_detail :: "string list \<Rightarrow> scope_summary" where
  "scope_detail tenant_ids =
     \<lparr>sc_tenant_count = length tenant_ids,
      sc_tenant_ids = take max_scope_ids (sort tenant_ids),
      sc_truncated = (length tenant_ids > max_scope_ids)\<rparr>"

text \<open>A run of the fabric's log: whatever is recorded, under an id the log does not hold.\<close>

inductive fal_step :: "'d fabric_event docs \<Rightarrow> 'd fabric_event docs \<Rightarrow> bool" where
  recorded: "store_get log fresh = None \<Longrightarrow>
     fal_step log (fst (fal_record storage_raises now fresh stamp action actor actor_name outcome
       tenant_id deployment_id cross_tenant route permission reason roles detail log))"

section \<open>The designer's log over the in-memory repository\<close>

type_synonym ('a, 'd) audit_memory = "('a, 'd) audit_event list"

definition mem_append_audit ::
  "('a, 'd) audit_event \<Rightarrow> ('a, 'd) audit_memory \<Rightarrow> ('a, 'd) audit_memory" where
  "mem_append_audit e log = log @ [e]"

text \<open>\<open>found[-limit:]\<close>; \<open>limit\<close> 0 would be the whole list.\<close>

definition mem_audit_events ::
  "string option \<Rightarrow> nat \<Rightarrow> ('a, 'd) audit_memory \<Rightarrow> ('a, 'd) audit_event list" where
  "mem_audit_events system_id limit log =
     (let found = filter (\<lambda>e. matches system_id (ev_system_id e)) log
      in if limit = 0 then found else drop (length found - limit) found)"

text \<open>\<open>record\<close> fills actor and name from the actor; the event's other fields are the caller's.\<close>

definition dal_record ::
  "bool \<Rightarrow> string \<Rightarrow> string \<Rightarrow> ('a, 'd) audit_event \<Rightarrow> ('a, 'd) audit_memory \<Rightarrow>
     ('a, 'd) audit_memory \<times> ('a, 'd) audit_event option" where
  "dal_record storage_raises user_id label e log =
     (let e' = e\<lparr>ev_actor := user_id, ev_actor_name := label\<rparr>
      in if storage_raises then (log, None) else (mem_append_audit e' log, Some e'))"

definition dal_query ::
  "string option \<Rightarrow> string option \<Rightarrow> 'a option \<Rightarrow> audit_outcome option \<Rightarrow> string set option \<Rightarrow>
     string option \<Rightarrow> string option \<Rightarrow> nat \<Rightarrow> ('a, 'd) audit_memory \<Rightarrow> ('a, 'd) audit_event list" where
  "dal_query system_id actor action outcome workspace_ids since before limit log =
     take limit (newest_first (filter (\<lambda>e.
         matches actor (ev_actor e) \<and> matches action (ev_action e) \<and> matches outcome (ev_outcome e) \<and>
         (case workspace_ids of None \<Rightarrow> True | Some ws \<Rightarrow> ev_workspace_id e \<in> ws) \<and>
         (case since of None \<Rightarrow> True | Some t \<Rightarrow> t \<le> ev_timestamp e) \<and>
         (case before of None \<Rightarrow> True | Some t \<Rightarrow> ev_timestamp e < t))
       (mem_audit_events system_id 5000 log)))"

section \<open>Newest first\<close>

lemma set_newest_first [simp]: "set (newest_first es) = set es"
  by (simp add: newest_first_def)

lemma length_newest_first [simp]: "length (newest_first es) = length es"
  by (simp add: newest_first_def)

lemma newest_first_sorted: "sorted_wrt (\<lambda>a b. order_key b \<le> order_key a) (newest_first es)"
  using sorted_sort_key [of order_key "rev es"]
  by (simp add: newest_first_def sorted_wrt_rev sorted_map)

lemma newest_first_take:
  "sorted_wrt (\<lambda>a b. order_key b \<le> order_key a) (take n (newest_first es))"
  by (rule sorted_wrt_take) (rule newest_first_sorted)

text \<open>What a limited query leaves out is older than all it returns.\<close>

lemma newest_first_cut:
  assumes "e \<in> set es" and "e \<notin> set (take n (newest_first es))" and "x \<in> set (take n (newest_first es))"
  shows "order_key e \<le> order_key x"
proof -
  have split: "take n (newest_first es) @ drop n (newest_first es) = newest_first es" by simp
  have "sorted_wrt (\<lambda>a b. order_key b \<le> order_key a) (take n (newest_first es) @ drop n (newest_first es))"
    unfolding split by (rule newest_first_sorted)
  moreover have "e \<in> set (drop n (newest_first es))"
    using assms(1,2) set_newest_first [of es] by (metis Un_iff append_take_drop_id set_append)
  ultimately show ?thesis using assms(3) by (simp only: sorted_wrt_append)
qed

lemma take_all_listed: "length log \<le> 10000 \<Longrightarrow> set (store_list None 10000 0 log) = row_body ` set log"
  by (rule store_list_all)

lemma fal_step_keeps: "fal_step log log' \<Longrightarrow> store_get log k = Some e \<Longrightarrow> store_get log' k = Some e"
  by (induction rule: fal_step.induct) (auto simp: fal_record_def Let_def store_get_put)

lemma fal_step_wf: "fal_step log log' \<Longrightarrow> wf_docs log \<Longrightarrow> wf_docs log'"
  by (induction rule: fal_step.induct) (simp add: fal_record_def Let_def wf_docs_put)

section \<open>Properties\<close>

text \<open>
  The fabric's audit log is append-only: an event once recorded is read back unchanged after
  anything that is recorded later, storage failures included, and a query that is not cut by its
  limit or by the read window of 10000 rows returns it whenever it matches.
\<close>

theorem fabric_audit_is_append_only:
  assumes "fal_step\<^sup>*\<^sup>* log log'" and "store_get log k = Some e"
    and "length log' \<le> 10000" and "length log' \<le> limit"
  shows "store_get log' k = Some e \<and>
    (matches tenant (fe_tenant_id e) \<and> matches actor (ev_actor e) \<and> matches action (ev_action e) \<and>
       matches outcome (ev_outcome e) \<and> (cross \<longrightarrow> fe_cross_tenant e) \<longrightarrow>
     e \<in> set (fal_query tenant actor action outcome cross limit log'))"
proof -
  have kept: "store_get log' k = Some e"
    using assms(1,2) by (induction rule: rtranclp_induct) (auto dest: fal_step_keeps)
  then have listed: "e \<in> set (store_list None 10000 0 log')"
    using assms(3) by (auto simp: store_list_all dest: store_get_row)
  have "length (store_list None 10000 0 log') \<le> limit"
    using assms(4) by (simp add: store_list_def)
  then have short: "length (newest_first (filter P (store_list None 10000 0 log'))) \<le> limit" for P
    by (simp add: le_trans [OF length_filter_le])
  with kept listed show ?thesis by (simp add: fal_query_def)
qed

definition example_log :: "unit fabric_event docs" where
  "example_log = fst (fal_record False 0 ''fab_1'' ''2026-01-01'' ActDeploy ''ana'' [] OutDenied
     ''tnt'' [] False [] [] [] [] () [])"

definition example_later :: "unit fabric_event docs" where
  "example_later = fst (fal_record False 1 ''fab_2'' ''2026-01-02'' ActGrant ''bob'' [] OutSuccess
     [] [] True [] [] [] [] () example_log)"

lemma example_later_step: "fal_step\<^sup>*\<^sup>* example_log example_later"
  unfolding example_later_def by (rule r_into_rtranclp, rule fal_step.recorded)
    (simp add: example_log_def fal_record_def Let_def store_get_put, simp add: store_get_def)

theorem fabric_audit_is_append_only_witness:
  "\<exists>e. store_get example_later ''fab_1'' = Some e \<and>
     e \<in> set (fal_query (Some ''tnt'') None None (Some OutDenied) False 5 example_later)"
proof -
  obtain e where e: "store_get example_log ''fab_1'' = Some e" "fe_tenant_id e = ''tnt''"
      "ev_outcome e = OutDenied"
    by (simp add: example_log_def fal_record_def Let_def store_get_put)
  have len: "length example_later \<le> 10000" "length example_later \<le> 5" by code_simp+
  from fabric_audit_is_append_only [OF example_later_step e(1) len, where tenant = "Some ''tnt''"
      and actor = None and action = None and outcome = "Some OutDenied" and cross = False] e(2,3)
  show ?thesis by (auto simp: matches_def)
qed

definition dal_wanted where
  "dal_wanted system_id actor action outcome workspace_ids since before e \<longleftrightarrow>
     matches system_id (ev_system_id e) \<and>
     matches actor (ev_actor e) \<and> matches action (ev_action e) \<and> matches outcome (ev_outcome e) \<and>
     (case workspace_ids of None \<Rightarrow> True | Some ws \<Rightarrow> ev_workspace_id e \<in> ws) \<and>
     (case since of None \<Rightarrow> True | Some t \<Rightarrow> t \<le> ev_timestamp e) \<and>
     (case before of None \<Rightarrow> True | Some t \<Rightarrow> ev_timestamp e < t)"

lemma dal_query_take:
  assumes "length log \<le> 5000"
  shows "dal_query system_id actor action outcome workspace_ids since before limit log =
    take limit (newest_first
      (filter (dal_wanted system_id actor action outcome workspace_ids since before) log))"
proof -
  have "length (filter (\<lambda>e. matches system_id (ev_system_id e)) log) \<le> 5000"
    using assms length_filter_le le_trans by blast
  then have "mem_audit_events system_id 5000 log = filter (\<lambda>e. matches system_id (ev_system_id e)) log"
    by (simp add: mem_audit_events_def Let_def)
  then show ?thesis
    by (simp add: dal_query_def dal_wanted_def [abs_def] conj_ac cong: conj_cong)
qed

text \<open>
  A query of the designer's log is exact: it returns only stored events that match every
  filter, at most as many as asked for, newest first by time and then id; and while the log is
  within the read window of 5000 events, a matching event it leaves out is no newer than any it
  returns, and nothing is left out below the limit.
\<close>

theorem designer_audit_query_is_exact:
  assumes "length log \<le> 5000"
    and "found = dal_query system_id actor action outcome workspace_ids since before limit log"
    and "wanted = filter (dal_wanted system_id actor action outcome workspace_ids since before) log"
  shows "set found \<subseteq> set wanted \<and> length found = min limit (length wanted) \<and>
    sorted_wrt (\<lambda>a b. order_key b \<le> order_key a) found \<and>
    (\<forall>e \<in> set wanted. e \<notin> set found \<longrightarrow> (\<forall>x \<in> set found. order_key e \<le> order_key x))"
proof -
  have found: "found = take limit (newest_first wanted)"
    unfolding assms(2,3) by (rule dal_query_take [OF assms(1)])
  then show ?thesis
    using newest_first_cut [of _ wanted limit] newest_first_take [of limit wanted]
    by (auto dest: in_set_takeD)
qed

definition example_event :: "string \<Rightarrow> string \<Rightarrow> (string, unit) audit_event" where
  "example_event k t = \<lparr>ev_id = k, ev_timestamp = t, ev_actor = [], ev_actor_name = [],
     ev_action = ''system.save'', ev_outcome = OutSuccess, ev_workspace_id = [], ev_system_id = ''s'',
     ev_version_before = None, ev_version_after = None, ev_merged = False, ev_conflict_paths = [],
     ev_lock_target = [], ev_lock_holder = [], ev_permission = [], ev_reason = [], ev_detail = ()\<rparr>"

definition example_audit :: "(string, unit) audit_memory" where
  "example_audit = fst (dal_record False ''bob'' ''Bob'' (example_event ''2'' ''2026-02'')
     (fst (dal_record False ''ana'' ''Ana'' (example_event ''1'' ''2026-01'') [])))"

theorem designer_audit_query_is_exact_witness:
  "length (dal_query (Some ''s'') None None None None None None 1 example_audit) = 1"
proof -
  have len: "length example_audit \<le> 5000" by code_simp
  have "length (filter (dal_wanted (Some ''s'') None None None None None None) example_audit) = 2"
    by code_simp
  with designer_audit_query_is_exact [OF len refl refl, where limit = 1 and system_id = "Some ''s''"
      and actor = None and action = None and outcome = None and workspace_ids = None and since = None
      and before = None]
  show ?thesis by simp
qed

end
