(* ===== verification/PyValue.thy ===== *)
theory PyValue
  imports Prelude
begin

text \<open>
  JSON-like Python values, as the design documents, policy conditions and request contexts hold
  them: \<open>None\<close>, booleans, integers, strings, lists and dictionaries in insertion order. Floats do
  not occur in what the components below read and are not modelled. Equality is Python's
  \<open>==\<close>: \<open>True == 1\<close>, and the order of a dictionary does not count. It compares canonical forms,
  in which a boolean is its integer and a dictionary is sorted by key.
\<close>

datatype pyval =
    PNone | PBool bool | PInt int | PStr string | PList "pyval list" | PDict "(string \<times> pyval) list"

fun canon :: "pyval \<Rightarrow> pyval" where
  "canon (PBool b) = PInt (if b then 1 else 0)"
| "canon (PList xs) = PList (map canon xs)"
| "canon (PDict d) = PDict (sort_key fst (map (\<lambda>(k, v). (k, canon v)) d))"
| "canon v = v"

definition py_eq :: "pyval \<Rightarrow> pyval \<Rightarrow> bool" where
  "py_eq a b \<longleftrightarrow> canon a = canon b"

definition py_in :: "pyval \<Rightarrow> pyval list \<Rightarrow> bool" where
  "py_in x xs \<longleftrightarrow> (\<exists>y \<in> set xs. py_eq x y)"

fun truthy :: "pyval \<Rightarrow> bool" where
  "truthy PNone = False"
| "truthy (PBool b) = b"
| "truthy (PInt i) = (i \<noteq> 0)"
| "truthy (PStr s) = (s \<noteq> [])"
| "truthy (PList xs) = (xs \<noteq> [])"
| "truthy (PDict d) = (d \<noteq> [])"

text \<open>\<open>int(v)\<close>; \<open>None\<close> is the \<open>TypeError\<close> or \<open>ValueError\<close> it raises. A string may have a sign, and
  single underscores between its digits.\<close>

definition parse_digits :: "string \<Rightarrow> nat option" where
  "parse_digits s =
     (let groups = split_on (CHR 0x5F) s
      in if \<forall>g \<in> set groups. g \<noteq> [] \<and> list_all is_digit g
         then Some (foldl (\<lambda>n c. 10 * n + (of_char c - 48)) 0 (concat groups)) else None)"

definition parse_int :: "string \<Rightarrow> int option" where
  "parse_int s =
     (case py_strip s of
        [] \<Rightarrow> None
      | c # cs \<Rightarrow>
          if c = CHR 0x2D then map_option (\<lambda>n. - int n) (parse_digits cs)
          else if c = CHR 0x2B then map_option int (parse_digits cs)
          else map_option int (parse_digits (c # cs)))"

fun py_int :: "pyval \<Rightarrow> int option" where
  "py_int (PBool b) = Some (if b then 1 else 0)"
| "py_int (PInt i) = Some i"
| "py_int (PStr s) = parse_int s"
| "py_int v = None"

text \<open>What \<open><=\<close> and \<open><\<close> accept beside an integer.\<close>

fun number :: "pyval \<Rightarrow> int option" where
  "number (PBool b) = Some (if b then 1 else 0)"
| "number (PInt i) = Some i"
| "number v = None"

section \<open>Lemmas\<close>

lemma py_eq_refl [simp]: "py_eq a a"
  by (simp add: py_eq_def)

lemma py_eq_sym: "py_eq a b \<Longrightarrow> py_eq b a"
  by (simp add: py_eq_def)

lemma py_eq_trans: "py_eq a b \<Longrightarrow> py_eq b c \<Longrightarrow> py_eq a c"
  by (simp add: py_eq_def)

lemma py_eq_str [simp]:
  "py_eq (PStr s) (PStr t) \<longleftrightarrow> s = t"
  by (simp add: py_eq_def)

lemma map_of_by_filter:
  "map_of e k = (case filter (\<lambda>p. fst p = k) e of [] \<Rightarrow> None | p # _ \<Rightarrow> Some (snd p))"
  by (induction e) (auto split: list.splits)

lemma map_of_sort_key: "map_of (sort_key fst d) k = map_of d k"
  unfolding map_of_by_filter by (simp add: sort_key_stable)

lemma map_of_canon:
  "map_of (sort_key fst (map (\<lambda>(k, v). (k, canon v)) d)) k = map_option canon (map_of d k)"
  unfolding map_of_sort_key by (induction d) auto

lemma size_map_of: "map_of d k = Some v \<Longrightarrow> size v < size (PDict d)"
  by (induction d) (auto split: if_splits)

lemma size_in_list: "v \<in> set xs \<Longrightarrow> size v < size (PList xs)"
  by (induction xs) auto

end
