(* ===== verification/Rbac.thy ===== *)
theory Rbac
  imports PyValue
begin

text \<open>
  The deny-by-default policy engine (\<open>security/rbac.py\<close>), with the permissions, rules and condition
  vocabulary of \<open>spec/model.py\<close>. Conditions and request contexts are dictionaries of Python
  values. An evaluation ends in one of three ways: a decision, the \<open>UnevaluableCondition\<close> that
  \<open>decide\<close> turns into a refusal, or a \<open>TypeError\<close> or \<open>ValueError\<close> of a malformed condition, which
  it does not catch. \<open>fnmatch\<close> is the standard library's, on POSIX, where case counts.
\<close>

section \<open>Permissions and rules\<close>

datatype rbac_action =
  ActRead | ActWrite | ActQuery | ActInvoke | ActDelegate | ActPublish | ActApprove | ActAdminister

datatype resource_kind =
  KindDataClass | KindCapability | KindAgent | KindTeam | KindWorkflow | KindEnvironment | KindChannel

datatype rule_effect = EffectAllow | EffectDeny

fun rbac_action_value :: "rbac_action \<Rightarrow> string" where
  "rbac_action_value ActRead = ''read''"
| "rbac_action_value ActWrite = ''write''"
| "rbac_action_value ActQuery = ''query''"
| "rbac_action_value ActInvoke = ''invoke''"
| "rbac_action_value ActDelegate = ''delegate''"
| "rbac_action_value ActPublish = ''publish''"
| "rbac_action_value ActApprove = ''approve''"
| "rbac_action_value ActAdminister = ''administer''"

fun resource_kind_value :: "resource_kind \<Rightarrow> string" where
  "resource_kind_value KindDataClass = ''data_class''"
| "resource_kind_value KindCapability = ''capability''"
| "resource_kind_value KindAgent = ''agent''"
| "resource_kind_value KindTeam = ''team''"
| "resource_kind_value KindWorkflow = ''workflow''"
| "resource_kind_value KindEnvironment = ''environment''"
| "resource_kind_value KindChannel = ''channel''"

type_synonym conditions = "(string \<times> pyval) list"

record permission =
  pm_action :: rbac_action
  pm_resource_kind :: resource_kind
  pm_resource :: string
  pm_conditions :: conditions

definition permission_key :: "permission \<Rightarrow> string" where
  "permission_key p = rbac_action_value (pm_action p) @ '':'' @
     resource_kind_value (pm_resource_kind p) @ '':'' @ pm_resource p"

definition policy_condition_keys :: "string list" where
  "policy_condition_keys = [''max_delegation_depth'', ''requires_approval'', ''environments'',
     ''data_classes'', ''groups'', ''time_window'']"

record policy_rule =
  pr_id :: string
  pr_effect :: rule_effect
  pr_description :: string
  pr_actions :: "rbac_action list"
  pr_resource_kinds :: "resource_kind list"
  pr_resources :: "string list"
  pr_subjects :: "string list"
  pr_conditions :: conditions
  pr_unless :: conditions

record subject =
  su_id :: string
  su_team_id :: string
  su_team_path :: "string list"
  su_role_ids :: "string list"
  su_groups :: "string list"
  su_is_leader :: bool

definition identifiers :: "subject \<Rightarrow> string list" where
  "identifiers s = su_id s # su_team_id s # su_team_path s @ su_role_ids s"

record request =
  rq_action :: rbac_action
  rq_resource_kind :: resource_kind
  rq_resource :: string
  rq_context :: "(string \<times> pyval) list"

section \<open>\<open>fnmatch\<close>\<close>

datatype glob_item = One char | Span char char

datatype glob_token = Star | AnyChar | Class bool "glob_item list" | Lit char

fun class_items :: "string \<Rightarrow> glob_item list" where
  "class_items (a # b # c # cs) =
     (if b = CHR ''-'' then Span a c # class_items cs else One a # class_items (b # c # cs))"
| "class_items (a # cs) = One a # class_items cs"
| "class_items [] = []"

fun find_close :: "string \<Rightarrow> (string \<times> string) option" where
  "find_close [] = None"
| "find_close (c # cs) =
     (if c = CHR '']'' then Some ([], cs)
      else map_option (\<lambda>(b, r). (c # b, r)) (find_close cs))"

text \<open>After \<open>[\<close>: an optional \<open>!\<close>, then a \<open>]\<close> is literal if it comes first.\<close>

definition close_after :: "string \<Rightarrow> (string \<times> string) option" where
  "close_after cs =
     (case cs of
        c # cs' \<Rightarrow> if c = CHR '']'' then map_option (\<lambda>(b, r). (c # b, r)) (find_close cs')
                   else find_close cs
      | [] \<Rightarrow> None)"

definition split_class :: "string \<Rightarrow> (bool \<times> string \<times> string) option" where
  "split_class cs =
     (case cs of
        c # cs' \<Rightarrow> if c = CHR ''!'' then map_option (\<lambda>(b, r). (True, b, r)) (close_after cs')
                   else map_option (\<lambda>(b, r). (False, b, r)) (close_after cs)
      | [] \<Rightarrow> None)"

lemma find_close_length: "find_close cs = Some (b, r) \<Longrightarrow> length r < length cs"
  by (induction cs arbitrary: b r) (fastforce split: if_splits)+

lemma split_class_length: "split_class cs = Some (n, b, r) \<Longrightarrow> length r < length cs"
  by (auto simp: split_class_def close_after_def split: list.splits if_splits dest!: find_close_length)

function glob_parse :: "string \<Rightarrow> glob_token list" where
  "glob_parse [] = []"
| "glob_parse (c # cs) =
     (if c = CHR ''*'' then Star # glob_parse cs
      else if c = CHR ''?'' then AnyChar # glob_parse cs
      else if c = CHR ''['' then
        (case split_class cs of
           None \<Rightarrow> Lit c # glob_parse cs
         | Some (neg, body, rest) \<Rightarrow> Class neg (class_items body) # glob_parse rest)
      else Lit c # glob_parse cs)"
  by pat_completeness auto
termination by (relation "measure length") (auto dest: split_class_length)

fun in_item :: "char \<Rightarrow> glob_item \<Rightarrow> bool" where
  "in_item c (One a) = (c = a)"
| "in_item c (Span a b) = (a \<le> c \<and> c \<le> b)"

fun glob_match :: "glob_token list \<Rightarrow> string \<Rightarrow> bool" where
  "glob_match [] s = (s = [])"
| "glob_match (Star # ts) [] = glob_match ts []"
| "glob_match (Star # ts) (c # s) = (glob_match ts (c # s) \<or> glob_match (Star # ts) s)"
| "glob_match (t # ts) [] = False"
| "glob_match (AnyChar # ts) (c # s) = glob_match ts s"
| "glob_match (Class neg is # ts) (c # s) = ((neg \<noteq> list_ex (in_item c) is) \<and> glob_match ts s)"
| "glob_match (Lit a # ts) (c # s) = (c = a \<and> glob_match ts s)"

definition fnmatch :: "string \<Rightarrow> string \<Rightarrow> bool" where
  "fnmatch name pat = glob_match (glob_parse pat) name"

definition rbac_matches :: "string \<Rightarrow> string \<Rightarrow> bool" where
  "rbac_matches pat val = (pat = ''*'' \<or> fnmatch val pat)"

section \<open>Conditions\<close>

datatype rbac_error = Unevaluable "string list" | PyRaise

definition unknown_condition_keys :: "conditions \<Rightarrow> string list" where
  "unknown_condition_keys cs = sorted_set (filter (\<lambda>k. k \<notin> set policy_condition_keys) (map fst cs))"

definition need :: "'a option \<Rightarrow> rbac_error + 'a" where
  "need x = (case x of None \<Rightarrow> Inl PyRaise | Some y \<Rightarrow> Inr y)"

text \<open>\<open>x in v\<close>, for a list, the keys of a dictionary, and a substring.\<close>

fun value_in :: "pyval \<Rightarrow> pyval \<Rightarrow> rbac_error + bool" where
  "value_in x (PList xs) = Inr (py_in x xs)"
| "value_in x (PDict d) =
     (case x of PList _ \<Rightarrow> Inl PyRaise | PDict _ \<Rightarrow> Inl PyRaise
      | _ \<Rightarrow> Inr (py_in x (map (\<lambda>(k, v). PStr k) d)))"
| "value_in (PStr s) (PStr t) = Inr (sublist s t)"
| "value_in x v = Inl PyRaise"

text \<open>\<open>set(v)\<close> meets a set of strings; a list or dictionary inside cannot be hashed.\<close>

fun meets :: "pyval \<Rightarrow> string list \<Rightarrow> rbac_error + bool" where
  "meets (PList xs) gs =
     (if \<exists>x \<in> set xs. case x of PList _ \<Rightarrow> True | PDict _ \<Rightarrow> True | _ \<Rightarrow> False then Inl PyRaise
      else Inr (\<exists>g \<in> set gs. PStr g \<in> set xs))"
| "meets (PDict d) gs = Inr (\<exists>g \<in> set gs. g \<in> set (map fst d))"
| "meets (PStr s) gs = Inr (\<exists>c \<in> set s. [c] \<in> set gs)"
| "meets v gs = Inl PyRaise"

fun unpack2 :: "pyval \<Rightarrow> rbac_error + pyval \<times> pyval" where
  "unpack2 (PList [a, b]) = Inr (a, b)"
| "unpack2 (PDict [(a, _), (b, _)]) = Inr (PStr a, PStr b)"
| "unpack2 (PStr [a, b]) = Inr (PStr [a], PStr [b])"
| "unpack2 v = Inl PyRaise"

definition in_window :: "pyval \<Rightarrow> (string \<times> pyval) list \<Rightarrow> rbac_error + bool" where
  "in_window w ctx =
     ebind (unpack2 w) (\<lambda>(start, stop).
     ebind (need (py_int (dict_get ctx ''hour'' (PInt (-1))))) (\<lambda>hour.
     ebind (need (number start)) (\<lambda>s.
       if \<not> s \<le> hour then Inr False
       else ebind (need (number stop)) (\<lambda>e. Inr (hour < e)))))"

text \<open>One guard of \<open>_conditions_hold\<close>: a key that is absent holds.\<close>

definition cond_guard ::
  "conditions \<Rightarrow> string \<Rightarrow> (pyval \<Rightarrow> rbac_error + bool) \<Rightarrow> (rbac_error + bool) \<Rightarrow> rbac_error + bool" where
  "cond_guard cs key test rest =
     (case map_of cs key of
        None \<Rightarrow> rest
      | Some v \<Rightarrow> ebind (test v) (\<lambda>ok. if ok then rest else Inr False))"

definition conditions_hold :: "conditions \<Rightarrow> subject \<Rightarrow> request \<Rightarrow> rbac_error + bool" where
  "conditions_hold cs su rq =
     (let ctx = rq_context rq in
      if unknown_condition_keys cs \<noteq> [] then Inl (Unevaluable (unknown_condition_keys cs))
      else
       cond_guard cs ''max_delegation_depth''
         (\<lambda>v. ebind (need (py_int (dict_get ctx ''delegation_depth'' (PInt 0)))) (\<lambda>depth.
              ebind (need (py_int v)) (\<lambda>most. Inr (\<not> depth > most))))
       (cond_guard cs ''requires_approval''
         (\<lambda>v. Inr (\<not> (truthy v \<and> \<not> truthy (dict_get ctx ''approved'' PNone))))
       (cond_guard cs ''environments'' (\<lambda>v. value_in (dict_get ctx ''environment'' PNone) v)
       (cond_guard cs ''data_classes'' (\<lambda>v. value_in (dict_get ctx ''data_class'' PNone) v)
       (cond_guard cs ''groups'' (\<lambda>v. meets v (su_groups su))
       (cond_guard cs ''time_window'' (\<lambda>v. in_window v ctx)
       (Inr True)))))))"

section \<open>The engine\<close>

datatype decision_reason =
    DeniedByRule string string
  | GrantedBy string
  | AllowedByRule string
  | NothingGrants rbac_action resource_kind string
  | CannotEvaluate "string list"

record decision =
  de_allowed :: bool
  de_reason :: decision_reason
  de_rule_id :: "string option"
  de_permission :: "string option"

record policy_engine =
  pe_permissions :: "(string \<times> permission list) list"
  pe_rules :: "policy_rule list"

definition or_star :: "string list \<Rightarrow> string list" where
  "or_star xs = (if xs = [] then [''*''] else xs)"

definition rule_addresses :: "policy_rule \<Rightarrow> subject \<Rightarrow> request \<Rightarrow> bool" where
  "rule_addresses r su rq \<longleftrightarrow>
     (pr_actions r \<noteq> [] \<longrightarrow> rq_action rq \<in> set (pr_actions r)) \<and>
     (pr_resource_kinds r \<noteq> [] \<longrightarrow> rq_resource_kind rq \<in> set (pr_resource_kinds r)) \<and>
     (\<exists>p \<in> set (or_star (pr_resources r)). rbac_matches p (rq_resource rq)) \<and>
     (\<exists>s \<in> set (or_star (pr_subjects r)).
        s = ''*'' \<or> (\<exists>i \<in> set (identifiers su). rbac_matches s i))"

definition rule_matches :: "policy_rule \<Rightarrow> subject \<Rightarrow> request \<Rightarrow> rbac_error + bool" where
  "rule_matches r su rq =
     (if \<not> rule_addresses r su rq then Inr False
      else ebind (conditions_hold (pr_conditions r) su rq) (\<lambda>ok.
        if \<not> ok then Inr False
        else if pr_unless r = [] then Inr True
        else ebind (conditions_hold (pr_unless r) su rq) (\<lambda>off. Inr (\<not> off))))"

definition permission_grants :: "permission \<Rightarrow> subject \<Rightarrow> request \<Rightarrow> rbac_error + bool" where
  "permission_grants p su rq =
     (if pm_action p = rq_action rq \<and> pm_resource_kind p = rq_resource_kind rq \<and>
         rbac_matches (pm_resource p) (rq_resource rq)
      then conditions_hold (pm_conditions p) su rq else Inr False)"

text \<open>The first element a test that may raise accepts.\<close>

fun first_match :: "('a \<Rightarrow> 'e + bool) \<Rightarrow> 'a list \<Rightarrow> 'e + 'a option" where
  "first_match test [] = Inr None"
| "first_match test (x # xs) =
     ebind (test x) (\<lambda>ok. if ok then Inr (Some x) else first_match test xs)"

definition effect_match :: "rule_effect \<Rightarrow> subject \<Rightarrow> request \<Rightarrow> policy_rule \<Rightarrow> rbac_error + bool" where
  "effect_match eff su rq r = (if pr_effect r = eff then rule_matches r su rq else Inr False)"

definition pe_effective :: "policy_engine \<Rightarrow> string \<Rightarrow> permission list" where
  "pe_effective e agent_id = dict_get (pe_permissions e) agent_id []"

definition pe_decide_raw :: "policy_engine \<Rightarrow> subject \<Rightarrow> request \<Rightarrow> rbac_error + decision" where
  "pe_decide_raw e su rq =
     ebind (first_match (effect_match EffectDeny su rq) (pe_rules e)) (\<lambda>deny. case deny of
       Some r \<Rightarrow> Inr \<lparr>de_allowed = False, de_reason = DeniedByRule (pr_id r) (pr_description r),
                      de_rule_id = Some (pr_id r), de_permission = None\<rparr>
     | None \<Rightarrow>
     ebind (first_match (\<lambda>p. permission_grants p su rq) (pe_effective e (su_id su))) (\<lambda>perm. case perm of
       Some p \<Rightarrow> Inr \<lparr>de_allowed = True, de_reason = GrantedBy (permission_key p),
                      de_rule_id = None, de_permission = Some (permission_key p)\<rparr>
     | None \<Rightarrow>
     ebind (first_match (effect_match EffectAllow su rq) (pe_rules e)) (\<lambda>allow. case allow of
       Some r \<Rightarrow> Inr \<lparr>de_allowed = True, de_reason = AllowedByRule (pr_id r),
                      de_rule_id = Some (pr_id r), de_permission = None\<rparr>
     | None \<Rightarrow> Inr \<lparr>de_allowed = False,
         de_reason = NothingGrants (rq_action rq) (rq_resource_kind rq) (rq_resource rq),
         de_rule_id = None, de_permission = None\<rparr>)))"

definition pe_decide :: "policy_engine \<Rightarrow> subject \<Rightarrow> request \<Rightarrow> rbac_error + decision" where
  "pe_decide e su rq =
     (case pe_decide_raw e su rq of
        Inl (Unevaluable ks) \<Rightarrow> Inr \<lparr>de_allowed = False, de_reason = CannotEvaluate ks,
                                    de_rule_id = None, de_permission = None\<rparr>
      | Inl PyRaise \<Rightarrow> Inl PyRaise
      | Inr d \<Rightarrow> Inr d)"

section \<open>Lemmas\<close>

lemma first_match_Some: "first_match test xs = Inr (Some x) \<Longrightarrow> x \<in> set xs \<and> test x = Inr True"
  by (induction xs) (auto simp: ebind_eq_Inr split: if_splits)

lemma first_match_None: "first_match test xs = Inr None \<longleftrightarrow> (\<forall>x \<in> set xs. test x = Inr False)"
  by (induction xs) (auto simp: ebind_eq_Inr)

lemma first_match_total:
  "\<forall>x \<in> set xs. \<not> isl (test x) \<Longrightarrow>
     \<exists>found. first_match test xs = Inr found \<and> (found \<noteq> None \<longleftrightarrow> (\<exists>x \<in> set xs. test x = Inr True))"
proof (induction xs)
  case (Cons x xs)
  then obtain b where "test x = Inr b" by (cases "test x") auto
  with Cons show ?case by (cases b) auto
qed simp

text \<open>A pattern with none of the special characters matches itself and nothing else.\<close>

definition plain :: "string \<Rightarrow> bool" where
  "plain p \<longleftrightarrow> set p \<inter> {CHR ''*'', CHR ''?'', CHR ''[''} = {}"

lemma glob_parse_plain: "plain p \<Longrightarrow> glob_parse p = map Lit p"
  by (induction p) (auto simp: plain_def)

lemma glob_match_literal: "glob_match (map Lit p) s \<longleftrightarrow> s = p"
proof (induction p arbitrary: s)
  case (Cons c p) then show ?case by (cases s) auto
qed simp

lemma rbac_matches_plain: "plain p \<Longrightarrow> rbac_matches p v \<longleftrightarrow> v = p"
  by (auto simp: rbac_matches_def fnmatch_def glob_parse_plain glob_match_literal plain_def)

lemma glob_match_star: "glob_match [Star] s"
  by (induction s) auto

text \<open>A trailing star is a prefix match.\<close>

lemma rbac_matches_prefix: "plain p \<Longrightarrow> rbac_matches (p @ ''*'') v \<longleftrightarrow> prefix p v"
proof -
  assume plain: "plain p"
  then have parse: "glob_parse (p @ ''*'') = map Lit p @ [Star]"
    by (induction p) (auto simp: plain_def)
  have "glob_match (map Lit p @ [Star]) v \<longleftrightarrow> prefix p v"
  proof (induction p arbitrary: v)
    case Nil then show ?case by (simp add: glob_match_star)
  next
    case (Cons c p) then show ?case by (cases v) auto
  qed
  then have "fnmatch v (p @ ''*'') \<longleftrightarrow> prefix p v" by (simp only: fnmatch_def parse)
  then show ?thesis by (cases p) (auto simp: rbac_matches_def)
qed

lemma conditions_unknown:
  "k \<in> set (map fst cs) \<Longrightarrow> k \<notin> set policy_condition_keys \<Longrightarrow>
     \<exists>ks. conditions_hold cs su rq = Inl (Unevaluable ks)"
proof -
  assume "k \<in> set (map fst cs)" "k \<notin> set policy_condition_keys"
  then have "k \<in> set (unknown_condition_keys cs)" by (simp add: unknown_condition_keys_def)
  then have "unknown_condition_keys cs \<noteq> []" by force
  then show ?thesis by (simp add: conditions_hold_def)
qed

lemma decide_raw_cases:
  assumes "pe_decide_raw e su rq = Inr d"
  shows "(\<exists>r \<in> set (pe_rules e). pr_effect r = EffectDeny \<and> rule_matches r su rq = Inr True) \<and>
      \<not> de_allowed d \<or>
    (\<forall>r \<in> set (pe_rules e). pr_effect r = EffectDeny \<longrightarrow> rule_matches r su rq = Inr False) \<and>
      (de_allowed d \<longrightarrow>
        (\<exists>p \<in> set (pe_effective e (su_id su)). permission_grants p su rq = Inr True) \<or>
        (\<exists>r \<in> set (pe_rules e). pr_effect r = EffectAllow \<and> rule_matches r su rq = Inr True))"
  using assms unfolding pe_decide_raw_def
  by (auto simp: ebind_eq_Inr effect_match_def first_match_None dest!: first_match_Some
      split: option.splits if_splits)

lemma decide_Inr:
  "pe_decide e su rq = Inr d \<Longrightarrow> de_allowed d \<Longrightarrow> pe_decide_raw e su rq = Inr d"
  by (auto simp: pe_decide_def split: sum.splits rbac_error.splits)

section \<open>Properties\<close>

text \<open>
  C34: Deny wins: a request is allowed only if every deny rule was evaluated and does not match it,
  whoever asks and whatever allows it, and a permission of the subject or an allow rule grants it.
  In particular a deny rule whose conditions cannot be evaluated is never passed over.
\<close>

theorem allowed_only_past_every_deny:
  assumes "pe_decide e su rq = Inr d" and "de_allowed d"
  shows "(\<forall>r \<in> set (pe_rules e). pr_effect r = EffectDeny \<longrightarrow> rule_matches r su rq = Inr False) \<and>
    ((\<exists>p \<in> set (pe_effective e (su_id su)). permission_grants p su rq = Inr True) \<or>
     (\<exists>r \<in> set (pe_rules e). pr_effect r = EffectAllow \<and> rule_matches r su rq = Inr True))"
  using decide_raw_cases [OF decide_Inr [OF assms]] assms(2) by blast

definition example_reader :: subject where
  "example_reader = \<lparr>su_id = ''analyst'', su_team_id = ''finance'', su_team_path = [''org''],
     su_role_ids = [''reader''], su_groups = [], su_is_leader = True\<rparr>"

definition example_engine :: policy_engine where
  "example_engine = \<lparr>pe_permissions = [(''analyst'', [\<lparr>pm_action = ActRead,
       pm_resource_kind = KindDataClass, pm_resource = ''sales.*'', pm_conditions = []\<rparr>])],
     pe_rules = [\<lparr>pr_id = ''no_pii'', pr_effect = EffectDeny, pr_description = [], pr_actions = [ActRead],
       pr_resource_kinds = [], pr_resources = [''*.pii''], pr_subjects = [], pr_conditions = [],
       pr_unless = [(''environments'', PList [PStr ''clean''])]\<rparr>]\<rparr>"

definition example_request :: "string \<Rightarrow> string \<Rightarrow> request" where
  "example_request res env = \<lparr>rq_action = ActRead, rq_resource_kind = KindDataClass,
     rq_resource = res, rq_context = [(''environment'', PStr env)]\<rparr>"

theorem allowed_only_past_every_deny_witness:
  "\<exists>d. pe_decide example_engine example_reader (example_request ''sales.pii'' ''clean'') = Inr d \<and>
     de_allowed d \<and> (\<exists>p \<in> set (pe_effective example_engine ''analyst'').
       permission_grants p example_reader (example_request ''sales.pii'' ''clean'') = Inr True)"
proof -
  let ?out = "pe_decide example_engine example_reader (example_request ''sales.pii'' ''clean'')"
  have "\<not> isl ?out" by code_simp
  then have out: "?out = Inr (projr ?out)" by simp
  have ok: "de_allowed (projr ?out)" by code_simp
  have "\<forall>r \<in> set (pe_rules example_engine). pr_effect r \<noteq> EffectAllow" "su_id example_reader = ''analyst''"
    by code_simp+
  with allowed_only_past_every_deny [OF out ok] out ok show ?thesis by auto
qed

text \<open>
  The decision is exactly the documented one when nothing it evaluates raises: the request is
  allowed if and only if no deny rule matches it and one of the subject's permissions, or an allow
  rule, does. With nothing to grant it, it is denied.
\<close>

theorem decide_is_default_deny:
  assumes "\<And>r. r \<in> set (pe_rules e) \<Longrightarrow> \<not> isl (rule_matches r su rq)"
    and "\<And>p. p \<in> set (pe_effective e (su_id su)) \<Longrightarrow> \<not> isl (permission_grants p su rq)"
  shows "\<exists>d. pe_decide e su rq = Inr d \<and> (de_allowed d \<longleftrightarrow>
     \<not> (\<exists>r \<in> set (pe_rules e). pr_effect r = EffectDeny \<and> rule_matches r su rq = Inr True) \<and>
     ((\<exists>p \<in> set (pe_effective e (su_id su)). permission_grants p su rq = Inr True) \<or>
      (\<exists>r \<in> set (pe_rules e). pr_effect r = EffectAllow \<and> rule_matches r su rq = Inr True)))"
proof -
  have rules: "\<forall>r \<in> set (pe_rules e). \<not> isl (effect_match eff su rq r)" for eff
    using assms(1) by (auto simp: effect_match_def)
  have perms: "\<forall>p \<in> set (pe_effective e (su_id su)). \<not> isl (permission_grants p su rq)"
    using assms(2) by blast
  have match: "effect_match eff su rq r = Inr True \<longleftrightarrow> pr_effect r = eff \<and> rule_matches r su rq = Inr True"
    for eff r by (simp add: effect_match_def)
  obtain deny where deny: "first_match (effect_match EffectDeny su rq) (pe_rules e) = Inr deny"
    and deny_iff: "deny \<noteq> None \<longleftrightarrow> (\<exists>r \<in> set (pe_rules e). effect_match EffectDeny su rq r = Inr True)"
    using first_match_total [OF rules] by blast
  obtain perm where perm: "first_match (\<lambda>p. permission_grants p su rq) (pe_effective e (su_id su)) = Inr perm"
    and perm_iff: "perm \<noteq> None \<longleftrightarrow>
      (\<exists>p \<in> set (pe_effective e (su_id su)). permission_grants p su rq = Inr True)"
    using first_match_total [OF perms] by blast
  obtain allow where allow: "first_match (effect_match EffectAllow su rq) (pe_rules e) = Inr allow"
    and allow_iff: "allow \<noteq> None \<longleftrightarrow> (\<exists>r \<in> set (pe_rules e). effect_match EffectAllow su rq r = Inr True)"
    using first_match_total [OF rules] by blast
  have "\<exists>d. pe_decide e su rq = Inr d \<and> (de_allowed d \<longleftrightarrow> deny = None \<and> (perm \<noteq> None \<or> allow \<noteq> None))"
    unfolding pe_decide_def pe_decide_raw_def deny ebind_simps perm allow
    by (cases deny; cases perm; cases allow) simp_all
  moreover have "deny = None \<longleftrightarrow>
      \<not> (\<exists>r \<in> set (pe_rules e). pr_effect r = EffectDeny \<and> rule_matches r su rq = Inr True)"
    using deny_iff unfolding match by blast
  ultimately show ?thesis unfolding perm_iff allow_iff match by simp
qed

theorem decide_is_default_deny_witness:
  "\<exists>d. pe_decide example_engine example_reader (example_request ''sales.pii'' ''prod'') = Inr d \<and>
     \<not> de_allowed d"
proof -
  let ?rq = "example_request ''sales.pii'' ''prod''"
  have "\<forall>r \<in> set (pe_rules example_engine). \<not> isl (rule_matches r example_reader ?rq)" by code_simp
  moreover have "\<forall>p \<in> set (pe_effective example_engine (su_id example_reader)).
      \<not> isl (permission_grants p example_reader ?rq)" by code_simp
  moreover have "\<exists>r \<in> set (pe_rules example_engine). pr_effect r = EffectDeny \<and>
      rule_matches r example_reader ?rq = Inr True" by code_simp
  ultimately show ?thesis using decide_is_default_deny [of example_engine example_reader ?rq] by blast
qed

text \<open>
  A condition nobody can evaluate refuses the request: if some deny rule that addresses the
  request has a condition key outside the vocabulary, or one in the \<open>unless\<close> guard it gets to, the
  request is not allowed, so a misspelt key cannot switch a deny off.
\<close>

theorem misspelt_condition_never_allows:
  assumes "r \<in> set (pe_rules e)" and "pr_effect r = EffectDeny" and "rule_addresses r su rq"
    and "k \<notin> set policy_condition_keys"
    and "k \<in> set (map fst (pr_conditions r)) \<or>
      conditions_hold (pr_conditions r) su rq = Inr True \<and> k \<in> set (map fst (pr_unless r))"
  shows "pe_decide e su rq \<noteq> Inr d \<or> \<not> de_allowed d"
proof -
  have "\<exists>ks. rule_matches r su rq = Inl (Unevaluable ks)"
    using assms(5)
  proof (elim disjE conjE)
    assume "k \<in> set (map fst (pr_conditions r))"
    then obtain ks where "conditions_hold (pr_conditions r) su rq = Inl (Unevaluable ks)"
      using conditions_unknown [OF _ assms(4)] by blast
    with assms(3) show ?thesis by (simp add: rule_matches_def)
  next
    assume ok: "conditions_hold (pr_conditions r) su rq = Inr True" and k: "k \<in> set (map fst (pr_unless r))"
    obtain ks where "conditions_hold (pr_unless r) su rq = Inl (Unevaluable ks)"
      using conditions_unknown [OF k assms(4)] by blast
    with assms(3) ok k show ?thesis by (auto simp: rule_matches_def)
  qed
  then have "rule_matches r su rq \<noteq> Inr False" by auto
  then show ?thesis using decide_raw_cases [OF decide_Inr] assms(1,2) by blast
qed

theorem misspelt_condition_never_allows_witness:
  "pe_decide (example_engine\<lparr>pe_rules := [\<lparr>pr_id = ''x'', pr_effect = EffectDeny, pr_description = [],
      pr_actions = [], pr_resource_kinds = [], pr_resources = [''sales.*''], pr_subjects = [''finance''],
      pr_conditions = [], pr_unless = [(''reqiures_approval'', PBool True)]\<rparr>]\<rparr>)
    example_reader (example_request ''sales.q1'' ''prod'') \<noteq>
    Inr \<lparr>de_allowed = True, de_reason = GrantedBy ''read:data_class:sales.*'', de_rule_id = None,
      de_permission = Some ''read:data_class:sales.*''\<rparr>"
proof -
  define r where "r = \<lparr>pr_id = ''x'', pr_effect = EffectDeny, pr_description = [],
      pr_actions = [], pr_resource_kinds = [], pr_resources = [''sales.*''], pr_subjects = [''finance''],
      pr_conditions = [], pr_unless = [(''reqiures_approval'', PBool True)]\<rparr>"
  have "rule_addresses r example_reader (example_request ''sales.q1'' ''prod'')"
    unfolding r_def by code_simp
  moreover have "conditions_hold (pr_conditions r) example_reader (example_request ''sales.q1'' ''prod'') =
      Inr True \<and> ''reqiures_approval'' \<in> set (map fst (pr_unless r))"
    "''reqiures_approval'' \<notin> set policy_condition_keys" "pr_effect r = EffectDeny"
    unfolding r_def by code_simp+
  ultimately show ?thesis
    using misspelt_condition_never_allows [of r "example_engine\<lparr>pe_rules := [r]\<rparr>" example_reader
      "example_request ''sales.q1'' ''prod''" "''reqiures_approval''"
      "\<lparr>de_allowed = True, de_reason = GrantedBy ''read:data_class:sales.*'', de_rule_id = None,
        de_permission = Some ''read:data_class:sales.*''\<rparr>"]
    unfolding r_def [symmetric] by simp
qed

end
