(* ===== verification/Merge.thy ===== *)
theory Merge
  imports PyValue
begin

text \<open>
  Three-way merge of design documents (\<open>designer/merge.py\<close>, \<open>Conflict\<close> of \<open>designer/models.py\<close>):
  a structural merge of \<open>ours\<close> and \<open>theirs\<close> against their ancestor, lists being matched on the
  identity of their entries, and the application of a person's choices to the conflicts left.
  Documents are Python values; the merged document shares no state with its sources here, where
  Python may alias subtrees. \<open>None\<close> of \<open>apply_resolutions\<close> is the \<open>IndexError\<close> of a path with no
  parts.
\<close>

section \<open>Keyed lists\<close>

definition key_fields :: "string list" where
  "key_fields = [''id'', ''name'', ''key'', ''user_id'', ''contact'', ''channel'', ''capability'',
     ''environment'', ''knowledge'']"

fun field_key :: "(string \<times> pyval) list \<Rightarrow> string \<Rightarrow> string option" where
  "field_key d f =
     (case map_of d f of Some (PStr v) \<Rightarrow> if v \<noteq> [] then Some (f @ ''='' @ v) else None | _ \<Rightarrow> None)"

fun first_key :: "(string \<times> pyval) list \<Rightarrow> string list \<Rightarrow> string option" where
  "first_key d [] = None"
| "first_key d (f # fs) = (case field_key d f of Some k \<Rightarrow> Some k | None \<Rightarrow> first_key d fs)"

definition key_of :: "pyval \<Rightarrow> string option" where
  "key_of item = (case item of PDict d \<Rightarrow> first_key d key_fields | _ \<Rightarrow> None)"

fun keyed_from :: "(string \<times> pyval) list \<Rightarrow> pyval list \<Rightarrow> (string \<times> pyval) list option" where
  "keyed_from out [] = Some out"
| "keyed_from out (x # xs) =
     (case key_of x of
        None \<Rightarrow> None
      | Some k \<Rightarrow> if k \<in> set (map fst out) then None else keyed_from (out @ [(k, x)]) xs)"

definition keyed :: "pyval list \<Rightarrow> (string \<times> pyval) list option" where
  "keyed items = keyed_from [] items"

section \<open>The merge\<close>

datatype conflict_kind = ValueConflict | EditDelete | DeleteEdit

record conflict =
  cf_path :: string
  cf_base :: pyval
  cf_ours :: pyval
  cf_theirs :: pyval
  cf_kind :: conflict_kind

definition made_conflict :: "string \<Rightarrow> conflict_kind \<Rightarrow> pyval \<Rightarrow> pyval \<Rightarrow> pyval \<Rightarrow> conflict" where
  "made_conflict p kind b mine yours =
     \<lparr>cf_path = p, cf_base = b, cf_ours = mine, cf_theirs = yours, cf_kind = kind\<rparr>"

definition or_none :: "pyval option \<Rightarrow> pyval" where
  "or_none v = (case v of None \<Rightarrow> PNone | Some x \<Rightarrow> x)"

definition sub_path :: "string \<Rightarrow> string \<Rightarrow> string" where
  "sub_path p k = (if p \<noteq> [] then p @ ''.'' @ k else k)"

definition item_path :: "string \<Rightarrow> string \<Rightarrow> string" where
  "item_path p k = p @ ''['' @ k @ '']''"

definition scalar :: "pyval \<Rightarrow> bool" where
  "scalar v = (case v of PList _ \<Rightarrow> False | PDict _ \<Rightarrow> False | _ \<Rightarrow> True)"

text \<open>What becomes of an entry that one side only has: kept with a conflict or not at all if the
  ancestor has it, kept if it was added.\<close>

definition ours_only :: "string \<Rightarrow> string \<Rightarrow> pyval option \<Rightarrow> pyval \<Rightarrow> (string \<times> pyval) list \<times> conflict list" where
  "ours_only here k ancestor mine =
     (case ancestor of
        Some b \<Rightarrow> if \<not> py_eq mine b then ([(k, mine)], [made_conflict here EditDelete b mine PNone])
                  else ([], [])
      | None \<Rightarrow> ([(k, mine)], []))"

definition theirs_only :: "string \<Rightarrow> string \<Rightarrow> pyval option \<Rightarrow> pyval \<Rightarrow> (string \<times> pyval) list \<times> conflict list" where
  "theirs_only here k ancestor yours =
     (case ancestor of
        Some b \<Rightarrow> if \<not> py_eq yours b then ([], [made_conflict here DeleteEdit b PNone yours])
                  else ([], [])
      | None \<Rightarrow> ([(k, yours)], []))"

definition entry ::
  "(pyval \<Rightarrow> pyval \<Rightarrow> pyval \<Rightarrow> string \<Rightarrow> pyval \<times> conflict list) \<Rightarrow> string \<Rightarrow> string \<Rightarrow>
     pyval option \<Rightarrow> pyval option \<Rightarrow> pyval option \<Rightarrow> (string \<times> pyval) list \<times> conflict list" where
  "entry rec here k ancestor mine yours =
     (case mine of
        Some m \<Rightarrow>
          (case yours of
             Some y \<Rightarrow> (let (v, sub) = rec (or_none ancestor) m y here in ([(k, v)], sub))
           | None \<Rightarrow> ours_only here k ancestor m)
      | None \<Rightarrow> (case yours of Some y \<Rightarrow> theirs_only here k ancestor y | None \<Rightarrow> ([], [])))"

lemma entry_cong [fundef_cong]:
  "here = here' \<Longrightarrow> k = k' \<Longrightarrow> ancestor = ancestor' \<Longrightarrow> mine = mine' \<Longrightarrow> yours = yours' \<Longrightarrow>
   (\<And>m y. mine' = Some m \<Longrightarrow> yours' = Some y \<Longrightarrow>
      rec (or_none ancestor') m y here' = rec' (or_none ancestor') m y here') \<Longrightarrow>
   entry rec here k ancestor mine yours = entry rec' here' k' ancestor' mine' yours'"
  by (auto simp: entry_def split: option.split)

definition gather :: "((string \<times> pyval) list \<times> conflict list) list \<Rightarrow> (string \<times> pyval) list \<times> conflict list" where
  "gather parts = (concat (map fst parts), concat (map snd parts))"

text \<open>The union of two lists of scalars. The additions are filtered against the union as it was
  before any of them, as the comprehension on the right of \<open>+=\<close> is.\<close>

definition scalar_union :: "pyval list \<Rightarrow> pyval list \<Rightarrow> pyval list \<Rightarrow> pyval list" where
  "scalar_union base_list ours theirs =
     (let added_ours = filter (\<lambda>i. \<not> py_in i base_list) ours;
          added_theirs = filter (\<lambda>i. \<not> py_in i base_list) theirs;
          removed = filter (\<lambda>i. \<not> py_in i ours \<or> \<not> py_in i theirs) base_list;
          kept = filter (\<lambda>i. \<not> py_in i removed) base_list
      in kept @ filter (\<lambda>i. \<not> py_in i kept) (added_ours @ added_theirs))"

definition dict_or_empty :: "pyval \<Rightarrow> (string \<times> pyval) list" where
  "dict_or_empty v = (case v of PDict d \<Rightarrow> d | _ \<Rightarrow> [])"

definition list_or_empty :: "pyval \<Rightarrow> pyval list" where
  "list_or_empty v = (case v of PList xs \<Rightarrow> xs | _ \<Rightarrow> [])"

lemma keyed_from_size:
  "keyed_from out xs = Some d \<Longrightarrow> map_of d k = Some v \<Longrightarrow> v \<in> snd ` set out \<or> v \<in> set xs"
proof (induction xs arbitrary: out)
  case (Cons x xs)
  then show ?case by (fastforce split: option.splits if_splits)
qed (force dest: map_of_SomeD)

lemma keyed_smaller: "keyed xs = Some d \<Longrightarrow> map_of d k = Some v \<Longrightarrow> size v < size (PList xs)"
  using keyed_from_size [of "[]" xs d k v] size_in_list [of v xs] by (auto simp: keyed_def)

function merge :: "pyval \<Rightarrow> pyval \<Rightarrow> pyval \<Rightarrow> string \<Rightarrow> pyval \<times> conflict list" where
  "merge base ours theirs path =
     (if py_eq ours theirs then (ours, [])
      else if py_eq base ours then (theirs, [])
      else if py_eq base theirs then (ours, [])
      else case (ours, theirs) of
        (PDict od, PDict td) \<Rightarrow>
          (let bd = dict_or_empty base;
               (items, conflicts) = gather (map
                 (\<lambda>k. entry merge (sub_path path k) k (map_of bd k) (map_of od k) (map_of td k))
                 (fromkeys (map fst bd @ map fst od @ map fst td)))
           in (PDict items, conflicts))
      | (PList ol, PList yl) \<Rightarrow>
          (let bl = list_or_empty base in
           case (keyed ol, keyed yl, keyed bl) of
             (Some ko, Some kt, Some kb) \<Rightarrow>
               (let (items, conflicts) = gather (map
                  (\<lambda>k. entry merge (item_path path k) k (map_of kb k) (map_of ko k) (map_of kt k))
                  (fromkeys (map fst ko @ map fst kt)))
                in (PList (map snd items), conflicts))
           | _ \<Rightarrow>
               if list_all scalar (ol @ yl) then (PList (scalar_union bl ol yl), [])
               else (ours, [made_conflict (if path \<noteq> [] then path else ''.'') ValueConflict base ours theirs]))
      | _ \<Rightarrow> (ours, [made_conflict (if path \<noteq> [] then path else ''.'') ValueConflict base ours theirs]))"
  by pat_completeness auto
termination
  by (relation "measure (\<lambda>(b, o', t, p). size o')") (auto dest: size_map_of keyed_smaller [OF sym])

declare merge.simps [simp del]

section \<open>Resolutions\<close>

text \<open>\<open>_split_path\<close>: the buffer is flushed at a dot, at an opening bracket when it is not empty,
  and with the bracket at a closing one.\<close>

fun split_from :: "string \<Rightarrow> string \<Rightarrow> string list" where
  "split_from buf [] = (if buf \<noteq> [] then [buf] else [])"
| "split_from buf (c # cs) =
     (if c = CHR ''.'' then (if buf \<noteq> [] then buf # split_from [] cs else split_from buf cs)
      else if c = CHR ''['' then (if buf \<noteq> [] then buf # split_from ''['' cs else split_from ''['' cs)
      else if c = CHR '']'' then (buf @ '']'') # split_from [] cs
      else split_from (buf @ [c]) cs)"

definition split_path :: "string \<Rightarrow> string list" where
  "split_path p = split_from [] p"

definition bracketed :: "string \<Rightarrow> bool" where
  "bracketed part \<longleftrightarrow> part \<noteq> [] \<and> hd part = CHR ''['' \<and> last part = CHR '']''"

text \<open>\<open>part[1:-1]\<close>.\<close>

definition inner :: "string \<Rightarrow> string" where
  "inner part = butlast (tl part)"

text \<open>Replacing the first entry of a list with a key, \<open>None\<close> removing it.\<close>

fun put_entry :: "string \<Rightarrow> pyval option \<Rightarrow> pyval list \<Rightarrow> pyval list" where
  "put_entry key v [] = []"
| "put_entry key v (x # xs) =
     (if key_of x = Some key then (case v of None \<Rightarrow> xs | Some y \<Rightarrow> y # xs) else x # put_entry key v xs)"

definition descend :: "pyval \<Rightarrow> string \<Rightarrow> pyval" where
  "descend cursor part =
     (if bracketed part
      then (case cursor of PList xs \<Rightarrow> or_none (List.find (\<lambda>i. key_of i = Some (inner part)) xs) | _ \<Rightarrow> PNone)
      else (case cursor of PDict d \<Rightarrow> dict_get d part PNone | _ \<Rightarrow> PNone))"

text \<open>Writing the changed child back is what the mutation in place amounts to.\<close>

definition write_child :: "pyval \<Rightarrow> string \<Rightarrow> pyval \<Rightarrow> pyval" where
  "write_child cursor part v =
     (if bracketed part
      then (case cursor of PList xs \<Rightarrow> PList (put_entry (inner part) (Some v) xs) | c \<Rightarrow> c)
      else (case cursor of PDict d \<Rightarrow> PDict (AList.update part v d) | c \<Rightarrow> c))"

definition write_last :: "pyval \<Rightarrow> string \<Rightarrow> pyval \<Rightarrow> pyval" where
  "write_last cursor part v =
     (case cursor of
        PDict d \<Rightarrow> PDict (if v = PNone then AList.delete part d else AList.update part v d)
      | PList xs \<Rightarrow>
          if bracketed part
          then PList (put_entry (inner part) (if v = PNone then None else Some v) xs) else cursor
      | _ \<Rightarrow> cursor)"

fun set_parts :: "pyval \<Rightarrow> string list \<Rightarrow> pyval \<Rightarrow> pyval option" where
  "set_parts doc [] v = None"
| "set_parts doc [part] v = Some (write_last doc part v)"
| "set_parts doc (part # parts) v =
     (let next = descend doc part in
      if next = PNone then Some doc
      else map_option (write_child doc part) (set_parts next parts v))"

definition set_path :: "pyval \<Rightarrow> string \<Rightarrow> pyval \<Rightarrow> pyval option" where
  "set_path doc p v = set_parts doc (split_path p) v"

fun apply_resolutions ::
  "pyval \<Rightarrow> conflict list \<Rightarrow> (string \<times> pyval) list \<Rightarrow> (pyval \<times> conflict list) option" where
  "apply_resolutions merged [] resolutions = Some (merged, [])"
| "apply_resolutions merged (c # cs) resolutions =
     (case map_of resolutions (cf_path c) of
        None \<Rightarrow> map_option (\<lambda>(m, rest). (m, c # rest)) (apply_resolutions merged cs resolutions)
      | Some choice \<Rightarrow>
          (let v = (if py_eq choice (PStr ''ours'') then cf_ours c
                    else if py_eq choice (PStr ''theirs'') then cf_theirs c else choice)
           in Option.bind (set_path merged (cf_path c) v) (\<lambda>m. apply_resolutions m cs resolutions)))"

section \<open>Looking into a document\<close>

text \<open>A position is reached by dictionary keys and by the identities of list entries.\<close>

datatype step = Key string | Entry string

fun child :: "step \<Rightarrow> pyval \<Rightarrow> pyval option" where
  "child (Key k) (PDict d) = map_of d k"
| "child (Entry k) (PList xs) = List.find (\<lambda>i. key_of i = Some k) xs"
| "child s v = None"

fun lookup_opt :: "step list \<Rightarrow> pyval option \<Rightarrow> pyval option" where
  "lookup_opt [] v = v"
| "lookup_opt (s # p) None = None"
| "lookup_opt (s # p) (Some v) = lookup_opt p (child s v)"

definition lookup :: "step list \<Rightarrow> pyval \<Rightarrow> pyval option" where
  "lookup p v = lookup_opt p (Some v)"

definition same :: "pyval option \<Rightarrow> pyval option \<Rightarrow> bool" where
  "same x y \<longleftrightarrow> map_option canon x = map_option canon y"

definition three_way :: "step list \<Rightarrow> pyval option \<Rightarrow> pyval option \<Rightarrow> pyval option \<Rightarrow> pyval option \<Rightarrow> bool" where
  "three_way p b mine yours m \<longleftrightarrow>
     (same (lookup_opt p yours) (lookup_opt p b) \<longrightarrow> same (lookup_opt p m) (lookup_opt p mine)) \<and>
     (same (lookup_opt p mine) (lookup_opt p b) \<longrightarrow> same (lookup_opt p m) (lookup_opt p yours))"

lemma lookup_None [simp]: "lookup_opt p None = None"
  by (cases p) auto

lemma same_refl [simp]: "same x x"
  by (simp add: same_def)

lemma same_sym: "same x y \<Longrightarrow> same y x"
  by (simp add: same_def)

lemma same_trans: "same x y \<Longrightarrow> same y z \<Longrightarrow> same x z"
  by (simp add: same_def)

lemma key_of_canon: "key_of (canon v) = key_of v"
proof (cases v)
  case (PDict d)
  have "field_key (sort_key fst (map (\<lambda>(k, v). (k, canon v)) d)) f = field_key d f" for f
    by (auto simp: map_of_canon split: option.splits pyval.splits elim!: canon.elims)
  then have "first_key (sort_key fst (map (\<lambda>(k, v). (k, canon v)) d)) fs = first_key d fs" for fs
    by (induction fs) (simp_all del: field_key.simps split: option.split)
  with PDict show ?thesis by (simp add: key_of_def)
qed (simp_all add: key_of_def)

lemma find_map: "List.find P (map f xs) = map_option f (List.find (\<lambda>x. P (f x)) xs)"
  by (induction xs) auto

lemma child_canon: "child s (canon v) = map_option canon (child s v)"
  by (cases "(s, v)" rule: child.cases) (simp_all add: map_of_canon find_map key_of_canon)

lemma lookup_canon: "lookup_opt p (map_option canon v) = map_option canon (lookup_opt p v)"
proof (induction p arbitrary: v)
  case (Cons s p)
  then show ?case by (cases v) (simp_all add: child_canon)
qed simp

lemma same_lookup: "same x y \<Longrightarrow> same (lookup_opt p x) (lookup_opt p y)"
  by (simp add: same_def lookup_canon [symmetric])

lemma same_Some: "same (Some a) (Some b) \<longleftrightarrow> py_eq a b"
  by (simp add: same_def py_eq_def)

lemma py_eq_lookup: "py_eq a b \<Longrightarrow> same (lookup_opt p (Some a)) (lookup_opt p (Some b))"
  by (rule same_lookup) (simp add: same_Some)

section \<open>Keyed lists and gathered entries\<close>

lemma keyed_from_spec:
  "keyed_from out xs = Some d \<Longrightarrow> \<exists>new. d = out @ new \<and> map snd new = xs \<and>
     (\<forall>(k, v) \<in> set new. key_of v = Some k)"
proof (induction xs arbitrary: out)
  case (Cons x xs)
  from Cons.prems obtain k where k: "key_of x = Some k" and rest: "keyed_from (out @ [(k, x)]) xs = Some d"
    by (auto split: option.splits if_splits)
  from Cons.IH [OF rest] obtain new where "d = out @ (k, x) # new" "map snd new = xs"
    "\<forall>(k, v) \<in> set new. key_of v = Some k" by auto
  with k show ?case by (intro exI [of _ "(k, x) # new"]) simp
qed simp

lemma keyed_spec:
  assumes "keyed xs = Some d" shows "map snd d = xs" and "\<forall>(k, v) \<in> set d. key_of v = Some k"
  using keyed_from_spec [of "[]" xs d] assms by (auto simp: keyed_def)

lemma find_by_key:
  "\<forall>(k, v) \<in> set d. key_of v = Some k \<Longrightarrow> List.find (\<lambda>i. key_of i = Some k) (map snd d) = map_of d k"
  by (induction d) auto

lemma keyed_find: "keyed xs = Some d \<Longrightarrow> child (Entry k) (PList xs) = map_of d k"
  using find_by_key [of d k] keyed_spec [of xs d] by simp

lemma map_of_gather:
  assumes "\<And>k. k \<in> set ks \<Longrightarrow> fst ` set (fst (f k)) \<subseteq> {k}"
  shows "map_of (fst (gather (map f ks))) k = (if k \<in> set ks then map_of (fst (f k)) k else None)"
  using assms
proof (induction ks)
  case (Cons a ks)
  have IH: "map_of (concat (map (\<lambda>x. fst (f x)) ks)) k = (if k \<in> set ks then map_of (fst (f k)) k else None)"
    using Cons by (simp add: gather_def comp_def)
  have "k \<noteq> a \<Longrightarrow> map_of (fst (f a)) k = None"
    using Cons.prems [of a] by (auto simp: map_of_eq_None_iff)
  then show ?case
    using IH by (cases "k = a") (auto simp: gather_def comp_def map_add_def split: option.splits)
qed (simp add: gather_def)

lemma gather_conflicts: "set (snd (gather (map f ks))) = (\<Union>k \<in> set ks. set (snd (f k)))"
  by (simp add: gather_def)

lemma gather_no_conflict: "snd (gather (map f ks)) = [] \<longleftrightarrow> (\<forall>k \<in> set ks. snd (f k) = [])"
  by (simp add: gather_def)

lemma entry_keys: "fst ` set (fst (entry rec here k a m y)) \<subseteq> {k}"
  by (auto simp: entry_def ours_only_def theirs_only_def Let_def split: option.splits if_splits prod.splits)

lemma entry_Some [simp]:
  "entry rec here k a (Some m) (Some y) = ([(k, fst (rec (or_none a) m y here))], snd (rec (or_none a) m y here))"
  by (simp add: entry_def Let_def split: prod.split)

lemma gather_entries:
  "map_of (fst (gather (map (\<lambda>k. entry rec (g k) k (map_of b k) (map_of d k) (map_of t k)) ks))) k =
     (if k \<in> set ks then map_of (fst (entry rec (g k) k (map_of b k) (map_of d k) (map_of t k))) k else None)"
  by (rule map_of_gather) (rule entry_keys)

section \<open>The branches of the merge\<close>

lemma merge_trivial:
  "py_eq ours theirs \<Longrightarrow> merge base ours theirs path = (ours, [])"
  "\<not> py_eq ours theirs \<Longrightarrow> py_eq base ours \<Longrightarrow> merge base ours theirs path = (theirs, [])"
  "\<not> py_eq ours theirs \<Longrightarrow> \<not> py_eq base ours \<Longrightarrow> py_eq base theirs \<Longrightarrow>
     merge base ours theirs path = (ours, [])"
  by (simp_all add: merge.simps)

text \<open>The four ways in which both sides changed a value.\<close>

definition differ :: "pyval \<Rightarrow> pyval \<Rightarrow> pyval \<Rightarrow> bool" where
  "differ base ours theirs \<longleftrightarrow> \<not> py_eq ours theirs \<and> \<not> py_eq base ours \<and> \<not> py_eq base theirs"

lemma merge_changed:
  assumes "differ base ours theirs"
  obtains (dicts) od td parts where "ours = PDict od" "theirs = PDict td"
      "parts = map (\<lambda>k. entry merge (sub_path path k) k (map_of (dict_or_empty base) k) (map_of od k) (map_of td k))
         (fromkeys (map fst (dict_or_empty base) @ map fst od @ map fst td))"
      "merge base ours theirs path = (PDict (fst (gather parts)), snd (gather parts))"
  | (keyed) ol yl ko kt kb parts where "ours = PList ol" "theirs = PList yl" "keyed ol = Some ko"
      "keyed yl = Some kt" "keyed (list_or_empty base) = Some kb"
      "parts = map (\<lambda>k. entry merge (item_path path k) k (map_of kb k) (map_of ko k) (map_of kt k))
         (fromkeys (map fst ko @ map fst kt))"
      "merge base ours theirs path = (PList (map snd (fst (gather parts))), snd (gather parts))"
  | (scalars) ol yl where "ours = PList ol" "theirs = PList yl" "list_all scalar (ol @ yl)"
      "merge base ours theirs path = (PList (scalar_union (list_or_empty base) ol yl), [])"
  | (clash) "merge base ours theirs path =
       (ours, [made_conflict (if path \<noteq> [] then path else ''.'') ValueConflict base ours theirs])"
proof -
  have ne: "\<not> py_eq ours theirs" "\<not> py_eq base ours" "\<not> py_eq base theirs"
    using assms by (simp_all add: differ_def)
  consider (d) od td where "ours = PDict od" "theirs = PDict td"
    | (l) ol yl where "ours = PList ol" "theirs = PList yl"
    | (o) "\<nexists>od td. ours = PDict od \<and> theirs = PDict td" "\<nexists>ol yl. ours = PList ol \<and> theirs = PList yl"
    by blast
  then show thesis
  proof cases
    case d
    show thesis
      by (rule dicts [OF d refl]) (simp add: d ne [unfolded d] merge.simps Let_def split: prod.split)
  next
    case l
    note eq = merge.simps [of base "PList ol" "PList yl" path]
    show thesis
    proof (cases "keyed ol = None \<or> keyed yl = None \<or> keyed (list_or_empty base) = None")
      case True
      show thesis
      proof (cases "list_all scalar (ol @ yl)")
        case sc: True
        show thesis
          by (rule scalars [OF l sc]) (use True sc ne in \<open>auto simp: l eq Let_def split: option.splits\<close>)
      next
        case False
        show thesis by (rule clash) (use True False ne in \<open>auto simp: l eq Let_def split: option.splits\<close>)
      qed
    next
      case False
      then obtain ko kt kb where k: "keyed ol = Some ko" "keyed yl = Some kt" "keyed (list_or_empty base) = Some kb"
        by auto
      show thesis
        by (rule keyed [OF l k refl]) (use ne in \<open>simp add: l eq k Let_def split: prod.split\<close>)
    qed
  next
    case o
    show thesis by (rule clash) (use o ne in \<open>cases ours; cases theirs; simp add: merge.simps\<close>)
  qed
qed

section \<open>A merged entry keeps its identity\<close>

lemma key_parts:
  "CHR ''='' \<notin> set f \<Longrightarrow> CHR ''='' \<notin> set g \<Longrightarrow> f @ ''='' @ v = g @ ''='' @ w \<Longrightarrow> f = g \<and> v = w"
proof (induction f arbitrary: g)
  case Nil then show ?case by (cases g) auto
next
  case (Cons c f) then show ?case by (cases g) auto
qed

lemma field_key_Some: "field_key d f = Some k \<longleftrightarrow> (\<exists>v. map_of d f = Some (PStr v) \<and> v \<noteq> [] \<and> k = f @ ''='' @ v)"
  by (auto split: option.splits pyval.splits)

declare field_key.simps [simp del]

lemma merge_same:
  "\<not> differ b mine yours \<Longrightarrow> merge b mine yours p = (mine, []) \<or> merge b mine yours p = (yours, [])"
  unfolding differ_def using merge_trivial [of mine yours b p] by blast

lemma merge_str: "fst (merge b mine yours p) = PStr v \<Longrightarrow> mine = PStr v \<or> yours = PStr v"
proof (cases "differ b mine yours")
  case True
  assume "fst (merge b mine yours p) = PStr v"
  with True show ?thesis by (cases rule: merge_changed [where path = p]) auto
next
  case False
  assume "fst (merge b mine yours p) = PStr v"
  with merge_same [OF False, of p] show ?thesis by auto
qed

lemma merged_field:
  assumes "items = fst (gather (map (\<lambda>k. entry merge (g k) k (map_of bd k) (map_of od k) (map_of td k))
      (fromkeys (map fst bd @ map fst od @ map fst td))))"
  shows "field_key od f = Some k \<Longrightarrow> field_key td f = Some k \<Longrightarrow> field_key items f = Some k"
    and "field_key od f = None \<Longrightarrow> field_key td f = None \<Longrightarrow> field_key items f = None"
proof -
  have look: "map_of items f = map_of (fst (entry merge (g f) f (map_of bd f) (map_of od f) (map_of td f))) f"
    if "map_of od f \<noteq> None \<or> map_of td f \<noteq> None"
    using that unfolding assms gather_entries by (auto simp: map_of_eq_None_iff)
  have none: "map_of items f = None" if "map_of od f = None" "map_of td f = None"
    using that unfolding assms gather_entries by (simp add: entry_def)
  show "field_key items f = Some k" if "field_key od f = Some k" "field_key td f = Some k"
  proof -
    from that obtain v w where *: "map_of od f = Some (PStr v)" "map_of td f = Some (PStr w)" "v \<noteq> []"
      "k = f @ ''='' @ v" "k = f @ ''='' @ w" by (auto simp: field_key_Some)
    then have "map_of items f = Some (PStr v)"
      using look merge_trivial(1) [of "PStr v" "PStr w" "or_none (map_of bd f)" "g f"] by simp
    with * show ?thesis by (auto simp: field_key_Some)
  qed
  show "field_key items f = None" if none': "field_key od f = None" "field_key td f = None"
  proof (rule ccontr)
    assume "field_key items f \<noteq> None"
    then obtain v where v: "map_of items f = Some (PStr v)" "v \<noteq> []" by (auto simp: field_key_Some)
    then have "map_of od f \<noteq> None \<or> map_of td f \<noteq> None" using none by auto
    note part = look [OF this, unfolded v(1), symmetric]
    have "map_of od f = Some (PStr v) \<or> map_of td f = Some (PStr v)"
    proof (cases "map_of od f")
      case None
      with part show ?thesis
        by (auto simp: entry_def theirs_only_def split: option.splits if_splits)
    next
      case (Some m)
      show ?thesis
      proof (cases "map_of td f")
        case None
        with part Some show ?thesis by (auto simp: entry_def ours_only_def split: option.splits if_splits)
      next
        case y: (Some y)
        with part Some have "fst (merge (or_none (map_of bd f)) m y (g f)) = PStr v" by simp
        from merge_str [OF this] Some y show ?thesis by auto
      qed
    qed
    with none' v(2) show False by (auto simp: field_key.simps)
  qed
qed

lemma key_fields_plain: "f \<in> set key_fields \<Longrightarrow> CHR ''='' \<notin> set f"
  by (auto simp: key_fields_def)

lemma first_key_in: "first_key d fs = Some k \<Longrightarrow> \<exists>f \<in> set fs. field_key d f = Some k"
  by (induction fs) (auto split: option.splits)

lemma merged_first_key:
  assumes items: "items = fst (gather (map (\<lambda>k. entry merge (g k) k (map_of bd k) (map_of od k) (map_of td k))
      (fromkeys (map fst bd @ map fst od @ map fst td))))"
  shows "set fs \<subseteq> set key_fields \<Longrightarrow> distinct fs \<Longrightarrow> first_key od fs = Some k \<Longrightarrow> first_key td fs = Some k \<Longrightarrow>
    first_key items fs = Some k"
proof (induction fs)
  case (Cons f fs)
  have clash: False if "field_key d f = Some k" "f' \<in> set fs" "field_key d' f' = Some k" for d d' f'
  proof -
    from that(1) obtain v where "k = f @ ''='' @ v" by (auto simp: field_key_Some)
    moreover from that(3) obtain w where "k = f' @ ''='' @ w" by (auto simp: field_key_Some)
    ultimately have "f @ ''='' @ v = f' @ ''='' @ w" by simp
    with Cons.prems(1,2) that(2) key_parts [of f f' v w] key_fields_plain show False by auto
  qed
  show ?case
  proof (cases "field_key od f")
    case None
    with Cons.prems(3) have "first_key od fs = Some k" by simp
    then obtain f' where "f' \<in> set fs" "field_key od f' = Some k" using first_key_in by blast
    with clash have "field_key td f \<noteq> Some k" by blast
    with Cons.prems(4) have td: "field_key td f = None" by (cases "field_key td f") auto
    with Cons None merged_field(2) [OF items None td] show ?thesis by simp
  next
    case (Some k')
    with Cons.prems(3) have od: "field_key od f = Some k" by simp
    have td: "field_key td f = Some k"
    proof (cases "field_key td f")
      case None
      with Cons.prems(4) obtain f' where "f' \<in> set fs" "field_key td f' = Some k"
        using first_key_in [of td fs k] by auto
      with clash od show ?thesis by blast
    qed (use Cons.prems(4) in simp)
    from merged_field(1) [OF items od td] show ?thesis by simp
  qed
qed simp

lemma merge_key:
  assumes "key_of mine = Some k" and "key_of yours = Some k"
  shows "key_of (fst (merge b mine yours p)) = Some k"
proof -
  from assms obtain od td where d: "mine = PDict od" "yours = PDict td"
    by (auto simp: key_of_def split: pyval.splits)
  show ?thesis
  proof (cases "differ b mine yours")
    case True
    then show ?thesis
    proof (cases rule: merge_changed [where path = p])
      case (dicts od' td' parts)
      have "first_key (fst (gather parts)) key_fields = Some k"
        unfolding dicts(3)
        by (rule merged_first_key [OF refl subset_refl])
          (use assms dicts(1,2) in \<open>simp_all add: key_of_def\<close>, simp add: key_fields_def)
      with dicts show ?thesis by (simp add: key_of_def)
    qed (use d assms in auto)
  next
    case False
    from merge_same [OF this, of p] assms show ?thesis by auto
  qed
qed

section \<open>The three-way law\<close>

lemma three_way_eq: "same yours mine \<Longrightarrow> three_way p b mine yours mine"
  using same_lookup [of yours mine p] by (auto simp: three_way_def dest: same_sym)

lemma three_way_ours: "same b yours \<Longrightarrow> three_way p b mine yours mine"
  using same_lookup [of b yours p] by (auto simp: three_way_def dest: same_sym intro: same_trans)

lemma three_way_theirs: "same b mine \<Longrightarrow> three_way p b mine yours yours"
  using same_lookup [of b mine p] by (auto simp: three_way_def dest: same_sym intro: same_trans)

lemma three_way_child:
  "three_way (s # p) (Some b) (Some mine) (Some yours) (Some m) =
   three_way p (child s b) (child s mine) (child s yours) (child s m)"
  by (simp add: three_way_def)

lemma three_way_entry:
  assumes rec: "\<And>m y. mine = Some m \<Longrightarrow> yours = Some y \<Longrightarrow> snd (merge (or_none b) m y here) = [] \<Longrightarrow>
      three_way p (Some (or_none b)) mine yours (Some (fst (merge (or_none b) m y here)))"
    and "snd (entry merge here k b mine yours) = []"
  shows "three_way p b mine yours (map_of (fst (entry merge here k b mine yours)) k)"
proof (cases mine)
  case None
  note m = this
  show ?thesis
  proof (cases yours)
    case None with m show ?thesis by (simp add: entry_def three_way_eq)
  next
    case (Some y)
    show ?thesis
    proof (cases b)
      case None
      with m Some show ?thesis
        by (simp add: entry_def theirs_only_def three_way_theirs)
    next
      case b: (Some x)
      with m Some assms(2) have "py_eq y x" by (simp add: entry_def theirs_only_def split: if_splits)
      with m Some b show ?thesis
        by (simp add: entry_def theirs_only_def) (rule three_way_ours, simp add: same_Some py_eq_sym)
    qed
  qed
next
  case (Some m)
  note m = this
  show ?thesis
  proof (cases yours)
    case None
    show ?thesis
    proof (cases b)
      case None
      with m \<open>yours = None\<close> show ?thesis by (simp add: entry_def ours_only_def three_way_ours)
    next
      case b: (Some x)
      with m None assms(2) have "py_eq m x" by (simp add: entry_def ours_only_def split: if_splits)
      with m None b show ?thesis
        by (simp add: entry_def ours_only_def) (rule three_way_theirs, simp add: same_Some py_eq_sym)
    qed
  next
    case y: (Some y)
    show ?thesis
    proof (cases b)
      case None
      from rec [OF m y] assms(2) m y None
      have "three_way p (Some PNone) mine yours (Some (fst (merge PNone m y here)))"
        by (simp add: or_none_def)
      with m y None show ?thesis
        by (cases p) (auto simp: three_way_def or_none_def same_def)
    next
      case b: (Some x)
      from rec [OF m y] assms(2) m y b show ?thesis by (simp add: or_none_def)
    qed
  qed
qed

lemma child_dict: "child (Key k) base = map_of (dict_or_empty base) k"
  by (cases base) (simp_all add: dict_or_empty_def)

lemma child_list: "keyed (list_or_empty base) = Some kb \<Longrightarrow> child (Entry k) base = map_of kb k"
proof (cases base)
  case (PList xs)
  assume "keyed (list_or_empty base) = Some kb"
  with PList keyed_find show ?thesis by (simp add: list_or_empty_def del: child.simps)
qed (auto simp: list_or_empty_def keyed_def)

lemma scalar_canon: "py_eq a b \<Longrightarrow> scalar a = scalar b"
  unfolding py_eq_def by (cases a; cases b) (simp_all add: scalar_def)

lemma scalar_no_key: "scalar v \<Longrightarrow> key_of v = None"
  by (cases v) (simp_all add: scalar_def key_of_def)

lemma scalar_union_scalar:
  assumes "list_all scalar (ol @ yl)" and "v \<in> set (scalar_union bl ol yl)"
  shows "scalar v"
proof -
  from assms(2) have "v \<in> set ol \<or> v \<in> set yl \<or> py_in v ol"
    by (auto simp: scalar_union_def Let_def py_in_def intro: py_eq_refl)
  with assms(1) show ?thesis by (auto simp: list_all_iff py_in_def dest: scalar_canon)
qed

lemma scalar_child: "\<forall>v \<in> set xs. scalar v \<Longrightarrow> child s (PList xs) = None"
  by (cases s) (auto simp: find_None_iff scalar_no_key)

lemma merged_keys:
  assumes "keyed ol = Some ko" and "keyed yl = Some kt"
    and "parts = map (\<lambda>k. entry merge (g k) k (map_of kb k) (map_of ko k) (map_of kt k)) ks"
  shows "\<forall>(k, v) \<in> set (fst (gather parts)). key_of v = Some k"
proof -
  have ident: "map_of d k = Some v \<Longrightarrow> key_of v = Some k" if "keyed xs = Some d" for xs d k v
    using keyed_spec(2) [OF that] by (auto dest: map_of_SomeD)
  have "key_of v = Some k'" if "(k', v) \<in> set (fst (entry merge (g k) k (map_of kb k) (map_of ko k) (map_of kt k)))"
    for k k' v
  proof (cases "map_of ko k")
    case None
    with that ident [OF assms(2)] show ?thesis
      by (auto simp: entry_def theirs_only_def split: option.splits if_splits)
  next
    case (Some m)
    show ?thesis
    proof (cases "map_of kt k")
      case None
      with that Some ident [OF assms(1)] show ?thesis
        by (auto simp: entry_def ours_only_def split: option.splits if_splits)
    next
      case y: (Some y)
      with that Some have "k' = k" "v = fst (merge (or_none (map_of kb k)) m y (g k))" by simp_all
      then show ?thesis using merge_key ident [OF assms(1) Some] ident [OF assms(2) y] by simp
    qed
  qed
  then show ?thesis unfolding assms(3) gather_def by auto
qed

lemma gathered_three_way:
  assumes rec: "\<And>x y. map_of od k = Some x \<Longrightarrow> map_of td k = Some y \<Longrightarrow>
      snd (merge (or_none (map_of bd k)) x y (g k)) = [] \<Longrightarrow>
      three_way p (Some (or_none (map_of bd k))) (Some x) (Some y)
        (Some (fst (merge (or_none (map_of bd k)) x y (g k))))"
    and keys: "fst ` set od \<union> fst ` set td \<subseteq> set ks"
    and parts: "parts = map (\<lambda>k. entry merge (g k) k (map_of bd k) (map_of od k) (map_of td k)) ks"
    and clean: "snd (gather parts) = []"
  shows "three_way p (map_of bd k) (map_of od k) (map_of td k) (map_of (fst (gather parts)) k)"
proof (cases "k \<in> set ks")
  case True
  then have m: "map_of (fst (gather parts)) k =
      map_of (fst (entry merge (g k) k (map_of bd k) (map_of od k) (map_of td k))) k"
    unfolding parts gather_entries by simp
  have "snd (entry merge (g k) k (map_of bd k) (map_of od k) (map_of td k)) = []"
    using clean True unfolding parts gather_no_conflict by blast
  then show ?thesis unfolding m by (rule three_way_entry [rotated]) (simp add: rec)
next
  case False
  then have "map_of od k = None" "map_of td k = None" "map_of (fst (gather parts)) k = None"
    using keys unfolding parts gather_entries by (auto simp: map_of_eq_None_iff)
  then show ?thesis by (simp add: three_way_def)
qed

text \<open>One step of the law, for two dictionaries and for two keyed lists.\<close>

lemma three_way_dicts:
  assumes IH: "\<And>b x y here. size x < size (PDict od) \<Longrightarrow> snd (merge b x y here) = [] \<Longrightarrow>
      three_way p (Some b) (Some x) (Some y) (Some (fst (merge b x y here)))"
    and parts: "parts = map (\<lambda>k. entry merge (sub_path path k) k (map_of (dict_or_empty b) k) (map_of od k) (map_of td k))
      (fromkeys (map fst (dict_or_empty b) @ map fst od @ map fst td))"
    and clean: "snd (gather parts) = []"
  shows "three_way (s # p) (Some b) (Some (PDict od)) (Some (PDict td)) (Some (PDict (fst (gather parts))))"
proof (cases s)
  case (Key k)
  have "three_way p (map_of (dict_or_empty b) k) (map_of od k) (map_of td k) (map_of (fst (gather parts)) k)"
    by (rule gathered_three_way [OF IH _ parts clean]) (auto simp: size_map_of simp del: pyval.size)
  then show ?thesis unfolding Key three_way_child by (simp add: child_dict [of k b])
qed (simp add: three_way_child, simp add: three_way_def)

lemma three_way_keyed:
  assumes IH: "\<And>b x y here. size x < size (PList ol) \<Longrightarrow> snd (merge b x y here) = [] \<Longrightarrow>
      three_way p (Some b) (Some x) (Some y) (Some (fst (merge b x y here)))"
    and keyed: "keyed ol = Some ko" "keyed yl = Some kt" "keyed (list_or_empty b) = Some kb"
    and parts: "parts = map (\<lambda>k. entry merge (item_path path k) k (map_of kb k) (map_of ko k) (map_of kt k))
      (fromkeys (map fst ko @ map fst kt))"
    and clean: "snd (gather parts) = []"
  shows "three_way (s # p) (Some b) (Some (PList ol)) (Some (PList yl)) (Some (PList (map snd (fst (gather parts)))))"
proof (cases s)
  case (Entry k)
  have "three_way p (map_of kb k) (map_of ko k) (map_of kt k) (map_of (fst (gather parts)) k)"
    by (rule gathered_three_way [OF IH _ parts clean])
      (auto simp: keyed_smaller [OF keyed(1)] simp del: pyval.size)
  moreover have "child s (PList (map snd (fst (gather parts)))) = map_of (fst (gather parts)) k"
    unfolding Entry child.simps by (rule find_by_key) (rule merged_keys [OF keyed(1,2) parts])
  ultimately show ?thesis
    unfolding three_way_child Entry
    by (simp add: child_list [OF keyed(3)] keyed_find [OF keyed(1)] keyed_find [OF keyed(2)] del: child.simps)
qed (simp add: three_way_child, simp add: three_way_def)

lemma merge_three_way:
  "snd (merge b mine yours path) = [] \<Longrightarrow>
     three_way p (Some b) (Some mine) (Some yours) (Some (fst (merge b mine yours path)))"
proof (induction "size mine" arbitrary: b mine yours path p rule: less_induct)
  case less
  show ?case
  proof (cases "differ b mine yours")
    case False
    then consider "py_eq mine yours" | "\<not> py_eq mine yours" "py_eq b mine"
      | "\<not> py_eq mine yours" "\<not> py_eq b mine" "py_eq b yours"
      unfolding differ_def by blast
    then show ?thesis
      by cases (simp_all add: merge_trivial three_way_eq three_way_ours three_way_theirs same_Some py_eq_sym)
  next
    case True
    then have top: "three_way [] (Some b) (Some mine) (Some yours) m" for m
      by (auto simp: three_way_def same_Some differ_def dest: py_eq_sym)
    show ?thesis
    proof (cases p)
      case Nil with top show ?thesis by simp
    next
      case (Cons s p')
      from True show ?thesis
      proof (cases rule: merge_changed [where path = path])
        case (dicts od td parts)
        show ?thesis
          unfolding Cons dicts(4) unfolding dicts(1,2) fst_conv
          by (rule three_way_dicts [OF less.hyps dicts(3)]) (use less.prems dicts in simp_all)
      next
        case (keyed ol yl ko kt kb parts)
        show ?thesis
          unfolding Cons keyed(7) unfolding keyed(1,2) fst_conv
          by (rule three_way_keyed [OF less.hyps keyed(3-6)]) (use less.prems keyed in simp_all)
      next
        case (scalars ol yl)
        have "child s (PList ol) = None" "child s (PList yl) = None"
          "child s (PList (scalar_union (list_or_empty b) ol yl)) = None"
          using scalars(3) scalar_union_scalar [OF scalars(3)]
          by (auto intro!: scalar_child simp: list_all_iff)
        then show ?thesis
          unfolding Cons scalars(4) unfolding scalars(1,2) fst_conv three_way_child
          by (simp add: three_way_def)
      next
        case clash
        with less.prems show ?thesis by simp
      qed
    qed
  qed
qed

section \<open>What a conflict says\<close>

definition genuine :: "conflict \<Rightarrow> bool" where
  "genuine c \<longleftrightarrow>
     (case cf_kind c of
        ValueConflict \<Rightarrow> differ (cf_base c) (cf_ours c) (cf_theirs c)
      | EditDelete \<Rightarrow> \<not> py_eq (cf_ours c) (cf_base c) \<and> cf_theirs c = PNone
      | DeleteEdit \<Rightarrow> \<not> py_eq (cf_theirs c) (cf_base c) \<and> cf_ours c = PNone)"

lemma entry_genuine:
  assumes "\<And>m y. mine = Some m \<Longrightarrow> yours = Some y \<Longrightarrow>
      list_all genuine (snd (merge (or_none b) m y here))"
  shows "list_all genuine (snd (entry merge here k b mine yours))"
proof (cases "mine = None \<or> yours = None")
  case True
  then show ?thesis
    by (cases mine; cases yours; cases b)
      (auto simp: entry_def ours_only_def theirs_only_def genuine_def made_conflict_def)
next
  case False
  then show ?thesis using assms by auto
qed

lemma gather_all: "list_all P (snd (gather (map f ks))) \<longleftrightarrow> (\<forall>k \<in> set ks. list_all P (snd (f k)))"
  by (auto simp: gather_def list_all_iff)

lemma merge_genuine: "list_all genuine (snd (merge b mine yours path))"
proof (induction "size mine" arbitrary: b mine yours path rule: less_induct)
  case less
  show ?case
  proof (cases "differ b mine yours")
    case False
    from merge_same [OF this, of path] show ?thesis by auto
  next
    case True
    then show ?thesis
    proof (cases rule: merge_changed [where path = path])
      case (dicts od td parts)
      have "list_all genuine (snd (gather parts))"
        unfolding dicts(3) gather_all
        by (intro ballI entry_genuine less) (simp add: dicts(1) size_map_of del: pyval.size)
      with dicts show ?thesis by simp
    next
      case (keyed ol yl ko kt kb parts)
      have "list_all genuine (snd (gather parts))"
        unfolding keyed(6) gather_all
        by (intro ballI entry_genuine less) (simp add: keyed(1) keyed_smaller [OF keyed(3)] del: pyval.size)
      with keyed show ?thesis by simp
    next
      case clash
      with True show ?thesis by (simp add: genuine_def made_conflict_def)
    qed simp
  qed
qed

lemma remaining_conflicts:
  "apply_resolutions m cs rs = Some (m', rest) \<Longrightarrow> rest = filter (\<lambda>c. map_of rs (cf_path c) = None) cs"
  by (induction cs arbitrary: m m' rest) (auto simp: Let_def bind_eq_Some_conv split: option.splits)

section \<open>Properties\<close>

text \<open>
  C35: A merge without conflicts loses nobody's work: at every position of the document, reached
  through dictionary keys and through the identities of list entries, where one side left the
  ancestor as it was the merged document has what the other side made of it, be it an edit, an
  addition or a removal.
\<close>

theorem conflict_free_merge_keeps_both_sides:
  assumes "merge base ours theirs path = (merged, [])"
  shows "(same (lookup p theirs) (lookup p base) \<longrightarrow> same (lookup p merged) (lookup p ours)) \<and>
    (same (lookup p ours) (lookup p base) \<longrightarrow> same (lookup p merged) (lookup p theirs))"
  using merge_three_way [of base ours theirs path p] assms by (simp add: three_way_def lookup_def)

definition example_agent :: "string \<Rightarrow> string \<Rightarrow> pyval" where
  "example_agent k t = PDict [(''id'', PStr k), (''title'', PStr t)]"

definition example_base :: pyval where
  "example_base = PDict [(''agents'', PList [example_agent ''a'' ''old'']), (''name'', PStr ''org'')]"
definition example_ours :: pyval where
  "example_ours = PDict [(''agents'', PList [example_agent ''a'' ''new'']), (''name'', PStr ''org'')]"
definition example_theirs :: pyval where
  "example_theirs = PDict [(''agents'', PList [example_agent ''a'' ''old'', example_agent ''b'' ''hi'']),
     (''name'', PStr ''co'')]"

theorem conflict_free_merge_keeps_both_sides_witness:
  "same (lookup [Key ''agents'', Entry ''id=a'', Key ''title''] (fst (merge example_base example_ours example_theirs [])))
     (Some (PStr ''new''))"
proof -
  let ?p = "[Key ''agents'', Entry ''id=a'', Key ''title'']"
  have "snd (merge example_base example_ours example_theirs []) = []" by code_simp
  then have "merge example_base example_ours example_theirs [] =
      (fst (merge example_base example_ours example_theirs []), [])" by (metis prod.collapse)
  note law = conflict_free_merge_keeps_both_sides [OF this, of ?p]
  have "same (lookup ?p example_theirs) (lookup ?p example_base)" "lookup ?p example_ours = Some (PStr ''new'')"
    by code_simp+
  with law show ?thesis by simp
qed

text \<open>
  Every conflict is one: a value conflict names three values no two of which are equal, and a
  conflict of an edit with a deletion names an edit that differs from the ancestor.
\<close>

theorem conflicts_are_genuine:
  "list_all (\<lambda>c. case cf_kind c of
       ValueConflict \<Rightarrow> \<not> py_eq (cf_ours c) (cf_theirs c) \<and> \<not> py_eq (cf_base c) (cf_ours c) \<and>
         \<not> py_eq (cf_base c) (cf_theirs c)
     | EditDelete \<Rightarrow> \<not> py_eq (cf_ours c) (cf_base c) \<and> cf_theirs c = PNone
     | DeleteEdit \<Rightarrow> \<not> py_eq (cf_theirs c) (cf_base c) \<and> cf_ours c = PNone)
   (snd (merge base ours theirs path))"
  using merge_genuine [of base ours theirs path]
  by (rule list.pred_mono_strong) (auto simp: genuine_def differ_def split: conflict_kind.splits)

text \<open>Where the code departs from its documentation: an entry both sides add to a plain list is in
  the merged list twice; a conflict at the root cannot be resolved; a resolution below a key with a
  dot in it does not reach the document; and choosing the other side's edit of a list entry that
  ours deleted changes nothing.\<close>

lemma union_duplicates:
  "merge (PList []) (PList [PStr ''x'', PStr ''y'']) (PList [PStr ''x'', PStr ''z'']) [] =
     (PList [PStr ''x'', PStr ''y'', PStr ''x'', PStr ''z''], [])"
  by code_simp

lemma root_conflict_unresolvable:
  "snd (merge (PInt 1) (PInt 2) (PInt 3) []) = [made_conflict ''.'' ValueConflict (PInt 1) (PInt 2) (PInt 3)]"
  "set_path doc ''.'' v = None"
  by code_simp (simp add: set_path_def split_path_def)

lemma dotted_key_resolution_lost:
  "apply_resolutions (fst (merge (PDict [(''a.b'', PInt 1)]) (PDict [(''a.b'', PInt 2)]) (PDict [(''a.b'', PInt 3)]) []))
     (snd (merge (PDict [(''a.b'', PInt 1)]) (PDict [(''a.b'', PInt 2)]) (PDict [(''a.b'', PInt 3)]) []))
     [(''a.b'', PStr ''theirs'')] = Some (PDict [(''a.b'', PInt 2)], [])"
  by code_simp

lemma delete_edit_in_list_lost:
  "(let (m, cs) = merge (PList [example_agent ''a'' ''old'']) (PList [])
       (PList [example_agent ''a'' ''new'']) [] in
    map cf_path cs = [''[id=a]''] \<and>
    apply_resolutions m cs [(''[id=a]'', PStr ''theirs'')] = Some (PList [], []))"
  by code_simp

end
