(* ===== verification/Mandates.thy ===== *)
theory Mandates
  imports PyValue
begin

text \<open>
  Effective authority (\<open>mandates.py\<close>): what a unit may decide, narrowed by every unit above it;
  the walk that resolves a whole organization and its people; and the search up the line for a
  principal who may take a decision. A \<open>frozenset\<close> of decisions is a list read as a set. The
  organization is the tree of teams the walk reads; an absent attribute is what \<open>getattr\<close>
  defaults to.
\<close>

section \<open>Mandates\<close>

record mandate =
  md_decisions :: "string list"
  md_conditions :: "(string \<times> pyval) list"

record effective_mandate =
  em_decisions :: "string list"
  em_conditions :: "(string \<times> pyval) list list"
  em_line :: "string list"

definition no_mandate :: effective_mandate where
  "no_mandate = \<lparr>em_decisions = [], em_conditions = [], em_line = []\<rparr>"

definition covers_decision :: "effective_mandate \<Rightarrow> string \<Rightarrow> bool" where
  "covers_decision e decision \<longleftrightarrow> decision \<in> set (em_decisions e)"

definition narrowed_by :: "effective_mandate \<Rightarrow> string \<Rightarrow> mandate option \<Rightarrow> effective_mandate" where
  "narrowed_by e unit_id declared =
     (let line = em_line e @ [unit_id] in
      case declared of
        None \<Rightarrow> e\<lparr>em_line := line\<rparr>
      | Some d \<Rightarrow>
          \<lparr>em_decisions = filter (\<lambda>x. x \<in> set (md_decisions d)) (em_decisions e),
           em_conditions = (if md_conditions d \<noteq> [] then em_conditions e @ [md_conditions d]
                            else em_conditions e),
           em_line = line\<rparr>)"

definition overreach :: "effective_mandate \<Rightarrow> mandate option \<Rightarrow> string list" where
  "overreach e declared =
     (case declared of
        None \<Rightarrow> []
      | Some d \<Rightarrow> sorted_set (filter (\<lambda>x. x \<notin> set (em_decisions e)) (md_decisions d)))"

definition root_mandate :: "mandate option \<Rightarrow> string \<Rightarrow> effective_mandate" where
  "root_mandate declared unit_id =
     (case declared of
        None \<Rightarrow> \<lparr>em_decisions = [], em_conditions = [], em_line = [unit_id]\<rparr>
      | Some d \<Rightarrow>
          \<lparr>em_decisions = md_decisions d,
           em_conditions = (if md_conditions d \<noteq> [] then [md_conditions d] else []),
           em_line = [unit_id]\<rparr>)"

section \<open>Resolving an organization\<close>

record org_member =
  om_id :: string
  om_mandate :: "mandate option"

datatype team = Team (tm_id: string) (tm_mandate: "mandate option") (tm_leader: string)
  (tm_members: "org_member list") (tm_teams: "team list")

record person =
  pn_id :: string
  pn_unit :: string
  pn_mandate :: "mandate option"

record mandate_map =
  mm_teams :: "(string \<times> effective_mandate) list"
  mm_agents :: "(string \<times> effective_mandate) list"
  mm_home :: "(string \<times> string) list"
  mm_parent :: "(string \<times> string) list"
  mm_leader :: "(string \<times> string) list"
  mm_people :: "(string \<times> effective_mandate) list"
  mm_person_unit :: "(string \<times> string) list"
  mm_overreach :: "(string \<times> string list) list"

definition empty_map :: mandate_map where
  "empty_map = \<lparr>mm_teams = [], mm_agents = [], mm_home = [], mm_parent = [], mm_leader = [],
     mm_people = [], mm_person_unit = [], mm_overreach = []\<rparr>"

definition note_overreach :: "string \<Rightarrow> string list \<Rightarrow> mandate_map \<Rightarrow> mandate_map" where
  "note_overreach k over m =
     (if over \<noteq> [] then m\<lparr>mm_overreach := AList.update k over (mm_overreach m)\<rparr> else m)"

definition team_effective :: "string list \<Rightarrow> effective_mandate option \<Rightarrow> team \<Rightarrow> effective_mandate" where
  "team_effective vocabulary inherited t =
     (case inherited of
        None \<Rightarrow>
          (case tm_mandate t of
             Some d \<Rightarrow> if md_decisions d \<noteq> [] then root_mandate (Some d) (tm_id t)
                       else \<lparr>em_decisions = vocabulary, em_conditions = [], em_line = [tm_id t]\<rparr>
           | None \<Rightarrow> \<lparr>em_decisions = vocabulary, em_conditions = [], em_line = [tm_id t]\<rparr>)
      | Some e \<Rightarrow> narrowed_by e (tm_id t) (tm_mandate t))"

definition visit_member :: "string \<Rightarrow> effective_mandate \<Rightarrow> org_member \<Rightarrow> mandate_map \<Rightarrow> mandate_map" where
  "visit_member team_id e a m =
     (let m1 = note_overreach (om_id a) (overreach e (om_mandate a)) m
      in m1\<lparr>mm_agents := AList.update (om_id a) (narrowed_by e (om_id a) (om_mandate a)) (mm_agents m1),
            mm_home := AList.update (om_id a) team_id (mm_home m1)\<rparr>)"

definition enter_team :: "string list \<Rightarrow> effective_mandate option \<Rightarrow> team \<Rightarrow> mandate_map \<Rightarrow> mandate_map" where
  "enter_team vocabulary inherited t m =
     (let e = team_effective vocabulary inherited t;
          m1 = (case inherited of None \<Rightarrow> m
                | Some i \<Rightarrow> note_overreach (tm_id t) (overreach i (tm_mandate t)) m);
          m2 = m1\<lparr>mm_teams := AList.update (tm_id t) e (mm_teams m1)\<rparr>;
          m3 = (if tm_leader t \<noteq> [] then m2\<lparr>mm_leader := AList.update (tm_id t) (tm_leader t) (mm_leader m2)\<rparr>
                else m2)
      in fold (visit_member (tm_id t) e) (tm_members t) m3)"

fun visit :: "string list \<Rightarrow> effective_mandate option \<Rightarrow> team \<Rightarrow> mandate_map \<Rightarrow> mandate_map"
  and visit_all :: "string list \<Rightarrow> effective_mandate \<Rightarrow> string \<Rightarrow> team list \<Rightarrow> mandate_map \<Rightarrow> mandate_map" where
  "visit vocabulary inherited (Team i d l ms ts) m =
     visit_all vocabulary (team_effective vocabulary inherited (Team i d l ms ts)) i ts
       (enter_team vocabulary inherited (Team i d l ms ts) m)"
| "visit_all vocabulary e i [] m = m"
| "visit_all vocabulary e i (t # ts) m =
     visit_all vocabulary e i ts
       (visit vocabulary (Some e) t (m\<lparr>mm_parent := AList.update (tm_id t) i (mm_parent m)\<rparr>))"

definition visit_person :: "string \<Rightarrow> effective_mandate \<Rightarrow> person \<Rightarrow> mandate_map \<Rightarrow> mandate_map" where
  "visit_person root_id root_effective p m =
     (let unit_id = (if pn_unit p \<noteq> [] then pn_unit p else root_id);
          bound = dict_get (mm_teams m) unit_id root_effective;
          m1 = note_overreach (pn_id p) (overreach bound (pn_mandate p)) m
      in m1\<lparr>mm_people := AList.update (pn_id p) (narrowed_by bound (pn_id p) (pn_mandate p)) (mm_people m1),
            mm_person_unit := AList.update (pn_id p) unit_id (mm_person_unit m1)\<rparr>)"

definition resolve :: "team \<Rightarrow> string list \<Rightarrow> person list \<Rightarrow> mandate_map" where
  "resolve organization vocabulary people =
     (let m = visit vocabulary None organization empty_map;
          root_effective = dict_get (mm_teams m) (tm_id organization) no_mandate
      in fold (visit_person (tm_id organization) root_effective) people m)"

definition mission_mandate :: "string \<Rightarrow> mandate option \<Rightarrow> effective_mandate \<Rightarrow> effective_mandate" where
  "mission_mandate mission_id declared leader_mandate = narrowed_by leader_mandate mission_id declared"

section \<open>Finding a holder\<close>

definition for_agent :: "mandate_map \<Rightarrow> string \<Rightarrow> effective_mandate" where
  "for_agent m agent_id = dict_get (mm_agents m) agent_id no_mandate"

definition for_person :: "mandate_map \<Rightarrow> string \<Rightarrow> effective_mandate" where
  "for_person m person_id = dict_get (mm_people m) person_id no_mandate"

definition is_person :: "mandate_map \<Rightarrow> string \<Rightarrow> bool" where
  "is_person m principal_id \<longleftrightarrow> principal_id \<in> set (map fst (mm_people m))"

definition people_on :: "mandate_map \<Rightarrow> string \<Rightarrow> string list" where
  "people_on m team_id = sort (map fst (filter (\<lambda>(p, u). u = team_id) (mm_person_unit m)))"

text \<open>The loop of \<open>holder\<close>: it ends because a team whose parent is known is seen once.\<close>

function holder_walk ::
  "mandate_map \<Rightarrow> string \<Rightarrow> string \<Rightarrow> string list \<Rightarrow> string option \<Rightarrow> string option" where
  "holder_walk m agent_id decision seen None = None"
| "holder_walk m agent_id decision seen (Some team) =
     (if team = [] \<or> team \<in> set seen then None
      else
        (let lead = dict_get (mm_leader m) team [] in
         if lead \<noteq> [] \<and> lead \<noteq> agent_id \<and> covers_decision (for_agent m lead) decision then Some lead
         else (case List.find (\<lambda>p. covers_decision (for_person m p) decision) (people_on m team) of
                 Some p \<Rightarrow> Some p
               | None \<Rightarrow> holder_walk m agent_id decision (team # seen) (map_of (mm_parent m) team))))"
  by pat_completeness auto
termination
proof (relation "measure (\<lambda>(m, a, d, seen, team). case team of None \<Rightarrow> 0
    | Some t \<Rightarrow> Suc (card (fst ` set (mm_parent m) - set seen)))", goal_cases)
  case (2 m agent_id decision seen team lead)
  show ?case
  proof (cases "map_of (mm_parent m) team")
    case (Some t)
    have "team \<in> fst ` set (mm_parent m) - set seen" using Some 2 by (force dest: map_of_SomeD)
    then have "card (fst ` set (mm_parent m) - set (team # seen)) < card (fst ` set (mm_parent m) - set seen)"
      by (intro psubset_card_mono) auto
    with Some show ?thesis by simp
  qed simp
qed simp

declare holder_walk.simps [simp del]

definition holder :: "mandate_map \<Rightarrow> string \<Rightarrow> string \<Rightarrow> string option" where
  "holder m agent_id decision =
     (if covers_decision (for_agent m agent_id) decision then Some agent_id
      else holder_walk m agent_id decision [] (map_of (mm_home m) agent_id))"

definition holders :: "mandate_map \<Rightarrow> string \<Rightarrow> string list" where
  "holders m decision =
     sort (map fst (filter (\<lambda>(p, e). covers_decision e decision) (mm_agents m @ mm_people m)))"

definition agent_holders :: "mandate_map \<Rightarrow> string \<Rightarrow> string list" where
  "agent_holders m decision =
     sort (map fst (filter (\<lambda>(a, e). covers_decision e decision) (mm_agents m)))"

section \<open>Narrowing\<close>

definition narrower :: "effective_mandate \<Rightarrow> effective_mandate \<Rightarrow> bool" where
  "narrower e f \<longleftrightarrow> set (em_decisions e) \<subseteq> set (em_decisions f) \<and> prefix (em_conditions f) (em_conditions e)"

lemma narrower_refl [simp]: "narrower e e"
  by (simp add: narrower_def)

lemma narrower_trans: "narrower a b \<Longrightarrow> narrower b c \<Longrightarrow> narrower a c"
  by (auto simp: narrower_def intro: prefix_order.trans)

lemma narrowed_by_narrower [simp]: "narrower (narrowed_by e k d) e"
  by (auto simp: narrower_def narrowed_by_def Let_def split: option.split)

lemma narrowed_by_declared: "set (em_decisions (narrowed_by e k (Some d))) = set (em_decisions e) \<inter> set (md_decisions d)"
  by (auto simp: narrowed_by_def)

lemma note_overreach_simps [simp]:
  "mm_teams (note_overreach k v m) = mm_teams m" "mm_agents (note_overreach k v m) = mm_agents m"
  "mm_home (note_overreach k v m) = mm_home m" "mm_parent (note_overreach k v m) = mm_parent m"
  "mm_leader (note_overreach k v m) = mm_leader m" "mm_people (note_overreach k v m) = mm_people m"
  "mm_person_unit (note_overreach k v m) = mm_person_unit m"
  by (simp_all add: note_overreach_def)

lemma visit_member_simps [simp]:
  "mm_teams (visit_member t e a m) = mm_teams m" "mm_parent (visit_member t e a m) = mm_parent m"
  "mm_agents (visit_member t e a m) = AList.update (om_id a) (narrowed_by e (om_id a) (om_mandate a)) (mm_agents m)"
  "mm_home (visit_member t e a m) = AList.update (om_id a) t (mm_home m)"
  by (simp_all add: visit_member_def Let_def)

lemma members_frame [simp]:
  "mm_teams (fold (visit_member t e) as m) = mm_teams m"
  "mm_parent (fold (visit_member t e) as m) = mm_parent m"
  by (induction as arbitrary: m) simp_all

lemma enter_team_simps [simp]:
  "mm_teams (enter_team v inh t m) = AList.update (tm_id t) (team_effective v inh t) (mm_teams m)"
  "mm_parent (enter_team v inh t m) = mm_parent m"
  by (simp_all add: enter_team_def Let_def split: option.split)

text \<open>The ids of a tree's teams and members.\<close>

fun team_ids :: "team \<Rightarrow> string list" where
  "team_ids (Team i d l ms ts) = i # concat (map team_ids ts)"

fun member_ids :: "team \<Rightarrow> string list" where
  "member_ids (Team i d l ms ts) = map om_id ms @ concat (map member_ids ts)"

lemma tm_id_in_team_ids [simp]: "tm_id t \<in> set (team_ids t)"
  by (cases t) simp

lemma visit_teams_frame:
  "k \<notin> set (team_ids t) \<Longrightarrow> map_of (mm_teams (visit v inh t m)) k = map_of (mm_teams m) k"
  "k \<notin> set (concat (map team_ids ts)) \<Longrightarrow> map_of (mm_teams (visit_all v e i ts m)) k = map_of (mm_teams m) k"
  by (induction v inh t m and v e i ts m rule: visit_visit_all.induct) simp_all

section \<open>The invariant of the walk\<close>

definition members_ok :: "mandate_map \<Rightarrow> bool" where
  "members_ok m \<longleftrightarrow> (\<forall>a. map_of (mm_agents m) a \<noteq> None \<longrightarrow> map_of (mm_home m) a \<noteq> None) \<and>
     (\<forall>a t. map_of (mm_home m) a = Some t \<longrightarrow>
        (\<exists>ea et. map_of (mm_agents m) a = Some ea \<and> map_of (mm_teams m) t = Some et \<and> narrower ea et))"

definition teams_ok :: "string set \<Rightarrow> mandate_map \<Rightarrow> bool" where
  "teams_ok bound m \<longleftrightarrow>
     (\<forall>k e. map_of (mm_teams m) k = Some e \<longrightarrow> set (em_decisions e) \<subseteq> bound) \<and>
     (\<forall>c t. map_of (mm_parent m) c = Some t \<longrightarrow> (\<exists>et. map_of (mm_teams m) t = Some et \<and>
        (\<forall>ec. map_of (mm_teams m) c = Some ec \<longrightarrow> narrower ec et)))"

lemma members_ok_member:
  "members_ok m \<Longrightarrow> map_of (mm_teams m) t = Some e \<Longrightarrow> members_ok (visit_member t e a m)"
  by (auto simp: members_ok_def)

lemma members_ok_fold:
  "members_ok m \<Longrightarrow> map_of (mm_teams m) t = Some e \<Longrightarrow> members_ok (fold (visit_member t e) as m)"
  by (induction as arbitrary: m) (simp_all add: members_ok_member)

lemma members_ok_team:
  assumes "members_ok m" and "map_of (mm_teams m) k = None"
    and "mm_agents m' = mm_agents m" "mm_home m' = mm_home m" "mm_teams m' = AList.update k e (mm_teams m)"
  shows "members_ok m'"
  unfolding members_ok_def
proof (intro conjI allI impI)
  show "map_of (mm_home m') a \<noteq> None" if "map_of (mm_agents m') a \<noteq> None" for a
    using that assms(1,3,4) by (simp add: members_ok_def)
next
  fix a t assume "map_of (mm_home m') a = Some t"
  then obtain ea et where "map_of (mm_agents m) a = Some ea" "map_of (mm_teams m) t = Some et" "narrower ea et"
    using assms(1,4) unfolding members_ok_def by metis
  with assms(2,3,5) show "\<exists>ea et. map_of (mm_agents m') a = Some ea \<and> map_of (mm_teams m') t = Some et \<and> narrower ea et"
    by auto
qed

lemma enter_members_ok:
  assumes "members_ok m" and "map_of (mm_teams m) (tm_id t) = None"
  shows "members_ok (enter_team v inh t m)"
  unfolding enter_team_def Let_def
  by (rule members_ok_fold, rule members_ok_team [OF assms, where e = "team_effective v inh t"])
    (simp_all split: option.split)

lemma enter_teams_ok:
  assumes "teams_ok bound m" and fresh: "map_of (mm_teams m) (tm_id t) = None"
    and inh: "\<And>p. map_of (mm_parent m) (tm_id t) = Some p \<Longrightarrow> \<exists>e. inh = Some e \<and> map_of (mm_teams m) p = Some e"
    and bound: "set (em_decisions (team_effective v inh t)) \<subseteq> bound"
  shows "teams_ok bound (enter_team v inh t m)"
  unfolding teams_ok_def
proof (intro conjI allI impI)
  show "set (em_decisions e) \<subseteq> bound" if "map_of (mm_teams (enter_team v inh t m)) k = Some e" for k e
    using that assms(1) bound by (auto simp: teams_ok_def split: if_splits)
next
  fix c p assume "map_of (mm_parent (enter_team v inh t m)) c = Some p"
  then have p: "map_of (mm_parent m) c = Some p" by simp
  with assms(1) obtain et where et: "map_of (mm_teams m) p = Some et"
    "\<And>ec. map_of (mm_teams m) c = Some ec \<Longrightarrow> narrower ec et" unfolding teams_ok_def by blast
  have ne: "p \<noteq> tm_id t" using et(1) fresh by auto
  have "narrower (team_effective v inh t) et" if "c = tm_id t"
    using inh [of p] p that et(1) by (auto simp: team_effective_def)
  with et ne show "\<exists>et. map_of (mm_teams (enter_team v inh t m)) p = Some et \<and>
      (\<forall>ec. map_of (mm_teams (enter_team v inh t m)) c = Some ec \<longrightarrow> narrower ec et)"
    by auto
qed

definition walk_ok :: "string set \<Rightarrow> mandate_map \<Rightarrow> bool" where
  "walk_ok bound m \<longleftrightarrow> members_ok m \<and> teams_ok bound m"

lemma set_parent_ok:
  assumes "walk_ok bound m" and "map_of (mm_teams m) i = Some e" and "map_of (mm_teams m) k = None"
  shows "walk_ok bound (m\<lparr>mm_parent := AList.update k i (mm_parent m)\<rparr>)"
  using assms by (auto simp: walk_ok_def members_ok_def teams_ok_def)

lemma visit_ok:
  "walk_ok bound m \<Longrightarrow> distinct (team_ids t) \<Longrightarrow> (\<And>k. k \<in> set (team_ids t) \<Longrightarrow> map_of (mm_teams m) k = None) \<Longrightarrow>
   (\<And>p. map_of (mm_parent m) (tm_id t) = Some p \<Longrightarrow> \<exists>e. inh = Some e \<and> map_of (mm_teams m) p = Some e) \<Longrightarrow>
   set (em_decisions (team_effective v inh t)) \<subseteq> bound \<Longrightarrow> walk_ok bound (visit v inh t m)"
  "walk_ok bound m \<Longrightarrow> distinct (concat (map team_ids ts)) \<Longrightarrow>
   (\<And>k. k \<in> set (concat (map team_ids ts)) \<Longrightarrow> map_of (mm_teams m) k = None) \<Longrightarrow>
   map_of (mm_teams m) i = Some e \<Longrightarrow> set (em_decisions e) \<subseteq> bound \<Longrightarrow> walk_ok bound (visit_all v e i ts m)"
proof (induction v inh t m and v e i ts m rule: visit_visit_all.induct)
  case (1 v inh i d l ms ts m)
  let ?t = "Team i d l ms ts"
  have fresh: "map_of (mm_teams m) (tm_id ?t) = None" using 1(4) [of i] by simp
  have "members_ok (enter_team v inh ?t m)"
    by (rule enter_members_ok [OF _ fresh]) (use 1(2) in \<open>simp add: walk_ok_def\<close>)
  moreover have "teams_ok bound (enter_team v inh ?t m)"
    by (rule enter_teams_ok [OF _ fresh]) (use 1(2,5,6) in \<open>simp_all add: walk_ok_def\<close>)
  ultimately have ok: "walk_ok bound (enter_team v inh ?t m)" by (simp add: walk_ok_def)
  have "walk_ok bound (visit_all v (team_effective v inh ?t) i ts (enter_team v inh ?t m))"
    by (rule 1(1) [OF ok]) (use 1(3,4,6) in auto)
  then show ?case by simp
next
  case (3 v e i t ts m)
  let ?m1 = "m\<lparr>mm_parent := AList.update (tm_id t) i (mm_parent m)\<rparr>"
  have ok1: "walk_ok bound ?m1"
    using 3(3) by (rule set_parent_ok [OF _ 3(6)]) (use 3(5) in simp)
  have sub: "set (em_decisions (team_effective v (Some e) t)) \<subseteq> bound"
    using 3(7) narrowed_by_narrower [of e "tm_id t" "tm_mandate t"]
    by (auto simp: team_effective_def narrower_def)
  have ok2: "walk_ok bound (visit v (Some e) t ?m1)"
    by (rule 3(1) [OF ok1 _ _ _ sub]) (use 3(4,5,6) in auto)
  have frame: "map_of (mm_teams (visit v (Some e) t ?m1)) k = map_of (mm_teams m) k" if "k \<notin> set (team_ids t)" for k
    using visit_teams_frame(1) [OF that, of v "Some e" ?m1] by simp
  have "i \<notin> set (team_ids t)" using 3(5,6) by force
  then have i: "map_of (mm_teams (visit v (Some e) t ?m1)) i = Some e" using frame 3(6) by simp
  have fresh: "map_of (mm_teams (visit v (Some e) t ?m1)) k = None" if "k \<in> set (concat (map team_ids ts))" for k
    using that 3(4,5) frame [of k] by fastforce
  have "walk_ok bound (visit_all v e i ts (visit v (Some e) t ?m1))"
    by (rule 3(2) [OF ok2 _ fresh i 3(7)]) (use 3(4) in auto)
  then show ?case by simp
qed simp

text \<open>Nothing of the tree is left out.\<close>

definition keys_of :: "(string \<times> 'a) list \<Rightarrow> string set" where
  "keys_of d = fst ` set d"

lemma keys_of_update [simp]: "keys_of (AList.update k v d) = insert k (keys_of d)"
  by (simp add: keys_of_def dom_update)

lemma keys_of_iff: "k \<in> keys_of d \<longleftrightarrow> map_of d k \<noteq> None"
  by (simp add: keys_of_def map_of_eq_None_iff)

lemma members_covered: "keys_of (mm_agents (fold (visit_member t e) as m)) = om_id ` set as \<union> keys_of (mm_agents m)"
  by (induction as arbitrary: m) (simp_all add: insert_commute)

lemma enter_team_agents:
  "keys_of (mm_agents (enter_team v inh t m)) = om_id ` set (tm_members t) \<union> keys_of (mm_agents m)"
  by (simp add: enter_team_def Let_def members_covered split: option.split)

lemma visit_covers_teams:
  "keys_of (mm_teams (visit v inh t m)) = set (team_ids t) \<union> keys_of (mm_teams m)"
  "keys_of (mm_teams (visit_all v e i ts m)) = set (concat (map team_ids ts)) \<union> keys_of (mm_teams m)"
  by (induction v inh t m and v e i ts m rule: visit_visit_all.induct) (simp_all add: Un_ac)

lemma visit_covers_agents:
  "keys_of (mm_agents (visit v inh t m)) = set (member_ids t) \<union> keys_of (mm_agents m)"
  "keys_of (mm_agents (visit_all v e i ts m)) = set (concat (map member_ids ts)) \<union> keys_of (mm_agents m)"
  by (induction v inh t m and v e i ts m rule: visit_visit_all.induct) (simp_all add: Un_ac enter_team_agents)

lemma visit_parents:
  "keys_of (mm_parent (visit v inh t m)) \<subseteq> keys_of (mm_parent m) \<union> set (team_ids t)"
  "keys_of (mm_parent (visit_all v e i ts m)) \<subseteq> keys_of (mm_parent m) \<union> set (concat (map team_ids ts))"
proof (induction v inh t m and v e i ts m rule: visit_visit_all.induct)
  case (1 v inh i d l ms ts m) then show ?case by (simp, blast)
next
  case (3 v e i t ts m)
  then show ?case using tm_id_in_team_ids [of t] by (simp, blast)
qed simp

section \<open>The walk as a whole\<close>

lemma visit_person_simps [simp]:
  "mm_teams (visit_person r re p m) = mm_teams m" "mm_agents (visit_person r re p m) = mm_agents m"
  "mm_home (visit_person r re p m) = mm_home m" "mm_parent (visit_person r re p m) = mm_parent m"
  by (simp_all add: visit_person_def Let_def)

lemma people_frame [simp]:
  "mm_teams (fold (visit_person r re) ps m) = mm_teams m" "mm_agents (fold (visit_person r re) ps m) = mm_agents m"
  "mm_home (fold (visit_person r re) ps m) = mm_home m" "mm_parent (fold (visit_person r re) ps m) = mm_parent m"
  by (induction ps arbitrary: m) simp_all

text \<open>A person is bounded by the unit they are attached to.\<close>

definition people_ok :: "effective_mandate \<Rightarrow> mandate_map \<Rightarrow> bool" where
  "people_ok re m \<longleftrightarrow> (\<forall>p e. map_of (mm_people m) p = Some e \<longrightarrow>
     (\<exists>u. map_of (mm_person_unit m) p = Some u \<and> narrower e (dict_get (mm_teams m) u re)))"

lemma visit_person_maps:
  "map_of (mm_people (visit_person r re p m)) k =
     (if k = pn_id p
      then Some (narrowed_by (dict_get (mm_teams m) (if pn_unit p \<noteq> [] then pn_unit p else r) re) (pn_id p) (pn_mandate p))
      else map_of (mm_people m) k)"
  "map_of (mm_person_unit (visit_person r re p m)) k =
     (if k = pn_id p then Some (if pn_unit p \<noteq> [] then pn_unit p else r) else map_of (mm_person_unit m) k)"
  by (simp_all add: visit_person_def Let_def)

lemma visit_person_ok:
  assumes "people_ok re m" shows "people_ok re (visit_person r re p m)"
  unfolding people_ok_def
proof (intro allI impI)
  fix k e assume k: "map_of (mm_people (visit_person r re p m)) k = Some e"
  show "\<exists>u. map_of (mm_person_unit (visit_person r re p m)) k = Some u \<and>
      narrower e (dict_get (mm_teams (visit_person r re p m)) u re)"
  proof (cases "k = pn_id p")
    case True
    have "Some e = Some (narrowed_by (dict_get (mm_teams m) (if pn_unit p \<noteq> [] then pn_unit p else r) re)
        (pn_id p) (pn_mandate p))"
      by (rule trans [OF k [symmetric]]) (unfold visit_person_maps True, rule if_P, rule refl)
    then have "e = narrowed_by (dict_get (mm_teams m) (if pn_unit p \<noteq> [] then pn_unit p else r) re)
        (pn_id p) (pn_mandate p)" by (rule option.inject [THEN iffD1])
    then have "narrower e (dict_get (mm_teams m) (if pn_unit p \<noteq> [] then pn_unit p else r) re)"
      by (simp only: narrowed_by_narrower)
    with True show ?thesis unfolding visit_person_maps(2) visit_person_simps
      by (intro exI [of _ "if pn_unit p \<noteq> [] then pn_unit p else r"] conjI) simp_all
  next
    case False
    with k assms show ?thesis unfolding visit_person_maps people_ok_def visit_person_simps if_not_P by presburger
  qed
qed

lemma people_fold_ok: "people_ok re m \<Longrightarrow> people_ok re (fold (visit_person r re) ps m)"
  by (induction ps arbitrary: m) (simp_all add: visit_person_ok)

lemma visit_people:
  "mm_people (visit v inh t m) = mm_people m"
  "mm_people (visit_all v e i ts m) = mm_people m"
proof (induction v inh t m and v e i ts m rule: visit_visit_all.induct)
  case (1 v inh i d l ms ts m)
  have "mm_people (fold (visit_member k f) as n) = mm_people n" for k f as n
    by (induction as arbitrary: n) (simp_all add: visit_member_def Let_def)
  with 1 show ?case by (simp add: enter_team_def Let_def split: option.split)
qed simp_all

definition root_decisions :: "team \<Rightarrow> string list \<Rightarrow> string list" where
  "root_decisions organization vocabulary = em_decisions (team_effective vocabulary None organization)"

lemma resolve_walk:
  assumes "distinct (team_ids organization)" and "m = visit vocabulary None organization empty_map"
  shows "walk_ok (set (root_decisions organization vocabulary)) m"
    and "set (em_decisions (dict_get (mm_teams m) (tm_id organization) no_mandate))
      \<subseteq> set (root_decisions organization vocabulary)"
proof -
  show ok: "walk_ok (set (root_decisions organization vocabulary)) m"
    unfolding assms(2)
    by (rule visit_ok(1) [OF _ assms(1)])
      (simp_all add: walk_ok_def members_ok_def teams_ok_def empty_map_def root_decisions_def)
  then show "set (em_decisions (dict_get (mm_teams m) (tm_id organization) no_mandate))
      \<subseteq> set (root_decisions organization vocabulary)"
    unfolding walk_ok_def teams_ok_def
    by (cases "map_of (mm_teams m) (tm_id organization)") (simp_all add: dict_get_def no_mandate_def)
qed

section \<open>Finding a holder\<close>

definition line_above :: "mandate_map \<Rightarrow> string \<Rightarrow> string \<Rightarrow> bool" where
  "line_above m t u \<longleftrightarrow> map_of (mm_parent m) t = Some u \<and> u \<noteq> []"

text \<open>Who may take a decision at one team of the line.\<close>

definition holds_at :: "mandate_map \<Rightarrow> string \<Rightarrow> string \<Rightarrow> string \<Rightarrow> string \<Rightarrow> bool" where
  "holds_at m agent_id decision t p \<longleftrightarrow>
     map_of (mm_leader m) t = Some p \<and> p \<noteq> [] \<and> p \<noteq> agent_id \<and> covers_decision (for_agent m p) decision \<or>
     p \<in> set (people_on m t) \<and> covers_decision (for_person m p) decision"

lemma holder_walk_Some:
  "holder_walk m a d seen team = Some p \<Longrightarrow>
     \<exists>t0 t. team = Some t0 \<and> t0 \<noteq> [] \<and> (line_above m)\<^sup>*\<^sup>* t0 t \<and> holds_at m a d t p"
proof (induction m a d seen team rule: holder_walk.induct)
  case (2 m a d seen team)
  let ?lead = "dict_get (mm_leader m) team []"
  from 2(2) have ne: "team \<noteq> []" "team \<notin> set seen" by (auto simp: holder_walk.simps split: if_splits)
  show ?case
  proof (cases "?lead \<noteq> [] \<and> ?lead \<noteq> a \<and> covers_decision (for_agent m ?lead) d")
    case True
    with 2(2) ne have "p = ?lead" by (simp add: holder_walk.simps Let_def)
    with True have "holds_at m a d team p" by (auto simp: holds_at_def dict_get_def split: option.splits)
    with ne show ?thesis by blast
  next
    case no: False
    show ?thesis
    proof (cases "List.find (\<lambda>p. covers_decision (for_person m p) d) (people_on m team)")
      case (Some q)
      with 2(2) ne no have "p = q" by (simp add: holder_walk.simps Let_def)
      with find_SomeD [OF Some] have "holds_at m a d team p" by (simp add: holds_at_def)
      with ne show ?thesis by blast
    next
      case None
      with 2(2) ne no have "holder_walk m a d (team # seen) (map_of (mm_parent m) team) = Some p"
        by (simp add: holder_walk.simps Let_def)
      have "\<not> (team = [] \<or> team \<in> set seen)" using ne by simp
      from 2(1) [OF this refl no None \<open>holder_walk m a d (team # seen) _ = Some p\<close>] obtain t0 t where
        up: "map_of (mm_parent m) team = Some t0" "t0 \<noteq> []" "(line_above m)\<^sup>*\<^sup>* t0 t" and h: "holds_at m a d t p"
        by blast
      have "line_above m team t0" using up(1,2) by (simp add: line_above_def)
      then have "(line_above m)\<^sup>*\<^sup>* team t" using up(3) by (rule converse_rtranclp_into_rtranclp)
      with ne(1) h show ?thesis by blast
    qed
  qed
qed (simp add: holder_walk.simps)

lemma holder_walk_None:
  "holder_walk m a d seen team = None \<Longrightarrow> \<forall>t \<in> set seen. \<forall>p. \<not> holds_at m a d t p \<Longrightarrow>
   \<forall>t \<in> set seen. \<forall>u. line_above m t u \<longrightarrow> u \<in> set seen \<or> team = Some u \<Longrightarrow>
   \<exists>S. set seen \<subseteq> S \<and> (\<forall>t0. team = Some t0 \<longrightarrow> t0 \<noteq> [] \<longrightarrow> t0 \<in> S) \<and>
     (\<forall>t \<in> S. \<forall>p. \<not> holds_at m a d t p) \<and> (\<forall>t \<in> S. \<forall>u. line_above m t u \<longrightarrow> u \<in> S)"
proof (induction m a d seen team rule: holder_walk.induct)
  case (1 m a d seen)
  then show ?case by (intro exI [of _ "set seen"]) auto
next
  case (2 m a d seen team)
  let ?lead = "dict_get (mm_leader m) team []"
  show ?case
  proof (cases "team = [] \<or> team \<in> set seen")
    case True
    then show ?thesis using 2(3,4) by (intro exI [of _ "set seen"]) (auto simp: line_above_def)
  next
    case False
    then have no: "\<not> (?lead \<noteq> [] \<and> ?lead \<noteq> a \<and> covers_decision (for_agent m ?lead) d)"
      and none: "List.find (\<lambda>p. covers_decision (for_person m p) d) (people_on m team) = None"
      and rest: "holder_walk m a d (team # seen) (map_of (mm_parent m) team) = None"
      using 2(2) by (auto simp: holder_walk.simps Let_def split: if_splits option.splits)
    have clear: "\<not> holds_at m a d team p" for p
      using no none by (auto simp: holds_at_def dict_get_def find_None_iff')
    obtain S where "set (team # seen) \<subseteq> S" "\<forall>t \<in> S. \<forall>p. \<not> holds_at m a d t p" "\<forall>t \<in> S. \<forall>u. line_above m t u \<longrightarrow> u \<in> S"
    proof (rule exE)
      show "\<exists>S. set (team # seen) \<subseteq> S \<and> (\<forall>t0. map_of (mm_parent m) team = Some t0 \<longrightarrow> t0 \<noteq> [] \<longrightarrow> t0 \<in> S) \<and>
        (\<forall>t \<in> S. \<forall>p. \<not> holds_at m a d t p) \<and> (\<forall>t \<in> S. \<forall>u. line_above m t u \<longrightarrow> u \<in> S)"
        by (rule 2(1) [OF False refl no none rest]) (use clear 2(3,4) in \<open>auto simp: line_above_def\<close>)
    qed blast
    then show ?thesis by (intro exI [of _ S]) simp
  qed
qed

section \<open>Properties\<close>

text \<open>
  C36: Authority narrows down the tree: for an organization whose team ids are distinct, every team
  below another holds a subset of its parent's decisions under all of its parent's conditions, and
  so does every agent with respect to its home team; every team and every member of the tree is
  resolved.
\<close>

theorem authority_narrows_down_the_tree:
  assumes "distinct (team_ids organization)" and "m = resolve organization vocabulary people"
  shows "(\<forall>c t. map_of (mm_parent m) c = Some t \<longrightarrow> (\<exists>ec et. map_of (mm_teams m) c = Some ec \<and>
      map_of (mm_teams m) t = Some et \<and> set (em_decisions ec) \<subseteq> set (em_decisions et) \<and>
      prefix (em_conditions et) (em_conditions ec))) \<and>
    (\<forall>a t. map_of (mm_home m) a = Some t \<longrightarrow> (\<exists>ea et. map_of (mm_agents m) a = Some ea \<and>
      map_of (mm_teams m) t = Some et \<and> set (em_decisions ea) \<subseteq> set (em_decisions et) \<and>
      prefix (em_conditions et) (em_conditions ea))) \<and>
    fst ` set (mm_teams m) = set (team_ids organization) \<and>
    fst ` set (mm_agents m) = set (member_ids organization)"
proof -
  define w where "w = visit vocabulary None organization empty_map"
  have same: "mm_teams m = mm_teams w" "mm_agents m = mm_agents w" "mm_home m = mm_home w"
    "mm_parent m = mm_parent w"
    by (simp_all add: assms(2) resolve_def w_def Let_def)
  have ok: "members_ok w" "teams_ok (set (root_decisions organization vocabulary)) w"
    using resolve_walk(1) [OF assms(1) w_def] by (simp_all add: walk_ok_def)
  have cover: "keys_of (mm_teams w) = set (team_ids organization)" "keys_of (mm_agents w) = set (member_ids organization)"
    unfolding w_def visit_covers_teams visit_covers_agents by (simp_all add: empty_map_def keys_of_def)
  have "keys_of (mm_parent w) \<subseteq> keys_of (mm_teams w)"
    using visit_parents(1) [of vocabulary None organization empty_map]
    unfolding cover by (simp add: w_def empty_map_def keys_of_def)
  then have known: "\<exists>ec. map_of (mm_teams w) c = Some ec" if "map_of (mm_parent w) c = Some t" for c t
    using that keys_of_iff [of c "mm_parent w"] keys_of_iff [of c "mm_teams w"] by auto
  show ?thesis
    unfolding same
  proof (intro conjI allI impI)
    fix c t assume p: "map_of (mm_parent w) c = Some t"
    from ok(2) p known [OF p] show "\<exists>ec et. map_of (mm_teams w) c = Some ec \<and> map_of (mm_teams w) t = Some et \<and>
        set (em_decisions ec) \<subseteq> set (em_decisions et) \<and> prefix (em_conditions et) (em_conditions ec)"
      unfolding teams_ok_def narrower_def by blast
  next
    fix a t assume "map_of (mm_home w) a = Some t"
    with ok(1) show "\<exists>ea et. map_of (mm_agents w) a = Some ea \<and> map_of (mm_teams w) t = Some et \<and>
        set (em_decisions ea) \<subseteq> set (em_decisions et) \<and> prefix (em_conditions et) (em_conditions ea)"
      unfolding members_ok_def narrower_def by blast
  qed (use cover in \<open>simp_all add: keys_of_def\<close>)
qed

definition example_team :: "string \<Rightarrow> string list \<Rightarrow> org_member list \<Rightarrow> team list \<Rightarrow> team" where
  "example_team i ds ms ts = Team i (Some \<lparr>md_decisions = ds, md_conditions = []\<rparr>) (i @ ''_lead'') ms ts"

definition example_org :: team where
  "example_org = example_team ''org'' [''hire'', ''pay'']
     [\<lparr>om_id = ''org_lead'', om_mandate = None\<rparr>]
     [example_team ''fin'' [''pay'', ''sell''] [\<lparr>om_id = ''clerk'', om_mandate = Some
        \<lparr>md_decisions = [''hire''], md_conditions = []\<rparr>\<rparr>] []]"

definition example_people :: "person list" where
  "example_people = [\<lparr>pn_id = ''cfo'', pn_unit = ''fin'', pn_mandate = None\<rparr>]"

lemma example_org_distinct: "distinct (team_ids example_org)"
  by code_simp

theorem authority_narrows_down_the_tree_witness:
  "\<exists>ec et. map_of (mm_teams (resolve example_org [] example_people)) ''fin'' = Some ec \<and>
     map_of (mm_teams (resolve example_org [] example_people)) ''org'' = Some et \<and>
     set (em_decisions ec) \<subseteq> set (em_decisions et)"
proof -
  have fin: "map_of (mm_parent (resolve example_org [] example_people)) ''fin'' = Some ''org''" by code_simp
  from authority_narrows_down_the_tree [OF example_org_distinct refl, of "[]" example_people,
      THEN conjunct1, rule_format, OF fin]
  show ?thesis by (elim exE conjE) (intro exI conjI)
qed

text \<open>
  Nobody holds what the organization does not: every decision an agent or a person may take is
  one the root declares, or one of the declared vocabulary when the root declares none.
\<close>

theorem authority_is_bounded_by_the_root:
  assumes "distinct (team_ids organization)"
    and "covers_decision (for_agent (resolve organization vocabulary people) p) decision \<or>
      covers_decision (for_person (resolve organization vocabulary people) p) decision"
  shows "decision \<in> set (case tm_mandate organization of
      Some d \<Rightarrow> if md_decisions d \<noteq> [] then md_decisions d else vocabulary | None \<Rightarrow> vocabulary)"
proof -
  define w where "w = visit vocabulary None organization empty_map"
  define re where "re = dict_get (mm_teams w) (tm_id organization) no_mandate"
  define m where "m = fold (visit_person (tm_id organization) re) people w"
  have m: "resolve organization vocabulary people = m" by (simp add: resolve_def w_def re_def m_def Let_def)
  have ok: "members_ok w" "teams_ok (set (root_decisions organization vocabulary)) w"
    using resolve_walk(1) [OF assms(1) w_def] by (simp_all add: walk_ok_def)
  have root: "set (em_decisions re) \<subseteq> set (root_decisions organization vocabulary)"
    unfolding re_def by (rule resolve_walk(2) [OF assms(1) w_def])
  have "people_ok re w" by (simp add: people_ok_def w_def visit_people empty_map_def)
  then have people: "people_ok re m" unfolding m_def by (rule people_fold_ok)
  have team: "set (em_decisions (dict_get (mm_teams w) u re)) \<subseteq> set (root_decisions organization vocabulary)" for u
    using ok(2) root unfolding teams_ok_def by (cases "map_of (mm_teams w) u") (simp_all add: dict_get_def)
  have agent: "set (em_decisions (for_agent m p)) \<subseteq> set (root_decisions organization vocabulary)"
  proof (cases "map_of (mm_agents w) p")
    case None
    then show ?thesis by (simp add: for_agent_def dict_get_def m_def no_mandate_def)
  next
    case (Some ea)
    with ok(1) obtain t et where "map_of (mm_teams w) t = Some et" "narrower ea et"
      unfolding members_ok_def by (metis not_None_eq option.inject)
    with team [of t] have "set (em_decisions ea) \<subseteq> set (root_decisions organization vocabulary)"
      by (auto simp: dict_get_def narrower_def)
    with Some show ?thesis by (simp add: for_agent_def dict_get_def m_def)
  qed
  have person: "set (em_decisions (for_person m p)) \<subseteq> set (root_decisions organization vocabulary)"
  proof (cases "map_of (mm_people m) p")
    case None
    then show ?thesis by (simp add: for_person_def dict_get_def no_mandate_def)
  next
    case (Some e)
    with people obtain u where "narrower e (dict_get (mm_teams m) u re)" unfolding people_ok_def by blast
    with team [of u] have "set (em_decisions e) \<subseteq> set (root_decisions organization vocabulary)"
      by (auto simp: narrower_def m_def)
    with Some show ?thesis by (simp add: for_person_def dict_get_def)
  qed
  have "decision \<in> set (root_decisions organization vocabulary)"
    using assms(2) agent person unfolding m covers_decision_def by blast
  then show ?thesis
    by (cases "tm_mandate organization")
      (simp_all add: root_decisions_def team_effective_def root_mandate_def split: if_splits)
qed

theorem authority_is_bounded_by_the_root_witness:
  "covers_decision (for_person (resolve example_org [] example_people) ''cfo'') ''pay'' \<and>
   ''pay'' \<in> set [''hire'', ''pay'']"
proof -
  have "covers_decision (for_person (resolve example_org [] example_people) ''cfo'') ''pay''" by code_simp
  with authority_is_bounded_by_the_root [OF example_org_distinct disjI2 [OF this]] show ?thesis
    by (simp add: example_org_def example_team_def)
qed

text \<open>
  The holder search never promotes and never gives up early. Whom it names holds the decision
  and is the agent itself, or the leader of or a person attached to a team on the line above it;
  and it names nobody only if the agent does not hold the decision and no leader or person on that
  line does, so every cyclic or broken line ends in a refusal.
\<close>

theorem holder_is_on_the_line:
  "case holder m agent_id decision of
     Some p \<Rightarrow> p = agent_id \<and> covers_decision (for_agent m agent_id) decision \<or>
       (\<exists>t0 t. map_of (mm_home m) agent_id = Some t0 \<and> t0 \<noteq> [] \<and> (line_above m)\<^sup>*\<^sup>* t0 t \<and> holds_at m agent_id decision t p)
   | None \<Rightarrow> \<not> covers_decision (for_agent m agent_id) decision \<and>
       (\<nexists>t0 t p. map_of (mm_home m) agent_id = Some t0 \<and> t0 \<noteq> [] \<and> (line_above m)\<^sup>*\<^sup>* t0 t \<and> holds_at m agent_id decision t p)"
proof (cases "covers_decision (for_agent m agent_id) decision")
  case True
  then show ?thesis by (simp add: holder_def)
next
  case False
  then have h: "holder m agent_id decision = holder_walk m agent_id decision [] (map_of (mm_home m) agent_id)"
    by (simp add: holder_def)
  show ?thesis
  proof (cases "holder m agent_id decision")
    case (Some p)
    with h have "holder_walk m agent_id decision [] (map_of (mm_home m) agent_id) = Some p" by simp
    from holder_walk_Some [OF this] show ?thesis unfolding Some by (simp only: option.case) blast
  next
    case None
    with h obtain S where S: "\<forall>t0. map_of (mm_home m) agent_id = Some t0 \<longrightarrow> t0 \<noteq> [] \<longrightarrow> t0 \<in> S"
      "\<forall>t \<in> S. \<forall>p. \<not> holds_at m agent_id decision t p" "\<forall>t \<in> S. \<forall>u. line_above m t u \<longrightarrow> u \<in> S"
      using holder_walk_None [of m agent_id decision "[]" "map_of (mm_home m) agent_id"] by auto
    have "t \<in> S" if "(line_above m)\<^sup>*\<^sup>* t0 t" "t0 \<in> S" for t0 t
      using that by (induction rule: rtranclp_induct) (use S(3) in blast)+
    with S None False show ?thesis by (simp only: option.case) blast
  qed
qed

end
