(* ===== verification/Continuity.thy ===== *)
theory Continuity
  imports Prelude
begin

text \<open>
  Mission windows (\<open>missions.py\<close>) and standing in for a failed leader (\<open>continuity.py\<close>). A date is
  its day number; where the code parses a date from a record, the record holds no date, a text that
  is no ISO date, or a day. \<open>on\<close> is the day a question is asked for; \<open>today\<close> is \<open>date.today()\<close>.
\<close>

section \<open>Windows\<close>

datatype date_text = NoDate | BadDate string | Day int

fun parse_date :: "date_text \<Rightarrow> int option" where
  "parse_date (Day d) = Some d"
| "parse_date v = None"

definition open_statuses :: "string list" where
  "open_statuses = [''proposed'', ''active'']"

definition closed_statuses :: "string list" where
  "closed_statuses = [''completed'', ''disbanded'']"

definition window_is_open :: "string \<Rightarrow> date_text \<Rightarrow> date_text \<Rightarrow> int \<Rightarrow> bool" where
  "window_is_open status starts_on ends_on day =
     (if status \<in> set closed_statuses then False
      else if status \<notin> set open_statuses then False
      else if (case parse_date starts_on of None \<Rightarrow> False | Some s \<Rightarrow> day < s) then False
      else if (case parse_date ends_on of None \<Rightarrow> False | Some e \<Rightarrow> day > e) then False
      else True)"

record mission_grant =
  gr_status :: string
  gr_starts_on :: date_text
  gr_ends_on :: date_text
  gr_peers :: "string list"

definition grant_is_open :: "mission_grant \<Rightarrow> int \<Rightarrow> bool" where
  "grant_is_open g day = window_is_open (gr_status g) (gr_starts_on g) (gr_ends_on g) day"

definition open_peers :: "mission_grant list \<Rightarrow> int \<Rightarrow> string list" where
  "open_peers grants day = sort (fromkeys (concat (map gr_peers (filter (\<lambda>g. grant_is_open g day) grants))))"

datatype mission_status = MissionProposed | MissionActive | MissionCompleted | MissionDisbanded

fun mission_status_value :: "mission_status \<Rightarrow> string" where
  "mission_status_value MissionProposed = ''proposed''"
| "mission_status_value MissionActive = ''active''"
| "mission_status_value MissionCompleted = ''completed''"
| "mission_status_value MissionDisbanded = ''disbanded''"

record mission =
  mi_id :: string
  mi_status :: mission_status
  mi_starts_on :: date_text
  mi_ends_on :: date_text

fun sweep :: "mission list \<Rightarrow> int \<Rightarrow> mission list \<times> string list" where
  "sweep [] today = ([], [])"
| "sweep (m # ms) today =
     (let (rest, swept) = sweep ms today in
      if mission_status_value (mi_status m) \<notin> set open_statuses then (m # rest, swept)
      else (case parse_date (mi_ends_on m) of
              Some e \<Rightarrow> if today > e then (m\<lparr>mi_status := MissionCompleted\<rparr> # rest, mi_id m # swept)
                        else (m # rest, swept)
            | None \<Rightarrow> (m # rest, swept)))"

definition mission_is_open :: "mission \<Rightarrow> int \<Rightarrow> bool" where
  "mission_is_open m day =
     window_is_open (mission_status_value (mi_status m)) (mi_starts_on m) (mi_ends_on m) day"

section \<open>Standing in\<close>

definition default_standing_in_days :: int where
  "default_standing_in_days = 7"

record separation =
  sp_id :: string
  sp_reason :: string
  sp_decisions :: "string list"

record withheld_decision =
  wd_decision :: string
  wd_separation :: string
  wd_reason :: string

record acting_assignment =
  aa_id :: string
  aa_failed_agent_id :: string
  aa_successor_agent_id :: string
  aa_by_hierarchy :: bool
  aa_decisions :: "string list"
  aa_withheld :: "withheld_decision list"
  aa_reason :: string
  aa_status :: string
  aa_started_at :: instant
  aa_starts_on :: date_text
  aa_ends_on :: date_text
  aa_adopted_handles :: "string list"

definition assignment_is_open :: "acting_assignment \<Rightarrow> int \<Rightarrow> bool" where
  "assignment_is_open a day =
     (if aa_status a \<noteq> ''active'' then False
      else window_is_open ''active'' (aa_starts_on a) (aa_ends_on a) day)"

definition assignment_covers :: "acting_assignment \<Rightarrow> string \<Rightarrow> int \<Rightarrow> bool" where
  "assignment_covers a decision day \<longleftrightarrow> assignment_is_open a day \<and> decision \<in> set (aa_decisions a)"

text \<open>The first separation that \<open>decision\<close> and something else held would meet in.\<close>

definition separation_conflict :: "separation list \<Rightarrow> string list \<Rightarrow> string \<Rightarrow> separation option" where
  "separation_conflict rules held decision =
     List.find (\<lambda>r. decision \<in> set (sp_decisions r) \<and>
       (\<exists>x \<in> set held. x \<in> set (sp_decisions r) \<and> x \<noteq> decision)) rules"

fun split_loop ::
  "separation list \<Rightarrow> string list \<Rightarrow> string list \<Rightarrow> string list \<times> withheld_decision list" where
  "split_loop rules held [] = ([], [])"
| "split_loop rules held (d # ds) =
     (if d \<in> set held then split_loop rules held ds
      else (case separation_conflict rules held d of
              Some r \<Rightarrow> (let (granted, withheld) = split_loop rules held ds
                in (granted, \<lparr>wd_decision = d, wd_separation = sp_id r, wd_reason = sp_reason r\<rparr> # withheld))
            | None \<Rightarrow> (let (granted, withheld) = split_loop rules (d # held) ds in (d # granted, withheld))))"

definition split_mandate ::
  "string list \<Rightarrow> string list \<Rightarrow> separation list \<Rightarrow> string list \<times> withheld_decision list" where
  "split_mandate leader_mandate successor_holds separations =
     split_loop separations successor_holds (sorted_set leader_mandate)"

definition open_assignment ::
  "string \<Rightarrow> instant \<Rightarrow> int \<Rightarrow> string \<Rightarrow> string \<Rightarrow> string list \<Rightarrow> string list \<Rightarrow> separation list \<Rightarrow> bool \<Rightarrow>
     string \<Rightarrow> date_text \<Rightarrow> acting_assignment" where
  "open_assignment fresh now today failed successor leader_mandate successor_mandate separations
     by_hierarchy reason ends_on =
     (if by_hierarchy
      then \<lparr>aa_id = fresh, aa_failed_agent_id = failed, aa_successor_agent_id = successor,
            aa_by_hierarchy = True, aa_decisions = [], aa_withheld = [], aa_reason = reason,
            aa_status = ''active'', aa_started_at = now, aa_starts_on = NoDate, aa_ends_on = NoDate,
            aa_adopted_handles = []\<rparr>
      else (let (granted, withheld) = split_mandate leader_mandate successor_mandate separations
        in \<lparr>aa_id = fresh, aa_failed_agent_id = failed, aa_successor_agent_id = successor,
            aa_by_hierarchy = False, aa_decisions = granted, aa_withheld = withheld, aa_reason = reason,
            aa_status = ''active'', aa_started_at = now, aa_starts_on = NoDate,
            aa_ends_on = (if ends_on = NoDate then Day (today + default_standing_in_days) else ends_on),
            aa_adopted_handles = []\<rparr>))"

section \<open>Lemmas\<close>

lemma window_open_iff:
  "window_is_open status s e day \<longleftrightarrow> status \<in> set open_statuses \<and>
     (\<forall>b. parse_date s = Some b \<longrightarrow> b \<le> day) \<and> (\<forall>b. parse_date e = Some b \<longrightarrow> day \<le> b)"
  by (auto simp: window_is_open_def open_statuses_def closed_statuses_def not_less split: option.splits)

lemma sweep_open:
  "today \<le> day \<Longrightarrow> map (\<lambda>m. mission_is_open m day) (fst (sweep ms today)) = map (\<lambda>m. mission_is_open m day) ms"
  by (induction ms)
    (auto simp: mission_is_open_def window_open_iff open_statuses_def split: prod.splits option.splits)

lemma sweep_ids: "map mi_id (fst (sweep ms today)) = map mi_id ms"
  by (induction ms) (auto split: prod.splits option.splits)

lemma sweep_swept:
  "snd (sweep ms today) = map mi_id (filter (\<lambda>m. mission_status_value (mi_status m) \<in> set open_statuses \<and>
     (\<exists>e. parse_date (mi_ends_on m) = Some e \<and> e < today)) ms)"
  by (induction ms) (auto split: prod.splits option.splits)

text \<open>A separation is kept by a set of decisions when it has at most one of its own in it.\<close>

definition keeps :: "separation \<Rightarrow> string set \<Rightarrow> bool" where
  "keeps r D \<longleftrightarrow> (\<forall>x \<in> D. \<forall>y \<in> D. x \<in> set (sp_decisions r) \<longrightarrow> y \<in> set (sp_decisions r) \<longrightarrow> x = y)"

lemma keeps_insert:
  "keeps r D \<Longrightarrow> (d \<in> set (sp_decisions r) \<Longrightarrow> \<forall>x \<in> D. x \<in> set (sp_decisions r) \<longrightarrow> x = d) \<Longrightarrow> keeps r (insert d D)"
  by (auto simp: keeps_def)

lemma conflict_None:
  "separation_conflict rules held d = None \<Longrightarrow> r \<in> set rules \<Longrightarrow> d \<in> set (sp_decisions r) \<Longrightarrow>
     \<forall>x \<in> set held. x \<in> set (sp_decisions r) \<longrightarrow> x = d"
  by (auto simp: separation_conflict_def find_None_iff')

lemma split_loop_keeps:
  "r \<in> set rules \<Longrightarrow> keeps r (set held) \<Longrightarrow> keeps r (set held \<union> set (fst (split_loop rules held ds)))"
proof (induction rules held ds rule: split_loop.induct)
  case (2 rules held d ds)
  show ?case
  proof (cases "d \<in> set held")
    case True with 2 show ?thesis by simp
  next
    case out: False
    show ?thesis
    proof (cases "separation_conflict rules held d")
      case None
      have "keeps r (set (d # held))"
        using keeps_insert [OF 2(5)] conflict_None [OF None 2(4)] by simp
      from 2(2) [OF out None 2(4) this] show ?thesis using out None by (auto split: prod.splits)
    next
      case (Some q)
      with 2(3) [OF out Some 2(4,5)] out Some show ?thesis by (auto split: prod.splits)
    qed
  qed
qed simp

lemma split_loop_parts:
  "distinct ds \<Longrightarrow> set (fst (split_loop rules held ds)) \<union> wd_decision ` set (snd (split_loop rules held ds)) =
     set ds - set held \<and>
   set (fst (split_loop rules held ds)) \<inter> wd_decision ` set (snd (split_loop rules held ds)) = {}"
proof (induction rules held ds rule: split_loop.induct)
  case (2 rules held d ds)
  show ?case
  proof (cases "d \<in> set held")
    case True with 2 show ?thesis by auto
  next
    case out: False
    show ?thesis
    proof (cases "separation_conflict rules held d")
      case None
      with 2(2) [OF out None] 2(4) out show ?thesis by (auto split: prod.splits)
    next
      case (Some q)
      with 2(3) [OF out Some] 2(4) out show ?thesis by (auto split: prod.splits)
    qed
  qed
qed simp

text \<open>What is withheld would have broken a separation the successor is left with.\<close>

lemma split_loop_withheld:
  "w \<in> set (snd (split_loop rules held ds)) \<Longrightarrow>
     \<exists>r \<in> set rules. wd_separation w = sp_id r \<and> wd_decision w \<in> set (sp_decisions r) \<and>
       (\<exists>x \<in> set held \<union> set (fst (split_loop rules held ds)). x \<in> set (sp_decisions r) \<and> x \<noteq> wd_decision w)"
proof (induction rules held ds rule: split_loop.induct)
  case (2 rules held d ds)
  show ?case
  proof (cases "d \<in> set held")
    case True with 2 show ?thesis by simp
  next
    case out: False
    show ?thesis
    proof (cases "separation_conflict rules held d")
      case None
      have parts: "fst (split_loop rules held (d # ds)) = d # fst (split_loop rules (d # held) ds)"
        "snd (split_loop rules held (d # ds)) = snd (split_loop rules (d # held) ds)"
        using out None by (simp_all split: prod.split)
      from 2(4) have "w \<in> set (snd (split_loop rules (d # held) ds))" by (simp only: parts)
      from "2.IH"(2) [OF out None this] show ?thesis unfolding parts by simp
    next
      case (Some q)
      then have q: "q \<in> set rules" "d \<in> set (sp_decisions q)"
        "\<exists>x \<in> set held. x \<in> set (sp_decisions q) \<and> x \<noteq> d"
        by (auto simp: separation_conflict_def dest: find_SomeD)
      from 2(4) out Some consider "w = \<lparr>wd_decision = d, wd_separation = sp_id q, wd_reason = sp_reason q\<rparr>"
        | "w \<in> set (snd (split_loop rules held ds))" by (auto split: prod.splits)
      then show ?thesis
      proof cases
        case 1 with q show ?thesis by auto
      next
        case 2
        have fst: "fst (split_loop rules held (d # ds)) = fst (split_loop rules held ds)"
          using out Some by (simp split: prod.split)
        from "2.IH"(3) [OF out Some 2] show ?thesis unfolding fst .
      qed
    qed
  qed
qed simp

section \<open>Properties\<close>


definition example_separation :: separation where
  "example_separation = \<lparr>sp_id = ''pay_twice'', sp_reason = [], sp_decisions = [''raise'', ''approve'']\<rparr>"


text \<open>
  A lateral stand-in is bounded: whatever an assignment that was opened without an end date
  covers is a decision of the failed leader that the successor did not hold, and only until the
  seventh day after it was opened; standing in by hierarchy covers nothing.
\<close>

theorem standing_in_is_bounded:
  assumes "a = open_assignment fresh now today failed successor leader mine rules by_hierarchy reason NoDate"
    and "assignment_covers a decision day"
  shows "\<not> by_hierarchy \<and> decision \<in> set leader - set mine \<and> day \<le> today + 7"
proof -
  have lateral: "\<not> by_hierarchy"
    using assms by (auto simp: open_assignment_def assignment_covers_def)
  obtain granted withheld where split: "split_mandate leader mine rules = (granted, withheld)"
    by (metis prod.exhaust)
  have "set granted \<subseteq> set leader - set mine"
    using split split_loop_parts [of "sorted_set leader" rules mine] by (auto simp: split_mandate_def)
  moreover have a: "aa_decisions a = granted" "aa_starts_on a = NoDate" "aa_ends_on a = Day (today + 7)"
    unfolding assms(1) open_assignment_def split default_standing_in_days_def using lateral by simp_all
  from assms(2) have "decision \<in> set granted" "window_is_open ''active'' NoDate (Day (today + 7)) day"
    unfolding assignment_covers_def assignment_is_open_def a by (auto split: if_splits)
  ultimately show ?thesis using lateral unfolding window_open_iff by auto
qed

theorem standing_in_is_bounded_witness:
  "(12::int) \<le> 5 + 7"
proof -
  let ?a = "open_assignment ''act_1'' 0 5 ''lead'' ''peer'' [''hire''] [] [] False [] NoDate"
  have "assignment_covers ?a ''hire'' 12" by code_simp
  from standing_in_is_bounded [OF refl this] show ?thesis by simp
qed

text \<open>
  A missed sweep is untidy, not unsafe: from the day of the sweep on, sweeping changes for no
  mission whether its window is open; and it reports exactly the open missions whose end is past.
\<close>

theorem sweep_changes_no_window:
  assumes "sweep ms today = (ms', swept)" and "today \<le> day"
  shows "map (\<lambda>m. (mi_id m, mission_is_open m day)) ms' = map (\<lambda>m. (mi_id m, mission_is_open m day)) ms \<and>
    swept = map mi_id (filter (\<lambda>m. mi_status m \<in> {MissionProposed, MissionActive} \<and>
      (\<exists>e. parse_date (mi_ends_on m) = Some e \<and> e < today)) ms)"
proof -
  have status: "mission_status_value s \<in> set open_statuses \<longleftrightarrow> s \<in> {MissionProposed, MissionActive}" for s
    by (cases s) (simp_all add: open_statuses_def)
  have ms': "ms' = fst (sweep ms today)" and swept: "swept = snd (sweep ms today)" using assms(1) by simp_all
  have "map (\<lambda>m. (mi_id m, mission_is_open m day)) ms' = zip (map mi_id ms') (map (\<lambda>m. mission_is_open m day) ms')"
    by (simp add: zip_map_map zip_same_conv_map comp_def)
  also have "\<dots> = map (\<lambda>m. (mi_id m, mission_is_open m day)) ms"
    unfolding ms' sweep_ids sweep_open [OF assms(2)] by (simp add: zip_map_map zip_same_conv_map comp_def)
  finally show ?thesis unfolding swept sweep_swept status by simp
qed

theorem sweep_changes_no_window_witness:
  "snd (sweep [\<lparr>mi_id = ''m'', mi_status = MissionActive, mi_starts_on = NoDate, mi_ends_on = Day 3\<rparr>] 5) = [''m'']"
proof -
  let ?ms = "[\<lparr>mi_id = ''m'', mi_status = MissionActive, mi_starts_on = NoDate, mi_ends_on = Day 3\<rparr>]"
  obtain ms' swept where s: "sweep ?ms 5 = (ms', swept)" by (metis prod.exhaust)
  from sweep_changes_no_window [OF s order_refl] s show ?thesis by simp
qed

text \<open>An end date that is no date never closes the window: the mission is open while its status
  says so.\<close>

lemma unparsable_end_never_closes:
  "mi_status m = MissionActive \<Longrightarrow> mi_starts_on m = NoDate \<Longrightarrow> mi_ends_on m = BadDate s \<Longrightarrow> mission_is_open m day"
  by (simp add: mission_is_open_def window_open_iff open_statuses_def)

end
