(* ===== verification/WorkflowRuns.thy ===== *)
theory WorkflowRuns
  imports Workflows
begin

text \<open>
  What a run of a workflow promises, over the interpreter of \<open>Workflows\<close>: it returns within its
  bound, follows declared ways, stops at a gate nobody answers, keeps every branch's writes at a
  join, and refuses a graph nothing decides.
\<close>

section \<open>Bounds\<close>

text \<open>A rank for the registered workflows: what one calls has a smaller rank. \<open>calls_below\<close> bounds
  what the nodes of a graph call.\<close>

definition calls_below ::
  "(string \<times> 'v workflow_ref) list \<Rightarrow> (string \<Rightarrow> nat) \<Rightarrow> nat \<Rightarrow> 'v workflow_ref \<Rightarrow> bool" where
  "calls_below workflows rank m ref \<longleftrightarrow> (\<forall>n \<in> set (wf_nodes ref). case nd_workflow n of
     None \<Rightarrow> True | Some wid \<Rightarrow> map_of workflows wid \<noteq> None \<longrightarrow> rank wid < m)"

definition ranked :: "(string \<times> 'v workflow_ref) list \<Rightarrow> (string \<Rightarrow> nat) \<Rightarrow> bool" where
  "ranked workflows rank \<longleftrightarrow> (\<forall>(wid, sub) \<in> set workflows. calls_below workflows rank (rank wid) sub)"

lemma calls_below_mono: "calls_below workflows rank m ref \<Longrightarrow> m \<le> m' \<Longrightarrow> calls_below workflows rank m' ref"
  by (force simp: calls_below_def split: option.splits)

lemma run_ranked:
  assumes "ranked workflows rank"
  shows "calls_below workflows rank depth ref \<Longrightarrow> run (Suc depth) C workflows max_steps ref state w \<noteq> None"
proof (induction depth arbitrary: ref max_steps state w)
  case 0
  have total: "nested_total workflows nested (node_map (wf_nodes ref))" for nested
    using 0 by (auto simp: nested_total_def calls_below_def dest!: node_map_entry)
  have "walk (Suc max_steps) C workflows nested (graph_env ref max_steps edges) False k new_log state w \<noteq> None"
    for edges k nested
    by (rule walk_enough_fuel [OF wf_graph_env]) (simp_all add: graph_env_def new_log_def total)
  then show ?case
    by (auto simp: Let_def simp del: walk.simps not_None_eq split: option.split walk_end.split sum.split)
next
  case (Suc depth)
  have total: "nested_total workflows (run (Suc depth) C workflows 100) (node_map (wf_nodes ref))"
  proof -
    have "run (Suc depth) C workflows 100 sub args w' \<noteq> None"
      if n: "(k, n) \<in> set (node_map (wf_nodes ref))" and wid: "nd_workflow n = Some wid"
        and sub: "map_of workflows wid = Some sub" for k n wid sub args w'
    proof (rule Suc.IH)
      have "rank wid < Suc depth" using Suc.prems node_map_entry [OF n] wid sub by (force simp: calls_below_def)
      moreover have "calls_below workflows rank (rank wid) sub"
        using assms map_of_SomeD [OF sub] by (auto simp: ranked_def)
      ultimately show "calls_below workflows rank depth sub" by (auto intro: calls_below_mono)
    qed
    then show ?thesis unfolding nested_total_def by blast
  qed
  have "walk (Suc max_steps) C workflows (run (Suc depth) C workflows 100) (graph_env ref max_steps edges)
      False k new_log state w \<noteq> None" for edges k
    by (rule walk_enough_fuel [OF wf_graph_env]) (simp_all add: graph_env_def new_log_def total del: run.simps)
  then show ?case
    by (subst run.simps)
      (auto simp: Let_def simp del: walk.simps run.simps not_None_eq split: option.split walk_end.split sum.split)
qed


text \<open>A world without effects for the examples: values are strings, tools return their name.\<close>

definition example_callers :: "(string, unit, string) callers" where
  "example_callers = \<lparr>c_tool = (\<lambda>t args w. (Inr t, w)), c_agent = (\<lambda>a args w. (Inr a, w)), c_human = None,
     c_workflow = None, c_eval = (\<lambda>e st w. (Inr e, w)), c_true = (\<lambda>v. v = ''yes''), c_str = (\<lambda>s. s),
     c_list = (\<lambda>vs w. (concat vs, w)), c_dict = (\<lambda>d w. (concat (map snd d), w))\<rparr>"

definition example_node :: "string \<Rightarrow> string \<Rightarrow> string wf_node" where
  "example_node i k = \<lparr>nd_id = i, nd_kind = k, nd_output = None, nd_tool = Some i, nd_agent = Some i,
     nd_workflow = None, nd_args = [(''q'', TStr ''{{ x }}'')], nd_expr = Some i, nd_cases = [], nd_default = None\<rparr>"

definition example_graph :: "string wf_node list \<Rightarrow> (string \<times> string) list \<Rightarrow> string workflow_ref" where
  "example_graph ns es = \<lparr>wf_id = ''w'', wf_body = ''graph'', wf_nodes = ns, wf_edges = es,
     wf_entry = None, wf_interrupt = []\<rparr>"

text \<open>A fork of two tools that meet at a join, before a person signs off.\<close>

definition signoff_graph :: "string workflow_ref" where
  "signoff_graph = example_graph
     [example_node ''f'' ''fork'', example_node ''a'' ''tool'', example_node ''b'' ''tool'',
      example_node ''j'' ''join'', example_node ''ok'' ''human'', example_node ''pub'' ''tool'']
     [(''f'', ''a''), (''f'', ''b''), (''a'', ''j''), (''b'', ''j''), (''j'', ''ok''), (''ok'', ''pub'')]"

definition signoff_run where
  "signoff_run = run 1 example_callers [] 100 signoff_graph [] ()"


lemma signoff_result:
  "signoff_run = Some (Inr \<lparr>wr_workflow_id = ''w'', wr_state = [(''a'', ''a''), (''b'', ''b'')],
     wr_log = \<lparr>lg_path = [''f'', ''a'', ''b'', ''j'', ''ok''], lg_interrupted = Some ''ok'',
       lg_error = None, lg_steps = 5\<rparr>\<rparr>, ())"
  by code_simp

section \<open>Paths\<close>

text \<open>
  Every step of a run was led to. A node on the path of a result is the entry of the graph or
  the target of a declared way out (an edge, or a case or the default of a branch) of a node earlier
  on the path.
\<close>

theorem workflow_path_follows_ways:
  assumes "run d C workflows max_steps ref state w = Some (Inr r, w')" and "path = lg_path (wr_log r)"
    and "i < length path"
  shows "path ! i = graph_entry ref \<or> (\<exists>j < i. declared_way ref (path ! j) (path ! i))"
  using assms(1)
proof (cases rule: run_log_ok)
  case empty
  with assms show ?thesis by simp
next
  case (walked edges)
  have tr: "traced (graph_env ref max_steps edges) (graph_entry ref) path"
    using walked(2) assms(2) by (simp add: log_ok_def)
  then have e: "path ! i \<noteq> ''END''"
      "path ! i = graph_entry ref \<or> (\<exists>j < i. leads (graph_env ref max_steps edges) (path ! j) (path ! i))"
    using assms(3) by (simp_all add: traced_def)
  then show ?thesis using leads_declared [OF walked(1) _ e(1)] by auto
qed

theorem workflow_path_follows_ways_witness:
  "\<exists>j < 4. declared_way signoff_graph ([''f'', ''a'', ''b'', ''j'', ''ok''] ! j) ''ok''"
  using workflow_path_follows_ways [OF signoff_result [unfolded signoff_run_def] refl, of 4]
  by (auto simp: graph_entry_def signoff_graph_def example_graph_def example_node_def)

section \<open>Gates\<close>

text \<open>A node that waits for a person: a human node, or one the workflow says to interrupt before. A
  join does not count: at the end of a fork it is passed without asking
  (\<open>join_after_fork_is_not_gated\<close>).\<close>

definition waits_for_person :: "'v workflow_ref \<Rightarrow> string \<Rightarrow> bool" where
  "waits_for_person ref k \<longleftrightarrow> (case map_of (node_map (wf_nodes ref)) k of None \<Rightarrow> False
     | Some n \<Rightarrow> (nd_kind n = ''human'' \<or> k \<in> set (wf_interrupt ref)) \<and> nd_kind n \<noteq> ''join'')"

definition ungated :: "'v workflow_ref \<Rightarrow> string list \<Rightarrow> bool" where
  "ungated ref path \<longleftrightarrow> (\<forall>k \<in> set path. \<not> waits_for_person ref k)"

definition paused_at_gate :: "'v workflow_ref \<Rightarrow> 'e run_log \<Rightarrow> bool" where
  "paused_at_gate ref lg \<longleftrightarrow> (\<exists>p k. lg_path lg = p @ [k] \<and> ungated ref p \<and>
     lg_interrupted lg = Some k \<and> lg_error lg = None)"

lemma walk_gates:
  assumes "c_human C = None"
    and "walk fuel C workflows nested (graph_env ref max_steps edges) False k new_log st w = Some (sg, lg, st', w')"
  shows "ungated ref (lg_path lg) \<or> paused_at_gate ref lg"
proof -
  let ?I = "\<lambda>lg. ungated ref (lg_path lg) \<and> lg_error lg = None"
  let ?J = "\<lambda>lg. ungated ref (lg_path lg) \<or> paused_at_gate ref lg"
  let ?G = "graph_env ref max_steps edges"
  have "walk_ok ?G k ?I ?J new_log sg lg"
  proof (rule walk_ends [OF wf_graph_env _ _ _ _ assms(2)], goal_cases)
    case (1 lg k n)
    then show ?case using assms(1)
      by (auto simp: ungated_def waits_for_person_def gated_def graph_env_def split: option.splits)
  next
    case (2 lg k n)
    then show ?case by (auto simp: paused_at_gate_def)
  qed (auto simp: ungated_def new_log_def came_def)
  then show ?thesis by (auto simp: walk_ok_def split: walk_end.splits)
qed



section \<open>Forks\<close>

text \<open>What the branches of a fork come to, each walked from the state of the fork.\<close>

fun branch_ends ::
  "('v, 'w, 'e) walker \<Rightarrow> string list \<Rightarrow> 'e run_log \<Rightarrow> 'v dict \<Rightarrow> 'w \<Rightarrow> (string \<times> 'v dict) list option" where
  "branch_ends walker [] lg st w = Some []"
| "branch_ends walker (t # ts) lg st w =
     (case walker t lg st w of
        Some (Arrived j, lg', branch, w') \<Rightarrow> map_option (\<lambda>bs. (j, branch) # bs) (branch_ends walker ts lg' st w')
      | _ \<Rightarrow> None)"

definition writes_of :: "'v dict \<Rightarrow> 'v dict \<Rightarrow> (string \<times> 'v) set" where
  "writes_of st branch = {(k, v) \<in> set branch. map_of st k \<noteq> Some v}"

lemma merge_writes_Inr:
  assumes "(merge_writes f t st branch writes merged :: 'e wf_error + (string \<times> string) list \<times> 'v dict) =
      Inr (writes', merged')"
    and "dom (map_of writes) = dom (map_of merged)"
  shows "dom (map_of writes') = dom (map_of merged') \<and>
    (\<forall>(k, v) \<in> writes_of st branch. map_of merged k = None \<and> map_of merged' k = Some v) \<and>
    (\<forall>k. map_of merged' k = map_of merged k \<or> (\<exists>v. (k, v) \<in> writes_of st branch)) \<and>
    map_of merged \<subseteq>\<^sub>m map_of merged'"
  using assms
proof (induction f t st branch writes merged rule: merge_writes.induct)
  case (2 f t st k v branch writes merged)
  show ?case
  proof (cases "map_of st k = Some v")
    case True
    with 2 show ?thesis by (auto simp: writes_of_def)
  next
    case False
    then have none1: "map_of writes k = None"
      and rec: "(merge_writes f t st branch (AList.update k t writes) (AList.update k v merged) ::
          'e wf_error + (string \<times> string) list \<times> 'v dict) = Inr (writes', merged')"
      using 2(3) by (auto split: option.splits)
    have none2: "map_of merged k = None" using none1 2(4) by (metis domIff)
    note none = none1 none2
    have "dom (map_of (AList.update k t writes)) = dom (map_of (AList.update k v merged))"
      using 2(4) by (auto simp: dom_def)
    note IH = 2(2) [OF False none(1) rec this]
    have le: "map_of (AList.update k v merged) \<subseteq>\<^sub>m map_of merged'" using IH by blast
    have upd: "map_of (AList.update k v merged) = (map_of merged)(k \<mapsto> v)" by (rule update_conv')
    have v: "map_of merged' k = Some v" using le upd by (auto simp: map_le_def)
    have le': "map_of merged \<subseteq>\<^sub>m map_of merged'"
      using le none(2) unfolding upd by (auto simp: map_le_def dom_def)
    have w: "writes_of st ((k, v) # branch) = insert (k, v) (writes_of st branch)"
      using False by (auto simp: writes_of_def)
    have old: "map_of merged k' = None" if "map_of (AList.update k v merged) k' = None" for k'
      using that by (simp split: if_splits)
    have new: "map_of merged' k' = map_of merged k' \<or> (\<exists>v'. (k', v') \<in> writes_of st ((k, v) # branch))" for k'
      using IH w by (cases "k' = k") (auto split: if_splits)
    have "map_of merged k' = None \<and> map_of merged' k' = Some v'"
      if "(k', v') \<in> writes_of st ((k, v) # branch)" for k' v'
      using that IH old none(2) v unfolding w by blast
    then show ?thesis using IH new le' by blast
  qed
qed (auto simp: writes_of_def)

lemma dict_update_merged:
  assumes "distinct (map fst d)"
  shows "map_of (dict_update st d) k = (case map_of d k of Some v \<Rightarrow> Some v | None \<Rightarrow> map_of st k)"
  using assms
proof (induction d arbitrary: st)
  case (Cons p d)
  obtain a b where p: "p = (a, b)" by (cases p)
  have "map_of d a = None" using Cons.prems p by (simp add: map_of_eq_None_iff)
  moreover have "map_of (dict_update st (p # d)) k = map_of (dict_update (AList.update a b st) d) k"
    by (simp add: dict_update_def p)
  ultimately show ?case using Cons p by (auto split: option.split)
qed (simp add: dict_update_def)

lemma merge_writes_distinct:
  "merge_writes f t st branch writes merged = Inr (writes', merged') \<Longrightarrow> distinct (map fst merged) \<Longrightarrow>
     distinct (map fst merged')"
  by (induction f t st branch writes merged rule: merge_writes.induct)
    (auto simp: distinct_update split: if_splits option.splits)

text \<open>\<open>merged\<close> holds the writes of every branch, no two branches write one key, and nothing else is in
  it.\<close>

definition apart :: "'v dict \<Rightarrow> 'v dict \<Rightarrow> 'v dict \<Rightarrow> bool" where
  "apart st b b' \<longleftrightarrow> fst ` writes_of st b \<inter> fst ` writes_of st b' = {}"

definition merge_of :: "'v dict \<Rightarrow> (string \<times> 'v dict) list \<Rightarrow> 'v dict \<Rightarrow> bool" where
  "merge_of st ends merged \<longleftrightarrow> sorted_wrt (apart st) (map snd ends) \<and>
     (\<forall>b \<in> snd ` set ends. \<forall>(k, v) \<in> writes_of st b. map_of merged k = Some v) \<and>
     (\<forall>k. map_of merged k \<noteq> None \<longrightarrow> (\<exists>b \<in> snd ` set ends. k \<in> fst ` writes_of st b))"

lemma merge_of_snoc:
  assumes m: "merge_of st ends merged"
    and new: "\<forall>(k, v) \<in> writes_of st branch. map_of merged k = None \<and> map_of merged2 k = Some v"
    and only: "\<forall>k. map_of merged2 k = map_of merged k \<or> (\<exists>v. (k, v) \<in> writes_of st branch)"
    and le: "map_of merged \<subseteq>\<^sub>m map_of merged2"
  shows "merge_of st (ends @ [(j, branch)]) merged2"
  unfolding merge_of_def
proof (intro conjI)
  have "apart st b branch" if "b \<in> snd ` set ends" for b
    using m new that unfolding merge_of_def apart_def by fastforce
  then show "sorted_wrt (apart st) (map snd (ends @ [(j, branch)]))"
    using m by (auto simp: merge_of_def sorted_wrt_append)
  show "\<forall>b \<in> snd ` set (ends @ [(j, branch)]). \<forall>(k, v) \<in> writes_of st b. map_of merged2 k = Some v"
    using m new le by (fastforce simp: merge_of_def map_le_def dom_def)
  show "\<forall>k. map_of merged2 k \<noteq> None \<longrightarrow>
      (\<exists>b \<in> snd ` set (ends @ [(j, branch)]). k \<in> fst ` writes_of st b)"
  proof (intro allI impI)
    fix k assume k: "map_of merged2 k \<noteq> None"
    show "\<exists>b \<in> snd ` set (ends @ [(j, branch)]). k \<in> fst ` writes_of st b"
    proof (cases "map_of merged2 k = map_of merged k")
      case True
      with k m show ?thesis by (simp add: merge_of_def del: not_None_eq)
    next
      case False
      with only obtain v where "(k, v) \<in> writes_of st branch" by blast
      then show ?thesis by force
    qed
  qed
qed

lemma fork_branches_merge:
  fixes walker :: "('v, 'w, 'e) walker"
  assumes "fork_branches walker f ts joins writes merged lg st w = Some (Arrived (joins', merged'), lg', w')"
    and "dom (map_of writes) = dom (map_of merged)" and "distinct (map fst merged)"
    and "merge_of st done_ends merged"
  shows "\<exists>ends. branch_ends walker ts lg st w = Some ends \<and> length ends = length ts \<and>
    set joins' = set joins \<union> fst ` set ends \<and> distinct (map fst merged') \<and>
    merge_of st (done_ends @ ends) merged'"
  using assms
proof (induction ts arbitrary: joins writes merged lg w done_ends)
  case Nil
  then show ?case by auto
next
  case (Cons t ts)
  obtain sg1 lg1 branch w1 where w1: "walker t lg st w = Some (sg1, lg1, branch, w1)"
    using Cons.prems(1) by (auto split: option.splits)
  then obtain j where j: "sg1 = Arrived j" using Cons.prems(1) by (cases sg1) auto
  obtain writes2 merged2 where
    m: "(merge_writes f t st branch writes merged :: 'e wf_error + (string \<times> string) list \<times> 'v dict) =
      Inr (writes2, merged2)"
    and rec: "fork_branches walker f ts (List.insert j joins) writes2 merged2 lg1 st w1 =
      Some (Arrived (joins', merged'), lg', w')"
    using Cons.prems(1) w1 j by (auto split: sum.splits)
  note mw = merge_writes_Inr [OF m Cons.prems(2)]
  have "merge_of st (done_ends @ [(j, branch)]) merged2"
    by (rule merge_of_snoc [OF Cons.prems(4)]) (use mw in blast)+
  from Cons.IH [OF rec _ merge_writes_distinct [OF m Cons.prems(3)] this] mw
  obtain ends where "branch_ends walker ts lg1 st w1 = Some ends" "length ends = length ts"
    "set joins' = set (List.insert j joins) \<union> fst ` set ends" "distinct (map fst merged')"
    "merge_of st ((done_ends @ [(j, branch)]) @ ends) merged'" by blast
  then show ?case using w1 j by (intro exI [of _ "(j, branch) # ends"]) auto
qed

text \<open>
  C1: A join keeps what every branch of its fork wrote. When a fork goes on, each of its branches
  ran from the state at the fork to one and the same join; no key was written by two of them; the
  new state holds exactly what each branch wrote, and every other key as it was; and the run goes on
  behind that join.
\<close>

theorem fork_keeps_every_branch:
  assumes "run_fork walker edges forks f lg st w = Some (Arrived q, lg', st', w')"
  shows "\<exists>j ends. branch_ends walker (dict_get forks f []) lg st w = Some ends \<and>
    length ends = length (dict_get forks f []) \<and> ends \<noteq> [] \<and> fst ` set ends = {j} \<and> j \<noteq> ''END'' \<and>
    q = next_node edges j \<and> last (lg_path lg') = j \<and> sorted_wrt (apart st) (map snd ends) \<and>
    (\<forall>b \<in> snd ` set ends. \<forall>(k, v) \<in> writes_of st b. map_of st' k = Some v) \<and>
    (\<forall>k. (\<forall>b \<in> snd ` set ends. k \<notin> fst ` writes_of st b) \<longrightarrow> map_of st' k = map_of st k)"
proof -
  obtain joins merged lg1 where
    b: "fork_branches walker f (dict_get forks f []) [] [] [] lg st w = Some (Arrived (joins, merged), lg1, w')"
    and j: "length joins = 1" "''END'' \<notin> set joins"
    and out: "q = next_node edges (hd joins)" "lg' = visited (hd joins) lg1" "st' = dict_update st merged"
    using assms by (auto simp: run_fork_def split: option.splits walk_end.splits prod.splits if_splits)
  obtain ends where ends: "branch_ends walker (dict_get forks f []) lg st w = Some ends"
      "length ends = length (dict_get forks f [])" "set joins = fst ` set ends"
      "distinct (map fst merged)" "merge_of st ends merged"
    using fork_branches_merge [OF b, of "[]"] by (auto simp: merge_of_def)
  obtain x where x: "joins = [x]" using j(1) by (cases joins) auto
  have st': "map_of st' k = (case map_of merged k of Some v \<Rightarrow> Some v | None \<Rightarrow> map_of st k)" for k
    unfolding out(3) by (rule dict_update_merged [OF ends(4)])
  show ?thesis
  proof (intro exI conjI)
    show "branch_ends walker (dict_get forks f []) lg st w = Some ends" by (rule ends(1))
    show "length ends = length (dict_get forks f [])" by (rule ends(2))
    show "ends \<noteq> []" "fst ` set ends = {x}" "x \<noteq> ''END''" using ends(3) x j(2) by auto
    show "q = next_node edges x" "last (lg_path lg') = x" using out x by simp_all
    show "sorted_wrt (apart st) (map snd ends)" using ends(5) by (simp add: merge_of_def)
    show "\<forall>b \<in> snd ` set ends. \<forall>(k, v) \<in> writes_of st b. map_of st' k = Some v"
      using ends(5) unfolding st' merge_of_def by fastforce
    show "\<forall>k. (\<forall>b \<in> snd ` set ends. k \<notin> fst ` writes_of st b) \<longrightarrow> map_of st' k = map_of st k"
      using ends(5) unfolding st' merge_of_def by (metis option.simps(4) option.exhaust)
  qed
qed

definition example_walker :: "(string, unit, string) walker" where
  "example_walker t lg st w = Some (Arrived ''j'', visited t lg, AList.update t t st, w)"

theorem fork_keeps_every_branch_witness:
  "\<exists>st'. run_fork example_walker [] [(''f'', [''a'', ''b''])] ''f'' new_log [(''x'', ''1'')] () =
     Some (Arrived ''END'', visited ''j'' (visited ''b'' (visited ''a'' new_log)), st', ()) \<and>
     map_of st' ''x'' = Some ''1'' \<and> map_of st' ''a'' = Some ''a''"
proof -
  let ?st' = "[(''x'', ''1''), (''a'', ''a''), (''b'', ''b'')]"
  have r: "run_fork example_walker [] [(''f'', [''a'', ''b''])] ''f'' new_log [(''x'', ''1'')] () =
     Some (Arrived ''END'', visited ''j'' (visited ''b'' (visited ''a'' new_log)), ?st', ())"
    by code_simp
  from fork_keeps_every_branch [OF this]
  have "\<forall>b \<in> snd ` {(''j'', [(''x'', ''1''), (''a'', ''a'')]), (''j'', [(''x'', ''1''), (''b'', ''b'')])}.
      \<forall>(k, v) \<in> writes_of [(''x'', ''1'')] b. map_of ?st' k = Some v"
    by (auto simp: example_walker_def)
  with r show ?thesis by simp
qed

section \<open>Refused graphs\<close>

text \<open>
  A graph nothing decides does not start. A drawn, non-empty graph has a result with
  \<open>AmbiguousEdges\<close>, no step taken and the state as given, exactly if some node that is neither a
  branch nor a fork has two ways out; the error names such a node and all its ways out.
\<close>

theorem ambiguous_graph_never_starts:
  fixes C :: "('v, 'w, 'e) callers"
  assumes "wf_body ref \<noteq> ''external''" and "wf_nodes ref \<noteq> []"
  shows "(\<exists>a \<in> fst ` set (wf_edges ref). \<not> one_way_out (wf_edges ref) (node_map (wf_nodes ref)) a) \<longleftrightarrow>
    (\<exists>a ts. run (Suc d) C workflows max_steps ref state w = Some (Inr \<lparr>wr_workflow_id = wf_id ref,
        wr_state = state, wr_log = fail_with (AmbiguousEdges a ts) new_log\<rparr>, w) \<and>
      ts = map snd (filter (\<lambda>e. fst e = a) (wf_edges ref)) \<and>
      \<not> one_way_out (wf_edges ref) (node_map (wf_nodes ref)) a)" (is "?two \<longleftrightarrow> ?refused")
proof
  assume ?two
  then obtain a where a: "a \<in> fst ` set (wf_edges ref)" "\<not> one_way_out (wf_edges ref) (node_map (wf_nodes ref)) a" ..
  show ?refused
  proof (cases "resolve_edges (wf_edges ref) (node_map (wf_nodes ref)) :: 'e wf_error + (string \<times> string) list")
    case (Inl e)
    then obtain b ts where b: "(b, ts) \<in> set (edges_out (wf_edges ref))" "e = AmbiguousEdges b ts" "length ts > 1"
      "case map_of (node_map (wf_nodes ref)) b of None \<Rightarrow> True | Some n \<Rightarrow> nd_kind n \<notin> set many_ways_out"
      using resolve_from_Inl unfolding resolve_edges_def by blast
    have "ts = map snd (filter (\<lambda>e. fst e = b) (wf_edges ref))" using b(1) by (simp add: edges_out_entry)
    moreover from this have "\<not> one_way_out (wf_edges ref) (node_map (wf_nodes ref)) b"
      using b(3,4) by (auto simp: one_way_out_def split: option.splits)
    ultimately show ?thesis using assms Inl b(2) by (auto simp: node_map_None)
  next
    case (Inr edges)
    have "(a, map snd (filter (\<lambda>e. fst e = a) (wf_edges ref))) \<in> set (edges_out (wf_edges ref))"
      using a(1) by (simp add: edges_out_entry)
    with resolve_from_Inr [OF Inr [unfolded resolve_edges_def]] a(2) show ?thesis
      by (fastforce simp: one_way_out_def split: option.splits)
  qed
next
  assume ?refused
  then obtain a where "\<not> one_way_out (wf_edges ref) (node_map (wf_nodes ref)) a" by blast
  moreover from this have "a \<in> fst ` set (wf_edges ref)"
    by (cases "filter (\<lambda>e. fst e = a) (wf_edges ref)") (auto simp: one_way_out_def filter_eq_Cons_iff)
  ultimately show ?two ..
qed

theorem ambiguous_graph_never_starts_witness:
  "\<exists>a ts. run 1 example_callers [] 10 (example_graph [example_node ''s'' ''tool''] [(''s'', ''t''), (''s'', ''u'')])
     [] () = Some (Inr \<lparr>wr_workflow_id = ''w'', wr_state = [],
       wr_log = fail_with (AmbiguousEdges a ts) new_log\<rparr>, ())"
proof -
  let ?g = "example_graph [example_node ''s'' ''tool''] [(''s'', ''t''), (''s'', ''u'')]"
  have "wf_body ?g \<noteq> ''external''" "wf_nodes ?g \<noteq> []" by (simp_all add: example_graph_def)
  note amb = ambiguous_graph_never_starts [OF this, of 0 example_callers "[]" 10 "[]" "()"]
  have "\<exists>a \<in> fst ` set (wf_edges ?g). \<not> one_way_out (wf_edges ?g) (node_map (wf_nodes ?g)) a" by code_simp
  with amb show ?thesis by (auto simp: example_graph_def simp del: run.simps)
qed

section \<open>What the interpreter lets through\<close>

text \<open>A nested run that pauses for a person counts as done: the step takes its state and the run goes
  on, without a result of the approval.\<close>

definition nested_signoff :: "string workflow_ref" where
  "nested_signoff = example_graph
     [(example_node ''sub'' ''workflow'')\<lparr>nd_workflow := Some ''signoff''\<rparr>, example_node ''pub'' ''tool'']
     [(''sub'', ''pub'')]"

lemma nested_pause_is_success:
  "case run 2 example_callers [(''signoff'', signoff_graph)] 100 nested_signoff [] () of
     Some (Inr r, _) \<Rightarrow> wr_ok r \<and> lg_path (wr_log r) = [''sub'', ''pub''] | _ \<Rightarrow> False"
  by code_simp

text \<open>A graph that ends with its last allowed step reports that the limit was exceeded.\<close>

lemma exact_bound_reports_limit:
  "case run 1 example_callers [] 1 (example_graph [example_node ''a'' ''tool''] []) [] () of
     Some (Inr r, _) \<Rightarrow> lg_error (wr_log r) = Some (StepLimit 1 1) | _ \<Rightarrow> False"
  by code_simp

text \<open>A join named in \<open>interrupt_before\<close> is not waited at when a fork reaches it.\<close>

lemma join_after_fork_is_not_gated:
  "case run 1 example_callers [] 100 (signoff_graph\<lparr>wf_interrupt := [''j'']\<rparr>) [] () of
     Some (Inr r, _) \<Rightarrow> lg_interrupted (wr_log r) = Some ''ok'' \<and> ''j'' \<in> set (lg_path (wr_log r)) | _ \<Rightarrow> False"
  by code_simp

end
