(* ===== verification/WorkflowChecks.thy ===== *)
theory WorkflowChecks
  imports WorkflowRuns
begin

text \<open>
  The checks of a drawn workflow graph, \<open>workflow_graphs\<close> of \<open>spec/validation/workflows.py\<close> from
  the test for nodes on: the entry, the edges, the targets of branches, forks and joins, and what
  the entry reaches. The checks before them, of a step's owner, read the rest of the specification
  and are not modelled. A finding keeps its code and what its text names.

  With a graph that has none of these findings the interpreter of \<open>Workflows\<close> meets no node it does
  not know.
\<close>

datatype graph_finding =
    WithoutNodes
  | EntryUnknown string
  | EdgeFromUnknown string
  | EdgeToUnknown string string
  | BranchTargetUnknown string string
  | ForkWithoutJoin string
  | JoinWithoutFork string
  | NodeUnreachable string string

definition checked_nodes :: "'v workflow_ref \<Rightarrow> (string \<times> 'v wf_node) list" where
  "checked_nodes ref = node_map (filter (\<lambda>n. nd_id n \<noteq> []) (wf_nodes ref))"

definition checked_entry :: "'v workflow_ref \<Rightarrow> string" where
  "checked_entry ref = (case wf_entry ref of
     Some e \<Rightarrow> if e \<noteq> [] then e else fst (hd (checked_nodes ref)) | None \<Rightarrow> fst (hd (checked_nodes ref)))"

type_synonym ways = "(string \<times> string list) list"

definition add_way :: "string \<Rightarrow> string \<Rightarrow> ways \<Rightarrow> ways" where
  "add_way a b d = AList.update a (dict_get d a [] @ [b]) d"

text \<open>The edges: a finding, or one more way out.\<close>

fun check_edges :: "string list \<Rightarrow> (string \<times> string) list \<Rightarrow> ways \<Rightarrow> graph_finding list \<times> ways" where
  "check_edges nodes [] d = ([], d)"
| "check_edges nodes ((source, target) # es) d =
     (if source \<notin> set nodes then let (fs, d') = check_edges nodes es d in (EdgeFromUnknown source # fs, d')
      else if target \<noteq> ''END'' \<and> target \<notin> set nodes
      then let (fs, d') = check_edges nodes es d in (EdgeToUnknown source target # fs, d')
      else check_edges nodes es (add_way source target d))"

fun check_targets :: "string list \<Rightarrow> string \<Rightarrow> string list \<Rightarrow> ways \<Rightarrow> graph_finding list \<times> ways" where
  "check_targets nodes nid [] d = ([], d)"
| "check_targets nodes nid (t # ts) d =
     (if t \<noteq> ''END'' \<and> t \<notin> set nodes
      then let (fs, d') = check_targets nodes nid ts d in (BranchTargetUnknown nid t # fs, d')
      else check_targets nodes nid ts (add_way nid t d))"

definition branch_targets :: "'v wf_node \<Rightarrow> string list" where
  "branch_targets n = map snd (nd_cases n) @
     (case nd_default n of None \<Rightarrow> [] | Some t \<Rightarrow> if t \<noteq> [] then [t] else [])"

fun check_branches ::
  "string list \<Rightarrow> (string \<times> 'v wf_node) list \<Rightarrow> ways \<Rightarrow> graph_finding list \<times> ways" where
  "check_branches nodes [] d = ([], d)"
| "check_branches nodes ((nid, n) # ns) d =
     (if nd_kind n \<noteq> ''branch'' then check_branches nodes ns d
      else let (fs, d') = check_targets nodes nid (branch_targets n) d;
               (gs, d'') = check_branches nodes ns d'
           in (fs @ gs, d''))"

definition all_targets :: "ways \<Rightarrow> string set" where
  "all_targets d = (\<Union>(a, ts) \<in> set d. set ts)"

lemma finite_all_targets [simp]: "finite (all_targets d)"
  by (auto simp: all_targets_def)

lemma dict_get_targets: "set (dict_get d a []) \<subseteq> all_targets d"
  by (cases "map_of d a") (force simp: dict_get_def all_targets_def dest: map_of_SomeD)+

lemma joins_found_decreases:
  assumes "current \<notin> set seen" and "set stack' \<subseteq> all_targets d \<union> set stack"
  shows "card ((all_targets d \<union> set stack') - set (current # seen)) <
    card ((all_targets d \<union> set (current # stack)) - set seen)"
  by (rule psubset_card_mono) (use assms in auto)

lemma joins_found_skips:
  "card ((all_targets d \<union> set stack) - set seen) \<le> card ((all_targets d \<union> set (current # stack)) - set seen)"
  by (rule card_mono) auto

text \<open>The joins the branches of a fork lead to. The top of the stack is its head.\<close>

function joins_found ::
  "(string \<times> 'v wf_node) list \<Rightarrow> ways \<Rightarrow> string list \<Rightarrow> string list \<Rightarrow> string list \<Rightarrow> string list" where
  "joins_found nodes d found seen [] = found"
| "joins_found nodes d found seen (current # stack) =
     (if current = ''END'' \<or> current \<in> set seen then joins_found nodes d found seen stack
      else if (case map_of nodes current of None \<Rightarrow> False | Some n \<Rightarrow> nd_kind n = ''join'')
      then joins_found nodes d (List.insert current found) (current # seen) stack
      else joins_found nodes d found (current # seen) (rev (dict_get d current []) @ stack))"
  by pat_completeness auto

termination
proof (relation "measures [\<lambda>(nodes, d, found, seen, stack). card ((all_targets d \<union> set stack) - set seen),
      \<lambda>(nodes, d, found, seen, stack). length stack]", goal_cases)
  case (2 nodes d found seen current stack)
  show ?case using joins_found_skips [of d stack seen current] by (auto simp: le_less)
next
  case (3 nodes d found seen current stack)
  then show ?case using joins_found_decreases [of current seen stack d stack] by simp
next
  case (4 nodes d found seen current stack)
  then show ?case
    using joins_found_decreases [of current seen "rev (dict_get d current []) @ stack" d stack]
      dict_get_targets [of d current] by auto
qed simp

definition fork_findings :: "(string \<times> 'v wf_node) list \<Rightarrow> ways \<Rightarrow> graph_finding list" where
  "fork_findings nodes d =
     (let forks = sort (map fst (filter (\<lambda>(_, n). nd_kind n = ''fork'') nodes));
          joins = sort (map fst (filter (\<lambda>(_, n). nd_kind n = ''join'') nodes));
          found = (\<lambda>f. joins_found nodes d [] [] (rev (dict_get d f [])));
          joined = concat (map found forks)
      in map ForkWithoutJoin (filter (\<lambda>f. found f = []) forks) @
         map JoinWithoutFork (filter (\<lambda>j. j \<notin> set joined) joins))"

text \<open>What the entry reaches. Every target not reached yet is added and pushed.\<close>

fun push_new :: "string list \<Rightarrow> string list \<Rightarrow> string list \<Rightarrow> string list \<times> string list" where
  "push_new reached stack [] = (reached, stack)"
| "push_new reached stack (t # ts) =
     (if t \<noteq> ''END'' \<and> t \<notin> set reached then push_new (t # reached) (t # stack) ts
      else push_new reached stack ts)"

lemma push_new_card:
  assumes "push_new reached stack ts = (reached', stack')" and "set ts \<subseteq> U" and "finite U"
  shows "card (U - set reached') + length stack' \<le> card (U - set reached) + length stack"
  using assms
proof (induction reached stack ts rule: push_new.induct)
  case (2 reached stack t ts)
  show ?case
  proof (cases "t \<noteq> ''END'' \<and> t \<notin> set reached")
    case True
    then have "t \<in> U - set reached" using 2(4) by auto
    moreover have "U - set (t # reached) = (U - set reached) - {t}" by auto
    ultimately have "Suc (card (U - set (t # reached))) = card (U - set reached)"
      using 2(5) by (metis card_Suc_Diff1 finite_Diff)
    with True 2 show ?thesis by simp
  qed (use 2 in auto)
qed simp

function reach_from :: "ways \<Rightarrow> string list \<Rightarrow> string list \<Rightarrow> string list" where
  "reach_from d reached [] = reached"
| "reach_from d reached (current # stack) =
     (let (reached', stack') = push_new reached stack (dict_get d current [])
      in reach_from d reached' stack')"
  by pat_completeness auto
termination
proof (relation "measure (\<lambda>(d, reached, stack). card (all_targets d - set reached) + length stack)", goal_cases)
  case (2 d reached current stack x reached' stack')
  then have e: "push_new reached stack (dict_get d current []) = (reached', stack')" by simp
  from push_new_card [OF e dict_get_targets finite_all_targets] show ?case by simp
qed simp

definition unreachable_findings :: "(string \<times> 'v wf_node) list \<Rightarrow> ways \<Rightarrow> string \<Rightarrow> graph_finding list" where
  "unreachable_findings nodes d entry =
     (let reached = reach_from d [entry] [entry]
      in map (\<lambda>k. NodeUnreachable k entry) (sorted_set (filter (\<lambda>k. k \<notin> set reached) (map fst nodes))))"

definition graph_findings :: "'v workflow_ref \<Rightarrow> graph_finding list" where
  "graph_findings ref =
     (let nodes = checked_nodes ref; entry = checked_entry ref; ids = map fst nodes in
      if wf_body ref = ''external'' then []
      else if nodes = [] then [WithoutNodes]
      else if entry \<notin> set ids then [EntryUnknown entry]
      else let (fs, d) = check_edges ids (wf_edges ref) [];
               (gs, d') = check_branches ids nodes d
           in fs @ gs @ fork_findings nodes d' @ unreachable_findings nodes d' entry)"

section \<open>What no finding means\<close>

lemma check_edges_clean:
  "check_edges ids es d = ([], d') \<Longrightarrow> (a, b) \<in> set es \<Longrightarrow> a \<in> set ids \<and> (b = ''END'' \<or> b \<in> set ids)"
  by (induction ids es d arbitrary: d' rule: check_edges.induct) (auto split: if_splits prod.splits)

lemma check_targets_clean:
  "check_targets ids nid ts d = ([], d') \<Longrightarrow> t \<in> set ts \<Longrightarrow> t = ''END'' \<or> t \<in> set ids"
  by (induction ids nid ts d arbitrary: d' rule: check_targets.induct) (auto split: if_splits prod.splits)

lemma check_branches_clean:
  "check_branches ids ns d = ([], d') \<Longrightarrow> (nid, n) \<in> set ns \<Longrightarrow> nd_kind n = ''branch'' \<Longrightarrow>
     t \<in> set (branch_targets n) \<Longrightarrow> t = ''END'' \<or> t \<in> set ids"
  by (induction ids ns d arbitrary: d' rule: check_branches.induct)
    (auto dest: check_targets_clean split: if_splits prod.splits)

lemma graph_findings_clean:
  assumes "graph_findings ref = []" and "wf_body ref \<noteq> ''external''"
  shows "checked_nodes ref \<noteq> [] \<and> checked_entry ref \<in> fst ` set (checked_nodes ref)"
    and "\<exists>d'. check_edges (map fst (checked_nodes ref)) (wf_edges ref) [] = ([], d')"
    and "\<exists>d d'. check_branches (map fst (checked_nodes ref)) (checked_nodes ref) d = ([], d')"
  using assms by (auto simp: graph_findings_def Let_def split: if_splits prod.splits)

lemma node_map_filter:
  "map_of (node_map (filter (\<lambda>n. P (nd_id n)) ns)) k = (if P k then map_of (node_map ns) k else None)"
proof (induction ns rule: rev_induct)
  case (snoc n ns)
  then show ?case by (auto simp: node_map_snoc)
qed (simp add: node_map_def)

lemma checked_nodes_lookup:
  "map_of (checked_nodes ref) k = (if k \<noteq> [] then map_of (node_map (wf_nodes ref)) k else None)"
  unfolding checked_nodes_def by (rule node_map_filter)

lemma checked_ids: "k \<in> fst ` set (checked_nodes ref) \<longleftrightarrow> k \<noteq> [] \<and> map_of (node_map (wf_nodes ref)) k \<noteq> None"
  using map_of_eq_None_iff [of "checked_nodes ref" k] by (auto simp: checked_nodes_lookup split: if_splits)

lemma validated_way:
  assumes clean: "graph_findings ref = []" "wf_body ref \<noteq> ''external''"
    and res: "resolve_edges (wf_edges ref) (node_map (wf_nodes ref)) = Inr edges"
    and l: "leads (graph_env ref max_steps edges) p q" and q: "q \<noteq> ''END''" "q \<noteq> []" and p: "p \<noteq> []"
  shows "map_of (node_map (wf_nodes ref)) q \<noteq> None"
proof -
  have known: "x \<in> fst ` set (checked_nodes ref) \<Longrightarrow> map_of (node_map (wf_nodes ref)) x \<noteq> None" for x
    using checked_ids by blast
  consider "q = next_node edges p" | "q \<in> set (dict_get (forks_of (wf_edges ref) (node_map (wf_nodes ref))) p [])"
    | n where "map_of (node_map (wf_nodes ref)) p = Some n" "nd_kind n = ''branch''"
        "q \<in> snd ` set (nd_cases n) \<or> nd_default n = Some q"
    using l by (auto simp: leads_def graph_env_def split: option.splits)
  then have "q \<in> fst ` set (checked_nodes ref)"
  proof cases
    case 1
    then have "(p, q) \<in> set (wf_edges ref)" using resolve_edges_next [OF res, of p] q(1) by auto
    then show ?thesis using graph_findings_clean(2) [OF clean] q(1) by (auto dest!: check_edges_clean)
  next
    case 2
    then have "(p, q) \<in> set (wf_edges ref)" by (rule forks_edge)
    then show ?thesis using graph_findings_clean(2) [OF clean] q(1) by (auto dest!: check_edges_clean)
  next
    case 3
    then have "(p, n) \<in> set (checked_nodes ref)"
      using p checked_nodes_lookup [of ref p] by (auto dest: map_of_SomeD)
    moreover have "q \<in> set (branch_targets n)" using 3(3) q(2) by (auto simp: branch_targets_def)
    ultimately show ?thesis using graph_findings_clean(3) [OF clean] 3(2) q(1)
      by (auto dest: check_branches_clean)
  qed
  then show ?thesis by (rule known)
qed

lemma first_checked:
  assumes "nd_id (hd ns) \<noteq> []" and "ns \<noteq> []"
  shows "fst (hd (node_map (filter (\<lambda>n. nd_id n \<noteq> []) ns))) = nd_id (hd ns)"
proof -
  have hd_fold: "d \<noteq> [] \<Longrightarrow> fst (hd (fold (\<lambda>n d. AList.update (nd_id n) n d) xs d)) = fst (hd d)" for xs d
  proof (induction xs arbitrary: d)
    case (Cons x xs)
    have "AList.update (nd_id x) x d \<noteq> []" "fst (hd (AList.update (nd_id x) x d)) = fst (hd d)"
      using Cons.prems by (cases d; auto)+
    with Cons.IH show ?case by simp
  qed simp
  from assms obtain n ms where "ns = n # ms" by (cases ns) auto
  with assms(1) show ?thesis by (simp add: node_map_def hd_fold)
qed

text \<open>
  C4: A workflow graph the validator has nothing against never sends the interpreter to a node that
  is not there: whatever the callees do, no result of a run of it reports an unknown node.
\<close>

theorem validated_graph_has_no_unknown_node:
  assumes "graph_findings ref = []"
    and "run d C workflows max_steps ref state w = Some (Inr r, w')"
  shows "lg_error (wr_log r) \<noteq> Some (UnknownNode k)"
  using assms(2)
proof (cases rule: run_cases)
  case (refused e)
  then show ?thesis by simp
next
  case (walked d' edges sg lg st)
  let ?G = "graph_env ref max_steps edges" and ?entry = "graph_entry ref"
  let ?I = "\<lambda>lg. [] \<notin> set (lg_path lg) \<and> lg_error lg = None"
  let ?J = "\<lambda>lg. \<forall>k. lg_error lg \<noteq> Some (UnknownNode k)"
  note entry_known = graph_findings_clean(1) [OF assms(1) walked(2)]
  have known: "\<not> unknown_step ?G ?entry l x" if "[] \<notin> set (lg_path l)" for l x
  proof
    assume u: "unknown_step ?G ?entry l x"
    then have x: "x \<noteq> []" "x \<noteq> ''END''" "map_of (node_map (wf_nodes ref)) x = None"
      and "x = ?entry \<or> (\<exists>p \<in> set (lg_path l). leads ?G p x)"
      by (auto simp: unknown_step_def came_def graph_env_def)
    then consider "x = ?entry" | p where "p \<in> set (lg_path l)" "leads ?G p x" by blast
    then show False
    proof cases
      case 1
      have "wf_nodes ref \<noteq> []" using entry_known by (auto simp: checked_nodes_def node_map_def)
      then have "checked_entry ref = x"
        using 1 x(1) first_checked [of "wf_nodes ref"]
        by (auto simp: checked_entry_def graph_entry_def checked_nodes_def split: option.splits if_splits)
      then have "map_of (node_map (wf_nodes ref)) x \<noteq> None" using entry_known checked_ids by blast
      with x(3) show False by simp
    next
      case 2
      then have "p \<noteq> []" using that by auto
      from validated_way [OF assms(1) walked(2,3) 2(2) x(2,1) this] x(3) show False by simp
    qed
  qed
  have "walk_ok ?G ?entry ?I ?J new_log sg lg"
    by (rule walk_ends [OF wf_graph_env _ _ _ _ walked(4), where I = ?I and J = ?J])
      (use known in \<open>auto simp: came_def new_log_def\<close>)
  then have "lg_error lg \<noteq> Some (UnknownNode k)" by (auto simp: walk_ok_def split: walk_end.splits)
  with walked(5) show ?thesis by (auto simp: step_limit_def split: walk_end.splits)
qed

theorem validated_graph_has_no_unknown_node_witness:
  "graph_findings signoff_graph = [] \<and> (\<exists>r. signoff_run = Some (Inr r, ()) \<and>
     lg_error (wr_log r) \<noteq> Some (UnknownNode ''ok''))"
proof -
  have clean: "graph_findings signoff_graph = []" by code_simp
  from validated_graph_has_no_unknown_node [OF this signoff_result [unfolded signoff_run_def]] clean
  show ?thesis by (auto simp: signoff_result)
qed

section \<open>What the validator lets through\<close>

text \<open>Two ways out of a tool: no finding, and the interpreter refuses the graph.\<close>

lemma ambiguous_graph_passes_validation:
  "let g = example_graph [example_node ''s'' ''tool'', example_node ''t'' ''tool'', example_node ''u'' ''tool'']
       [(''s'', ''t''), (''s'', ''u'')]
   in graph_findings g = [] \<and> (case run 1 example_callers [] 100 g [] () of
     Some (Inr r, _) \<Rightarrow> lg_error (wr_log r) = Some (AmbiguousEdges ''s'' [''t'', ''u'']) | _ \<Rightarrow> False)"
  by code_simp

text \<open>Branches of a fork that meet at different joins: no finding, and the fork fails.\<close>

lemma diverging_fork_passes_validation:
  "let g = example_graph [example_node ''f'' ''fork'', example_node ''i'' ''join'', example_node ''j'' ''join'']
       [(''f'', ''i''), (''f'', ''j'')]
   in graph_findings g = [] \<and> (case run 1 example_callers [] 100 g [] () of
     Some (Inr r, _) \<Rightarrow> lg_error (wr_log r) = Some (NoCommonJoin ''f'' [''i'', ''j'']) | _ \<Rightarrow> False)"
  by code_simp

text \<open>A fork whose branches are forks themselves: the outer join is reported, and the graph runs.\<close>

lemma nested_forks_are_refused:
  "let g = example_graph
       [example_node ''f'' ''fork'', example_node ''g'' ''fork'', example_node ''h'' ''fork'',
        example_node ''a'' ''tool'', example_node ''b'' ''tool'', example_node ''c'' ''tool'', example_node ''d'' ''tool'',
        example_node ''i'' ''join'', example_node ''j'' ''join'', example_node ''k'' ''join'']
       [(''f'', ''g''), (''f'', ''h''), (''g'', ''a''), (''g'', ''b''), (''h'', ''c''), (''h'', ''d''),
        (''a'', ''i''), (''b'', ''i''), (''c'', ''j''), (''d'', ''j''), (''i'', ''k''), (''j'', ''k'')]
   in graph_findings g = [JoinWithoutFork ''k''] \<and>
      (case run 1 example_callers [] 100 g [] () of Some (Inr r, _) \<Rightarrow> wr_ok r | _ \<Rightarrow> False)"
  by code_simp

end
