(* ===== verification/Repository.thy ===== *)
theory Repository
  imports DocStore PyValue "HOL-Library.Multiset"
begin

text \<open>
  Systems and their revisions in the designer's repository (\<open>designer/repository.py\<close>): the shared
  write logic \<open>_Base\<close> (version check, revision capture) over two backends, the in-memory one and the
  one over the document store. Their contract is the locale \<open>revision_store\<close>: an accepted write is
  based on the stored version, the history holds the last hundred revisions, oldest first, and
  nothing else is touched. It is interpreted on both backends, so each of them is a refinement of one
  map from ids to records and one from ids to histories.

  A stored record is copied on the way in and out (\<open>model_copy(deep=True)\<close>), so values stand for
  it; a revision of the in-memory backend is taken from the caller's record without a copy, and the
  model assumes that nobody changes that in place afterwards.
  Time stamps and new revision ids are arguments. The backend over files and the one over PostgreSQL
  are not modelled.
\<close>

section \<open>Records\<close>

datatype system_status = StatusDraft | StatusInReview | StatusPublished | StatusArchived

record 'l system_record =
  sr_id :: string
  sr_workspace_id :: string
  sr_name :: string
  sr_description :: string
  sr_status :: system_status
  sr_spec :: pyval
  sr_binding :: "pyval option"
  sr_layout :: 'l
  sr_tags :: "string list"
  sr_version :: int
  sr_created_by :: string
  sr_created_at :: string
  sr_updated_by :: string
  sr_updated_at :: string

record 'l revision =
  rv_id :: string
  rv_system_id :: string
  rv_version :: int
  rv_spec :: pyval
  rv_binding :: "pyval option"
  rv_layout :: 'l
  rv_author :: string
  rv_message :: string
  rv_created_at :: string

record 'l version_conflict =
  vc_expected :: int
  vc_actual :: int
  vc_current :: "'l system_record"

section \<open>The shared write logic\<close>

definition max_revisions :: nat where
  "max_revisions = 100"

definition prepare ::
  "string \<Rightarrow> 'l system_record \<Rightarrow> 'l system_record option \<Rightarrow> int option \<Rightarrow> string \<Rightarrow>
     'l version_conflict + 'l system_record" where
  "prepare stamp r current expected author =
     (let written = (\<lambda>r. r\<lparr>sr_updated_by := author, sr_updated_at := stamp\<rparr>) in
      case current of
        None \<Rightarrow> Inr (written (r\<lparr>sr_version := 1,
            sr_created_by := (if sr_created_by r \<noteq> [] then sr_created_by r else author)\<rparr>))
      | Some c \<Rightarrow>
          (case expected of
             None \<Rightarrow> Inl \<lparr>vc_expected = 0, vc_actual = sr_version c, vc_current = c\<rparr>
           | Some v \<Rightarrow>
               if v \<noteq> sr_version c
               then Inl \<lparr>vc_expected = v, vc_actual = sr_version c, vc_current = c\<rparr>
               else Inr (written (r\<lparr>sr_created_at := sr_created_at c, sr_created_by := sr_created_by c,
                   sr_version := sr_version c + 1\<rparr>))))"

definition made_revision :: "string \<Rightarrow> string \<Rightarrow> 'l system_record \<Rightarrow> string \<Rightarrow> string \<Rightarrow> 'l revision" where
  "made_revision fresh stamp r author message =
     \<lparr>rv_id = fresh, rv_system_id = sr_id r, rv_version = sr_version r, rv_spec = sr_spec r,
      rv_binding = sr_binding r, rv_layout = sr_layout r, rv_author = author, rv_message = message,
      rv_created_at = stamp\<rparr>"

text \<open>\<open>del history[: max(0, len(history) - max_revisions)]\<close>.\<close>

definition pruned :: "'a list \<Rightarrow> 'a list" where
  "pruned history = drop (length history - max_revisions) history"

section \<open>The in-memory backend\<close>

record 'l memory_repository =
  mr_systems :: "(string \<times> 'l system_record) list"
  mr_revisions :: "(string \<times> 'l revision list) list"

text \<open>\<open>sorted(found, key=\<dots>, reverse=True)\<close>, which keeps the order of equal keys.\<close>

definition latest_first :: "'l system_record list \<Rightarrow> 'l system_record list" where
  "latest_first rs = rev (sort_key sr_updated_at (rev rs))"

definition mr_list_systems :: "string option \<Rightarrow> 'l memory_repository \<Rightarrow> 'l system_record list" where
  "mr_list_systems workspace_id m =
     latest_first (filter (\<lambda>r. workspace_id = None \<or> Some (sr_workspace_id r) = workspace_id)
       (map snd (mr_systems m)))"

definition mr_get_system :: "'l memory_repository \<Rightarrow> string \<Rightarrow> 'l system_record option" where
  "mr_get_system m system_id = map_of (mr_systems m) system_id"

definition mr_save_system ::
  "instant \<Rightarrow> string \<Rightarrow> string \<Rightarrow> 'l system_record \<Rightarrow> int option \<Rightarrow> string \<Rightarrow> string \<Rightarrow> 'l memory_repository \<Rightarrow>
     'l version_conflict + 'l memory_repository \<times> 'l system_record" where
  "mr_save_system now stamp fresh r expected author message m =
     ebind (prepare stamp r (map_of (mr_systems m) (sr_id r)) expected author) (\<lambda>r'.
       let history = dict_get (mr_revisions m) (sr_id r') [] @ [made_revision fresh stamp r' author message]
       in Inr (m\<lparr>mr_systems := AList.update (sr_id r') r' (mr_systems m),
                mr_revisions := AList.update (sr_id r') (pruned history) (mr_revisions m)\<rparr>, r'))"

definition mr_delete_system :: "string \<Rightarrow> 'l memory_repository \<Rightarrow> 'l memory_repository \<times> bool" where
  "mr_delete_system system_id m =
     (m\<lparr>mr_revisions := AList.delete system_id (mr_revisions m),
        mr_systems := AList.delete system_id (mr_systems m)\<rparr>,
      map_of (mr_systems m) system_id \<noteq> None)"

definition mr_revisions_of :: "string \<Rightarrow> nat \<Rightarrow> 'l memory_repository \<Rightarrow> 'l revision list" where
  "mr_revisions_of system_id limit m = take limit (rev (dict_get (mr_revisions m) system_id []))"

definition mr_revision :: "string \<Rightarrow> int \<Rightarrow> 'l memory_repository \<Rightarrow> 'l revision option" where
  "mr_revision system_id version m =
     List.find (\<lambda>r. rv_version r = version) (dict_get (mr_revisions m) system_id [])"

section \<open>The backend over the document store\<close>

record 'l sql_repository =
  sq_systems :: "'l system_record docs"
  sq_revisions :: "'l revision docs"

definition sq_list_systems :: "string option \<Rightarrow> 'l sql_repository \<Rightarrow> 'l system_record list" where
  "sq_list_systems workspace_id s = latest_first (store_list workspace_id 2000 0 (sq_systems s))"

definition sq_get_system :: "'l sql_repository \<Rightarrow> string \<Rightarrow> 'l system_record option" where
  "sq_get_system s system_id = store_get (sq_systems s) system_id"

definition delete_revisions :: "'l revision list \<Rightarrow> 'l revision docs \<Rightarrow> 'l revision docs" where
  "delete_revisions stale rows = fold (\<lambda>r rows. fst (store_delete (rv_id r) rows)) stale rows"

definition sq_prune :: "string \<Rightarrow> 'l revision docs \<Rightarrow> 'l revision docs" where
  "sq_prune system_id rows =
     (let history = sort_key rv_version (store_list (Some system_id) 5000 0 rows)
      in delete_revisions (take (length history - max_revisions) history) rows)"

definition sq_save_system ::
  "instant \<Rightarrow> string \<Rightarrow> string \<Rightarrow> 'l system_record \<Rightarrow> int option \<Rightarrow> string \<Rightarrow> string \<Rightarrow> 'l sql_repository \<Rightarrow>
     'l version_conflict + 'l sql_repository \<times> 'l system_record" where
  "sq_save_system now stamp fresh r expected author message s =
     ebind (prepare stamp r (sq_get_system s (sr_id r)) expected author) (\<lambda>r'.
       let revision = made_revision fresh stamp r' author message
       in Inr (s\<lparr>sq_systems := store_put now (sr_id r') r' (Some (sr_workspace_id r')) (Some (sr_name r')) (sq_systems s),
                sq_revisions := sq_prune (sr_id r')
                  (store_put now (rv_id revision) revision (Some (sr_id r')) (Some (show_int (rv_version revision)))
                    (sq_revisions s))\<rparr>, r'))"

definition sq_delete_system :: "string \<Rightarrow> 'l sql_repository \<Rightarrow> 'l sql_repository \<times> bool" where
  "sq_delete_system system_id s =
     (s\<lparr>sq_revisions := delete_revisions (store_list (Some system_id) 5000 0 (sq_revisions s)) (sq_revisions s),
        sq_systems := fst (store_delete system_id (sq_systems s))\<rparr>,
      snd (store_delete system_id (sq_systems s)))"

definition sq_revisions_of :: "string \<Rightarrow> nat \<Rightarrow> 'l sql_repository \<Rightarrow> 'l revision list" where
  "sq_revisions_of system_id limit s =
     take limit (rev (sort_key rv_version (rev (store_list (Some system_id) 5000 0 (sq_revisions s)))))"

definition sq_revision :: "string \<Rightarrow> int \<Rightarrow> 'l sql_repository \<Rightarrow> 'l revision option" where
  "sq_revision system_id version s =
     List.find (\<lambda>r. rv_version r = version) (sq_revisions_of system_id 5000 s)"

section \<open>The contract\<close>

lemma find_distinct: "distinct (map f xs) \<Longrightarrow> x \<in> set xs \<Longrightarrow> List.find (\<lambda>y. f y = f x) xs = Some x"
  by (induction xs) auto

lemma find_rev_distinct:
  "distinct (map f xs) \<Longrightarrow> List.find (\<lambda>y. f y = v) (rev xs) = List.find (\<lambda>y. f y = v) xs"
proof (cases "\<exists>x \<in> set xs. f x = v")
  case True
  assume d: "distinct (map f xs)"
  from True obtain x where "x \<in> set xs" "f x = v" ..
  then show ?thesis using find_distinct [OF d, of x] find_distinct [of f "rev xs" x] d by (simp add: rev_map [symmetric])
next
  case False
  then have "List.find (\<lambda>y. f y = v) xs = None" "List.find (\<lambda>y. f y = v) (rev xs) = None"
    by (auto simp: find_None_iff)
  then show ?thesis by simp
qed

text \<open>The operations a client of a backend uses, as the \<open>Protocol\<close> \<open>Repository\<close> declares them.\<close>

record ('r, 'l) system_repo =
  rp_get :: "'r \<Rightarrow> string \<Rightarrow> 'l system_record option"
  rp_save :: "instant \<Rightarrow> string \<Rightarrow> string \<Rightarrow> 'l system_record \<Rightarrow> int option \<Rightarrow> string \<Rightarrow> string \<Rightarrow> 'r \<Rightarrow>
    'l version_conflict + 'r \<times> 'l system_record"
  rp_delete :: "string \<Rightarrow> 'r \<Rightarrow> 'r \<times> bool"
  rp_revisions :: "string \<Rightarrow> nat \<Rightarrow> 'r \<Rightarrow> 'l revision list"
  rp_revision :: "string \<Rightarrow> int \<Rightarrow> 'r \<Rightarrow> 'l revision option"

definition memory_systems :: "('l memory_repository, 'l) system_repo" where
  "memory_systems = \<lparr>rp_get = mr_get_system, rp_save = mr_save_system, rp_delete = mr_delete_system,
     rp_revisions = mr_revisions_of, rp_revision = mr_revision\<rparr>"

definition sql_systems :: "('l sql_repository, 'l) system_repo" where
  "sql_systems = \<lparr>rp_get = sq_get_system, rp_save = sq_save_system, rp_delete = sq_delete_system,
     rp_revisions = sq_revisions_of, rp_revision = sq_revision\<rparr>"

text \<open>A history of a system: at most a hundred revisions of it, numbered one after the other, the last
  one the snapshot of the stored record; none if there is no record.\<close>

definition history_ok :: "string \<Rightarrow> 'l system_record option \<Rightarrow> 'l revision list \<Rightarrow> bool" where
  "history_ok k current hist \<longleftrightarrow> length hist \<le> max_revisions \<and> (\<forall>r \<in> set hist. rv_system_id r = k) \<and>
     (case current of None \<Rightarrow> hist = []
      | Some c \<Rightarrow> sr_id c = k \<and> hist \<noteq> [] \<and>
          map rv_version hist = [sr_version c - int (length hist) + 1 .. sr_version c] \<and>
          rv_spec (last hist) = sr_spec c \<and> rv_binding (last hist) = sr_binding c \<and>
          rv_layout (last hist) = sr_layout c)"

text \<open>\<open>hist\<close> is the history of a system, oldest first; \<open>unused\<close> says that an id is not the id of a
  stored revision.\<close>

locale revision_store =
  fixes R :: "('r, 'l) system_repo"
    and hist :: "'r \<Rightarrow> string \<Rightarrow> 'l revision list"
    and unused :: "'r \<Rightarrow> string \<Rightarrow> bool"
    and ok :: "'r \<Rightarrow> bool"
  assumes ok_history: "ok r \<Longrightarrow> history_ok k (rp_get R r k) (hist r k)"
    and save_refused: "rp_save R now stamp fresh x expected author msg r = Inl c \<longleftrightarrow>
      prepare stamp x (rp_get R r (sr_id x)) expected author = Inl c"
    and save_record: "rp_save R now stamp fresh x expected author msg r = Inr (r', x') \<Longrightarrow>
      prepare stamp x (rp_get R r (sr_id x)) expected author = Inr x'"
    and save_get: "rp_save R now stamp fresh x expected author msg r = Inr (r', x') \<Longrightarrow>
      rp_get R r' k = (if k = sr_id x then Some x' else rp_get R r k)"
    and save_hist: "ok r \<Longrightarrow> unused r fresh \<Longrightarrow> rp_save R now stamp fresh x expected author msg r = Inr (r', x') \<Longrightarrow>
      hist r' k = (if k = sr_id x then pruned (hist r k @ [made_revision fresh stamp x' author msg]) else hist r k)"
    and save_ok: "ok r \<Longrightarrow> unused r fresh \<Longrightarrow> rp_save R now stamp fresh x expected author msg r = Inr (r', x') \<Longrightarrow> ok r'"
    and save_unused: "unused r f \<Longrightarrow> f \<noteq> fresh \<Longrightarrow>
      rp_save R now stamp fresh x expected author msg r = Inr (r', x') \<Longrightarrow> unused r' f"
    and delete_unused: "unused r f \<Longrightarrow> unused (fst (rp_delete R k r)) f"
    and delete_get: "rp_get R (fst (rp_delete R k r)) k' = (if k' = k then None else rp_get R r k')"
    and delete_hist: "ok r \<Longrightarrow> hist (fst (rp_delete R k r)) k' = (if k' = k then [] else hist r k')"
    and delete_ok: "ok r \<Longrightarrow> ok (fst (rp_delete R k r))"
    and delete_found: "snd (rp_delete R k r) \<longleftrightarrow> rp_get R r k \<noteq> None"
    and revisions_hist: "ok r \<Longrightarrow> rp_revisions R k n r = take n (rev (hist r k))"
    and revision_hist: "ok r \<Longrightarrow> rp_revision R k v r = List.find (\<lambda>x. rv_version x = v) (hist r k)"

begin

text \<open>A write on a version that is no longer stored changes nothing and is told the stored record.\<close>

lemma stale_write_refused:
  assumes "rp_get R r (sr_id x) = Some c" and "expected \<noteq> Some (sr_version c)"
  shows "\<exists>e. rp_save R now stamp fresh x expected author msg r = Inl \<lparr>vc_expected = e, vc_actual = sr_version c, vc_current = c\<rparr>"
  unfolding save_refused using assms by (auto simp: prepare_def split: option.splits)

lemma save_version:
  assumes "rp_save R now stamp fresh x expected author msg r = Inr (r', x')"
  shows "sr_id x' = sr_id x \<and> sr_spec x' = sr_spec x \<and>
    (case rp_get R r (sr_id x) of None \<Rightarrow> sr_version x' = 1
     | Some c \<Rightarrow> expected = Some (sr_version c) \<and> sr_version x' = sr_version c + 1)"
  using save_record [OF assms] by (auto simp: prepare_def Let_def split: option.splits if_splits)

text \<open>Of two writes based on one version the second is refused, whoever makes them.\<close>

lemma one_write_per_version:
  assumes "rp_save R now stamp fresh x (Some v) author msg r = Inr (r', x')" and "sr_id y = sr_id x"
    and "rp_get R r (sr_id x) = Some c"
  shows "rp_save R now2 stamp2 fresh2 y (Some v) author2 msg2 r' =
    Inl \<lparr>vc_expected = v, vc_actual = v + 1, vc_current = x'\<rparr>"
proof -
  have x': "sr_version x' = v + 1" using save_version [OF assms(1)] assms(3) by simp
  have "rp_get R r' (sr_id y) = Some x'" using save_get [OF assms(1)] assms(2) by simp
  then show ?thesis unfolding save_refused using x' by (simp add: prepare_def)
qed

lemma history_versions_distinct: "ok r \<Longrightarrow> distinct (map rv_version (hist r k))"
  using ok_history [of r k] by (auto simp: history_ok_def split: option.splits)

text \<open>Every accepted write can be read back as a revision.\<close>

lemma written_revision:
  assumes "ok r" and "unused r fresh"
    and s: "rp_save R now stamp fresh x expected author msg r = Inr (r', x')"
  shows "rp_revision R (sr_id x) (sr_version x') r' = Some (made_revision fresh stamp x' author msg)"
proof -
  let ?rev = "made_revision fresh stamp x' author msg" and ?h = "hist r' (sr_id x)"
  have okr: "ok r'" by (rule save_ok [OF assms])
  have h: "?h = pruned (hist r (sr_id x) @ [?rev])" using save_hist [OF assms] by simp
  have "?rev \<in> set ?h"
  proof -
    have "?h \<noteq> []" "last ?h = ?rev" unfolding h by (simp_all add: pruned_def max_revisions_def)
    then show ?thesis using last_in_set by fastforce
  qed
  moreover have "rv_version ?rev = sr_version x'" by (simp add: made_revision_def)
  ultimately have "List.find (\<lambda>y. rv_version y = sr_version x') ?h = Some ?rev"
    using find_distinct [OF history_versions_distinct [OF okr]] by metis
  then show ?thesis by (simp add: revision_hist [OF okr])
qed

text \<open>The version a write replaced can still be read back.\<close>

lemma replaced_revision:
  assumes "ok r" and "unused r fresh" and c: "rp_get R r (sr_id x) = Some c"
    and s: "rp_save R now stamp fresh x expected author msg r = Inr (r', x')"
  shows "\<exists>old. rp_revision R (sr_id x) (sr_version c) r' = Some old \<and> rv_spec old = sr_spec c"
proof -
  let ?h = "hist r (sr_id x)" and ?rev = "made_revision fresh stamp x' author msg"
  have okr: "ok r'" by (rule save_ok [OF assms(1,2) s])
  have h: "?h \<noteq> []" "map rv_version ?h = [sr_version c - int (length ?h) + 1 .. sr_version c]"
      "rv_spec (last ?h) = sr_spec c"
    using ok_history [OF assms(1), of "sr_id x"] c by (simp_all add: history_ok_def)
  have "rv_version (last ?h) = last (map rv_version ?h)" using h(1) by (simp add: last_map)
  also have "\<dots> = sr_version c"
  proof -
    have "sr_version c - int (length ?h) + 1 \<le> sr_version c" using h(1) by (cases ?h) simp_all
    from upto_rec2 [OF this] show ?thesis unfolding h(2) by simp
  qed
  finally have v: "rv_version (last ?h) = sr_version c" .
  obtain old l where old: "?h = old @ [l]" using h(1) by (cases ?h rule: rev_cases) auto
  then have "l \<in> set (pruned (?h @ [?rev]))" by (simp add: pruned_def max_revisions_def)
  then have "last ?h \<in> set (pruned (?h @ [?rev]))" using old by simp
  then have "last ?h \<in> set (hist r' (sr_id x))" using save_hist [OF assms(1,2) s] by simp
  from find_distinct [OF history_versions_distinct [OF okr] this] show ?thesis
    using h(3) by (simp add: revision_hist [OF okr] v)
qed

end

section \<open>Histories\<close>

lemma drop_upto: "drop n [i..j] = [i + int n..j]"
proof (induction n arbitrary: i)
  case (Suc n)
  show ?case
  proof (cases "i \<le> j")
    case True
    then have "[i..j] = i # [i + 1..j]" by (rule upto_rec1)
    then show ?thesis using Suc [of "i + 1"] by (simp add: algebra_simps)
  qed simp
qed simp

lemma prepare_Inr:
  assumes "prepare stamp x current expected author = Inr x'"
  shows "sr_id x' = sr_id x \<and> sr_version x' = (case current of None \<Rightarrow> 1 | Some c \<Rightarrow> sr_version c + 1)"
  using assms by (auto simp: prepare_def Let_def split: option.splits if_splits)

lemma history_ok_save:
  assumes h: "history_ok k current hist" and p: "prepare stamp x current expected author = Inr x'" and "sr_id x = k"
  shows "history_ok k (Some x') (pruned (hist @ [made_revision fresh stamp2 x' author msg]))"
proof -
  let ?h = "hist @ [made_revision fresh stamp2 x' author msg]"
  have v: "sr_version x' = (case current of None \<Rightarrow> 1 | Some c \<Rightarrow> sr_version c + 1)" and id: "sr_id x' = k"
    using prepare_Inr [OF p] assms(3) by auto
  have vs: "map rv_version ?h = [sr_version x' - int (length ?h) + 1 .. sr_version x']"
  proof (cases current)
    case None
    then show ?thesis using h v by (simp add: history_ok_def made_revision_def)
  next
    case (Some c)
    then have "map rv_version hist = [sr_version c - int (length hist) + 1 .. sr_version c]"
      using h by (simp add: history_ok_def)
    moreover have "[sr_version c - int (length hist) + 1 .. sr_version c + 1] =
        [sr_version c - int (length hist) + 1 .. sr_version c] @ [sr_version c + 1]"
      using upto_rec2 [of "sr_version c - int (length hist) + 1" "sr_version c + 1"] by simp
    ultimately show ?thesis using Some v by (simp add: made_revision_def)
  qed
  have len: "length (pruned ?h) \<le> max_revisions" by (simp add: pruned_def)
  have n: "int (length (pruned ?h)) = int (length ?h) - int (length ?h - max_revisions)"
    unfolding pruned_def length_drop by (rule of_nat_diff) simp
  have "map rv_version (pruned ?h) =
      [sr_version x' - int (length ?h) + 1 + int (length ?h - max_revisions) .. sr_version x']"
    unfolding pruned_def drop_map [symmetric] vs drop_upto ..
  moreover have "sr_version x' - int (length ?h) + 1 + int (length ?h - max_revisions) =
      sr_version x' - int (length (pruned ?h)) + 1"
    unfolding n by linarith
  ultimately have "map rv_version (pruned ?h) = [sr_version x' - int (length (pruned ?h)) + 1 .. sr_version x']"
    by (simp only:)
  moreover have "pruned ?h \<noteq> []" "last (pruned ?h) = made_revision fresh stamp2 x' author msg"
    by (simp_all add: pruned_def max_revisions_def)
  moreover have "\<forall>r \<in> set (pruned ?h). rv_system_id r = k"
    using h id by (auto simp: pruned_def history_ok_def made_revision_def dest!: in_set_dropD)
  ultimately show ?thesis using len id by (simp add: history_ok_def made_revision_def)
qed

lemma history_ok_distinct: "history_ok k current hist \<Longrightarrow> distinct (map rv_version hist)"
  by (auto simp: history_ok_def split: option.splits)

section \<open>The in-memory backend keeps the contract\<close>

definition memory_hist :: "'l memory_repository \<Rightarrow> string \<Rightarrow> 'l revision list" where
  "memory_hist m k = dict_get (mr_revisions m) k []"

definition memory_systems_ok :: "'l memory_repository \<Rightarrow> bool" where
  "memory_systems_ok m \<longleftrightarrow> (\<forall>k. history_ok k (map_of (mr_systems m) k) (memory_hist m k))"

lemma dict_get_delete: "dict_get (AList.delete k d) k' v = (if k' = k then v else dict_get d k' v)"
  by (simp add: dict_get_def delete_conv')

lemma mr_save_Inr:
  assumes "mr_save_system now stamp fresh x expected author msg m = Inr (m', x')"
  shows "prepare stamp x (map_of (mr_systems m) (sr_id x)) expected author = Inr x' \<and> sr_id x' = sr_id x \<and>
    mr_systems m' = AList.update (sr_id x) x' (mr_systems m) \<and>
    mr_revisions m' = AList.update (sr_id x)
      (pruned (memory_hist m (sr_id x) @ [made_revision fresh stamp x' author msg])) (mr_revisions m)"
  using assms prepare_Inr
  by (fastforce simp: mr_save_system_def ebind_eq_Inr memory_hist_def Let_def)

interpretation memory: revision_store memory_systems memory_hist "\<lambda>_ _. True" memory_systems_ok
proof (unfold_locales, goal_cases)
  case (1 r k)
  then show ?case by (simp add: memory_systems_ok_def memory_systems_def mr_get_system_def)
next
  case (2 now stamp fresh x expected author msg r c)
  show ?case by (auto simp: memory_systems_def mr_save_system_def mr_get_system_def ebind_eq_Inl)
next
  case (3 now stamp fresh x expected author msg r r' x')
  show ?case using mr_save_Inr [OF 3 [unfolded memory_systems_def, simplified]] by (simp add: memory_systems_def mr_get_system_def)
next
  case (4 now stamp fresh x expected author msg r r' x' k)
  show ?case using mr_save_Inr [OF 4 [unfolded memory_systems_def, simplified]] by (simp add: memory_systems_def mr_get_system_def)
next
  case (5 r fresh now stamp x expected author msg r' x' k)
  show ?case using mr_save_Inr [OF 5(3) [unfolded memory_systems_def, simplified]] by (simp add: memory_systems_def memory_hist_def)
next
  case (6 r fresh now stamp x expected author msg r' x')
  note s = mr_save_Inr [OF 6(3) [unfolded memory_systems_def, simplified]]
  have "history_ok (sr_id x) (Some x') (pruned (memory_hist r (sr_id x) @ [made_revision fresh stamp x' author msg]))"
    by (rule history_ok_save [where current = "map_of (mr_systems r) (sr_id x)"])
      (use 6(1) s in \<open>auto simp: memory_systems_ok_def\<close>)
  then show ?case using 6(1) s by (simp add: memory_systems_ok_def memory_hist_def)
next
  case (7 r f fresh now stamp x expected author msg r' x')
  show ?case by simp
next
  case (8 r f k)
  show ?case by simp
next
  case (9 k r k')
  show ?case by (simp add: memory_systems_def mr_get_system_def mr_delete_system_def delete_conv')
next
  case (10 r k k')
  show ?case by (simp add: memory_systems_def mr_delete_system_def memory_hist_def dict_get_delete)
next
  case (11 r k)
  then show ?case
    by (simp add: memory_systems_def mr_delete_system_def memory_systems_ok_def memory_hist_def dict_get_delete
        delete_conv' history_ok_def)
next
  case (12 k r)
  show ?case by (simp add: memory_systems_def mr_get_system_def mr_delete_system_def)
next
  case (13 r n k)
  show ?case by (simp add: memory_systems_def mr_revisions_of_def memory_hist_def)
next
  case (14 r k v)
  show ?case by (simp add: memory_systems_def mr_revision_def memory_hist_def)
qed

section \<open>The document store keeps the contract\<close>

definition sql_hist :: "'l sql_repository \<Rightarrow> string \<Rightarrow> 'l revision list" where
  "sql_hist s k = sort_key rv_version (map row_body (filter (\<lambda>r. row_parent r = Some k) (sq_revisions s)))"

definition sql_rows_ok :: "'l revision docs \<Rightarrow> bool" where
  "sql_rows_ok rows \<longleftrightarrow> wf_docs rows \<and> (\<forall>r \<in> set rows. row_id r = rv_id (row_body r))"

definition sql_systems_ok :: "'l sql_repository \<Rightarrow> bool" where
  "sql_systems_ok s \<longleftrightarrow> sql_rows_ok (sq_revisions s) \<and>
     (\<forall>k. history_ok k (store_get (sq_systems s) k) (sql_hist s k))"

definition sql_unused :: "'l sql_repository \<Rightarrow> string \<Rightarrow> bool" where
  "sql_unused s fresh \<longleftrightarrow> store_get (sq_revisions s) fresh = None"

lemma sort_key_mset:
  assumes "mset xs = mset ys" and "distinct (map f ys)"
  shows "sort_key f xs = sort_key f ys"
proof (rule sort_key_inj_key_eq)
  show "mset xs = mset (sort_key f ys)" using assms(1) by simp
  have "set xs = set ys" using assms(1) by (metis set_mset_mset)
  then show "inj_on f (set xs)" using assms(2) by (simp add: distinct_map)
qed (simp add: sorted_sort_key)

lemma distinct_map_sort_key: "distinct (map f (sort_key g xs)) \<longleftrightarrow> distinct (map f xs)"
  by (simp add: distinct_map)

lemma store_list_mset:
  assumes "length (filter (\<lambda>r. row_parent r = Some k) rows) \<le> limit"
  shows "mset (store_list (Some k) limit 0 rows) = mset (map row_body (filter (\<lambda>r. row_parent r = Some k) rows))"
  using assms by (simp add: store_list_def Let_def)

lemma sql_listing:
  assumes "sql_systems_ok s"
  shows "sort_key rv_version (store_list (Some k) 5000 0 (sq_revisions s)) = sql_hist s k"
    and "sort_key rv_version (rev (store_list (Some k) 5000 0 (sq_revisions s))) = sql_hist s k"
proof -
  have h: "history_ok k (store_get (sq_systems s) k) (sql_hist s k)" using assms by (simp add: sql_systems_ok_def)
  then have "length (filter (\<lambda>r. row_parent r = Some k) (sq_revisions s)) \<le> 5000"
    by (simp add: history_ok_def sql_hist_def max_revisions_def)
  note m = store_list_mset [OF this]
  have d: "distinct (map rv_version (map row_body (filter (\<lambda>r. row_parent r = Some k) (sq_revisions s))))"
    using history_ok_distinct [OF h] unfolding sql_hist_def distinct_map_sort_key .
  show "sort_key rv_version (store_list (Some k) 5000 0 (sq_revisions s)) = sql_hist s k"
    unfolding sql_hist_def by (rule sort_key_mset [OF m d])
  show "sort_key rv_version (rev (store_list (Some k) 5000 0 (sq_revisions s))) = sql_hist s k"
    unfolding sql_hist_def by (rule sort_key_mset [OF _ d]) (simp add: m)
qed

lemma delete_revisions_filter:
  "delete_revisions stale rows = filter (\<lambda>r. row_id r \<notin> rv_id ` set stale) rows"
proof (induction stale arbitrary: rows)
  case (Cons r stale)
  have "delete_revisions (r # stale) rows = delete_revisions stale (filter (\<lambda>q. row_id q \<noteq> rv_id r) rows)"
    by (simp add: delete_revisions_def store_delete_def)
  also have "\<dots> = filter (\<lambda>q. row_id q \<notin> rv_id ` set (r # stale)) rows"
    unfolding Cons.IH by (auto intro: filter_cong)
  finally show ?case .
qed (simp add: delete_revisions_def)

lemma sql_rows_ok_filter: "sql_rows_ok rows \<Longrightarrow> sql_rows_ok (filter P rows)"
  by (auto simp: sql_rows_ok_def wf_docs_def distinct_map_filter)

lemma filter_sort_key: "filter (\<lambda>y. f z = f y) (sort_key f xs) = filter (\<lambda>y. f z = f y) xs"
proof -
  have flip: "filter (\<lambda>y. f z = f y) ys = filter (\<lambda>y. f y = f z) ys" for ys by (rule filter_cong) auto
  show ?thesis unfolding flip by (rule sort_key_stable)
qed

text \<open>A new revision goes to the end of its history.\<close>

lemma sql_hist_append:
  assumes "\<And>r. r \<in> set (sql_hist s k) \<Longrightarrow> rv_version r \<le> rv_version x"
  shows "sql_hist (s\<lparr>sq_revisions := sq_revisions s @ [\<lparr>row_id = i, row_parent = Some k, row_name = n, row_body = x,
      row_updated = t\<rparr>]\<rparr>) k' = (if k' = k then sql_hist s k @ [x] else sql_hist s k')"
proof (cases "k' = k")
  case True
  let ?bodies = "map row_body (filter (\<lambda>r. row_parent r = Some k) (sq_revisions s))"
  have "sort_key rv_version (?bodies @ [x]) = sort_key rv_version ?bodies @ [x]"
  proof (rule properties_for_sort_key)
    show "mset (sort_key rv_version ?bodies @ [x]) = mset (?bodies @ [x])" by simp
    show "filter (\<lambda>y. rv_version z = rv_version y) (sort_key rv_version ?bodies @ [x]) =
        filter (\<lambda>y. rv_version z = rv_version y) (?bodies @ [x])" for z :: "'a revision"
      using filter_sort_key [of rv_version z ?bodies] by (simp only: filter_append)
    show "sorted (map rv_version (sort_key rv_version ?bodies @ [x]))"
      using assms by (auto simp: sql_hist_def sorted_append)
  qed
  with True show ?thesis by (simp add: sql_hist_def)
qed (simp add: sql_hist_def)

lemma filter_take_drop:
  assumes "distinct (map f xs)"
  shows "filter (\<lambda>x. f x \<notin> f ` set (take n xs)) xs = drop n xs"
proof -
  have d: "distinct (map f (take n xs) @ map f (drop n xs))"
    using assms unfolding map_append [symmetric] append_take_drop_id .
  have "filter (\<lambda>x. f x \<notin> f ` set (take n xs)) (take n xs @ drop n xs) = drop n xs"
  proof -
    have "filter (\<lambda>x. f x \<notin> f ` set (take n xs)) (take n xs) = []" by (auto simp: filter_empty_conv)
    moreover have "filter (\<lambda>x. f x \<notin> f ` set (take n xs)) (drop n xs) = drop n xs"
      using d by (intro filter_True) (auto simp: disjoint_iff)
    ultimately show ?thesis unfolding filter_append by (simp only: append_Nil)
  qed
  then show ?thesis by (simp only: append_take_drop_id)
qed

text \<open>Taking revisions of one system out of the table leaves the other histories alone.\<close>

lemma sql_hist_delete:
  assumes ok: "sql_rows_ok (sq_revisions s)" and stale: "set stale \<subseteq> set (sql_hist s k)"
  shows "sql_hist (s\<lparr>sq_revisions := delete_revisions stale (sq_revisions s)\<rparr>) k' =
    (if k' = k then filter (\<lambda>r. rv_id r \<notin> rv_id ` set stale) (sql_hist s k) else sql_hist s k')"
proof -
  let ?rows = "sq_revisions s" and ?keep = "\<lambda>r. rv_id r \<notin> rv_id ` set stale"
  have ids: "row_id r = rv_id (row_body r)" if "r \<in> set ?rows" for r using ok that by (simp add: sql_rows_ok_def)
  have one: "q = r" if "q \<in> set ?rows" "r \<in> set ?rows" "row_id q = row_id r" for q r
    using ok that unfolding sql_rows_ok_def wf_docs_def distinct_map by (blast dest: inj_onD)
  have eq: "map row_body (filter (\<lambda>r. row_parent r = Some k') (filter (\<lambda>r. row_id r \<notin> rv_id ` set stale) ?rows)) =
      filter ?keep (map row_body (filter (\<lambda>r. row_parent r = Some k') ?rows))"
    using ids by (auto simp: filter_map o_def conj_commute intro!: arg_cong [of _ _ "map row_body"] filter_cong)
  have h: "sql_hist (s\<lparr>sq_revisions := delete_revisions stale ?rows\<rparr>) k' = filter ?keep (sql_hist s k')"
  proof -
    have upd: "sq_revisions (s\<lparr>sq_revisions := X\<rparr>) = X" for X by simp
    show ?thesis unfolding sql_hist_def delete_revisions_filter upd eq filter_sort ..
  qed
  show ?thesis
  proof (cases "k' = k")
    case False
    have "?keep x" if x: "x \<in> set (sql_hist s k')" for x
    proof
      assume "rv_id x \<in> rv_id ` set stale"
      then obtain y where y: "y \<in> set (sql_hist s k)" "rv_id x = rv_id y" using stale by auto
      obtain q where q: "q \<in> set ?rows" "row_parent q = Some k'" "x = row_body q" using x by (auto simp: sql_hist_def)
      obtain r where r: "r \<in> set ?rows" "row_parent r = Some k" "y = row_body r" using y(1) by (auto simp: sql_hist_def)
      have "q = r" by (rule one) (use q r ids y(2) in auto)
      with q(2) r(2) False show False by simp
    qed
    then show ?thesis using h False by (simp add: filter_True)
  next
    case True
    show ?thesis unfolding h unfolding True by simp
  qed
qed

lemma sql_hist_ids_distinct: "sql_rows_ok (sq_revisions s) \<Longrightarrow> distinct (map rv_id (sql_hist s k))"
proof -
  assume ok: "sql_rows_ok (sq_revisions s)"
  have "map rv_id (map row_body (filter P (sq_revisions s))) = map row_id (filter P (sq_revisions s))" for P
    using ok by (auto simp: sql_rows_ok_def)
  then show ?thesis using ok
    by (simp add: sql_hist_def distinct_map_sort_key sql_rows_ok_def wf_docs_def distinct_map_filter del: map_map)
qed

lemma history_versions_bound:
  assumes "history_ok k current hist" and "r \<in> set hist"
  shows "\<exists>c. current = Some c \<and> rv_version r \<le> sr_version c"
proof (cases current)
  case None
  with assms show ?thesis by (simp add: history_ok_def)
next
  case (Some c)
  then have "map rv_version hist = [sr_version c - int (length hist) + 1 .. sr_version c]"
    using assms(1) by (simp add: history_ok_def)
  then have "rv_version r \<in> set [sr_version c - int (length hist) + 1 .. sr_version c]"
    using assms(2) by (metis image_eqI set_map)
  with Some show ?thesis by simp
qed

lemma sq_save_Inr:
  assumes save: "sq_save_system now stamp fresh x expected author msg s = Inr (s', x')"
    and ok: "sql_systems_ok s" and new: "sql_unused s fresh"
  shows "prepare stamp x (store_get (sq_systems s) (sr_id x)) expected author = Inr x' \<and>
    (\<forall>k. store_get (sq_systems s') k = (if k = sr_id x then Some x' else store_get (sq_systems s) k)) \<and>
    (\<forall>k. sql_hist s' k = (if k = sr_id x then pruned (sql_hist s k @ [made_revision fresh stamp x' author msg])
       else sql_hist s k)) \<and> sql_rows_ok (sq_revisions s')"
proof -
  let ?k = "sr_id x" and ?rev = "made_revision fresh stamp x' author msg"
  let ?row = "\<lparr>row_id = fresh, row_parent = Some ?k, row_name = Some (show_int (rv_version ?rev)),
    row_body = ?rev, row_updated = sql_now now\<rparr>"
  have p: "prepare stamp x (store_get (sq_systems s) ?k) expected author = Inr x'"
    and s': "s' = s\<lparr>sq_systems := store_put now ?k x' (Some (sr_workspace_id x')) (Some (sr_name x')) (sq_systems s),
      sq_revisions := sq_prune ?k (store_put now fresh ?rev (Some ?k) (Some (show_int (rv_version ?rev))) (sq_revisions s))\<rparr>"
    using save prepare_Inr by (fastforce simp: sq_save_system_def ebind_eq_Inr sq_get_system_def Let_def made_revision_def)+
  define s1 where "s1 = s\<lparr>sq_revisions := sq_revisions s @ [?row]\<rparr>"
  have put: "store_put now fresh ?rev (Some ?k) (Some (show_int (rv_version ?rev))) (sq_revisions s) = sq_revisions s1"
    using new by (simp add: store_put_def sql_unused_def store_get_None s1_def)
  have h: "history_ok ?k (store_get (sq_systems s) ?k) (sql_hist s ?k)" using ok by (simp add: sql_systems_ok_def)
  have hist1: "sql_hist s1 k = (if k = ?k then sql_hist s ?k @ [?rev] else sql_hist s k)" for k
    unfolding s1_def
  proof (rule sql_hist_append)
    fix r assume "r \<in> set (sql_hist s ?k)"
    from history_versions_bound [OF h this] show "rv_version r \<le> rv_version ?rev"
      using prepare_Inr [OF p] by (auto simp: made_revision_def)
  qed
  have rows1: "sql_rows_ok (sq_revisions s1)"
    using ok new by (auto simp: sql_systems_ok_def sql_rows_ok_def wf_docs_def s1_def sql_unused_def
        store_get_None made_revision_def)
  have vs1: "distinct (map rv_version (sql_hist s1 ?k))" "length (sql_hist s1 ?k) \<le> 5000"
  proof -
    have "rv_version r < rv_version ?rev" if "r \<in> set (sql_hist s ?k)" for r
      using history_versions_bound [OF h that] prepare_Inr [OF p] by (auto simp: made_revision_def)
    then have "rv_version ?rev \<notin> rv_version ` set (sql_hist s ?k)" by (metis imageE less_irrefl)
    then show "distinct (map rv_version (sql_hist s1 ?k))"
      using history_ok_distinct [OF h] by (simp add: hist1)
    show "length (sql_hist s1 ?k) \<le> 5000" using h by (simp add: hist1 history_ok_def max_revisions_def)
  qed
  have listed: "sort_key rv_version (store_list (Some ?k) 5000 0 (sq_revisions s1)) = sql_hist s1 ?k"
    unfolding sql_hist_def
    by (rule sort_key_mset [OF store_list_mset])
      (use vs1 in \<open>simp_all add: sql_hist_def distinct_map_sort_key del: map_map\<close>)
  let ?stale = "take (length (sql_hist s1 ?k) - max_revisions) (sql_hist s1 ?k)"
  have prune: "sq_prune ?k (sq_revisions s1) = delete_revisions ?stale (sq_revisions s1)"
    by (simp add: sq_prune_def listed Let_def)
  have "sql_hist (s1\<lparr>sq_revisions := delete_revisions ?stale (sq_revisions s1)\<rparr>) k =
      (if k = ?k then pruned (sql_hist s1 ?k) else sql_hist s1 k)" for k
    using sql_hist_delete [OF rows1, of ?stale ?k k] filter_take_drop [OF sql_hist_ids_distinct [OF rows1]]
    by (simp add: pruned_def set_take_subset)
  then have "sql_hist s' k = (if k = ?k then pruned (sql_hist s1 ?k) else sql_hist s1 k)" for k
    by (simp add: s' put prune sql_hist_def)
  moreover have "sql_rows_ok (sq_revisions s')"
    by (simp add: s' put prune delete_revisions_filter sql_rows_ok_filter rows1)
  moreover have "store_get (sq_systems s') k = (if k = ?k then Some x' else store_get (sq_systems s) k)" for k
    by (simp add: s' store_get_put)
  ultimately show ?thesis using p by (simp add: hist1)
qed

lemma sq_delete_hist:
  assumes "sql_systems_ok s"
  shows "sql_hist (fst (sq_delete_system k s)) k' = (if k' = k then [] else sql_hist s k')"
proof -
  let ?gone = "store_list (Some k) 5000 0 (sq_revisions s)"
  have listed: "set ?gone = set (sql_hist s k)" using sql_listing(1) [OF assms, of k] by (metis set_sort)
  have "sql_rows_ok (sq_revisions s)" using assms by (simp add: sql_systems_ok_def)
  from sql_hist_delete [OF this, of ?gone k k'] listed
  have "sql_hist (s\<lparr>sq_revisions := delete_revisions ?gone (sq_revisions s)\<rparr>) k' = (if k' = k then [] else sql_hist s k')"
    by (auto simp: filter_empty_conv)
  then show ?thesis by (simp add: sq_delete_system_def sql_hist_def)
qed

lemma sql_unused_delete: "store_get rows k = None \<Longrightarrow> store_get (delete_revisions stale rows) k = None"
  by (auto simp: delete_revisions_filter store_get_None)

interpretation sql: revision_store sql_systems sql_hist sql_unused sql_systems_ok
proof (unfold_locales, goal_cases)
  case (1 r k)
  then show ?case by (simp add: sql_systems_ok_def sql_systems_def sq_get_system_def)
next
  case (2 now stamp fresh x expected author msg r c)
  show ?case by (auto simp: sql_systems_def sq_save_system_def ebind_eq_Inl Let_def)
next
  case (3 now stamp fresh x expected author msg r r' x')
  then show ?case by (auto simp: sql_systems_def sq_save_system_def ebind_eq_Inr Let_def)
next
  case (4 now stamp fresh x expected author msg r r' x' k)
  then show ?case
    by (auto simp: sql_systems_def sq_save_system_def sq_get_system_def ebind_eq_Inr Let_def store_get_put
        dest: prepare_Inr)
next
  case (5 r fresh now stamp x expected author msg r' x' k)
  then show ?case using sq_save_Inr [OF 5(3) [unfolded sql_systems_def, simplified] 5(1,2)] by simp
next
  case (6 r fresh now stamp x expected author msg r' x')
  note s = sq_save_Inr [OF 6(3) [unfolded sql_systems_def, simplified] 6(1,2)]
  have "history_ok (sr_id x) (Some x') (pruned (sql_hist r (sr_id x) @ [made_revision fresh stamp x' author msg]))"
    by (rule history_ok_save [where current = "store_get (sq_systems r) (sr_id x)"])
      (use 6(1) s in \<open>auto simp: sql_systems_ok_def\<close>)
  then show ?case using 6(1) s by (simp add: sql_systems_ok_def)
next
  case (7 r f fresh now stamp x expected author msg r' x')
  then show ?case
    by (auto simp: sql_systems_def sql_unused_def sq_save_system_def ebind_eq_Inr Let_def sq_prune_def made_revision_def
        store_get_put intro!: sql_unused_delete)
next
  case (8 r f k)
  then show ?case by (simp add: sql_systems_def sql_unused_def sq_delete_system_def sql_unused_delete)
next
  case (9 k r k')
  show ?case by (simp add: sql_systems_def sq_get_system_def sq_delete_system_def store_get_delete)
next
  case (10 r k k')
  then show ?case by (simp add: sql_systems_def sq_delete_hist)
next
  case (11 r k)
  have "sql_rows_ok (sq_revisions (fst (sq_delete_system k r)))"
    using 11 by (simp add: sq_delete_system_def delete_revisions_filter sql_rows_ok_filter sql_systems_ok_def)
  then show ?case using 11
    by (simp add: sql_systems_def sql_systems_ok_def sq_delete_hist [OF 11])
      (simp add: sq_delete_system_def store_get_delete history_ok_def)
next
  case (12 k r)
  show ?case by (simp add: sql_systems_def sq_get_system_def sq_delete_system_def ds.delete_found)
next
  case (13 r n k)
  then show ?case by (simp add: sql_systems_def sq_revisions_of_def sql_listing(2))
next
  case (14 r k v)
  have h: "history_ok k (store_get (sq_systems r) k) (sql_hist r k)" using 14 by (simp add: sql_systems_ok_def)
  have "length (sql_hist r k) \<le> 5000" using h by (simp add: history_ok_def max_revisions_def)
  then show ?case using 14 find_rev_distinct [OF history_ok_distinct [OF h]]
    by (simp add: sql_systems_def sq_revision_def sq_revisions_of_def sql_listing(2))
qed

end
