(* ===== verification/RepositoryRuns.thy ===== *)
theory RepositoryRuns
  imports Repository
begin

text \<open>
  What the two backends of \<open>Repository\<close> promise together: the same answers to the same calls, and
  no update lost between two people who save.
\<close>

section \<open>Calls\<close>

text \<open>A write, with the instant, time stamp and revision id it is made with; or a deletion.\<close>

datatype 'l repo_call =
    CallSave instant string string "'l system_record" "int option" string string
  | CallDelete string

datatype 'l repo_answer = AnsweredSave "'l version_conflict + 'l system_record" | AnsweredDelete bool

fun call :: "('r, 'l) system_repo \<Rightarrow> 'l repo_call \<Rightarrow> 'r \<Rightarrow> 'r \<times> 'l repo_answer" where
  "call R (CallSave now stamp fresh x expected author msg) r =
     (case rp_save R now stamp fresh x expected author msg r of
        Inl c \<Rightarrow> (r, AnsweredSave (Inl c)) | Inr (r', x') \<Rightarrow> (r', AnsweredSave (Inr x')))"
| "call R (CallDelete k) r = (let (r', found) = rp_delete R k r in (r', AnsweredDelete found))"

fun calls :: "('r, 'l) system_repo \<Rightarrow> 'l repo_call list \<Rightarrow> 'r \<Rightarrow> 'r \<times> 'l repo_answer list" where
  "calls R [] r = (r, [])"
| "calls R (c # cs) r =
     (let (r1, a) = call R c r; (r2, as) = calls R cs r1 in (r2, a # as))"

fun revision_id :: "'l repo_call \<Rightarrow> string option" where
  "revision_id (CallSave now stamp fresh x expected author msg) = Some fresh"
| "revision_id (CallDelete k) = None"

definition minted :: "'l repo_call list \<Rightarrow> string list" where
  "minted cs = List.map_filter revision_id cs"

lemma minted_Cons [simp]:
  "minted [] = []"
  "minted (CallSave now stamp fresh x expected author msg # cs) = fresh # minted cs"
  "minted (CallDelete k # cs) = minted cs"
  by (simp_all add: minted_def map_filter_simps)

context revision_store begin

text \<open>The state after a call, in terms of the state before it.\<close>

lemma call_save:
  assumes "ok r" and "unused r fresh"
  shows "case prepare stamp x (rp_get R r (sr_id x)) expected author of
      Inl c \<Rightarrow> call R (CallSave now stamp fresh x expected author msg) r = (r, AnsweredSave (Inl c))
    | Inr x' \<Rightarrow> \<exists>r'. call R (CallSave now stamp fresh x expected author msg) r = (r', AnsweredSave (Inr x')) \<and> ok r' \<and>
        (\<forall>k. rp_get R r' k = (if k = sr_id x then Some x' else rp_get R r k)) \<and>
        (\<forall>k. hist r' k = (if k = sr_id x then pruned (hist r k @ [made_revision fresh stamp x' author msg]) else hist r k)) \<and>
        (\<forall>f. unused r f \<longrightarrow> f \<noteq> fresh \<longrightarrow> unused r' f)"
proof (cases "rp_save R now stamp fresh x expected author msg r")
  case (Inl c)
  then have "prepare stamp x (rp_get R r (sr_id x)) expected author = Inl c" by (simp only: save_refused)
  with Inl show ?thesis by simp
next
  case (Inr p)
  obtain r' x' where p: "p = (r', x')" by (cases p)
  note s = Inr [unfolded p]
  have prep: "prepare stamp x (rp_get R r (sr_id x)) expected author = Inr x'" by (rule save_record [OF s])
  have "ok r'" by (rule save_ok [OF assms s])
  moreover have "rp_get R r' k = (if k = sr_id x then Some x' else rp_get R r k)" for k by (rule save_get [OF s])
  moreover have "hist r' k = (if k = sr_id x then pruned (hist r k @ [made_revision fresh stamp x' author msg]) else hist r k)" for k
    by (rule save_hist [OF assms s])
  moreover have "unused r' f" if "unused r f" "f \<noteq> fresh" for f by (rule save_unused [OF that s])
  ultimately show ?thesis using s prep by simp
qed

end

text \<open>Two states of two stores that hold the same records and histories.\<close>

definition same_content ::
  "('l memory_repository \<Rightarrow> 'l sql_repository \<Rightarrow> bool)" where
  "same_content m s \<longleftrightarrow> (\<forall>k. mr_get_system m k = sq_get_system s k) \<and> (\<forall>k. memory_hist m k = sql_hist s k)"

lemma call_agrees:
  assumes same: "same_content m s" and ok: "memory_systems_ok m" "sql_systems_ok s"
    and new: "\<forall>f \<in> set (minted (c # cs)). sql_unused s f" "distinct (minted (c # cs))"
  shows "\<exists>m' s' a. call memory_systems c m = (m', a) \<and> call sql_systems c s = (s', a) \<and> same_content m' s' \<and>
    memory_systems_ok m' \<and> sql_systems_ok s' \<and> (\<forall>f \<in> set (minted cs). sql_unused s' f)"
proof (cases c)
  case (CallSave now stamp fresh x expected author msg)
  have get: "rp_get memory_systems m = rp_get sql_systems s"
    using same by (auto simp: same_content_def memory_systems_def sql_systems_def)
  have unused: "sql_unused s fresh" using new(1) CallSave by simp
  note cm = memory.call_save [OF ok(1) TrueI, where stamp = stamp and x = x and expected = expected and author = author
      and now = now and fresh = fresh and msg = msg]
    and cs = sql.call_save [OF ok(2) unused, where stamp = stamp and x = x and expected = expected and author = author
      and now = now and msg = msg]
  show ?thesis
  proof (cases "prepare stamp x (rp_get sql_systems s (sr_id x)) expected author")
    case (Inl e)
    then show ?thesis using cm cs same ok new CallSave get by simp
  next
    case (Inr x')
    obtain m' where m': "call memory_systems c m = (m', AnsweredSave (Inr x'))" "memory_systems_ok m'"
      "\<forall>k. rp_get memory_systems m' k = (if k = sr_id x then Some x' else rp_get memory_systems m k)"
      "\<forall>k. memory_hist m' k = (if k = sr_id x then pruned (memory_hist m k @ [made_revision fresh stamp x' author msg])
         else memory_hist m k)"
      using cm Inr CallSave get by auto
    obtain s' where s': "call sql_systems c s = (s', AnsweredSave (Inr x'))" "sql_systems_ok s'"
      "\<forall>k. rp_get sql_systems s' k = (if k = sr_id x then Some x' else rp_get sql_systems s k)"
      "\<forall>k. sql_hist s' k = (if k = sr_id x then pruned (sql_hist s k @ [made_revision fresh stamp x' author msg])
         else sql_hist s k)" "\<forall>f. sql_unused s f \<longrightarrow> f \<noteq> fresh \<longrightarrow> sql_unused s' f"
      using cs Inr CallSave by auto
    have "same_content m' s'"
      using m'(3,4) s'(3,4) same by (simp add: same_content_def memory_systems_def sql_systems_def)
    moreover have "\<forall>f \<in> set (minted cs). sql_unused s' f" using s'(5) new CallSave by auto
    ultimately show ?thesis using m' s' by blast
  qed
next
  case (CallDelete k)
  let ?m = "fst (rp_delete memory_systems k m)" and ?s = "fst (rp_delete sql_systems k s)"
  have "same_content ?m ?s"
    using same memory.delete_get [of k m] sql.delete_get [of k s] memory.delete_hist [OF ok(1), of k] sql.delete_hist [OF ok(2), of k]
    by (simp add: same_content_def memory_systems_def sql_systems_def)
  moreover have "snd (rp_delete memory_systems k m) = snd (rp_delete sql_systems k s)"
    using same memory.delete_found [of k m] sql.delete_found [of k s]
    by (simp add: same_content_def memory_systems_def sql_systems_def)
  moreover have "memory_systems_ok ?m" "sql_systems_ok ?s" by (rule memory.delete_ok [OF ok(1)], rule sql.delete_ok [OF ok(2)])
  moreover have "\<forall>f \<in> set (minted cs). sql_unused ?s f" using new CallDelete sql.delete_unused by auto
  ultimately show ?thesis using CallDelete by (auto simp: case_prod_beta)
qed

lemma sql_unused_calls: "sql_unused s f \<Longrightarrow> f \<notin> set (minted cs) \<Longrightarrow> sql_unused (fst (calls sql_systems cs s)) f"
proof (induction cs arbitrary: s)
  case (Cons c cs)
  have "sql_unused (fst (call sql_systems c s)) f"
  proof (cases c)
    case (CallSave now stamp fresh x expected author msg)
    then have "f \<noteq> fresh" using Cons.prems(2) by auto
    then show ?thesis using CallSave Cons.prems(1)
      by (auto split: sum.split intro: sql.save_unused)
  next
    case (CallDelete k)
    then show ?thesis using sql.delete_unused [OF Cons.prems(1)] by (simp add: case_prod_beta)
  qed
  moreover have "f \<notin> set (minted cs)" using Cons.prems(2) by (cases c) auto
  ultimately show ?case using Cons.IH by (simp add: case_prod_beta)
qed simp

definition empty_memory :: "'l memory_repository" where
  "empty_memory = \<lparr>mr_systems = [], mr_revisions = []\<rparr>"

definition empty_sql :: "'l sql_repository" where
  "empty_sql = \<lparr>sq_systems = [], sq_revisions = []\<rparr>"

lemma empty_ok: "memory_systems_ok empty_memory" "sql_systems_ok empty_sql" "same_content empty_memory empty_sql"
  "sql_unused empty_sql f"
  by (simp_all add: memory_systems_ok_def sql_systems_ok_def empty_memory_def empty_sql_def memory_hist_def
      sql_hist_def history_ok_def sql_rows_ok_def wf_docs_def same_content_def mr_get_system_def
      sq_get_system_def store_get_def sql_unused_def)

lemma calls_agree:
  assumes "same_content m s" and "memory_systems_ok m" and "sql_systems_ok s"
    and "\<forall>f \<in> set (minted cs). sql_unused s f" and "distinct (minted cs)"
  shows "snd (calls memory_systems cs m) = snd (calls sql_systems cs s) \<and>
    same_content (fst (calls memory_systems cs m)) (fst (calls sql_systems cs s)) \<and>
    memory_systems_ok (fst (calls memory_systems cs m)) \<and> sql_systems_ok (fst (calls sql_systems cs s))"
  using assms
proof (induction cs arbitrary: m s)
  case (Cons c cs)
  have "distinct (minted cs)" using Cons.prems(5) by (cases c) auto
  with call_agrees [OF Cons.prems] Cons.IH show ?case by (fastforce simp: case_prod_beta)
qed simp

text \<open>
  C20: The document store refines the in-memory repository. After any calls on two empty
  repositories, with no revision id used twice, both have given the same answers, hold the same
  record and the same last revisions of every system, and find the same revision by its version.
\<close>

theorem backends_agree:
  assumes "distinct (minted cs)"
    and "calls memory_systems cs empty_memory = (m, as)" and "calls sql_systems cs empty_sql = (s, bs)"
  shows "as = bs \<and> mr_get_system m k = sq_get_system s k \<and>
    mr_revisions_of k n m = sq_revisions_of k n s \<and> mr_revision k v m = sq_revision k v s"
proof -
  have agree: "as = bs" "same_content m s" "memory_systems_ok m" "sql_systems_ok s"
    using calls_agree [OF empty_ok(3,1,2) ballI [OF empty_ok(4)] assms(1)] assms(2,3) by auto
  then show ?thesis
    using memory.revisions_hist [OF agree(3), where k = k and n = n] sql.revisions_hist [OF agree(4), where k = k and n = n]
      memory.revision_hist [OF agree(3), where k = k and v = v] sql.revision_hist [OF agree(4), where k = k and v = v]
    by (simp add: same_content_def memory_systems_def sql_systems_def)
qed

definition draft :: "string \<Rightarrow> unit system_record" where
  "draft text = \<lparr>sr_id = ''s'', sr_workspace_id = ''w'', sr_name = ''S'', sr_description = [], sr_status = StatusDraft,
     sr_spec = PStr text, sr_binding = None, sr_layout = (), sr_tags = [], sr_version = 1, sr_created_by = [],
     sr_created_at = [], sr_updated_by = [], sr_updated_at = []\<rparr>"

definition example_calls :: "unit repo_call list" where
  "example_calls =
     [CallSave 0 ''t0'' ''r0'' (draft ''a'') None ''ana'' [], CallSave 1 ''t1'' ''r1'' (draft ''b'') (Some 1) ''ana'' [],
      CallSave 2 ''t2'' ''r2'' (draft ''c'') (Some 1) ''bob'' []]"

theorem backends_agree_witness:
  "snd (calls memory_systems example_calls empty_memory) = snd (calls sql_systems example_calls empty_sql) \<and>
   distinct (minted example_calls)"
proof -
  have d: "distinct (minted example_calls)" by code_simp
  from backends_agree [OF d prod.collapse [symmetric] prod.collapse [symmetric]] d show ?thesis by blast
qed

text \<open>
  C21: No update is lost. In any repository the calls lead to, of two writes based on the stored
  version the first is accepted and gets the next version; the second is refused, whoever makes it
  and whatever it says, and is told the first one; and both the replaced and the new version can be
  read back from the history.
\<close>

theorem no_lost_update:
  assumes "distinct (f # minted cs)" and "calls sql_systems cs empty_sql = (s, as)"
    and "sq_get_system s (sr_id x) = Some c" and "sr_id y = sr_id x"
  shows "\<exists>s' x'. sq_save_system now stamp f x (Some (sr_version c)) author msg s = Inr (s', x') \<and>
    sr_spec x' = sr_spec x \<and> sr_version x' = sr_version c + 1 \<and>
    sq_save_system now2 stamp2 f2 y (Some (sr_version c)) author2 msg2 s' =
      Inl \<lparr>vc_expected = sr_version c, vc_actual = sr_version c + 1, vc_current = x'\<rparr> \<and>
    sq_revision (sr_id x) (sr_version x') s' = Some (made_revision f stamp x' author msg) \<and>
    (\<exists>old. sq_revision (sr_id x) (sr_version c) s' = Some old \<and> rv_spec old = sr_spec c)"
proof -
  have ok: "sql_systems_ok s" using calls_agree [OF empty_ok(3,1,2) ballI [OF empty_ok(4)], of cs] assms(1,2) by auto
  have new: "sql_unused s f" using sql_unused_calls [OF empty_ok(4)] assms(1,2) by fastforce
  obtain s' x' where r: "rp_save sql_systems now stamp f x (Some (sr_version c)) author msg s = Inr (s', x')"
  proof (cases "rp_save sql_systems now stamp f x (Some (sr_version c)) author msg s")
    case (Inl e)
    then have "prepare stamp x (Some c) (Some (sr_version c)) author = Inl e"
      by (simp only: sql.save_refused) (simp add: sql_systems_def assms(3))
    then show ?thesis by (simp add: prepare_def Let_def)
  qed (use that in \<open>auto\<close>)
  have get: "rp_get sql_systems s (sr_id x) = Some c" using assms(3) by (simp add: sql_systems_def)
  show ?thesis
    using r sql.save_version [OF r] get sql.one_write_per_version [OF r assms(4) get] sql.written_revision [OF ok new r]
      sql.replaced_revision [OF ok new get r]
    by (auto simp: sql_systems_def)
qed

text \<open>The state the first write of the example leads to, and two writes based on it.\<close>

definition after_first :: "unit sql_repository" where
  "after_first = fst (calls sql_systems (take 1 example_calls) empty_sql)"

theorem no_lost_update_witness:
  "\<exists>s' x'. sq_save_system 1 ''t1'' ''r1'' (draft ''b'') (Some 1) ''ana'' [] after_first = Inr (s', x') \<and>
     sr_version x' = 2 \<and>
     sq_save_system 2 ''t2'' ''r2'' (draft ''c'') (Some 1) ''bob'' [] s' =
       Inl \<lparr>vc_expected = 1, vc_actual = 2, vc_current = x'\<rparr>"
proof -
  have "map_option sr_version (sq_get_system after_first (sr_id (draft ''b''))) = Some 1" by code_simp
  then obtain c where c: "sq_get_system after_first (sr_id (draft ''b'')) = Some c" "sr_version c = 1" by auto
  have d: "distinct (''r1'' # minted (take 1 example_calls))" by code_simp
  have y: "sr_id (draft ''c'') = sr_id (draft ''b'')" by (simp add: draft_def)
  show ?thesis
    using no_lost_update [OF d prod.collapse [symmetric] c(1) [unfolded after_first_def] y,
        of 1 "''t1''" "''ana''" "[]" 2 "''t2''" "''r2''" "''bob''" "[]"] c(2)
    by (auto simp: after_first_def)
qed

end
