(* ===== verification/DesignerModel.thy ===== *)
theory DesignerModel
  imports Repository Locks AuditLog Merge Complex_Main
begin

text \<open>
  The state of the designer service and the pieces its operations are made of: diagrams and layout
  (\<open>designer/models.py\<close>), settings, the actions of the audit log, and computations on the state that
  may raise. The service runs over the in-memory repository, so its state is that repository's
  systems, workspaces, locks and audit events, and the settings.

  A call reads the clock once: \<open>en_now\<close> and \<open>en_stamp\<close> are that instant, as a number and as the ISO
  string. \<open>en_id\<close> is the id a new object of the call gets, \<open>en_revision\<close> that of a new revision, and
  \<open>en_event\<close> numbers the audit events. Only one write of a call is accepted, so one of each is enough.
\<close>

section \<open>Layout\<close>

text \<open>A float is the rational it denotes; nothing is computed with it.\<close>

record canvas_node =
  cn_id :: string
  cn_kind :: string
  cn_x :: rat
  cn_y :: rat
  cn_width :: rat
  cn_height :: rat
  cn_collapsed :: bool
  cn_note :: string

datatype diagram_kind = KindOrganisation | KindProcess | KindData | KindDeployment

record diagram =
  di_id :: string
  di_name :: string
  di_kind :: diagram_kind
  di_root :: string
  di_nodes :: "(string \<times> canvas_node) list"
  di_viewport :: "(string \<times> rat) list"
  di_updated_at :: string

record layout =
  la_diagrams :: "(string \<times> diagram) list"
  la_active :: string
  la_updated_at :: string

definition main_diagram :: string where
  "main_diagram = ''main''"

definition new_diagram :: "string \<Rightarrow> string \<Rightarrow> diagram" where
  "new_diagram stamp k = \<lparr>di_id = k, di_name = ''Organisation'', di_kind = KindOrganisation, di_root = [],
     di_nodes = [], di_viewport = [(''x'', 0), (''y'', 0), (''zoom'', 1)], di_updated_at = stamp\<rparr>"

text \<open>\<open>_active_names_a_real_diagram\<close>, which every construction of a layout ends with.\<close>

definition real_active :: "string \<Rightarrow> layout \<Rightarrow> layout" where
  "real_active stamp l =
     (let l1 = (if la_diagrams l = [] then l\<lparr>la_diagrams := [(main_diagram, new_diagram stamp main_diagram)]\<rparr> else l)
      in if map_of (la_diagrams l1) (la_active l1) = None
         then l1\<lparr>la_active := fst (hd (la_diagrams l1))\<rparr> else l1)"

definition new_layout :: "string \<Rightarrow> layout" where
  "new_layout stamp = real_active stamp \<lparr>la_diagrams = [], la_active = main_diagram, la_updated_at = stamp\<rparr>"

fun setdefault_all :: "('k \<times> 'v) list \<Rightarrow> ('k \<times> 'v) list \<Rightarrow> ('k \<times> 'v) list" where
  "setdefault_all [] d = d"
| "setdefault_all ((k, v) # kvs) d = setdefault_all kvs (dict_setdefault k v d)"

fun adopt_diagrams :: "(string \<times> diagram) list \<Rightarrow> (string \<times> diagram) list \<Rightarrow> (string \<times> diagram) list" where
  "adopt_diagrams [] merged = merged"
| "adopt_diagrams ((k, theirs) # ds) merged =
     adopt_diagrams ds (case map_of merged k of
         None \<Rightarrow> AList.update k theirs merged
       | Some ours \<Rightarrow> AList.update k (ours\<lparr>di_nodes := setdefault_all (di_nodes theirs) (di_nodes ours)\<rparr>) merged)"

definition merge_layout :: "string \<Rightarrow> layout \<Rightarrow> layout \<Rightarrow> layout" where
  "merge_layout stamp theirs ours =
     real_active stamp (ours\<lparr>la_diagrams := adopt_diagrams (la_diagrams theirs) (la_diagrams ours)\<rparr>)"

section \<open>Settings and actions\<close>

datatype concurrency = Optimistic | Locking | Hybrid

text \<open>The settings the service reads; the others are kept for the deployment around it.\<close>

record designer_settings =
  st_concurrency :: concurrency
  st_lock_ttl_seconds :: nat
  st_lock_break_requires :: user_role
  st_default_merge_strategy :: string
  st_default_role :: user_role
  st_updated_by :: string

datatype audit_action =
    SystemView | SystemCreate | SystemSave | SystemDelete | SystemRestore | SystemPublish
  | MergeApplied | MergeConflict | MergeResolved
  | LockAcquire | LockRelease | LockBreak | LockExpire
  | SettingsUpdate | MemberAdd | MemberRemove | WorkspaceCreate | WorkspaceUpdate | WorkspaceDelete
  | SystemImport | AuditLogRead
  | RuntimeRead | RuntimeRun | RuntimeResume | AgentCreate | AgentUpdate | AgentDelete | OrgUnitCreate
  | SandboxTemplatePublish | OpsAck
  | CatalogRead | CatalogPublish | CatalogEdit | CatalogAmend | CatalogSendBack | CatalogRetire
  | CatalogDelete | CatalogReview | CatalogEntitle | CatalogInstall | CatalogRate
  | AuthFailed

definition audit_action_values :: "(string \<times> audit_action) list" where
  "audit_action_values =
     [(''system.view'', SystemView), (''system.create'', SystemCreate), (''system.save'', SystemSave),
      (''system.delete'', SystemDelete), (''system.restore'', SystemRestore), (''system.publish'', SystemPublish),
      (''merge.applied'', MergeApplied), (''merge.conflict'', MergeConflict), (''merge.resolved'', MergeResolved),
      (''lock.acquire'', LockAcquire), (''lock.release'', LockRelease), (''lock.break'', LockBreak),
      (''lock.expire'', LockExpire), (''designer.settings'', SettingsUpdate),
      (''workspace.member.add'', MemberAdd), (''workspace.member.remove'', MemberRemove),
      (''workspace.create'', WorkspaceCreate), (''workspace.update'', WorkspaceUpdate),
      (''workspace.delete'', WorkspaceDelete), (''system.import'', SystemImport), (''audit.read'', AuditLogRead),
      (''runtime.read'', RuntimeRead), (''runtime.run'', RuntimeRun), (''runtime.resume'', RuntimeResume),
      (''runtime.agent.create'', AgentCreate), (''runtime.agent.update'', AgentUpdate),
      (''runtime.agent.delete'', AgentDelete), (''runtime.org_unit.create'', OrgUnitCreate),
      (''runtime.sandbox_template.publish'', SandboxTemplatePublish), (''ops.ack'', OpsAck),
      (''catalog.read'', CatalogRead), (''catalog.publish'', CatalogPublish), (''catalog.edit'', CatalogEdit),
      (''catalog.amend'', CatalogAmend), (''catalog.send_back'', CatalogSendBack),
      (''catalog.retire'', CatalogRetire), (''catalog.delete'', CatalogDelete),
      (''catalog.review'', CatalogReview), (''catalog.entitle'', CatalogEntitle),
      (''catalog.install'', CatalogInstall), (''catalog.rate'', CatalogRate), (''auth.failed'', AuthFailed)]"

section \<open>State and computations\<close>

type_synonym event = "(audit_action, pyval) audit_event"

record designer =
  dg_systems :: "layout memory_repository"
  dg_workspaces :: "(string \<times> workspace) list"
  dg_locks :: memory_locks
  dg_audit :: "event list"
  dg_settings :: designer_settings

record env =
  en_now :: instant
  en_stamp :: string
  en_id :: string
  en_revision :: string
  en_event :: "nat \<Rightarrow> string"

text \<open>Everything the service raises. \<open>VersionClash\<close> is \<open>VersionConflict\<close>, \<open>LockedBy\<close> is
  \<open>LockConflict\<close>; \<open>BadIndex\<close> and \<open>BadType\<close> are Python's own \<open>IndexError\<close> and \<open>TypeError\<close>.\<close>

datatype designer_error =
    NoSystem string | NoWorkspace string | NoRevision int string | Denied string | NotAuditor
  | BadValue string | SettingsRefused string | FieldRefused string | LastOwner
  | LockedBy lock | VersionClash "layout version_conflict" | KindMismatch string | BadIndex | BadType

type_synonym 'a act = "designer \<Rightarrow> designer \<times> (designer_error + 'a)"

definition give :: "'a \<Rightarrow> 'a act" where
  "give x s = (s, Inr x)"

definition fail :: "designer_error \<Rightarrow> 'a act" where
  "fail e s = (s, Inl e)"

definition and_then :: "'a act \<Rightarrow> ('a \<Rightarrow> 'b act) \<Rightarrow> 'b act" where
  "and_then m f s = (case m s of (s', Inl e) \<Rightarrow> (s', Inl e) | (s', Inr x) \<Rightarrow> f x s')"

definition asks :: "(designer \<Rightarrow> 'a) \<Rightarrow> 'a act" where
  "asks f s = (s, Inr (f s))"

definition change :: "(designer \<Rightarrow> designer) \<Rightarrow> unit act" where
  "change f s = (f s, Inr ())"

definition lift :: "(designer_error + 'a) \<Rightarrow> 'a act" where
  "lift r s = (s, r)"

definition unless :: "bool \<Rightarrow> designer_error \<Rightarrow> unit act" where
  "unless ok e = (if ok then give () else fail e)"

lemmas act_defs = give_def fail_def and_then_def asks_def change_def lift_def unless_def

fun each :: "('a \<Rightarrow> unit act) \<Rightarrow> 'a list \<Rightarrow> unit act" where
  "each f [] = give ()"
| "each f (x # xs) = and_then (f x) (\<lambda>_. each f xs)"

section \<open>What every operation uses\<close>

text \<open>\<open>self.audit.record(action, principal, \<dots>)\<close>; the event's other fields are set by \<open>f\<close>. The
  in-memory repository does not fail to store an event.\<close>

definition blank_event :: "env \<Rightarrow> audit_action \<Rightarrow> designer \<Rightarrow> event" where
  "blank_event E a s = \<lparr>ev_id = en_event E (length (dg_audit s)), ev_timestamp = en_stamp E, ev_actor = [],
     ev_actor_name = [], ev_action = a, ev_outcome = OutSuccess, ev_workspace_id = [], ev_system_id = [],
     ev_version_before = None, ev_version_after = None, ev_merged = False, ev_conflict_paths = [],
     ev_lock_target = [], ev_lock_holder = [], ev_permission = [], ev_reason = [], ev_detail = PDict []\<rparr>"

definition add_event :: "env \<Rightarrow> string \<Rightarrow> string \<Rightarrow> audit_action \<Rightarrow> (event \<Rightarrow> event) \<Rightarrow> designer \<Rightarrow> designer" where
  "add_event E actor label a f s =
     s\<lparr>dg_audit := fst (dal_record False actor label (f (blank_event E a s)) (dg_audit s))\<rparr>"

definition record_event :: "env \<Rightarrow> principal \<Rightarrow> audit_action \<Rightarrow> (event \<Rightarrow> event) \<Rightarrow> unit act" where
  "record_event E p a f = change (add_event E (pr_user_id p) (principal_label p) a f)"

definition workspace_id_of :: "designer \<Rightarrow> string \<Rightarrow> string" where
  "workspace_id_of s system_id =
     (case mr_get_system (dg_systems s) system_id of None \<Rightarrow> [] | Some r \<Rightarrow> sr_workspace_id r)"

text \<open>The lock manager's callback for an expired lock, which has no person behind it. The reason
  names when it expired; times are numbers here, so the model leaves the reason out.\<close>

definition audit_expired_lock :: "env \<Rightarrow> lock \<Rightarrow> designer \<Rightarrow> designer" where
  "audit_expired_lock E l s = add_event E [] [] LockExpire
     (\<lambda>e. e\<lparr>ev_workspace_id := workspace_id_of s (l_system_id l), ev_system_id := l_system_id l,
           ev_lock_target := l_target l, ev_lock_holder := l_holder l\<rparr>) s"

text \<open>A call on the lock manager: the locks it found expired are announced as it drops them.\<close>

definition with_locks :: "env \<Rightarrow> (memory_locks \<Rightarrow> memory_locks \<times> lock list \<times> 'a) \<Rightarrow> 'a act" where
  "with_locks E f s =
     (let (locks, announced, x) = f (dg_locks s)
      in (fold (audit_expired_lock E) announced (s\<lparr>dg_locks := locks\<rparr>), Inr x))"

definition get_workspace :: "designer \<Rightarrow> string \<Rightarrow> workspace option" where
  "get_workspace s workspace_id = map_of (dg_workspaces s) workspace_id"

definition list_workspaces :: "designer \<Rightarrow> workspace list" where
  "list_workspaces s = map snd (dg_workspaces s)"

definition save_workspace :: "workspace \<Rightarrow> workspace act" where
  "save_workspace w s = (s\<lparr>dg_workspaces := AList.update (w_id w) w (dg_workspaces s)\<rparr>, Inr w)"

definition decision_for :: "designer \<Rightarrow> workspace option \<Rightarrow> principal \<Rightarrow> string \<Rightarrow> designer_decision" where
  "decision_for s w p permission =
     designer_decide w p permission (st_default_role (dg_settings s)) (Some (st_lock_break_requires (dg_settings s)))"

definition require_permission ::
  "env \<Rightarrow> workspace option \<Rightarrow> principal \<Rightarrow> string \<Rightarrow> audit_action \<Rightarrow> string \<Rightarrow> string \<Rightarrow> unit act" where
  "require_permission E w p permission a system_id lock_target =
     and_then (asks (\<lambda>s. decision_for s w p permission)) (\<lambda>d.
       if dd_allowed d then give ()
       else and_then (record_event E p a (\<lambda>e. e\<lparr>ev_outcome := OutDenied,
              ev_workspace_id := (case w of None \<Rightarrow> [] | Some v \<Rightarrow> w_id v), ev_system_id := system_id,
              ev_permission := permission, ev_reason := dd_reason d, ev_lock_target := lock_target\<rparr>))
            (\<lambda>_. fail (Denied (dd_reason d))))"

definition find_system :: "string \<Rightarrow> layout system_record act" where
  "find_system system_id = and_then (asks (\<lambda>s. mr_get_system (dg_systems s) system_id)) (\<lambda>found.
     case found of None \<Rightarrow> fail (NoSystem system_id) | Some r \<Rightarrow> give r)"

definition find_workspace :: "string \<Rightarrow> workspace act" where
  "find_workspace workspace_id = and_then (asks (\<lambda>s. get_workspace s workspace_id)) (\<lambda>found.
     case found of None \<Rightarrow> fail (NoWorkspace workspace_id) | Some w \<Rightarrow> give w)"

text \<open>\<open>self.repository.save_system\<close>, and the same with \<open>VersionConflict\<close> caught.\<close>

definition try_store ::
  "env \<Rightarrow> layout system_record \<Rightarrow> int option \<Rightarrow> string \<Rightarrow> string \<Rightarrow>
     (layout version_conflict + layout system_record) act" where
  "try_store E r expected author msg s =
     (case mr_save_system (en_now E) (en_stamp E) (en_revision E) r expected author msg (dg_systems s) of
        Inl c \<Rightarrow> (s, Inr (Inl c))
      | Inr (m, r') \<Rightarrow> (s\<lparr>dg_systems := m\<rparr>, Inr (Inr r')))"

definition store_system ::
  "env \<Rightarrow> layout system_record \<Rightarrow> int option \<Rightarrow> string \<Rightarrow> string \<Rightarrow> layout system_record act" where
  "store_system E r expected author msg =
     and_then (try_store E r expected author msg) (\<lambda>res.
       case res of Inl c \<Rightarrow> fail (VersionClash c) | Inr r' \<Rightarrow> give r')"

definition remove_system :: "string \<Rightarrow> bool act" where
  "remove_system system_id s =
     (let (m, found) = mr_delete_system system_id (dg_systems s) in (s\<lparr>dg_systems := m\<rparr>, Inr found))"

end
