(* ===== verification/Designer.thy ===== *)
theory Designer
  imports DesignerModel
begin

text \<open>
  The operations of the designer service (\<open>designer/service.py\<close>): opening, saving, merging, restoring
  and deleting designs, their locks, workspaces and members, settings, and the audit log. Every
  operation is a computation that ends in a value or an error and keeps what it wrote until then.
  Messages to the user are left out; reading a design file (\<open>import_system\<close>) and checking settings
  against their schema are arguments, and \<open>validate\<close> is not modelled.
\<close>

section \<open>Diagrams and the design they draw\<close>

text \<open>\<open>list(v)\<close>; \<open>None\<close> is the \<open>TypeError\<close> of a value without elements.\<close>

fun py_elements :: "pyval \<Rightarrow> pyval list option" where
  "py_elements (PList xs) = Some xs"
| "py_elements (PDict d) = Some (map (\<lambda>(k, v). PStr k) d)"
| "py_elements (PStr s) = Some (map (\<lambda>c. PStr [c]) s)"
| "py_elements v = None"

fun dict_at :: "pyval \<Rightarrow> string \<Rightarrow> pyval option" where
  "dict_at (PDict d) k = map_of d k"
| "dict_at v k = None"

definition collection_name :: "string \<Rightarrow> string" where
  "collection_name key = (if key = ''roles'' then ''role_definitions'' else key)"

definition org_collection :: "pyval \<Rightarrow> string \<Rightarrow> pyval list option" where
  "org_collection spec key =
     (let org = or_none (dict_at spec ''organization'');
          nested = or_none (dict_at org (collection_name key));
          own = or_none (dict_at spec key)
      in py_elements (if truthy nested then nested else if truthy own then own else PList []))"

fun hashable :: "pyval \<Rightarrow> bool" where
  "hashable (PList xs) = False"
| "hashable (PDict d) = False"
| "hashable v = True"

definition workflow_ids :: "pyval \<Rightarrow> pyval list option" where
  "workflow_ids spec = Option.bind (org_collection spec ''workflows'') (\<lambda>ws.
     (let ids = List.map_filter (\<lambda>w. case w of PDict d \<Rightarrow> Some (or_none (map_of d ''id'')) | _ \<Rightarrow> None) ws
      in if list_all hashable ids then Some ids else None))"

fun check_kinds :: "pyval list \<Rightarrow> diagram list \<Rightarrow> designer_error + unit" where
  "check_kinds ids [] = Inr ()"
| "check_kinds ids (d # ds) =
     (if di_kind d = KindProcess
      then if di_root d = [] then Inl (KindMismatch (di_name d))
           else if \<not> py_in (PStr (di_root d)) ids then Inl (KindMismatch (di_name d))
           else check_kinds ids ds
      else if di_root d \<noteq> [] \<and> py_in (PStr (di_root d)) ids then Inl (KindMismatch (di_name d))
      else check_kinds ids ds)"

definition check_diagram_kinds :: "layout \<Rightarrow> pyval \<Rightarrow> designer_error + unit" where
  "check_diagram_kinds l spec =
     (case workflow_ids spec of None \<Rightarrow> Inl BadType
      | Some ids \<Rightarrow> check_kinds ids (map snd (la_diagrams l)))"

section \<open>Saving\<close>

text \<open>The keyword arguments of \<open>save_system\<close>.\<close>

record save_request =
  rq_spec :: "pyval option"
  rq_layout :: "layout option"
  rq_name :: "string option"
  rq_description :: "string option"
  rq_status :: "system_status option"
  rq_base_version :: "int option"
  rq_strategy :: "string option"
  rq_resolutions :: "(string \<times> pyval) list"
  rq_message :: string

datatype save_status = Saved | Merged | Conflicted | Stale

record save_outcome =
  so_status :: save_status
  so_record :: "layout system_record"
  so_conflicts :: "conflict list"
  so_merged_spec :: "pyval option"
  so_base_version :: int
  so_current_version :: int

definition refuse_locked :: "env \<Rightarrow> principal \<Rightarrow> string \<Rightarrow> layout system_record \<Rightarrow> lock option \<Rightarrow> unit act" where
  "refuse_locked E p system_id r blocking =
     and_then (asks dg_settings) (\<lambda>st.
       case blocking of
         None \<Rightarrow> give ()
       | Some l \<Rightarrow>
           if st_concurrency st = Optimistic then give ()
           else and_then (record_event E p SystemSave (\<lambda>e. e\<lparr>ev_outcome := OutConflict,
                  ev_workspace_id := sr_workspace_id r, ev_system_id := system_id, ev_version_before := Some (sr_version r),
                  ev_lock_target := l_target l, ev_lock_holder := l_holder l\<rparr>))
                (\<lambda>_. fail (LockedBy l)))"

text \<open>The record with the requested changes, before the status.\<close>

definition edited :: "layout system_record \<Rightarrow> save_request \<Rightarrow> designer_error + layout system_record" where
  "edited r rq =
     (let r1 = (case rq_spec rq of None \<Rightarrow> r | Some v \<Rightarrow> r\<lparr>sr_spec := v\<rparr>) in
      ebind (case rq_layout rq of
          None \<Rightarrow> Inr r1
        | Some l \<Rightarrow> ebind (check_diagram_kinds l (sr_spec r1)) (\<lambda>_. Inr (r1\<lparr>sr_layout := l\<rparr>))) (\<lambda>r2.
      (let r3 = (case rq_name rq of None \<Rightarrow> r2 | Some n \<Rightarrow> r2\<lparr>sr_name := n\<rparr>)
       in Inr (case rq_description rq of None \<Rightarrow> r3 | Some d \<Rightarrow> r3\<lparr>sr_description := d\<rparr>))))"

definition with_status ::
  "env \<Rightarrow> principal \<Rightarrow> workspace option \<Rightarrow> string \<Rightarrow> system_status option \<Rightarrow> layout system_record \<Rightarrow> layout system_record act" where
  "with_status E p w system_id status r =
     (case status of
        None \<Rightarrow> give r
      | Some st \<Rightarrow>
          and_then (if st = StatusPublished then require_permission E w p PUBLISH SystemPublish system_id [] else give ())
            (\<lambda>_. give (r\<lparr>sr_status := st\<rparr>)))"

text \<open>\<open>_merge_save\<close>: the merge of the request's document and the stored one over the revision the
  request was based on, or over an empty document when that revision is gone.\<close>

definition merged_documents ::
  "layout revision option \<Rightarrow> layout version_conflict \<Rightarrow> layout system_record \<Rightarrow> (string \<times> pyval) list \<Rightarrow>
     designer_error + pyval \<times> conflict list" where
  "merged_documents ancestor c updated resolutions =
     (let base = (case ancestor of None \<Rightarrow> PDict [] | Some rv \<Rightarrow> rv_spec rv);
          (m, cs) = merge base (sr_spec updated) (sr_spec (vc_current c)) []
      in if resolutions = [] then Inr (m, cs)
         else case apply_resolutions m cs resolutions of None \<Rightarrow> Inl BadIndex | Some r \<Rightarrow> Inr r)"

definition merged_record ::
  "string \<Rightarrow> pyval \<Rightarrow> layout system_record \<Rightarrow> layout system_record \<Rightarrow> layout system_record" where
  "merged_record stamp m current updated =
     current\<lparr>sr_spec := m, sr_layout := merge_layout stamp (sr_layout current) (sr_layout updated),
       sr_name := sr_name updated, sr_description := sr_description updated, sr_status := sr_status updated\<rparr>"

definition merge_save ::
  "env \<Rightarrow> principal \<Rightarrow> layout version_conflict \<Rightarrow> layout system_record \<Rightarrow> (string \<times> pyval) list \<Rightarrow> string \<Rightarrow>
     save_outcome act" where
  "merge_save E p c updated resolutions msg =
     and_then (asks (\<lambda>s. mr_revision (sr_id updated) (vc_expected c) (dg_systems s))) (\<lambda>ancestor.
     and_then (lift (merged_documents ancestor c updated resolutions)) (\<lambda>(m, cs).
     if cs \<noteq> []
     then and_then (record_event E p MergeConflict (\<lambda>e. e\<lparr>ev_outcome := OutConflict,
            ev_workspace_id := sr_workspace_id (vc_current c), ev_system_id := sr_id updated,
            ev_version_before := Some (vc_expected c), ev_version_after := Some (vc_actual c), ev_merged := True,
            ev_conflict_paths := map cf_path cs, ev_reason := show_nat (length cs) @ '' conflict(s) need a decision''\<rparr>))
          (\<lambda>_. give \<lparr>so_status = Conflicted, so_record = vc_current c, so_conflicts = cs, so_merged_spec = Some m,
                 so_base_version = vc_expected c, so_current_version = vc_actual c\<rparr>)
     else and_then (store_system E (merged_record (en_stamp E) m (vc_current c) updated) (Some (vc_actual c))
              (pr_user_id p) (if msg \<noteq> [] then msg else ''merged with v'' @ show_int (vc_actual c))) (\<lambda>saved.
          and_then (record_event E p (if resolutions \<noteq> [] then MergeResolved else MergeApplied) (\<lambda>e. e\<lparr>
              ev_workspace_id := sr_workspace_id saved, ev_system_id := sr_id saved,
              ev_version_before := Some (vc_expected c), ev_version_after := Some (sr_version saved), ev_merged := True,
              ev_detail := PDict (if resolutions \<noteq> []
                then [(''resolved'', PList (map PStr (sort (map fst resolutions))))] else [])\<rparr>))
          (\<lambda>_. give \<lparr>so_status = Merged, so_record = saved, so_conflicts = [], so_merged_spec = None,
                 so_base_version = vc_expected c, so_current_version = sr_version saved\<rparr>))))"

definition strategy_of :: "string option \<Rightarrow> designer \<Rightarrow> string" where
  "strategy_of strategy s =
     (case strategy of None \<Rightarrow> st_default_merge_strategy (dg_settings s)
      | Some x \<Rightarrow> if x \<noteq> [] then x else st_default_merge_strategy (dg_settings s))"

text \<open>The \<open>try\<close> of \<open>save_system\<close>.\<close>

definition write_edit ::
  "env \<Rightarrow> principal \<Rightarrow> string \<Rightarrow> layout system_record \<Rightarrow> layout system_record \<Rightarrow> string \<Rightarrow> save_request \<Rightarrow> save_outcome act" where
  "write_edit E p system_id r updated strategy rq =
     and_then (try_store E updated (Some (case rq_base_version rq of None \<Rightarrow> sr_version r | Some v \<Rightarrow> v))
         (pr_user_id p) (rq_message rq)) (\<lambda>res.
     case res of
       Inr saved \<Rightarrow>
         and_then (record_event E p SystemSave (\<lambda>e. e\<lparr>ev_workspace_id := sr_workspace_id r, ev_system_id := system_id,
             ev_version_before := Some (sr_version r), ev_version_after := Some (sr_version saved),
             ev_detail := PDict (if rq_message rq \<noteq> [] then [(''message'', PStr (rq_message rq))] else [])\<rparr>))
         (\<lambda>_. give \<lparr>so_status = Saved, so_record = saved, so_conflicts = [], so_merged_spec = None,
                so_base_version = (case rq_base_version rq of None \<Rightarrow> 0 | Some v \<Rightarrow> v),
                so_current_version = sr_version saved\<rparr>)
     | Inl c \<Rightarrow>
         if strategy \<noteq> ''merge'' \<or> rq_spec rq = None
         then and_then (record_event E p SystemSave (\<lambda>e. e\<lparr>ev_outcome := OutConflict,
                ev_workspace_id := sr_workspace_id r, ev_system_id := system_id,
                ev_version_before := Some (vc_expected c), ev_version_after := Some (vc_actual c),
                ev_reason := ''write was based on a version that is no longer current''\<rparr>))
              (\<lambda>_. give \<lparr>so_status = Stale, so_record = vc_current c, so_conflicts = [], so_merged_spec = None,
                     so_base_version = vc_expected c, so_current_version = vc_actual c\<rparr>)
         else merge_save E p c updated (rq_resolutions rq) (rq_message rq))"

definition save_system :: "env \<Rightarrow> principal \<Rightarrow> string \<Rightarrow> save_request \<Rightarrow> save_outcome act" where
  "save_system E p system_id rq =
     and_then (find_system system_id) (\<lambda>r.
     and_then (asks (\<lambda>s. get_workspace s (sr_workspace_id r))) (\<lambda>w.
     and_then (require_permission E w p EDIT SystemSave system_id []) (\<lambda>_.
     and_then (with_locks E (\<lambda>ls. lm_blocks memory_repo (en_now E) ls system_id ''*'' p)) (\<lambda>blocking.
     and_then (refuse_locked E p system_id r blocking) (\<lambda>_.
     and_then (asks (strategy_of (rq_strategy rq))) (\<lambda>strategy.
     and_then (lift (edited r rq)) (\<lambda>r1.
     and_then (with_status E p w system_id (rq_status rq) r1) (\<lambda>updated.
     write_edit E p system_id r updated strategy rq))))))))"

section \<open>Creating, opening, restoring and deleting\<close>

definition starter_spec :: "string \<Rightarrow> pyval" where
  "starter_spec name =
     PDict [(''metadata'', PDict [(''name'', PStr name), (''spec_version'', PStr ''1.1.0''),
              (''version'', PStr ''0.1.0''), (''environment'', PStr ''development'')]),
            (''organization'', PDict [(''id'', PStr ''root''), (''name'', PStr name), (''leader'', PStr []),
              (''members'', PList []), (''teams'', PList [])])]"

definition create_system ::
  "env \<Rightarrow> principal \<Rightarrow> string \<Rightarrow> string \<Rightarrow> string \<Rightarrow> pyval option \<Rightarrow> layout option \<Rightarrow> pyval option \<Rightarrow>
     layout system_record act" where
  "create_system E p workspace_id name description spec l binding =
     and_then (find_workspace workspace_id) (\<lambda>w.
     and_then (require_permission E (Some w) p CREATE SystemCreate [] []) (\<lambda>_.
     and_then (store_system E
         \<lparr>sr_id = en_id E, sr_workspace_id = workspace_id, sr_name = name, sr_description = description,
          sr_status = StatusDraft,
          sr_spec = (case spec of None \<Rightarrow> starter_spec name | Some v \<Rightarrow> if truthy v then v else starter_spec name),
          sr_binding = binding, sr_layout = (case l of None \<Rightarrow> new_layout (en_stamp E) | Some x \<Rightarrow> x), sr_tags = [],
          sr_version = 1, sr_created_by = pr_user_id p, sr_created_at = en_stamp E, sr_updated_by = [],
          sr_updated_at = en_stamp E\<rparr> None (pr_user_id p) ''created'') (\<lambda>saved.
     and_then (record_event E p SystemCreate (\<lambda>e. e\<lparr>ev_workspace_id := workspace_id, ev_system_id := sr_id saved,
         ev_version_after := Some (sr_version saved), ev_detail := PDict [(''name'', PStr (sr_name saved))]\<rparr>)) (\<lambda>_.
     give saved))))"

text \<open>A design file as the loader reads it.\<close>

record loaded_design =
  ld_data :: pyval
  ld_layout :: layout
  ld_organization_name :: string
  ld_metadata_name :: string
  ld_metadata_description :: string

definition import_system ::
  "(string \<Rightarrow> loaded_design option) \<Rightarrow> env \<Rightarrow> principal \<Rightarrow> string \<Rightarrow> string \<Rightarrow> string \<Rightarrow> string \<Rightarrow>
     layout system_record act" where
  "import_system load E p workspace_id txt filename name =
     (if py_strip txt = [] then fail (FieldRefused ''file'')
      else case load txt of
        None \<Rightarrow> fail (FieldRefused ''file'')
      | Some ld \<Rightarrow>
          (let title = hd (filter (\<lambda>t. t \<noteq> []) [py_strip name, ld_organization_name ld, ld_metadata_name ld,
                 last (split_on (CHR 0x2F) filename), ''Imported'']);
               description = (if ld_metadata_description ld \<noteq> [] then ld_metadata_description ld
                 else ''Imported from '' @ (if filename \<noteq> [] then filename else ''a file''))
           in and_then (create_system E p workspace_id title description (Some (ld_data ld)) (Some (ld_layout ld)) None) (\<lambda>r.
              and_then (record_event E p SystemImport (\<lambda>e. e\<lparr>ev_workspace_id := workspace_id, ev_system_id := sr_id r,
                  ev_detail := PDict [(''file'', PStr filename), (''name'', PStr title)]\<rparr>)) (\<lambda>_.
              give r))))"

definition active_locks :: "env \<Rightarrow> string \<Rightarrow> lock list act" where
  "active_locks E system_id = with_locks E (\<lambda>ls. lm_active memory_repo (en_now E) ls system_id)"

definition workspaces :: "designer \<Rightarrow> principal \<Rightarrow> workspace list" where
  "workspaces s p = filter (\<lambda>w. workspace_member w (pr_user_id p) \<noteq> None) (list_workspaces s)"

fun summaries :: "env \<Rightarrow> string list \<Rightarrow> layout system_record list \<Rightarrow> (layout system_record \<times> lock list) list act" where
  "summaries E allowed [] = give []"
| "summaries E allowed (r # rs) =
     (if sr_workspace_id r \<notin> set allowed then summaries E allowed rs
      else and_then (active_locks E (sr_id r)) (\<lambda>ls. and_then (summaries E allowed rs) (\<lambda>out. give ((r, ls) # out))))"

definition list_systems :: "env \<Rightarrow> principal \<Rightarrow> string option \<Rightarrow> (layout system_record \<times> lock list) list act" where
  "list_systems E p workspace_id =
     and_then (asks (\<lambda>s. map w_id (workspaces s p))) (\<lambda>allowed.
     and_then (asks (\<lambda>s. mr_list_systems workspace_id (dg_systems s))) (\<lambda>rs.
     summaries E allowed rs))"

record opened =
  op_record :: "layout system_record"
  op_locks :: "lock list"
  op_role :: "user_role option"
  op_permissions :: "string list"

definition permissions_of :: "designer \<Rightarrow> user_role option \<Rightarrow> string list" where
  "permissions_of s role = designer_permissions_for role (Some (st_lock_break_requires (dg_settings s)))"

definition open_system :: "env \<Rightarrow> principal \<Rightarrow> string \<Rightarrow> opened act" where
  "open_system E p system_id =
     and_then (find_system system_id) (\<lambda>r.
     and_then (asks (\<lambda>s. get_workspace s (sr_workspace_id r))) (\<lambda>w.
     and_then (require_permission E w p VIEW SystemView system_id []) (\<lambda>_.
     and_then (asks (\<lambda>s. role_of w p (st_default_role (dg_settings s)))) (\<lambda>role.
     and_then (active_locks E system_id) (\<lambda>ls.
     and_then (asks (\<lambda>s. permissions_of s role)) (\<lambda>perms.
     give \<lparr>op_record = r, op_locks = ls, op_role = role, op_permissions = perms\<rparr>))))))"

definition checked_system :: "env \<Rightarrow> principal \<Rightarrow> string \<Rightarrow> audit_action \<Rightarrow> string \<Rightarrow> string \<Rightarrow> layout system_record act" where
  "checked_system E p permission a system_id lock_target =
     and_then (find_system system_id) (\<lambda>r.
     and_then (asks (\<lambda>s. get_workspace s (sr_workspace_id r))) (\<lambda>w.
     and_then (require_permission E w p permission a system_id lock_target) (\<lambda>_.
     give r)))"

definition delete_system :: "env \<Rightarrow> principal \<Rightarrow> string \<Rightarrow> bool act" where
  "delete_system E p system_id =
     and_then (checked_system E p DELETE SystemDelete system_id []) (\<lambda>r.
     and_then (remove_system system_id) (\<lambda>deleted.
     and_then (record_event E p SystemDelete (\<lambda>e. e\<lparr>ev_workspace_id := sr_workspace_id r, ev_system_id := system_id,
         ev_version_before := Some (sr_version r), ev_outcome := (if deleted then OutSuccess else OutFailed),
         ev_detail := PDict [(''name'', PStr (sr_name r))]\<rparr>)) (\<lambda>_.
     give deleted)))"

definition revisions :: "env \<Rightarrow> principal \<Rightarrow> string \<Rightarrow> nat \<Rightarrow> layout revision list act" where
  "revisions E p system_id limit =
     and_then (checked_system E p VIEW SystemView system_id []) (\<lambda>r.
     asks (\<lambda>s. mr_revisions_of system_id limit (dg_systems s)))"

definition find_revision :: "string \<Rightarrow> int \<Rightarrow> layout revision act" where
  "find_revision system_id version =
     and_then (asks (\<lambda>s. mr_revision system_id version (dg_systems s))) (\<lambda>found.
     case found of None \<Rightarrow> fail (NoRevision version system_id) | Some rv \<Rightarrow> give rv)"

definition restore :: "env \<Rightarrow> principal \<Rightarrow> string \<Rightarrow> int \<Rightarrow> layout system_record act" where
  "restore E p system_id version =
     and_then (checked_system E p RESTORE SystemRestore system_id []) (\<lambda>r.
     and_then (find_revision system_id version) (\<lambda>rv.
     and_then (store_system E (r\<lparr>sr_spec := rv_spec rv, sr_binding := rv_binding rv, sr_layout := rv_layout rv\<rparr>)
         (Some (sr_version r)) (pr_user_id p) (''restored version '' @ show_int version)) (\<lambda>saved.
     and_then (record_event E p SystemRestore (\<lambda>e. e\<lparr>ev_workspace_id := sr_workspace_id saved, ev_system_id := system_id,
         ev_version_before := Some (sr_version r), ev_version_after := Some (sr_version saved),
         ev_detail := PDict [(''restored'', PInt version)]\<rparr>)) (\<lambda>_.
     give saved))))"

definition spec_at :: "env \<Rightarrow> principal \<Rightarrow> string \<Rightarrow> int option \<Rightarrow> (pyval \<times> pyval option \<times> int) act" where
  "spec_at E p system_id version =
     and_then (checked_system E p VIEW SystemView system_id []) (\<lambda>r.
     if version = None \<or> version = Some (sr_version r) then give (sr_spec r, sr_binding r, sr_version r)
     else and_then (find_revision system_id (the version)) (\<lambda>rv. give (rv_spec rv, rv_binding rv, rv_version rv)))"

definition publish_candidate :: "env \<Rightarrow> principal \<Rightarrow> string \<Rightarrow> (pyval \<times> pyval option \<times> int \<times> string) act" where
  "publish_candidate E p system_id =
     and_then (checked_system E p PUBLISH SystemPublish system_id []) (\<lambda>r.
     give (sr_spec r, sr_binding r, sr_version r, sr_name r))"

definition record_publish ::
  "env \<Rightarrow> principal \<Rightarrow> string \<Rightarrow> audit_outcome \<Rightarrow> int option \<Rightarrow> string \<Rightarrow> (string \<times> pyval) list \<Rightarrow> unit act" where
  "record_publish E p system_id outcome version reason given =
     and_then (asks (\<lambda>s. workspace_id_of s system_id)) (\<lambda>workspace_id.
     record_event E p SystemPublish (\<lambda>e. e\<lparr>ev_outcome := outcome, ev_workspace_id := workspace_id,
         ev_system_id := system_id, ev_version_after := version, ev_reason := reason,
         ev_detail := PDict (filter (\<lambda>(k, v). \<not> py_in v [PNone, PStr []]) given)\<rparr>))"

text \<open>Two versions to compare. \<open>history\<close> is the dictionary of the stored revisions by version.\<close>

definition version_in ::
  "string \<Rightarrow> layout system_record \<Rightarrow> (int \<times> layout revision) list \<Rightarrow> int \<Rightarrow> designer_error + pyval \<times> pyval option \<times> int" where
  "version_in system_id r history version =
     (if version = sr_version r then Inr (sr_spec r, sr_binding r, sr_version r)
      else case map_of history version of
        None \<Rightarrow> Inl (NoRevision version system_id)
      | Some rv \<Rightarrow> Inr (rv_spec rv, rv_binding rv, rv_version rv))"

definition review_pair ::
  "env \<Rightarrow> principal \<Rightarrow> string \<Rightarrow> int option \<Rightarrow> int option \<Rightarrow>
     ((pyval \<times> pyval option \<times> int) \<times> pyval \<times> pyval option \<times> int) act" where
  "review_pair E p system_id left right =
     and_then (checked_system E p VIEW SystemView system_id []) (\<lambda>r.
     and_then (asks (\<lambda>s. mr_revisions_of system_id 5000 (dg_systems s))) (\<lambda>rvs.
     (let history = map (\<lambda>rv. (rv_version rv, rv)) (rev rvs);
          to_version = (case right of None \<Rightarrow> sr_version r | Some v \<Rightarrow> v) in
      and_then (unless (to_version = sr_version r \<or> map_of history to_version \<noteq> None) (NoRevision to_version system_id)) (\<lambda>_.
      (let earlier = filter (\<lambda>v. v < to_version) (map fst history);
           from_version = (case left of
               None \<Rightarrow> if earlier = [] then to_version else Max (set earlier)
             | Some v \<Rightarrow> v)
       in and_then (lift (version_in system_id r history from_version)) (\<lambda>a.
          and_then (lift (version_in system_id r history to_version)) (\<lambda>b. give (a, b))))))))"

section \<open>Locks\<close>

definition parse_scope :: "string \<Rightarrow> designer_error + lock_scope" where
  "parse_scope scope = (if scope = ''system'' then Inr ScopeSystem else if scope = ''component'' then Inr ScopeComponent
     else Inl (BadValue scope))"

definition acquire_lock :: "env \<Rightarrow> principal \<Rightarrow> string \<Rightarrow> string \<Rightarrow> string \<Rightarrow> string \<Rightarrow> lock act" where
  "acquire_lock E p system_id target scope note_text =
     and_then (checked_system E p LOCK LockAcquire system_id target) (\<lambda>r.
     and_then (lift (parse_scope scope)) (\<lambda>sc.
     and_then (asks (\<lambda>s. st_lock_ttl_seconds (dg_settings s))) (\<lambda>ttl.
     and_then (with_locks E (\<lambda>ls. lm_acquire memory_repo ttl (en_now E) (en_id E) ls system_id p sc target note_text None)) (\<lambda>res.
     case res of
       Inl l \<Rightarrow> and_then (record_event E p LockAcquire (\<lambda>e. e\<lparr>ev_outcome := OutConflict,
              ev_workspace_id := sr_workspace_id r, ev_system_id := system_id, ev_lock_target := target,
              ev_lock_holder := l_holder l\<rparr>)) (\<lambda>_. fail (LockedBy l))
     | Inr l \<Rightarrow> and_then (record_event E p LockAcquire (\<lambda>e. e\<lparr>ev_workspace_id := sr_workspace_id r,
              ev_system_id := system_id, ev_lock_target := target, ev_lock_holder := pr_user_id p,
              ev_detail := PDict [(''scope'', PStr scope)]\<rparr>)) (\<lambda>_. give l)))))"

definition release_lock :: "env \<Rightarrow> principal \<Rightarrow> string \<Rightarrow> string \<Rightarrow> bool act" where
  "release_lock E p system_id target =
     and_then (with_locks E (\<lambda>ls. lm_release memory_repo (en_now E) ls system_id p target)) (\<lambda>released.
     and_then (asks (\<lambda>s. workspace_id_of s system_id)) (\<lambda>workspace_id.
     and_then (if released then record_event E p LockRelease (\<lambda>e. e\<lparr>ev_workspace_id := workspace_id,
          ev_system_id := system_id, ev_lock_target := target, ev_lock_holder := pr_user_id p\<rparr>) else give ()) (\<lambda>_.
     give released)))"

definition heartbeat :: "env \<Rightarrow> principal \<Rightarrow> string \<Rightarrow> string \<Rightarrow> lock option act" where
  "heartbeat E p system_id target =
     and_then (asks (\<lambda>s. st_lock_ttl_seconds (dg_settings s))) (\<lambda>ttl.
     with_locks E (\<lambda>ls. lm_heartbeat memory_repo ttl (en_now E) ls system_id p target))"

definition break_lock :: "env \<Rightarrow> principal \<Rightarrow> string \<Rightarrow> string \<Rightarrow> bool act" where
  "break_lock E p system_id target =
     and_then (checked_system E p BREAK_LOCK LockBreak system_id target) (\<lambda>r.
     and_then (with_locks E (\<lambda>ls. lm_holder_of memory_repo (en_now E) ls system_id target)) (\<lambda>held.
     and_then (with_locks E (\<lambda>ls. lm_break_lock memory_repo (en_now E) ls system_id target)) (\<lambda>broken.
     and_then (if broken then record_event E p LockBreak (\<lambda>e. e\<lparr>ev_workspace_id := sr_workspace_id r,
          ev_system_id := system_id, ev_lock_target := target,
          ev_lock_holder := (case held of None \<Rightarrow> [] | Some l \<Rightarrow> l_holder l),
          ev_reason := ''lock taken from its holder''\<rparr>) else give ()) (\<lambda>_.
     give broken))))"

section \<open>Workspaces, members and settings\<close>

definition workspace_name :: "principal \<Rightarrow> string \<Rightarrow> string \<Rightarrow> string act" where
  "workspace_name p name keep =
     (let stripped = py_strip name in
      and_then (unless (stripped \<noteq> [] \<and> length stripped \<le> 120) (FieldRefused ''name'')) (\<lambda>_.
      and_then (asks (\<lambda>s. workspaces s p)) (\<lambda>mine.
      and_then (unless (\<not> (\<exists>w \<in> set mine. py_lower (py_strip (w_name w)) = py_lower stripped \<and> w_id w \<noteq> keep))
          (FieldRefused ''name'')) (\<lambda>_.
      give stripped))))"

definition create_workspace :: "env \<Rightarrow> principal \<Rightarrow> string \<Rightarrow> string \<Rightarrow> workspace act" where
  "create_workspace E p name description =
     and_then (workspace_name p name []) (\<lambda>stripped.
     and_then (save_workspace \<lparr>w_id = en_id E, w_name = stripped, w_description = description,
         w_members = [\<lparr>m_user_id = pr_user_id p, m_display_name = pr_display_name p, m_email = pr_email p,
           m_role = UserOwner, m_added_at = en_stamp E\<rparr>], w_created_at = en_stamp E\<rparr>) (\<lambda>saved.
     and_then (record_event E p WorkspaceCreate (\<lambda>e. e\<lparr>ev_workspace_id := w_id saved,
         ev_detail := PDict [(''name'', PStr (w_name saved))]\<rparr>)) (\<lambda>_.
     give saved)))"

definition update_workspace :: "env \<Rightarrow> principal \<Rightarrow> string \<Rightarrow> string option \<Rightarrow> string option \<Rightarrow> workspace act" where
  "update_workspace E p workspace_id name description =
     and_then (find_workspace workspace_id) (\<lambda>w.
     and_then (require_permission E (Some w) p MANAGE_MEMBERS WorkspaceUpdate [] []) (\<lambda>_.
     and_then (case name of None \<Rightarrow> give w
       | Some n \<Rightarrow> and_then (workspace_name p n workspace_id) (\<lambda>stripped. give (w\<lparr>w_name := stripped\<rparr>))) (\<lambda>w1.
     and_then (save_workspace (case description of None \<Rightarrow> w1 | Some d \<Rightarrow> w1\<lparr>w_description := py_strip d\<rparr>)) (\<lambda>saved.
     and_then (record_event E p WorkspaceUpdate (\<lambda>e. e\<lparr>ev_workspace_id := workspace_id,
         ev_detail := PDict [(''name'', PStr (w_name saved)), (''was'', PStr (w_name w))]\<rparr>)) (\<lambda>_.
     give saved)))))"

definition delete_workspace :: "env \<Rightarrow> principal \<Rightarrow> string \<Rightarrow> bool \<Rightarrow> (bool \<times> nat) act" where
  "delete_workspace E p workspace_id cascade =
     and_then (find_workspace workspace_id) (\<lambda>w.
     and_then (require_permission E (Some w) p DELETE_WORKSPACE WorkspaceDelete [] []) (\<lambda>_.
     and_then (asks (\<lambda>s. mr_list_systems (Some workspace_id) (dg_systems s))) (\<lambda>systems.
     and_then (unless (systems = [] \<or> cascade) (FieldRefused ''workspace'')) (\<lambda>_.
     and_then (each (\<lambda>r. and_then (remove_system (sr_id r)) (\<lambda>_.
         record_event E p SystemDelete (\<lambda>e. e\<lparr>ev_workspace_id := workspace_id, ev_system_id := sr_id r,
           ev_detail := PDict [(''name'', PStr (sr_name r)), (''with_workspace'', PBool True)]\<rparr>))) systems) (\<lambda>_.
     and_then (asks (\<lambda>s. get_workspace s workspace_id \<noteq> None)) (\<lambda>deleted.
     and_then (change (\<lambda>s. s\<lparr>dg_workspaces := AList.delete workspace_id (dg_workspaces s)\<rparr>)) (\<lambda>_.
     and_then (record_event E p WorkspaceDelete (\<lambda>e. e\<lparr>ev_workspace_id := workspace_id,
         ev_detail := PDict [(''name'', PStr (w_name w)), (''systems'', PInt (int (length systems)))]\<rparr>)) (\<lambda>_.
     give (deleted, length systems)))))))))"

definition add_member :: "env \<Rightarrow> principal \<Rightarrow> string \<Rightarrow> member \<Rightarrow> workspace act" where
  "add_member E p workspace_id m =
     and_then (find_workspace workspace_id) (\<lambda>w.
     and_then (require_permission E (Some w) p MANAGE_MEMBERS MemberAdd [] []) (\<lambda>_.
     and_then (save_workspace (w\<lparr>w_members := filter (\<lambda>x. m_user_id x \<noteq> m_user_id m) (w_members w) @ [m]\<rparr>)) (\<lambda>saved.
     and_then (record_event E p MemberAdd (\<lambda>e. e\<lparr>ev_workspace_id := workspace_id,
         ev_detail := PDict [(''member'', PStr (m_user_id m)), (''role'', PStr (user_role_value (m_role m)))]\<rparr>)) (\<lambda>_.
     give saved))))"

definition remove_member :: "env \<Rightarrow> principal \<Rightarrow> string \<Rightarrow> string \<Rightarrow> workspace act" where
  "remove_member E p workspace_id user_id =
     and_then (find_workspace workspace_id) (\<lambda>w.
     and_then (require_permission E (Some w) p MANAGE_MEMBERS MemberRemove [] []) (\<lambda>_.
     (let remaining = filter (\<lambda>x. m_user_id x \<noteq> user_id) (w_members w) in
      and_then (unless (\<exists>m \<in> set remaining. m_role m = UserOwner) LastOwner) (\<lambda>_.
      and_then (save_workspace (w\<lparr>w_members := remaining\<rparr>)) (\<lambda>saved.
      and_then (record_event E p MemberRemove (\<lambda>e. e\<lparr>ev_workspace_id := workspace_id,
          ev_detail := PDict [(''member'', PStr user_id)]\<rparr>)) (\<lambda>_.
      give saved))))))"

definition whoami :: "designer \<Rightarrow> principal \<Rightarrow> (string \<times> string \<times> user_role \<times> string list) list" where
  "whoami s p = List.map_filter (\<lambda>w.
     case role_of (Some w) p UserViewer of
       None \<Rightarrow> None | Some role \<Rightarrow> Some (w_id w, w_name w, role, permissions_of s (Some role))) (list_workspaces s)"

definition workspace_for_settings :: "designer \<Rightarrow> principal \<Rightarrow> workspace option" where
  "workspace_for_settings s p =
     (case List.find (\<lambda>w. case workspace_member w (pr_user_id p) of
          None \<Rightarrow> False | Some m \<Rightarrow> m_role m = UserAdmin \<or> m_role m = UserOwner) (list_workspaces s) of
        Some w \<Rightarrow> Some w
      | None \<Rightarrow> (case list_workspaces s of [] \<Rightarrow> None | w # _ \<Rightarrow> Some w))"

text \<open>\<open>DesignerSettings.model_validate\<close> of the settings with the changes is an argument; \<open>None\<close> is a
  refusal.\<close>

definition update_settings ::
  "(designer_settings \<Rightarrow> (string \<times> pyval) list \<Rightarrow> designer_settings option) \<Rightarrow> env \<Rightarrow> principal \<Rightarrow>
     (string \<times> pyval) list \<Rightarrow> designer_settings act" where
  "update_settings checked E p changes =
     and_then (asks (\<lambda>s. workspace_for_settings s p)) (\<lambda>w.
     and_then (require_permission E w p MANAGE_SETTINGS SettingsUpdate [] []) (\<lambda>_.
     and_then (asks (\<lambda>s. checked (dg_settings s) changes)) (\<lambda>valid.
     case valid of
       None \<Rightarrow> fail (SettingsRefused [])
     | Some st \<Rightarrow>
         (let updated = st\<lparr>st_updated_by := pr_user_id p\<rparr> in
          and_then (change (\<lambda>s. s\<lparr>dg_settings := updated\<rparr>)) (\<lambda>_.
          and_then (record_event E p SettingsUpdate (\<lambda>e. e\<lparr>ev_workspace_id := (case w of None \<Rightarrow> [] | Some v \<Rightarrow> w_id v),
              ev_detail := PDict [(''changed'', PList (map PStr (sort (map fst changes))))]\<rparr>)) (\<lambda>_.
          give updated))))))"

section \<open>The audit log\<close>

definition parse_action :: "string option \<Rightarrow> designer_error + audit_action option" where
  "parse_action a =
     (case a of None \<Rightarrow> Inr None
      | Some x \<Rightarrow> if x = [] then Inr None
          else (case map_of audit_action_values x of None \<Rightarrow> Inl (BadValue x) | Some v \<Rightarrow> Inr (Some v)))"

definition auditable :: "designer \<Rightarrow> principal \<Rightarrow> string set" where
  "auditable s p = w_id ` set (filter (\<lambda>w. dd_allowed
     (designer_decide (Some w) p READ_AUDIT (st_default_role (dg_settings s)) None)) (list_workspaces s))"

definition audit_events ::
  "env \<Rightarrow> principal \<Rightarrow> string option \<Rightarrow> string option \<Rightarrow> string option \<Rightarrow> string option \<Rightarrow> string option \<Rightarrow> nat \<Rightarrow>
     event list act" where
  "audit_events E p system_id actor a since before limit =
     and_then (case system_id of
         Some k \<Rightarrow> and_then (checked_system E p READ_AUDIT AuditLogRead k []) (\<lambda>_. give None)
       | None \<Rightarrow> and_then (asks (\<lambda>s. auditable s p)) (\<lambda>readable.
           and_then (unless (readable \<noteq> {}) NotAuditor) (\<lambda>_. give (Some readable)))) (\<lambda>readable.
     and_then (lift (parse_action a)) (\<lambda>wanted.
     asks (\<lambda>s. dal_query system_id actor wanted None readable since before limit (dg_audit s))))"

end
