(* ===== verification/DesignerFrames.thy ===== *)
theory DesignerFrames
  imports Designer
begin

text \<open>
  What a call on the designer leaves as it was. A relation between the state before and after that is
  reflexive and transitive, and holds over every elementary change a computation is made of, holds
  over the computation. The three locales allow more and more elementary changes: reading calls and
  refusals write only audit events and drop expired locks; calls on workspaces and settings write
  these too; and calls on designs write systems and revisions.
\<close>

named_theorems guar \<open>computations that stay within a relation\<close>

definition guarantees :: "(designer \<Rightarrow> designer \<Rightarrow> bool) \<Rightarrow> 'a act \<Rightarrow> bool" where
  "guarantees G f \<longleftrightarrow> (\<forall>s. G s (fst (f s)))"

lemma guaranteesD: "guarantees G f \<Longrightarrow> f s = (t, res) \<Longrightarrow> G s t"
  unfolding guarantees_def by (metis fst_conv)

lemma add_event_audit: "\<exists>e. add_event E actor label a f s = s\<lparr>dg_audit := dg_audit s @ [e]\<rparr>"
  by (auto simp: add_event_def dal_record_def mem_append_audit_def Let_def)

section \<open>Reading\<close>

locale quiet_frame =
  fixes G :: "designer \<Rightarrow> designer \<Rightarrow> bool"
  assumes same: "G s s"
    and further: "G s t \<Longrightarrow> G t u \<Longrightarrow> G s u"
    and audited: "G s (s\<lparr>dg_audit := dg_audit s @ [e]\<rparr>)"
    and locked: "G s (s\<lparr>dg_locks := ls\<rparr>)"
begin

lemma g_simple [guar]: "guarantees G (give x)" "guarantees G (fail e)" "guarantees G (asks f)" "guarantees G (lift r)"
  "guarantees G (unless b e)"
  using same by (auto simp: guarantees_def act_defs)

lemma g_and_then [guar]:
  assumes "guarantees G m" and "\<And>x. guarantees G (f x)"
  shows "guarantees G (and_then m f)"
  unfolding guarantees_def
proof
  fix s
  have "G s (fst (m s))" using assms(1) by (simp add: guarantees_def)
  moreover have "G t (fst (f x t))" for x t using assms(2) by (simp add: guarantees_def)
  ultimately show "G s (fst (and_then m f s))"
    using further by (auto simp: and_then_def split: prod.splits sum.splits)
qed

lemma g_each [guar]: "(\<And>x. guarantees G (f x)) \<Longrightarrow> guarantees G (each f xs)"
  by (induction xs) (auto intro: guar)

lemma g_event: "G s (add_event E actor label a f s)"
  using add_event_audit [of E actor label a f s] audited by auto

lemma g_record_event [guar]: "guarantees G (record_event E p a f)"
  by (simp add: guarantees_def record_event_def change_def g_event)

lemma g_expired: "G s (fold (audit_expired_lock E) ls s)"
proof (induction ls arbitrary: s)
  case (Cons l ls)
  have "G s (audit_expired_lock E l s)" by (simp add: audit_expired_lock_def g_event)
  with Cons.IH [of "audit_expired_lock E l s"] show ?case using further by simp
qed (simp add: same)

lemma g_with_locks [guar]: "guarantees G (with_locks E f)"
  using g_expired locked further by (auto simp: guarantees_def with_locks_def split: prod.splits) blast

lemma g_require [guar]: "guarantees G (require_permission E w p perm a k target)"
  unfolding require_permission_def by (auto intro!: guar)

lemma g_find [guar]: "guarantees G (find_system k)" "guarantees G (find_workspace j)" "guarantees G (find_revision k v)"
  unfolding find_system_def find_workspace_def find_revision_def by (auto intro!: guar split: option.split)

lemma g_checked_system [guar]: "guarantees G (checked_system E p perm a k target)"
  unfolding checked_system_def by (auto intro!: guar)

lemma g_refuse_locked [guar]: "guarantees G (refuse_locked E p k r blocking)"
  unfolding refuse_locked_def by (auto intro!: guar split: option.split)

lemma g_with_status [guar]: "guarantees G (with_status E p w k status r)"
  unfolding with_status_def by (auto intro!: guar split: option.split)

lemma g_active_locks [guar]: "guarantees G (active_locks E k)"
  unfolding active_locks_def by (rule guar)

lemma g_summaries [guar]: "guarantees G (summaries E allowed rs)"
  by (induction rs) (auto intro!: guar)

lemma g_reading [guar]:
  "guarantees G (list_systems E p w)" "guarantees G (open_system E p k)" "guarantees G (revisions E p k n)"
  "guarantees G (spec_at E p k v)" "guarantees G (publish_candidate E p k)"
  "guarantees G (record_publish E p k outcome v reason given)" "guarantees G (review_pair E p k left right)"
  "guarantees G (audit_events E p sys actor a since before n)"
  unfolding list_systems_def open_system_def revisions_def spec_at_def publish_candidate_def record_publish_def
    review_pair_def audit_events_def
  by (auto intro!: guar simp: Let_def split: option.split)

lemma g_locking [guar]:
  "guarantees G (acquire_lock E p k target scope msg)" "guarantees G (release_lock E p k target)"
  "guarantees G (heartbeat E p k target)" "guarantees G (break_lock E p k target)"
  unfolding acquire_lock_def release_lock_def heartbeat_def break_lock_def
  by (auto intro!: guar split: sum.split)

lemma g_workspace_name [guar]: "guarantees G (workspace_name p name keep)"
  unfolding workspace_name_def Let_def by (auto intro!: guar)

end

section \<open>Workspaces and settings\<close>

locale member_frame = quiet_frame +
  assumes joined: "G s (s\<lparr>dg_workspaces := ws\<rparr>)"
    and configured: "G s (s\<lparr>dg_settings := st\<rparr>)"
begin

lemma g_save_workspace [guar]: "guarantees G (save_workspace w)"
  by (simp add: guarantees_def save_workspace_def joined)

lemma g_members [guar]:
  "guarantees G (create_workspace E p name description)" "guarantees G (update_workspace E p k n d)"
  "guarantees G (add_member E p k m)" "guarantees G (remove_member E p k user)"
  unfolding create_workspace_def update_workspace_def add_member_def remove_member_def
  by (auto intro!: guar simp: Let_def split: option.split)

lemma g_settings [guar]: "guarantees G (update_settings checked E p changes)"
proof -
  have "guarantees G (change (\<lambda>s. s\<lparr>dg_settings := st\<rparr>))" for st
    by (simp add: guarantees_def change_def configured)
  then show ?thesis unfolding update_settings_def by (auto intro!: guar simp: Let_def split: option.split)
qed

end

section \<open>Designs\<close>

locale design_frame = member_frame +
  assumes stored: "mr_save_system now stamp fresh r expected author msg (dg_systems s) = Inr (m, r') \<Longrightarrow>
      G s (s\<lparr>dg_systems := m\<rparr>)"
    and removed: "G s (s\<lparr>dg_systems := fst (mr_delete_system k (dg_systems s))\<rparr>)"
begin

lemma g_try_store [guar]: "guarantees G (try_store E r expected author msg)"
  using same stored by (auto simp: guarantees_def try_store_def split: sum.split)

lemma g_store_system [guar]: "guarantees G (store_system E r expected author msg)"
  unfolding store_system_def by (auto intro!: guar split: sum.split)

lemma g_remove_system [guar]: "guarantees G (remove_system k)"
  using removed by (simp add: guarantees_def remove_system_def case_prod_beta)

lemma g_merge_save [guar]: "guarantees G (merge_save E p c updated resolutions msg)"
  unfolding merge_save_def by (auto intro!: guar)

lemma g_write_edit [guar]: "guarantees G (write_edit E p k r updated strategy rq)"
  unfolding write_edit_def by (auto intro!: guar split: sum.split)

lemma g_save_system [guar]: "guarantees G (save_system E p k rq)"
  unfolding save_system_def by (intro guar)

lemma g_create_system [guar]: "guarantees G (create_system E p w name description spec l binding)"
  unfolding create_system_def by (intro guar)

lemma g_import_system [guar]: "guarantees G (import_system load E p w txt filename name)"
  unfolding import_system_def by (auto intro!: guar simp: Let_def split: option.split)

lemma g_restore [guar]: "guarantees G (restore E p k v)"
  unfolding restore_def by (intro guar)

lemma g_delete_system [guar]: "guarantees G (delete_system E p k)"
  unfolding delete_system_def by (intro guar)

lemma g_delete_workspace [guar]: "guarantees G (delete_workspace E p w cascade)"
proof -
  have "guarantees G (change (\<lambda>s. s\<lparr>dg_workspaces := AList.delete w (dg_workspaces s)\<rparr>))"
    by (simp add: guarantees_def change_def joined)
  then show ?thesis unfolding delete_workspace_def by (intro guar)
qed

end

section \<open>The calls of the service\<close>

datatype designer_call =
    Save string save_request
  | Create string string string "pyval option" "layout option" "pyval option"
  | Import string string string string
  | Delete string
  | Restore string int
  | Open string
  | Systems "string option"
  | Revisions string nat
  | SpecAt string "int option"
  | PublishCandidate string
  | RecordPublish string audit_outcome "int option" string "(string \<times> pyval) list"
  | ReviewPair string "int option" "int option"
  | AcquireLock string string string string
  | ReleaseLock string string
  | Heartbeat string string
  | BreakLock string string
  | CreateWorkspace string string
  | UpdateWorkspace string "string option" "string option"
  | DeleteWorkspace string bool
  | AddMember string member
  | RemoveMember string string
  | UpdateSettings "(string \<times> pyval) list"
  | AuditEvents "string option" "string option" "string option" "string option" "string option" nat

definition ignore :: "'a act \<Rightarrow> unit act" where
  "ignore f = and_then f (\<lambda>_. give ())"

text \<open>The parts of the service that are not under the model: how a design file is read and how
  settings are checked.\<close>

record outside =
  os_load :: "string \<Rightarrow> loaded_design option"
  os_settings :: "designer_settings \<Rightarrow> (string \<times> pyval) list \<Rightarrow> designer_settings option"

fun perform :: "outside \<Rightarrow> env \<Rightarrow> principal \<Rightarrow> designer_call \<Rightarrow> unit act" where
  "perform X E p (Save k rq) = ignore (save_system E p k rq)"
| "perform X E p (Create w name description spec l binding) = ignore (create_system E p w name description spec l binding)"
| "perform X E p (Import w txt filename name) = ignore (import_system (os_load X) E p w txt filename name)"
| "perform X E p (Delete k) = ignore (delete_system E p k)"
| "perform X E p (Restore k v) = ignore (restore E p k v)"
| "perform X E p (Open k) = ignore (open_system E p k)"
| "perform X E p (Systems w) = ignore (list_systems E p w)"
| "perform X E p (Revisions k n) = ignore (revisions E p k n)"
| "perform X E p (SpecAt k v) = ignore (spec_at E p k v)"
| "perform X E p (PublishCandidate k) = ignore (publish_candidate E p k)"
| "perform X E p (RecordPublish k outcome v reason given) = record_publish E p k outcome v reason given"
| "perform X E p (ReviewPair k left right) = ignore (review_pair E p k left right)"
| "perform X E p (AcquireLock k target scope msg) = ignore (acquire_lock E p k target scope msg)"
| "perform X E p (ReleaseLock k target) = ignore (release_lock E p k target)"
| "perform X E p (Heartbeat k target) = ignore (heartbeat E p k target)"
| "perform X E p (BreakLock k target) = ignore (break_lock E p k target)"
| "perform X E p (CreateWorkspace name description) = ignore (create_workspace E p name description)"
| "perform X E p (UpdateWorkspace w name description) = ignore (update_workspace E p w name description)"
| "perform X E p (DeleteWorkspace w cascade) = ignore (delete_workspace E p w cascade)"
| "perform X E p (AddMember w m) = ignore (add_member E p w m)"
| "perform X E p (RemoveMember w user) = ignore (remove_member E p w user)"
| "perform X E p (UpdateSettings changes) = ignore (update_settings (os_settings X) E p changes)"
| "perform X E p (AuditEvents sys actor a since before n) = ignore (audit_events E p sys actor a since before n)"

context quiet_frame begin

lemma g_ignore [guar]: "guarantees G f \<Longrightarrow> guarantees G (ignore f)"
  unfolding ignore_def by (auto intro: guar)

end

context design_frame begin

lemma g_perform: "guarantees G (perform X E p c)"
  by (cases c) (simp_all add: guar)

end

end
