(* ===== verification/DesignerRuns.thy ===== *)
theory DesignerRuns
  imports DesignerFrames
begin

text \<open>
  What the designer service guarantees over its calls: an accepted save was allowed, not locked out and
  based on the stored version; a merged save keeps both sides; nothing changes a design without an
  audit event that says so; a refusal leaves nothing but its audit event.
\<close>

section \<open>Reading computations\<close>

lemma and_then_eq:
  "and_then m f s = (t, res) \<longleftrightarrow>
     (\<exists>e. m s = (t, Inl e) \<and> res = Inl e) \<or> (\<exists>s1 x. m s = (s1, Inr x) \<and> f x s1 = (t, res))"
  by (auto simp: and_then_def split: prod.splits sum.splits)

lemma and_then_Inr: "and_then m f s = (t, Inr y) \<longleftrightarrow> (\<exists>s1 x. m s = (s1, Inr x) \<and> f x s1 = (t, Inr y))"
  by (auto simp: and_then_eq)

lemmas act_run = give_def fail_def asks_def change_def lift_def unless_def

interpretation reading: quiet_frame "\<lambda>s t. dg_systems t = dg_systems s \<and> dg_workspaces t = dg_workspaces s \<and>
    dg_settings t = dg_settings s"
  by unfold_locales simp_all

interpretation members: member_frame "\<lambda>s t. dg_systems t = dg_systems s"
  by unfold_locales simp_all

interpretation log: design_frame "\<lambda>s t. prefix (dg_audit s) (dg_audit t)"
  by unfold_locales (auto intro: prefix_order.trans)

interpretation stored: design_frame "\<lambda>s t. memory_systems_ok (dg_systems s) \<longrightarrow> memory_systems_ok (dg_systems t)"
proof (unfold_locales, goal_cases)
  case (7 now stamp fresh r expected author msg s m r')
  then show ?case using memory.save_ok [where r = "dg_systems s"] by (auto simp: memory_systems_def)
next
  case (8 s k)
  then show ?case using memory.delete_ok [of "dg_systems s" k] by (simp add: memory_systems_def)
qed simp_all

section \<open>The elementary computations\<close>

lemma require_Inr:
  "require_permission E w p perm a k target s = (t, Inr u) \<longleftrightarrow> t = s \<and> dd_allowed (decision_for s w p perm)"
  by (auto simp: require_permission_def and_then_eq act_run)

lemma find_system_Inr: "find_system k s = (t, Inr r) \<longleftrightarrow> t = s \<and> mr_get_system (dg_systems s) k = Some r"
  by (auto simp: find_system_def and_then_eq act_run split: option.splits)

lemma with_locks_Inr: "with_locks E f s = (t, Inr x) \<Longrightarrow>
    x = snd (snd (f (dg_locks s))) \<and> dg_systems t = dg_systems s \<and> dg_workspaces t = dg_workspaces s \<and>
    dg_settings t = dg_settings s"
  using guaranteesD [OF reading.g_with_locks, of E f s]
  by (auto simp: with_locks_def split: prod.splits)

lemma record_event_run: "record_event E p a f s = (t, res) \<longleftrightarrow>
    t = add_event E (pr_user_id p) (principal_label p) a f s \<and> res = Inr ()"
  by (auto simp: record_event_def act_run)

lemma add_event_keeps [simp]:
  "dg_systems (add_event E actor label a f s) = dg_systems s"
  "dg_workspaces (add_event E actor label a f s) = dg_workspaces s"
  "dg_locks (add_event E actor label a f s) = dg_locks s"
  "dg_settings (add_event E actor label a f s) = dg_settings s"
  by (simp_all add: add_event_def)

lemma edited_keeps: "edited r rq = Inr r1 \<Longrightarrow> sr_id r1 = sr_id r \<and> sr_workspace_id r1 = sr_workspace_id r \<and>
    sr_version r1 = sr_version r \<and> sr_status r1 = sr_status r \<and> sr_binding r1 = sr_binding r \<and>
    sr_spec r1 = (case rq_spec rq of None \<Rightarrow> sr_spec r | Some v \<Rightarrow> v) \<and>
    sr_layout r1 = (case rq_layout rq of None \<Rightarrow> sr_layout r | Some l \<Rightarrow> l) \<and>
    sr_name r1 = (case rq_name rq of None \<Rightarrow> sr_name r | Some n \<Rightarrow> n) \<and>
    sr_description r1 = (case rq_description rq of None \<Rightarrow> sr_description r | Some d \<Rightarrow> d)"
  by (auto simp: edited_def Let_def ebind_eq_Inr split: option.splits)

lemma with_status_Inr: "with_status E p w k status r s = (t, Inr x) \<longleftrightarrow> t = s \<and>
    x = (case status of None \<Rightarrow> r | Some st \<Rightarrow> r\<lparr>sr_status := st\<rparr>) \<and>
    (status = Some StatusPublished \<longrightarrow> dd_allowed (decision_for s w p PUBLISH))"
  by (auto simp: with_status_def and_then_eq require_Inr act_run split: option.splits if_splits)

lemma refuse_locked_Inr: "refuse_locked E p k r blocking s = (t, Inr u) \<longleftrightarrow>
    t = s \<and> (blocking = None \<or> st_concurrency (dg_settings s) = Optimistic)"
  by (auto simp: refuse_locked_def and_then_eq act_run split: option.splits)

lemma try_store_Inl: "try_store E r expected author msg s = (t, Inr (Inl c)) \<Longrightarrow> t = s \<and>
    prepare (en_stamp E) r (mr_get_system (dg_systems s) (sr_id r)) expected author = Inl c"
  using memory.save_refused [of "en_now E" "en_stamp E" "en_revision E" r expected author msg "dg_systems s"]
  by (auto simp: try_store_def memory_systems_def split: sum.splits)

lemma try_store_Inr: "try_store E r expected author msg s = (t, Inr (Inr r')) \<Longrightarrow>
    (\<exists>m. t = s\<lparr>dg_systems := m\<rparr> \<and> mr_save_system (en_now E) (en_stamp E) (en_revision E) r expected author msg
       (dg_systems s) = Inr (m, r'))"
  by (auto simp: try_store_def split: sum.splits)

lemma try_store_error: "try_store E r expected author msg s \<noteq> (t, Inl e)"
  by (auto simp: try_store_def split: sum.splits)

lemma store_system_Inr: "store_system E r expected author msg s = (t, Inr r') \<Longrightarrow>
    (\<exists>m. t = s\<lparr>dg_systems := m\<rparr> \<and> mr_save_system (en_now E) (en_stamp E) (en_revision E) r expected author msg
       (dg_systems s) = Inr (m, r'))"
proof -
  assume "store_system E r expected author msg s = (t, Inr r')"
  then obtain s1 x where "try_store E r expected author msg s = (s1, Inr x)"
      and "(case x of Inl c \<Rightarrow> fail (VersionClash c) | Inr r' \<Rightarrow> give r') s1 = (t, Inr r')"
    unfolding store_system_def and_then_Inr by blast
  then show ?thesis by (cases x) (auto simp: act_run dest: try_store_Inr)
qed

lemma prepared: "prepare stamp u (Some c) (Some v) author = Inr x \<Longrightarrow> v = sr_version c \<and>
    sr_version x = sr_version c + 1 \<and> sr_updated_by x = author \<and> sr_id x = sr_id u \<and> sr_spec x = sr_spec u \<and>
    sr_status x = sr_status u \<and> sr_workspace_id x = sr_workspace_id u \<and> sr_layout x = sr_layout u \<and>
    sr_binding x = sr_binding u"
  by (auto simp: prepare_def Let_def split: if_splits)

lemma saved_get: "mr_save_system now stamp fresh r expected author msg m = Inr (m', r') \<Longrightarrow>
    mr_get_system m' k = (if k = sr_id r then Some r' else mr_get_system m k)"
  using memory.save_get [of now stamp fresh r expected author msg m m' r' k] by (simp add: memory_systems_def)

lemma saved_record: "mr_save_system now stamp fresh r expected author msg m = Inr (m', r') \<Longrightarrow>
    prepare stamp r (mr_get_system m (sr_id r)) expected author = Inr r'"
  using memory.save_record [of now stamp fresh r expected author msg m m' r'] by (simp add: memory_systems_def)

lemma stored_id: "memory_systems_ok m \<Longrightarrow> mr_get_system m k = Some r \<Longrightarrow> sr_id r = k"
  using memory.ok_history [of m k] by (simp add: memory_systems_def history_ok_def)

section \<open>Saving\<close>

text \<open>How far every save gets that does not end in an error: permitted, not locked out, with the record
  to write.\<close>

lemma save_reaches_write:
  assumes "save_system E p k rq s = (t, Inr out)"
  obtains c s1 r1 where "mr_get_system (dg_systems s) k = Some c"
    and "dd_allowed (decision_for s (get_workspace s (sr_workspace_id c)) p EDIT)"
    and "st_concurrency (dg_settings s) \<noteq> Optimistic \<longrightarrow>
      snd (snd (lm_blocks memory_repo (en_now E) (dg_locks s) k ''*'' p)) = None"
    and "dg_systems s1 = dg_systems s" and "edited c rq = Inr r1"
    and "rq_status rq = Some StatusPublished \<longrightarrow>
      dd_allowed (decision_for s (get_workspace s (sr_workspace_id c)) p PUBLISH)"
    and "write_edit E p k c (case rq_status rq of None \<Rightarrow> r1 | Some st \<Rightarrow> r1\<lparr>sr_status := st\<rparr>)
      (strategy_of (rq_strategy rq) s) rq s1 = (t, Inr out)"
proof -
  obtain c where c: "mr_get_system (dg_systems s) k = Some c"
    and e: "dd_allowed (decision_for s (get_workspace s (sr_workspace_id c)) p EDIT)"
    and rest: "and_then (with_locks E (\<lambda>ls. lm_blocks memory_repo (en_now E) ls k ''*'' p)) (\<lambda>blocking.
     and_then (refuse_locked E p k c blocking) (\<lambda>_.
     and_then (asks (strategy_of (rq_strategy rq))) (\<lambda>strategy.
     and_then (lift (edited c rq)) (\<lambda>r1.
     and_then (with_status E p (get_workspace s (sr_workspace_id c)) k (rq_status rq) r1) (\<lambda>updated.
     write_edit E p k c updated strategy rq))))) s = (t, Inr out)"
    using assms by (auto simp: save_system_def and_then_Inr find_system_Inr require_Inr asks_def)
  obtain s1 blocking where l: "with_locks E (\<lambda>ls. lm_blocks memory_repo (en_now E) ls k ''*'' p) s = (s1, Inr blocking)"
    and rest1: "and_then (refuse_locked E p k c blocking) (\<lambda>_.
     and_then (asks (strategy_of (rq_strategy rq))) (\<lambda>strategy.
     and_then (lift (edited c rq)) (\<lambda>r1.
     and_then (with_status E p (get_workspace s (sr_workspace_id c)) k (rq_status rq) r1) (\<lambda>updated.
     write_edit E p k c updated strategy rq)))) s1 = (t, Inr out)"
    using rest unfolding and_then_Inr by blast
  note q = with_locks_Inr [OF l]
  have dec: "decision_for s1 w q perm = decision_for s w q perm" for w q perm
    using q by (simp add: decision_for_def)
  have strat: "strategy_of x s1 = strategy_of x s" for x using q by (simp add: strategy_of_def split: option.split)
  from rest1 q show ?thesis
    using that [OF c e, of s1]
    by (auto simp: and_then_Inr refuse_locked_Inr asks_def lift_def with_status_Inr dec strat)
qed

lemma merge_save_Inr:
  assumes "merge_save E p c u rs msg s = (t, Inr out)"
  obtains m cs where "merged_documents (mr_revision (sr_id u) (vc_expected c) (dg_systems s)) c u rs = Inr (m, cs)"
    and "cs \<noteq> []" and "so_status out = Conflicted" and "so_conflicts out = cs" and "dg_systems t = dg_systems s"
  | m m' saved where "merged_documents (mr_revision (sr_id u) (vc_expected c) (dg_systems s)) c u rs = Inr (m, [])"
    and "mr_save_system (en_now E) (en_stamp E) (en_revision E) (merged_record (en_stamp E) m (vc_current c) u)
      (Some (vc_actual c)) (pr_user_id p) (if msg \<noteq> [] then msg else ''merged with v'' @ show_int (vc_actual c))
      (dg_systems s) = Inr (m', saved)"
    and "dg_systems t = m'" and "so_status out = Merged" and "so_record out = saved"
proof -
  obtain m cs where d: "merged_documents (mr_revision (sr_id u) (vc_expected c) (dg_systems s)) c u rs = Inr (m, cs)"
    using assms by (auto simp: merge_save_def and_then_Inr asks_def lift_def)
  show ?thesis
  proof (cases "cs = []")
    case False
    with assms d that(1) [of m cs] show ?thesis
      by (auto simp: merge_save_def and_then_Inr asks_def lift_def record_event_run give_def)
  next
    case True
    with assms d obtain saved s2 where
      "store_system E (merged_record (en_stamp E) m (vc_current c) u) (Some (vc_actual c)) (pr_user_id p)
         (if msg \<noteq> [] then msg else ''merged with v'' @ show_int (vc_actual c)) s = (s2, Inr saved)"
      "dg_systems t = dg_systems s2" "so_status out = Merged" "so_record out = saved"
      by (auto simp: merge_save_def and_then_Inr asks_def lift_def record_event_run give_def split: if_splits)
    with True d that(2) [of m _ saved] show ?thesis
      by (auto dest: store_system_Inr)
  qed
qed

lemma write_edit_Inr:
  assumes "write_edit E p k c u strategy rq s = (t, Inr out)"
  obtains m where "so_status out = Saved"
    and "mr_save_system (en_now E) (en_stamp E) (en_revision E) u
      (Some (case rq_base_version rq of None \<Rightarrow> sr_version c | Some v \<Rightarrow> v)) (pr_user_id p) (rq_message rq)
      (dg_systems s) = Inr (m, so_record out)" and "dg_systems t = m"
  | cl where "prepare (en_stamp E) u (mr_get_system (dg_systems s) (sr_id u))
        (Some (case rq_base_version rq of None \<Rightarrow> sr_version c | Some v \<Rightarrow> v)) (pr_user_id p) = Inl cl"
    and "so_status out = Stale" and "so_record out = vc_current cl" and "dg_systems t = dg_systems s"
  | cl where "prepare (en_stamp E) u (mr_get_system (dg_systems s) (sr_id u))
        (Some (case rq_base_version rq of None \<Rightarrow> sr_version c | Some v \<Rightarrow> v)) (pr_user_id p) = Inl cl"
    and "rq_spec rq \<noteq> None" and "merge_save E p cl u (rq_resolutions rq) (rq_message rq) s = (t, Inr out)"
proof -
  let ?v = "Some (case rq_base_version rq of None \<Rightarrow> sr_version c | Some v \<Rightarrow> v)"
  obtain s1 res where st: "try_store E u ?v (pr_user_id p) (rq_message rq) s = (s1, Inr res)"
    using try_store_error by (metis prod.exhaust sum.exhaust)
  show ?thesis
  proof (cases res)
    case (Inr saved)
    with try_store_Inr [of E u ?v "pr_user_id p" "rq_message rq" s s1 saved] st assms that(1) show ?thesis
      by (auto simp: write_edit_def and_then_Inr record_event_run give_def)
  next
    case (Inl cl)
    with try_store_Inl [of E u ?v "pr_user_id p" "rq_message rq" s s1 cl] st assms that(2,3) [of cl] show ?thesis
      by (auto simp: write_edit_def and_then_Inr record_event_run give_def split: if_splits)
  qed
qed

lemma merge_save_status: "merge_save E p c u rs msg s = (t, Inr out) \<Longrightarrow> so_status out \<in> {Conflicted, Merged}"
  by (erule merge_save_Inr) simp_all


definition request :: save_request where
  "request = \<lparr>rq_spec = None, rq_layout = None, rq_name = None, rq_description = None, rq_status = None,
     rq_base_version = None, rq_strategy = None, rq_resolutions = [], rq_message = []\<rparr>"

definition at_time :: "instant \<Rightarrow> string \<Rightarrow> env" where
  "at_time now k = \<lparr>en_now = now, en_stamp = show_int now, en_id = k, en_revision = ''rev'', en_event = show_nat\<rparr>"

text \<open>Ana has made a workspace and a design in it.\<close>

definition empty_designer :: designer where
  "empty_designer = \<lparr>dg_systems = \<lparr>mr_systems = [], mr_revisions = []\<rparr>, dg_workspaces = [], dg_locks = [], dg_audit = [],
     dg_settings = \<lparr>st_concurrency = Hybrid, st_lock_ttl_seconds = 900, st_lock_break_requires = UserAdmin,
       st_default_merge_strategy = ''merge'', st_default_role = UserViewer, st_updated_by = []\<rparr>\<rparr>"

definition two_agents :: "string \<Rightarrow> string \<Rightarrow> pyval" where
  "two_agents x y = PDict [(''agents'', PList [PDict [(''id'', PStr ''a''), (''title'', PStr x)],
     PDict [(''id'', PStr ''b''), (''title'', PStr y)]])]"

definition with_design :: designer where
  "with_design = fst (create_system (at_time 1 ''s'') ana ''w'' ''Org'' [] (Some (two_agents ''x'' ''y'')) None None
     (fst (create_workspace (at_time 0 ''w'') ana ''Team'' [] empty_designer)))"

lemma with_design_ok: "memory_systems_ok (dg_systems with_design)"
proof -
  have "memory_systems_ok (dg_systems empty_designer)"
    by (simp add: memory_systems_ok_def empty_designer_def memory_hist_def history_ok_def)
  then show ?thesis
    unfolding with_design_def using stored.g_create_system stored.g_members(1) by (simp add: guarantees_def)
qed


section \<open>Merging\<close>


definition ours_saved :: designer where
  "ours_saved = fst (save_system (at_time 2 []) ana ''s''
     (request\<lparr>rq_spec := Some (two_agents ''ours'' ''y''), rq_base_version := Some 1\<rparr>) with_design)"

definition theirs :: save_request where
  "theirs = request\<lparr>rq_spec := Some (two_agents ''x'' ''theirs''), rq_base_version := Some 1\<rparr>"

definition title_of :: "string \<Rightarrow> step list" where
  "title_of k = [Key ''agents'', Entry (''id='' @ k), Key ''title'']"


end
