(* ===== verification/DesignerTraces.thy ===== *)
theory DesignerTraces
  imports DesignerRuns
begin

text \<open>
  The designer's audit log as evidence: every change to a stored design, whatever call made it, has an
  event of its author that names the design, and a refusal leaves an event and nothing else.
\<close>

section \<open>Every change is accounted for\<close>

definition named_by :: "principal \<Rightarrow> designer \<Rightarrow> designer \<Rightarrow> string \<Rightarrow> bool" where
  "named_by p s t k \<longleftrightarrow> (\<exists>e \<in> set (drop (length (dg_audit s)) (dg_audit t)).
     ev_system_id e = k \<and> ev_outcome e = OutSuccess \<and> ev_actor e = pr_user_id p)"

text \<open>\<open>accounted p s t\<close>: from a consistent state, whatever design differs afterwards is named by a
  successful event of \<open>p\<close> among those that are new.\<close>

definition accounted :: "principal \<Rightarrow> designer \<Rightarrow> designer \<Rightarrow> bool" where
  "accounted p s t \<longleftrightarrow> (memory_systems_ok (dg_systems s) \<longrightarrow>
     memory_systems_ok (dg_systems t) \<and> prefix (dg_audit s) (dg_audit t) \<and>
     (\<forall>k. mr_get_system (dg_systems t) k \<noteq> mr_get_system (dg_systems s) k \<longrightarrow> named_by p s t k))"

lemma named_by_trans:
  assumes "prefix (dg_audit s) (dg_audit t)" and "prefix (dg_audit t) (dg_audit u)"
  shows "named_by p s u k \<longleftrightarrow> named_by p s t k \<or> named_by p t u k"
  using assms by (auto simp: named_by_def prefix_def)

lemma accounted_trans: "accounted p s t \<Longrightarrow> accounted p t u \<Longrightarrow> accounted p s u"
  unfolding accounted_def using named_by_trans by (metis prefix_order.trans)

interpretation accounts: member_frame "accounted p" for p
proof (unfold_locales, goal_cases)
  case (2 s t u)
  then show ?case by (rule accounted_trans)
qed (simp_all add: accounted_def)

text \<open>A write and the event that follows it.\<close>

lemma accounted_event:
  assumes "\<And>e. ev_system_id (f e) = k \<and> (ev_outcome e = OutSuccess \<longrightarrow> ev_outcome (f e) = OutSuccess)"
    and "memory_systems_ok (dg_systems s) \<longrightarrow> memory_systems_ok m"
    and "\<And>j. j \<noteq> k \<Longrightarrow> mr_get_system m j = mr_get_system (dg_systems s) j"
  shows "accounted p s (add_event E (pr_user_id p) label a f (s\<lparr>dg_systems := m\<rparr>))" (is "accounted p s ?t")
proof -
  have "named_by p s ?t k"
    using assms(1) by (auto simp: named_by_def add_event_def dal_record_def mem_append_audit_def blank_event_def Let_def)
  moreover have "j = k" if "mr_get_system m j \<noteq> mr_get_system (dg_systems s) j" for j using that assms(3) by blast
  ultimately show ?thesis
    using assms(2) add_event_audit [of E "pr_user_id p" label a f "s\<lparr>dg_systems := m\<rparr>"] by (auto simp: accounted_def)
qed

lemma accounted_record:
  assumes "\<And>e. ev_system_id (f e) = k \<and> (ev_outcome e = OutSuccess \<longrightarrow> ev_outcome (f e) = OutSuccess)"
    and "memory_systems_ok (dg_systems s) \<longrightarrow> memory_systems_ok m"
    and "\<And>j. j \<noteq> k \<Longrightarrow> mr_get_system m j = mr_get_system (dg_systems s) j"
    and "guarantees (accounted p) g"
  shows "accounted p s (fst (and_then (record_event E p a f) (\<lambda>_. g) (s\<lparr>dg_systems := m\<rparr>)))"
proof -
  let ?t = "add_event E (pr_user_id p) (principal_label p) a f (s\<lparr>dg_systems := m\<rparr>)"
  have "accounted p s ?t" by (rule accounted_event) (use assms in auto)
  moreover have "accounted p ?t (fst (g ?t))" using assms(4) by (simp add: guarantees_def)
  ultimately show ?thesis
    using accounted_trans by (auto simp: and_then_def record_event_def change_def)
qed

lemma store_ok:
  assumes "mr_save_system now stamp fresh r expected author msg m = Inr (m', r')"
  shows "memory_systems_ok m \<longrightarrow> memory_systems_ok m'"
    and "j \<noteq> sr_id r \<Longrightarrow> mr_get_system m' j = mr_get_system m j" and "sr_id r' = sr_id r"
  using memory.save_ok [OF _ TrueI, of m now stamp fresh r expected author msg m' r'] saved_get [OF assms]
    memory.save_version [of now stamp fresh r expected author msg m m' r'] assms
  by (auto simp: memory_systems_def)

lemma delete_ok:
  "memory_systems_ok m \<longrightarrow> memory_systems_ok (fst (mr_delete_system k m))"
  "j \<noteq> k \<Longrightarrow> mr_get_system (fst (mr_delete_system k m)) j = mr_get_system m j"
  "\<not> snd (mr_delete_system k m) \<Longrightarrow> mr_get_system (fst (mr_delete_system k m)) j = mr_get_system m j"
  using memory.delete_ok [of m k] memory.delete_get [of k m j] memory.delete_found [of k m]
  by (auto simp: memory_systems_def)

lemma acc_store [guar]:
  assumes "\<And>x e. sr_id x = sr_id r \<Longrightarrow> ev_system_id (f x e) = sr_id r \<and> (ev_outcome e = OutSuccess \<longrightarrow> ev_outcome (f x e) = OutSuccess)"
    and "\<And>x. guarantees (accounted p) (g x)"
  shows "guarantees (accounted p) (and_then (store_system E r expected author msg) (\<lambda>x.
    and_then (record_event E p (a x) (f x)) (\<lambda>_. g x)))"
  unfolding guarantees_def
proof
  fix s
  show "accounted p s (fst (and_then (store_system E r expected author msg) (\<lambda>x.
    and_then (record_event E p (a x) (f x)) (\<lambda>_. g x)) s))"
  proof (cases "mr_save_system (en_now E) (en_stamp E) (en_revision E) r expected author msg (dg_systems s)")
    case (Inl c)
    then show ?thesis using accounts.same by (simp add: and_then_def store_system_def try_store_def fail_def)
  next
    case (Inr mx)
    obtain m x where mx: "mx = (m, x)" by (cases mx)
    note st = store_ok [OF Inr [unfolded mx]]
    have "and_then (store_system E r expected author msg) (\<lambda>x. and_then (record_event E p (a x) (f x)) (\<lambda>_. g x)) s =
        and_then (record_event E p (a x) (f x)) (\<lambda>_. g x) (s\<lparr>dg_systems := m\<rparr>)"
      using Inr mx by (simp add: and_then_def store_system_def try_store_def give_def)
    then show ?thesis using accounted_record [of "f x" "sr_id r" s m p "g x" E "a x"] assms st by simp
  qed
qed

lemma acc_lift:
  assumes "\<And>x. v = Inr x \<Longrightarrow> guarantees (accounted p) (g x)"
  shows "guarantees (accounted p) (and_then (lift v) g)"
  using assms accounts.same by (cases v) (auto simp: guarantees_def and_then_def lift_def)

text \<open>A design that is found has the id it was looked up by.\<close>

lemma acc_find:
  assumes "\<And>r. sr_id r = k \<Longrightarrow> guarantees (accounted p) (g r)"
  shows "guarantees (accounted p) (and_then (find_system k) g)"
  unfolding guarantees_def
proof
  fix s
  show "accounted p s (fst (and_then (find_system k) g s))"
  proof (cases "mr_get_system (dg_systems s) k")
    case None
    then show ?thesis using accounts.same by (simp add: and_then_def find_system_def asks_def fail_def)
  next
    case (Some r)
    then have run: "and_then (find_system k) g s = g r s" by (simp add: and_then_def find_system_def asks_def give_def)
    show ?thesis
    proof (cases "memory_systems_ok (dg_systems s)")
      case True
      then show ?thesis using assms [of r] stored_id [OF True Some] by (simp add: run guarantees_def)
    qed (simp add: accounted_def)
  qed
qed

lemma acc_checked:
  assumes "\<And>r. sr_id r = k \<Longrightarrow> guarantees (accounted p) (g r)"
  shows "guarantees (accounted p) (and_then (checked_system E p perm a k target) g)"
proof -
  have assoc: "and_then (checked_system E p perm a k target) g = and_then (find_system k) (\<lambda>r.
     and_then (asks (\<lambda>s. get_workspace s (sr_workspace_id r))) (\<lambda>w.
     and_then (require_permission E w p perm a k target) (\<lambda>_. g r)))"
    by (auto simp: checked_system_def and_then_def give_def split: prod.splits sum.splits)
  show ?thesis unfolding assoc by (rule acc_find, intro accounts.g_and_then accounts.g_simple accounts.g_require) (rule assms)
qed

lemma acc_with_status:
  assumes "\<And>x. sr_id x = sr_id r \<Longrightarrow> guarantees (accounted p) (g x)"
  shows "guarantees (accounted p) (and_then (with_status E p w k status r) g)"
proof -
  have "accounted p s (fst (and_then (with_status E p w k status r) g s))" for s
  proof -
    obtain t res where run: "with_status E p w k status r s = (t, res)" by (cases "with_status E p w k status r s")
    have "accounted p s t" using guaranteesD [OF accounts.g_with_status run] .
    moreover have "accounted p t (fst (g x t))" if "res = Inr x" for x
    proof -
      have "sr_id x = sr_id r" using run that by (auto simp: with_status_Inr split: option.splits)
      then show ?thesis using assms [of x] by (simp add: guarantees_def)
    qed
    ultimately show ?thesis using accounted_trans run by (auto simp: and_then_def split: sum.split)
  qed
  then show ?thesis by (simp add: guarantees_def)
qed

lemma acc_merge_save:
  assumes "sr_id (vc_current c) = sr_id u"
  shows "guarantees (accounted p) (merge_save E p c u rs msg)"
  unfolding merge_save_def
  by (intro accounts.g_and_then accounts.g_simple)
    (auto intro!: accounts.g_and_then accounts.g_simple accounts.g_record_event acc_store)

lemma acc_write_edit:
  assumes "sr_id c = k" and "sr_id u = k"
  shows "guarantees (accounted p) (write_edit E p k c u strategy rq)"
proof -
  let ?v = "Some (case rq_base_version rq of None \<Rightarrow> sr_version c | Some v \<Rightarrow> v)"
  have "accounted p s (fst (write_edit E p k c u strategy rq s))" for s
  proof (cases "mr_save_system (en_now E) (en_stamp E) (en_revision E) u ?v (pr_user_id p) (rq_message rq) (dg_systems s)")
    case (Inr mx)
    obtain m x where mx: "mx = (m, x)" by (cases mx)
    note st = store_ok [OF Inr [unfolded mx]]
    have "fst (write_edit E p k c u strategy rq s) = add_event E (pr_user_id p) (principal_label p) SystemSave (\<lambda>e. e\<lparr>
        ev_workspace_id := sr_workspace_id c, ev_system_id := k,
        ev_version_before := Some (sr_version c), ev_version_after := Some (sr_version x),
        ev_detail := PDict (if rq_message rq \<noteq> [] then [(''message'', PStr (rq_message rq))] else [])\<rparr>) (s\<lparr>dg_systems := m\<rparr>)"
      using Inr mx by (simp add: write_edit_def and_then_def try_store_def give_def record_event_def change_def)
    also have "accounted p s \<dots>" by (rule accounted_event) (use st assms in simp_all)
    finally show ?thesis .
  next
    case (Inl cl)
    have q: "guarantees (accounted p) (and_then (record_event E p SystemSave f) (\<lambda>_. give x))"
      for f and x :: save_outcome
      by (intro accounts.g_and_then accounts.g_record_event accounts.g_simple)
    have "accounted p s (fst (merge_save E p cl u (rq_resolutions rq) (rq_message rq) s))"
    proof (cases "memory_systems_ok (dg_systems s)")
      case True
      have "prepare (en_stamp E) u (mr_get_system (dg_systems s) (sr_id u)) ?v (pr_user_id p) = Inl cl"
        using try_store_Inl [of E u ?v "pr_user_id p" "rq_message rq" s s cl] Inl by (simp add: try_store_def)
      then have "sr_id (vc_current cl) = sr_id u"
        using stored_id [OF True] by (auto simp: prepare_def Let_def split: option.splits if_splits)
      then show ?thesis using acc_merge_save by (simp add: guarantees_def)
    qed (simp add: accounted_def)
    then show ?thesis
      using Inl q by (simp add: write_edit_def and_then_def try_store_def guarantees_def)
  qed
  then show ?thesis by (simp add: guarantees_def)
qed

lemma acc_save_system: "guarantees (accounted p) (save_system E p k rq)"
proof -
  have "guarantees (accounted p) (and_then (with_status E p w k (rq_status rq) r1) (\<lambda>u. write_edit E p k r u strategy rq))"
    if "sr_id r = k" "edited r rq = Inr r1" for r w r1 strategy
    by (rule acc_with_status, rule acc_write_edit) (use that edited_keeps [of r rq r1] in simp_all)
  then show ?thesis
    unfolding save_system_def
    by (auto intro!: acc_find acc_lift accounts.g_and_then [OF accounts.g_simple(3)] accounts.g_and_then [OF accounts.g_require]
        accounts.g_and_then [OF accounts.g_with_locks] accounts.g_and_then [OF accounts.g_refuse_locked])
qed

lemma acc_create_system: "guarantees (accounted p) (create_system E p w name description spec l binding)"
  unfolding create_system_def
  by (intro accounts.g_and_then accounts.g_find accounts.g_require acc_store accounts.g_simple) auto

lemma acc_import_system: "guarantees (accounted p) (import_system load E p w txt filename name)"
  unfolding import_system_def Let_def
  by (auto intro!: accounts.g_and_then acc_create_system accounts.g_record_event accounts.g_simple split: option.split)

lemma acc_restore: "guarantees (accounted p) (restore E p k v)"
  unfolding restore_def
  by (rule acc_checked, intro accounts.g_and_then accounts.g_find acc_store accounts.g_simple) auto

lemma accounted_removal:
  assumes "\<And>e. ev_system_id (f e) = k \<and> (snd (mr_delete_system k (dg_systems s)) \<longrightarrow>
      ev_outcome e = OutSuccess \<longrightarrow> ev_outcome (f e) = OutSuccess)"
  shows "accounted p s (add_event E (pr_user_id p) label a f (s\<lparr>dg_systems := fst (mr_delete_system k (dg_systems s))\<rparr>))"
proof (cases "snd (mr_delete_system k (dg_systems s))")
  case True
  then show ?thesis by (intro accounted_event) (use assms delete_ok in auto)
next
  case False
  have "accounted p s (s\<lparr>dg_systems := fst (mr_delete_system k (dg_systems s))\<rparr>)"
    using delete_ok [where m = "dg_systems s" and k = k] False by (simp add: accounted_def)
  then show ?thesis using accounted_trans accounts.g_event by blast
qed

lemma acc_remove:
  assumes "\<And>d e. ev_system_id (f d e) = k \<and> (d \<longrightarrow> ev_outcome e = OutSuccess \<longrightarrow> ev_outcome (f d e) = OutSuccess)"
    and "\<And>d. guarantees (accounted p) (g d)"
  shows "guarantees (accounted p) (and_then (remove_system k) (\<lambda>d. and_then (record_event E p a (f d)) (\<lambda>_. g d)))"
  unfolding guarantees_def
proof
  fix s :: designer
  let ?d = "snd (mr_delete_system k (dg_systems s))"
  let ?t = "add_event E (pr_user_id p) (principal_label p) a (f ?d) (s\<lparr>dg_systems := fst (mr_delete_system k (dg_systems s))\<rparr>)"
  have "accounted p s ?t" using assms(1) [of ?d] by (intro accounted_removal) simp
  moreover have "accounted p ?t (fst (g ?d ?t))" using assms(2) by (simp add: guarantees_def)
  ultimately have "accounted p s (fst (g ?d ?t))" by (rule accounted_trans)
  then show "accounted p s (fst (and_then (remove_system k) (\<lambda>d. and_then (record_event E p a (f d)) (\<lambda>_. g d)) s))"
    by (simp add: and_then_def remove_system_def record_event_def change_def case_prod_beta)
qed

lemma acc_delete_system: "guarantees (accounted p) (delete_system E p k)"
  unfolding delete_system_def by (rule acc_checked, rule acc_remove) (auto intro: accounts.g_simple)

lemma acc_delete_workspace: "guarantees (accounted p) (delete_workspace E p w cascade)"
proof -
  have "guarantees (accounted p) (change (\<lambda>s. s\<lparr>dg_workspaces := AList.delete w (dg_workspaces s)\<rparr>))"
    by (simp add: guarantees_def change_def accounts.joined)
  moreover have "guarantees (accounted p) (and_then (remove_system k) (\<lambda>_. record_event E p SystemDelete f))"
    if "\<And>e. ev_system_id (f e) = k \<and> ev_outcome (f e) = ev_outcome e" for k f
  proof -
    have "and_then (remove_system k) (\<lambda>_. record_event E p SystemDelete f) =
        and_then (remove_system k) (\<lambda>_. and_then (record_event E p SystemDelete f) (\<lambda>_. give ()))"
      by (auto simp: and_then_def record_event_def change_def give_def split: prod.splits sum.splits)
    moreover have "guarantees (accounted p) \<dots>"
      by (rule acc_remove) (use that in \<open>auto intro: accounts.g_simple\<close>)
    ultimately show ?thesis by simp
  qed
  ultimately show ?thesis
    unfolding delete_workspace_def
    by (intro accounts.g_and_then [OF accounts.g_find(2)] accounts.g_and_then [OF accounts.g_require]
        accounts.g_and_then [OF accounts.g_simple(3)] accounts.g_and_then [OF accounts.g_simple(5)]
        accounts.g_and_then [OF accounts.g_each] accounts.g_and_then [OF accounts.g_record_event] accounts.g_simple(1))
      (auto intro: accounts.g_and_then accounts.g_record_event accounts.g_simple)
qed

lemma acc_perform: "guarantees (accounted p) (perform X E p c)"
  by (cases c) (simp_all add: accounts.g_ignore acc_save_system acc_create_system acc_import_system acc_restore
      acc_delete_system acc_delete_workspace accounts.g_reading accounts.g_locking accounts.g_members accounts.g_settings)

text \<open>
  C16: Nothing happens to a design unseen. Whatever call is made on the service, whether it returns or
  raises, the log of before is kept, and every design that was created, changed or deleted by it is
  named by a new, successful event of the person who made the call.
\<close>

theorem every_change_is_audited:
  assumes "perform X E p c s = (t, res)" and "memory_systems_ok (dg_systems s)"
  shows "\<exists>new. dg_audit t = dg_audit s @ new \<and>
    (\<forall>k. mr_get_system (dg_systems t) k \<noteq> mr_get_system (dg_systems s) k \<longrightarrow>
       (\<exists>e \<in> set new. ev_system_id e = k \<and> ev_outcome e = OutSuccess \<and> ev_actor e = pr_user_id p))"
proof -
  have "accounted p s t" by (rule guaranteesD [OF acc_perform assms(1)])
  with assms(2) show ?thesis by (auto simp: accounted_def named_by_def prefix_def)
qed

theorem every_change_is_audited_witness:
  "\<exists>new. dg_audit (fst (perform \<lparr>os_load = \<lambda>_. None, os_settings = \<lambda>_ _. None\<rparr> (at_time 5 []) ana (Delete ''s'') with_design)) =
     dg_audit with_design @ new \<and> (\<exists>e \<in> set new. ev_system_id e = ''s'' \<and> ev_actor e = ''ana'')"
proof -
  let ?r = "perform \<lparr>os_load = \<lambda>_. None, os_settings = \<lambda>_ _. None\<rparr> (at_time 5 []) ana (Delete ''s'') with_design"
  have "map_option sr_version (mr_get_system (dg_systems (fst ?r)) ''s'') = None \<and>
      map_option sr_version (mr_get_system (dg_systems with_design) ''s'') = Some 1" by code_simp
  then have "mr_get_system (dg_systems (fst ?r)) ''s'' \<noteq> mr_get_system (dg_systems with_design) ''s''" by auto
  with every_change_is_audited [OF prod.collapse [symmetric, of ?r] with_design_ok] show ?thesis
    by (fastforce simp: ana_def)
qed

end
