(* ===== verification/DesignerRefusals.thy ===== *)
theory DesignerRefusals
  imports DesignerTraces
begin

text \<open>
  What a refused call on the designer leaves behind, what a restore brings back, and where the service
  departs from what it says of itself.
\<close>

section \<open>Denials\<close>

definition never_denies :: "'a act \<Rightarrow> bool" where
  "never_denies f \<longleftrightarrow> (\<forall>s t why. f s \<noteq> (t, Inl (Denied why)))"

text \<open>Designs, workspaces and settings are as they were, and the last event is the denial.\<close>

definition denial_only :: "principal \<Rightarrow> string \<Rightarrow> designer \<Rightarrow> designer \<Rightarrow> bool" where
  "denial_only p why s t \<longleftrightarrow> dg_systems t = dg_systems s \<and> dg_workspaces t = dg_workspaces s \<and>
     dg_settings t = dg_settings s \<and> (\<exists>log e. dg_audit t = log @ [e] \<and> ev_outcome e = OutDenied \<and>
       ev_actor e = pr_user_id p \<and> ev_reason e = why)"

definition refuses :: "principal \<Rightarrow> 'a act \<Rightarrow> bool" where
  "refuses p f \<longleftrightarrow> (\<forall>s t why. f s = (t, Inl (Denied why)) \<longrightarrow> denial_only p why s t)"

lemma nd_and_then: "never_denies m \<Longrightarrow> (\<And>x. never_denies (f x)) \<Longrightarrow> never_denies (and_then m f)"
  by (auto simp: never_denies_def and_then_eq)

lemma nd_each: "(\<And>x. never_denies (f x)) \<Longrightarrow> never_denies (each f xs)"
proof (induction xs)
  case Nil
  show ?case by (simp add: never_denies_def give_def)
next
  case (Cons x xs)
  then show ?case by (simp add: nd_and_then)
qed

lemma nd_simple: "never_denies (give x)" "never_denies (asks f)" "never_denies (change h)" "never_denies (record_event E p a u)"
  "never_denies (with_locks E l)" "never_denies (try_store E r expected author msg)" "never_denies (remove_system k)"
  "never_denies (save_workspace w)"
  by (auto simp: never_denies_def act_run record_event_run with_locks_def remove_system_def save_workspace_def Let_def
      try_store_error split: prod.splits)

lemma nd_fail: "(\<And>why. e \<noteq> Denied why) \<Longrightarrow> never_denies (fail e)" "(\<And>why. e \<noteq> Denied why) \<Longrightarrow> never_denies (unless b e)"
  by (auto simp: never_denies_def act_run)

lemma nd_lift: "(\<And>why. v \<noteq> Inl (Denied why)) \<Longrightarrow> never_denies (lift v)"
  by (auto simp: never_denies_def lift_def)

lemma nd_parts: "never_denies (find_system k)" "never_denies (find_workspace w)" "never_denies (find_revision k v)"
  "never_denies (store_system E r expected author msg)" "never_denies (workspace_name p n keep)"
  "never_denies (refuse_locked E p k r blocking)"
  unfolding find_system_def find_workspace_def find_revision_def store_system_def workspace_name_def refuse_locked_def Let_def
  by (auto intro!: nd_and_then nd_simple nd_fail split: option.split sum.split)

lemma check_kinds_error: "check_kinds ids ds \<noteq> Inl (Denied why)"
  by (induction ids ds rule: check_kinds.induct) auto

lemma pure_errors: "edited r rq \<noteq> Inl (Denied why)" "merged_documents rv c u rs \<noteq> Inl (Denied why)"
  "version_in k r history v \<noteq> Inl (Denied why)" "parse_scope x \<noteq> Inl (Denied why)" "parse_action y \<noteq> Inl (Denied why)"
  by (auto simp: edited_def Let_def ebind_eq_Inl check_diagram_kinds_def check_kinds_error merged_documents_def
      version_in_def parse_scope_def parse_action_def split: option.splits prod.splits if_splits)

lemmas nd = nd_and_then nd_each nd_simple nd_fail nd_parts nd_lift [OF pure_errors(1)] nd_lift [OF pure_errors(2)]
  nd_lift [OF pure_errors(3)] nd_lift [OF pure_errors(4)] nd_lift [OF pure_errors(5)]

lemma nd_writes: "never_denies (merge_save E p c u rs msg)" "never_denies (write_edit E p k r u strategy rq)"
proof -
  show m: "never_denies (merge_save E p c u rs msg)" for c u rs msg
    unfolding merge_save_def by (auto intro!: nd split: prod.split)
  show "never_denies (write_edit E p k r u strategy rq)"
    unfolding write_edit_def by (auto intro!: nd m split: sum.split)
qed

lemma refuses_never: "never_denies f \<Longrightarrow> refuses p f"
  by (simp add: refuses_def never_denies_def)

lemma refuses_and_then:
  assumes "guarantees (\<lambda>s t. dg_systems t = dg_systems s \<and> dg_workspaces t = dg_workspaces s \<and>
      dg_settings t = dg_settings s) m"
    and "refuses p m" and "\<And>x. refuses p (f x)"
  shows "refuses p (and_then m f)"
  unfolding refuses_def
proof (intro allI impI)
  fix s t why
  assume "and_then m f s = (t, Inl (Denied why))"
  then consider "m s = (t, Inl (Denied why))" | s1 x where "m s = (s1, Inr x)" "f x s1 = (t, Inl (Denied why))"
    by (auto simp: and_then_eq)
  then show "denial_only p why s t"
  proof cases
    case 1
    then show ?thesis using assms(2) by (simp add: refuses_def)
  next
    case 2
    then have "denial_only p why s1 t" using assms(3) by (simp add: refuses_def)
    with guaranteesD [OF assms(1) 2(1)] show ?thesis by (simp add: denial_only_def)
  qed
qed

lemma refuses_require: "refuses p (require_permission E w p perm a k target)"
  by (auto simp: refuses_def denial_only_def require_permission_def and_then_eq act_run record_event_run add_event_def
      dal_record_def mem_append_audit_def Let_def blank_event_def)

lemma refuses_checked: "refuses p (checked_system E p perm a k target)"
  unfolding checked_system_def
  by (intro refuses_and_then reading.g_find reading.g_simple reading.g_require refuses_require refuses_never nd)

lemma refuses_with_status: "refuses p (with_status E p w k status r)"
proof (cases status)
  case None
  then show ?thesis by (simp add: with_status_def refuses_never nd_simple)
next
  case (Some st)
  have "refuses p (if st = StatusPublished then require_permission E w p PUBLISH SystemPublish k [] else give ())"
    by (simp add: refuses_require refuses_never nd_simple)
  then show ?thesis
    using Some by (auto simp: with_status_def intro!: refuses_and_then reading.g_require reading.g_simple intro: refuses_never nd_simple)
qed

lemmas refuses_first = refuses_and_then [OF reading.g_checked_system refuses_checked]
  refuses_and_then [OF reading.g_find(2) refuses_never [OF nd_parts(2)]]
  refuses_and_then [OF reading.g_find(1) refuses_never [OF nd_parts(1)]]
  refuses_and_then [OF reading.g_require refuses_require]
  refuses_and_then [OF reading.g_simple(3) refuses_never [OF nd_simple(2)]]

lemma refuses_save: "refuses p (save_system E p k rq)"
  unfolding save_system_def
  by (intro refuses_first refuses_and_then [OF reading.g_with_locks refuses_never [OF nd_simple(5)]]
      refuses_and_then [OF reading.g_refuse_locked refuses_never [OF nd_parts(6)]]
      refuses_and_then [OF reading.g_simple(4) refuses_never [OF nd_lift [OF pure_errors(1)]]]
      refuses_and_then [OF reading.g_with_status refuses_with_status] refuses_never nd_writes)

lemma refuses_create: "refuses p (create_system E p w name description spec l binding)"
  unfolding create_system_def by (intro refuses_first refuses_never nd)

lemma refuses_designs:
  "refuses p (delete_system E p k)" "refuses p (restore E p k v)" "refuses p (open_system E p k)" "refuses p (revisions E p k n)"
  "refuses p (spec_at E p k version)" "refuses p (publish_candidate E p k)" "refuses p (review_pair E p k left right)"
  "refuses p (acquire_lock E p k target scope msg)" "refuses p (break_lock E p k target)"
  unfolding delete_system_def restore_def open_system_def revisions_def spec_at_def publish_candidate_def review_pair_def
    acquire_lock_def break_lock_def active_locks_def Let_def
  by (auto intro!: refuses_first nd intro: refuses_never split: sum.split)

lemma refuses_workspaces:
  "refuses p (update_workspace E p w n d)" "refuses p (delete_workspace E p w cascade)" "refuses p (add_member E p w m)"
  "refuses p (remove_member E p w user)" "refuses p (update_settings checked E p changes)"
  unfolding update_workspace_def delete_workspace_def add_member_def remove_member_def update_settings_def Let_def
  by (auto intro!: refuses_first nd intro: refuses_never split: option.split)

lemma nd_open:
  "never_denies (release_lock E p k target)" "never_denies (heartbeat E p k target)" "never_denies (create_workspace E p n d)"
  "never_denies (record_publish E p k outcome v reason given)" "never_denies (list_systems E p w)"
proof -
  have "never_denies (summaries E allowed rs)" for allowed rs
    by (induction rs) (auto intro!: nd simp: active_locks_def)
  then show "never_denies (list_systems E p w)" unfolding list_systems_def by (intro nd)
qed (auto intro!: nd simp: release_lock_def heartbeat_def create_workspace_def record_publish_def)

lemma refuses_audit_events: "refuses p (audit_events E p sys actor a since before n)"
proof -
  let ?scope = "case sys of
      Some k \<Rightarrow> and_then (checked_system E p READ_AUDIT AuditLogRead k []) (\<lambda>_. give None)
    | None \<Rightarrow> and_then (asks (\<lambda>s. auditable s p)) (\<lambda>readable.
        and_then (unless (readable \<noteq> {}) NotAuditor) (\<lambda>_. give (Some readable)))"
  have r: "refuses p ?scope"
    by (cases sys) (auto intro!: refuses_first nd intro: refuses_never)
  have g: "guarantees (\<lambda>s t. dg_systems t = dg_systems s \<and> dg_workspaces t = dg_workspaces s \<and>
      dg_settings t = dg_settings s) ?scope"
    by (cases sys) (auto intro!: reading.g_and_then reading.g_checked_system reading.g_simple)
  have n: "never_denies (and_then (lift (parse_action a)) (\<lambda>wanted.
      asks (\<lambda>s. dal_query sys actor wanted None readable since before n (dg_audit s))))" for readable
    by (intro nd)
  show ?thesis unfolding audit_events_def by (rule refuses_and_then [OF g r refuses_never [OF n]])
qed

lemma refuses_ignore: "refuses p f \<Longrightarrow> refuses p (ignore f)"
  by (auto simp: ignore_def refuses_def and_then_eq give_def)

lemma refuses_import: "refuses p (import_system load E p w txt filename name)"
proof -
  have "refuses p (and_then (create_system E p w title description spec l None) (\<lambda>r. and_then (record_event E p SystemImport (f r)) (\<lambda>_. give r)))"
    for title description spec l f
  proof -
    have "never_denies (and_then (record_event E p SystemImport (f r)) (\<lambda>_. give r))" for r by (intro nd)
    then show ?thesis
      using refuses_create unfolding refuses_def never_denies_def by (auto simp: and_then_eq)
  qed
  then show ?thesis unfolding import_system_def Let_def by (auto intro!: refuses_never nd split: option.split)
qed

lemma refuses_perform: "refuses p (perform X E p c)"
  by (cases c) (simp_all add: refuses_ignore refuses_save refuses_create refuses_import refuses_designs refuses_workspaces
      refuses_audit_events refuses_never nd_open)


definition nothing_outside :: outside where
  "nothing_outside = \<lparr>os_load = \<lambda>_. None, os_settings = \<lambda>_ _. None\<rparr>"


section \<open>Restoring\<close>

text \<open>
  A restore brings a revision back and loses nothing: the stored design is that revision's
  document, binding and layout under a new version number, no other design changes, and the version
  it replaced can be read back, so that a restore can be undone by another.
\<close>

theorem restore_round_trip:
  assumes "restore E p k v s = (t, Inr r)" and "memory_systems_ok (dg_systems s)"
  shows "\<exists>c rv old. mr_get_system (dg_systems s) k = Some c \<and> mr_revision k v (dg_systems s) = Some rv \<and>
    (\<forall>j. mr_get_system (dg_systems t) j = (if j = k then Some r else mr_get_system (dg_systems s) j)) \<and>
    sr_spec r = rv_spec rv \<and> sr_binding r = rv_binding rv \<and> sr_layout r = rv_layout rv \<and>
    sr_version r = sr_version c + 1 \<and>
    mr_revision k (sr_version c) (dg_systems t) = Some old \<and> rv_spec old = sr_spec c"
proof -
  obtain c rv m where c: "mr_get_system (dg_systems s) k = Some c" and rv: "mr_revision k v (dg_systems s) = Some rv"
    and sv: "mr_save_system (en_now E) (en_stamp E) (en_revision E)
      (c\<lparr>sr_spec := rv_spec rv, sr_binding := rv_binding rv, sr_layout := rv_layout rv\<rparr>) (Some (sr_version c))
      (pr_user_id p) (''restored version '' @ show_int v) (dg_systems s) = Inr (m, r)" and t: "dg_systems t = m"
    using assms(1)
    by (auto simp: restore_def checked_system_def find_revision_def and_then_Inr find_system_Inr require_Inr act_run
        record_event_run dest!: store_system_Inr split: option.splits)
  have k: "sr_id c = k" by (rule stored_id [OF assms(2) c])
  have "prepare (en_stamp E) (c\<lparr>sr_spec := rv_spec rv, sr_binding := rv_binding rv, sr_layout := rv_layout rv\<rparr>) (Some c)
      (Some (sr_version c)) (pr_user_id p) = Inr r"
    using saved_record [OF sv] c k by simp
  note prepared [OF this]
  moreover obtain old where "mr_revision k (sr_version c) m = Some old" "rv_spec old = sr_spec c"
    using memory.replaced_revision [OF assms(2) TrueI, where c = c and x = "c\<lparr>sr_spec := rv_spec rv,
        sr_binding := rv_binding rv, sr_layout := rv_layout rv\<rparr>"] sv c k
    by (fastforce simp: memory_systems_def)
  ultimately show ?thesis using c rv saved_get [OF sv] k t by auto
qed

theorem restore_round_trip_witness:
  "\<exists>r. snd (restore (at_time 4 []) ana ''s'' 1 ours_saved) = Inr r \<and> sr_spec r = two_agents ''x'' ''y'' \<and> sr_version r = 3"
proof -
  let ?r = "restore (at_time 4 []) ana ''s'' 1 ours_saved"
  have "case snd ?r of Inl e \<Rightarrow> False | Inr r \<Rightarrow> True" by code_simp
  then obtain r where r: "snd ?r = Inr r" by (cases "snd ?r") simp_all
  have ok: "memory_systems_ok (dg_systems ours_saved)"
    unfolding ours_saved_def using with_design_ok stored.g_save_system by (simp add: guarantees_def)
  have "map_option rv_spec (mr_revision ''s'' 1 (dg_systems ours_saved)) = Some (two_agents ''x'' ''y'') \<and>
      map_option sr_version (mr_get_system (dg_systems ours_saved) ''s'') = Some 2" by code_simp
  with restore_round_trip [OF _ ok, of "at_time 4 []" ana "''s''" 1 "fst ?r" r] r prod.collapse [of ?r] show ?thesis by auto
qed

section \<open>Where the code departs from its documentation\<close>

text \<open>Ana's workspace with Bob in it.\<close>

definition with_bob :: "user_role \<Rightarrow> designer" where
  "with_bob role = fst (add_member (at_time 2 []) ana ''w''
     \<lparr>m_user_id = ''bob'', m_display_name = [], m_email = [], m_role = role, m_added_at = []\<rparr> with_design)"

definition as_member :: "principal \<Rightarrow> user_role \<Rightarrow> member" where
  "as_member p role = \<lparr>m_user_id = pr_user_id p, m_display_name = [], m_email = [], m_role = role, m_added_at = []\<rparr>"

text \<open>\<open>remove_member\<close> keeps the last owner, but \<open>add_member\<close> replaces a member and does not; and an
  administrator can make themself the owner, and then delete the workspace.\<close>

lemma last_owner_can_be_demoted:
  "case snd (add_member (at_time 3 []) bob ''w'' (as_member ana UserViewer) (with_bob UserAdmin)) of
     Inl e \<Rightarrow> False | Inr w \<Rightarrow> list_all (\<lambda>m. m_role m \<noteq> UserOwner) (w_members w)"
  by code_simp

lemma admin_becomes_owner:
  "case delete_workspace (at_time 3 []) bob ''w'' True (with_bob UserAdmin) of (s, r) \<Rightarrow> r \<noteq> Inr (True, 1)"
  "snd (delete_workspace (at_time 4 []) bob ''w'' True
     (fst (add_member (at_time 3 []) bob ''w'' (as_member bob UserOwner) (with_bob UserAdmin)))) = Inr (True, 1)"
  by code_simp+

text \<open>A save looks only for locks on the whole design, so a lock on a component stops nobody from
  changing it; and a restore looks for no lock at all.\<close>

definition component_locked :: designer where
  "component_locked = fst (acquire_lock (at_time 3 ''L'') ana ''s'' ''a'' ''component'' [] (with_bob UserEditor))"

lemma component_lock_does_not_stop_a_save:
  "case snd (save_system (at_time 4 []) bob ''s'' (request\<lparr>rq_spec := Some (two_agents ''z'' ''y'')\<rparr>) component_locked) of
     Inl e \<Rightarrow> False | Inr out \<Rightarrow> so_status out = Saved \<and> length (dg_locks component_locked) = 1"
  by code_simp

definition system_locked :: designer where
  "system_locked = fst (acquire_lock (at_time 3 ''L'') ana ''s'' ''*'' ''system'' [] (with_bob UserEditor))"

lemma restore_ignores_the_lock:
  "(case snd (save_system (at_time 4 []) bob ''s'' (request\<lparr>rq_spec := Some (two_agents ''z'' ''y'')\<rparr>) system_locked) of
      Inl (LockedBy l) \<Rightarrow> l_holder l = ''ana'' | _ \<Rightarrow> False) \<and>
   (case snd (restore (at_time 4 []) bob ''s'' 1 system_locked) of Inl e \<Rightarrow> False | Inr r \<Rightarrow> sr_version r = 2)"
  by code_simp

text \<open>A canvas of a process is checked against the design only when the layout is saved, so removing
  the workflow it draws leaves it behind, and the layout can then not be saved as it is stored.\<close>

definition process_layout :: layout where
  "process_layout = (new_layout [])\<lparr>la_diagrams := [(''d'', (new_diagram [] ''d'')\<lparr>di_kind := KindProcess, di_root := ''wf''\<rparr>)],
     la_active := ''d''\<rparr>"

definition one_workflow :: pyval where
  "one_workflow = PDict [(''organization'', PDict [(''workflows'', PList [PDict [(''id'', PStr ''wf'')]])])]"

definition drawn :: designer where
  "drawn = fst (save_system (at_time 2 []) ana ''s''
     (request\<lparr>rq_spec := Some one_workflow, rq_layout := Some process_layout\<rparr>) with_design)"

definition workflow_removed :: designer where
  "workflow_removed = fst (save_system (at_time 3 []) ana ''s'' (request\<lparr>rq_spec := Some (PDict [])\<rparr>) drawn)"

lemma removed_workflow_leaves_its_canvas:
  "map_option (\<lambda>r. (sr_version r, map fst (la_diagrams (sr_layout r)))) (mr_get_system (dg_systems workflow_removed) ''s'') =
     Some (3, [''d'']) \<and>
   (case snd (save_system (at_time 4 []) ana ''s'' (request\<lparr>rq_layout := Some process_layout\<rparr>) workflow_removed) of
      Inl (KindMismatch n) \<Rightarrow> True | _ \<Rightarrow> False)"
  by code_simp

end
