(* ===== verification/OrgChart.thy ===== *)
theory OrgChart
  imports Continuity DocStore
begin

text \<open>
  The org chart at run time (\<open>org.py\<close>) over the document store: units and the groups they hand down,
  agents with both ends of every reporting edge, the chain of command, who may delegate to whom,
  leaving the organization, standing in for a leader that cannot run, and who holds a mandate. Of an
  agent the model keeps the fields the chart reads. Days are numbers; a question that takes no day is
  asked for \<open>today\<close>, which is an argument.

  A loop that follows managers or parents ends because no record is visited twice; the check of a
  delegation follows stand-ins and runs on fuel, with \<open>None\<close> for a recursion that did not end.
\<close>

section \<open>Records\<close>

datatype agent_kind = KindExecutive | KindManager | KindIndividual | KindSubagent | KindService

record org_unit =
  ou_id :: string
  ou_name :: string
  ou_parent_id :: "string option"
  ou_groups :: "string list"

record agent =
  ag_id :: string
  ag_name :: string
  ag_kind :: agent_kind
  ag_org_unit_id :: "string option"
  ag_manager_agent_id :: "string option"
  ag_report_agent_ids :: "string list"
  ag_peer_agent_ids :: "string list"
  ag_mission_grants :: "mission_grant list"
  ag_decommissioned_at :: "instant option"
  ag_decommission_reason :: string
  ag_successor_agent_id :: "string option"
  ag_mandate :: "string list"
  ag_groups :: "string list"

definition is_active :: "agent \<Rightarrow> bool" where
  "is_active a \<longleftrightarrow> ag_decommissioned_at a = None"

record org_chart =
  oc_units :: "org_unit docs"
  oc_agents :: "agent docs"
  oc_acting :: "acting_assignment docs"
  oc_separations :: "separation list"

section \<open>Following a line of records\<close>

lemma unseen_shrinks:
  assumes "store_get rows k = Some x" and "k \<notin> set seen"
  shows "card (set (map row_id rows) - set (k # seen)) < card (set (map row_id rows) - set seen)"
  using assms store_get_row [OF assms(1)] by (intro psubset_card_mono) auto

text \<open>\<open>while current and current not in seen\<close>: the records from one key along \<open>further\<close>.\<close>

function climb :: "'a docs \<Rightarrow> ('a \<Rightarrow> string option) \<Rightarrow> string list \<Rightarrow> string option \<Rightarrow> 'a list" where
  "climb rows further seen current =
     (case current of
        None \<Rightarrow> []
      | Some k \<Rightarrow>
          if k = [] \<or> k \<in> set seen then []
          else (case store_get rows k of
                  None \<Rightarrow> []
                | Some x \<Rightarrow> x # climb rows further (k # seen) (further x)))"
  by pat_completeness auto

termination
  by (relation "measure (\<lambda>(rows, further, seen, current). card (set (map row_id rows) - set seen))")
    (simp_all add: unseen_shrinks del: set_map set_simps)

declare climb.simps [simp del]

definition units :: "org_chart \<Rightarrow> org_unit list" where
  "units oc = store_list None 500 0 (oc_units oc)"

definition unit_of :: "org_chart \<Rightarrow> string \<Rightarrow> org_unit option" where
  "unit_of oc k = store_get (oc_units oc) k"

fun extend_new :: "'a list \<Rightarrow> 'a list \<Rightarrow> 'a list" where
  "extend_new out [] = out"
| "extend_new out (x # xs) = extend_new (if x \<in> set out then out else out @ [x]) xs"

definition unit_groups :: "org_chart \<Rightarrow> string option \<Rightarrow> string list" where
  "unit_groups oc unit_id = foldl (\<lambda>groups u. extend_new groups (ou_groups u)) []
     (climb (oc_units oc) ou_parent_id [] unit_id)"

definition add_unit :: "instant \<Rightarrow> org_unit \<Rightarrow> org_chart \<Rightarrow> org_chart" where
  "add_unit now u oc = oc\<lparr>oc_units := store_put now (ou_id u) u (ou_parent_id u) (Some (ou_name u)) (oc_units oc)\<rparr>"

section \<open>Agents\<close>

definition agent_of :: "org_chart \<Rightarrow> string \<Rightarrow> agent option" where
  "agent_of oc k = store_get (oc_agents oc) k"

definition put_agent :: "instant \<Rightarrow> agent \<Rightarrow> org_chart \<Rightarrow> org_chart" where
  "put_agent now a oc = oc\<lparr>oc_agents := store_put now (ag_id a) a (ag_org_unit_id a) (Some (ag_name a)) (oc_agents oc)\<rparr>"

text \<open>\<open>Inl\<close> is the \<open>ValueError\<close> with the manager that is unknown.\<close>

definition add_agent :: "instant \<Rightarrow> agent \<Rightarrow> org_chart \<Rightarrow> string + org_chart \<times> agent" where
  "add_agent now a oc =
     ebind (case ag_manager_agent_id a of
         None \<Rightarrow> Inr oc
       | Some m \<Rightarrow> if m = [] then Inr oc
           else (case agent_of oc m of
               None \<Rightarrow> Inl m
             | Some manager \<Rightarrow>
                 if ag_id a \<in> set (ag_report_agent_ids manager) then Inr oc
                 else Inr (put_agent now (manager\<lparr>ag_report_agent_ids := ag_report_agent_ids manager @ [ag_id a]\<rparr>) oc)))
       (\<lambda>oc1. let a' = a\<lparr>ag_groups := extend_new (ag_groups a) (unit_groups oc1 (ag_org_unit_id a))\<rparr>
         in Inr (put_agent now a' oc1, a'))"

definition agents :: "org_chart \<Rightarrow> string option \<Rightarrow> agent list" where
  "agents oc org_unit_id = store_list org_unit_id 500 0 (oc_agents oc)"

definition reports :: "org_chart \<Rightarrow> string \<Rightarrow> agent list" where
  "reports oc k = (case agent_of oc k of None \<Rightarrow> [] | Some a \<Rightarrow> List.map_filter (agent_of oc) (ag_report_agent_ids a))"

definition chain_of_command :: "org_chart \<Rightarrow> string \<Rightarrow> agent list" where
  "chain_of_command oc k = climb (oc_agents oc) ag_manager_agent_id [] (Some k)"

text \<open>The stack of \<open>subtree\<close> is kept top first: \<open>pop\<close> takes the last element, \<open>extend\<close> adds after it.\<close>

function subtree_loop :: "agent docs \<Rightarrow> string list \<Rightarrow> string list \<Rightarrow> agent list" where
  "subtree_loop rows seen [] = []"
| "subtree_loop rows seen (cur # stack) =
     (if cur \<in> set seen then subtree_loop rows seen stack
      else (case store_get rows cur of
              None \<Rightarrow> subtree_loop rows (cur # seen) stack
            | Some a \<Rightarrow> a # subtree_loop rows (cur # seen) (rev (ag_report_agent_ids a) @ stack)))"
  by pat_completeness auto

termination
proof (relation "measures [\<lambda>(rows, seen, stack). card (set (map row_id rows) - set seen), \<lambda>(rows, seen, stack). length stack]",
    goal_cases)
  case (3 rows seen cur stack)
  have "card (set (map row_id rows) - set (cur # seen)) \<le> card (set (map row_id rows) - set seen)"
    by (intro card_mono) auto
  then show ?case by (auto simp del: set_map set_simps)
next
  case (4 rows seen cur stack a)
  then show ?case by (simp add: unseen_shrinks del: set_map set_simps)
qed simp_all

definition subtree :: "org_chart \<Rightarrow> string \<Rightarrow> agent list" where
  "subtree oc k = subtree_loop (oc_agents oc) [] [k]"

definition escalation_target :: "org_chart \<Rightarrow> string \<Rightarrow> agent option" where
  "escalation_target oc k = Option.bind (agent_of oc k) (\<lambda>a.
     case ag_manager_agent_id a of None \<Rightarrow> None | Some m \<Rightarrow> if m = [] then None else agent_of oc m)"

definition mission_peers :: "org_chart \<Rightarrow> string \<Rightarrow> int \<Rightarrow> string list" where
  "mission_peers oc k day = (case agent_of oc k of None \<Rightarrow> [] | Some src \<Rightarrow> open_peers (ag_mission_grants src) day)"

section \<open>Standing in\<close>

definition acting_assignments :: "org_chart \<Rightarrow> acting_assignment list" where
  "acting_assignments oc = store_list None 2000 0 (oc_acting oc)"

definition acting_for :: "org_chart \<Rightarrow> string \<Rightarrow> int \<Rightarrow> acting_assignment option" where
  "acting_for oc failed day =
     List.find (\<lambda>a. aa_failed_agent_id a = failed \<and> assignment_is_open a day) (acting_assignments oc)"

definition standing_in_as :: "org_chart \<Rightarrow> string \<Rightarrow> int \<Rightarrow> acting_assignment list" where
  "standing_in_as oc successor day =
     filter (\<lambda>a. aa_successor_agent_id a = successor \<and> assignment_is_open a day) (acting_assignments oc)"

definition put_assignment :: "instant \<Rightarrow> string \<Rightarrow> acting_assignment \<Rightarrow> org_chart \<Rightarrow> org_chart" where
  "put_assignment now parent a oc = oc\<lparr>oc_acting := store_put now (aa_id a) a (Some parent) None (oc_acting oc)\<rparr>"

fun close_loop :: "instant \<Rightarrow> string \<Rightarrow> acting_assignment list \<Rightarrow> org_chart \<Rightarrow> org_chart \<times> nat" where
  "close_loop now failed [] oc = (oc, 0)"
| "close_loop now failed (a # as) oc =
     (if aa_failed_agent_id a = failed \<and> aa_status a = ''active''
      then (let (oc', n) = close_loop now failed as (put_assignment now failed (a\<lparr>aa_status := ''closed''\<rparr>) oc) in (oc', n + 1))
      else close_loop now failed as oc)"

definition close_standing_in :: "instant \<Rightarrow> string \<Rightarrow> org_chart \<Rightarrow> org_chart \<times> nat" where
  "close_standing_in now failed oc = close_loop now failed (acting_assignments oc) oc"

definition truthy_key :: "string option \<Rightarrow> bool" where
  "truthy_key k = (case k of None \<Rightarrow> False | Some s \<Rightarrow> s \<noteq> [])"

definition successor_of :: "org_chart \<Rightarrow> string \<Rightarrow> agent option" where
  "successor_of oc k = Option.bind (agent_of oc k) (\<lambda>a.
     if truthy_key (ag_successor_agent_id a) then agent_of oc (the (ag_successor_agent_id a)) else escalation_target oc k)"

definition stand_in_for ::
  "string \<Rightarrow> instant \<Rightarrow> int \<Rightarrow> string \<Rightarrow> separation list option \<Rightarrow> string \<Rightarrow> date_text \<Rightarrow> string list \<Rightarrow> org_chart \<Rightarrow>
     org_chart \<times> acting_assignment option" where
  "stand_in_for fresh now today k separations reason ends_on adopted oc =
     (case (agent_of oc k, successor_of oc k) of
        (Some failed, Some successor) \<Rightarrow>
          if ag_id successor = ag_id failed then (oc, None)
          else if acting_for oc (ag_id successor) today \<noteq> None then (oc, None)
          else (let a = (open_assignment fresh now today (ag_id failed) (ag_id successor) (ag_mandate failed)
                       (ag_mandate successor) (case separations of None \<Rightarrow> oc_separations oc | Some r \<Rightarrow> r)
                       (\<not> truthy_key (ag_successor_agent_id failed)) reason ends_on)\<lparr>aa_adopted_handles := adopted\<rparr>
                in (put_assignment now (ag_id failed) a oc, Some a))
      | _ \<Rightarrow> (oc, None))"

section \<open>Delegating\<close>

text \<open>The loop over the leaders an agent stands in for; the recursive call is an argument.\<close>

fun lent_reach :: "(string \<Rightarrow> bool option) \<Rightarrow> string \<Rightarrow> acting_assignment list \<Rightarrow> bool option" where
  "lent_reach check to [] = Some False"
| "lent_reach check to (a # as) =
     (if aa_failed_agent_id a = to then lent_reach check to as
      else (case check (aa_failed_agent_id a) of
              None \<Rightarrow> None
            | Some True \<Rightarrow> Some True
            | Some False \<Rightarrow> lent_reach check to as))"

fun can_delegate :: "nat \<Rightarrow> org_chart \<Rightarrow> string \<Rightarrow> string \<Rightarrow> int \<Rightarrow> bool option" where
  "can_delegate 0 oc frm to day = None"
| "can_delegate (Suc fuel) oc frm to day =
     (if frm = to then Some False
      else (case agent_of oc frm of
        None \<Rightarrow> Some False
      | Some src \<Rightarrow>
          if \<not> is_active src then Some False
          else if (case agent_of oc to of None \<Rightarrow> False | Some target \<Rightarrow> \<not> is_active target) then Some False
          else if to \<in> set (ag_report_agent_ids src) \<or> to \<in> set (ag_peer_agent_ids src) then Some True
          else if to \<in> set (open_peers (ag_mission_grants src) day) then Some True
          else if \<exists>a \<in> set (subtree oc frm). ag_id a = to then Some True
          else if (case agent_of oc to of None \<Rightarrow> False | Some dst \<Rightarrow> ag_kind dst = KindService) then Some True
          else lent_reach (\<lambda>failed. can_delegate fuel oc failed to day) to (standing_in_as oc frm day)))"

section \<open>Leaving\<close>

record departure =
  dp_already :: bool
  dp_reports :: "string list"
  dp_stopped_covering :: "string list"
  dp_cover_for_it_ended :: nat
  dp_successions_now_broken :: "string list"

definition decommission ::
  "instant \<Rightarrow> int \<Rightarrow> string \<Rightarrow> string \<Rightarrow> org_chart \<Rightarrow> org_chart \<times> departure option" where
  "decommission now today k reason oc =
     (case agent_of oc k of
        None \<Rightarrow> (oc, None)
      | Some a \<Rightarrow>
          if \<not> is_active a
          then (oc, Some \<lparr>dp_already = True, dp_reports = [], dp_stopped_covering = [], dp_cover_for_it_ended = 0,
                  dp_successions_now_broken = []\<rparr>)
          else (let covered = map aa_failed_agent_id (standing_in_as oc k today);
                    oc1 = fold (\<lambda>failed oc. fst (close_standing_in now failed oc)) covered oc;
                    (oc2, ended) = close_standing_in now k oc1;
                    orphaned = map ag_id (filter (\<lambda>b. ag_successor_agent_id b = Some k \<and> ag_id b \<noteq> k) (agents oc2 None));
                    a' = a\<lparr>ag_decommissioned_at := Some now,
                           ag_decommission_reason := (if reason \<noteq> [] then reason else ''left the organization'')\<rparr>
                in (put_agent now a' oc2, Some \<lparr>dp_already = False, dp_reports = ag_report_agent_ids a,
                     dp_stopped_covering = covered, dp_cover_for_it_ended = ended,
                     dp_successions_now_broken = sort orphaned\<rparr>)))"

definition active_agents :: "org_chart \<Rightarrow> agent list" where
  "active_agents oc = filter is_active (agents oc None)"

section \<open>Who holds a mandate\<close>

definition mandate_holder :: "org_chart \<Rightarrow> int \<Rightarrow> string \<Rightarrow> string \<Rightarrow> agent option" where
  "mandate_holder oc today k decision =
     (case List.find (\<lambda>a. decision \<in> set (ag_mandate a) \<and> is_active a) (chain_of_command oc k) of
        None \<Rightarrow> None
      | Some current \<Rightarrow>
          (case acting_for oc (ag_id current) today of
             None \<Rightarrow> Some current
           | Some acting \<Rightarrow>
               if assignment_covers acting decision today
               then (case agent_of oc (aa_successor_agent_id acting) of None \<Rightarrow> Some current | Some s \<Rightarrow> Some s)
               else Some current))"

definition mandate_holders :: "org_chart \<Rightarrow> string \<Rightarrow> agent list" where
  "mandate_holders oc decision = sort_key ag_name (filter (\<lambda>a. decision \<in> set (ag_mandate a)) (agents oc None))"

end
