(* ===== verification/OrgRuns.thy ===== *)
theory OrgRuns
  imports OrgChart
begin

text \<open>
  Delegation in the org chart: the subtree is what the reporting edges reach; the check of a delegation
  decides a declarative relation; and on any chart the operations lead to it returns, because standing
  in never closes a circle.
\<close>

section \<open>The subtree\<close>

definition report_edge :: "agent docs \<Rightarrow> (string \<times> string) set" where
  "report_edge rows = {(x, y). \<exists>a. store_get rows x = Some a \<and> y \<in> set (ag_report_agent_ids a)}"

definition known :: "agent docs \<Rightarrow> string set" where
  "known rows = {k. store_get rows k \<noteq> None}"

lemma closed_rtrancl: "(\<And>x y. x \<in> S \<Longrightarrow> (x, y) \<in> r \<Longrightarrow> y \<in> S) \<Longrightarrow> r\<^sup>* `` S = S"
  by (auto elim: rtrancl_induct)

lemma reach_absorbs:
  assumes "c \<in> A" and "\<And>y. y \<in> B \<Longrightarrow> (c, y) \<in> r"
  shows "r\<^sup>* `` (A \<union> B) = r\<^sup>* `` A"
  using assms by (auto intro: converse_rtrancl_into_rtrancl)

definition keyed_agents :: "agent docs \<Rightarrow> bool" where
  "keyed_agents rows \<longleftrightarrow> (\<forall>k a. store_get rows k = Some a \<longrightarrow> ag_id a = k)"

lemma subtree_loop_reach:
  assumes "keyed_agents rows"
    and "\<And>x y. x \<in> set seen \<Longrightarrow> (x, y) \<in> report_edge rows \<Longrightarrow> y \<in> set seen \<union> set stack"
  shows "ag_id ` set (subtree_loop rows seen stack) \<union> (set seen \<inter> known rows) =
    (report_edge rows)\<^sup>* `` (set seen \<union> set stack) \<inter> known rows"
  using assms
proof (induction rows seen stack rule: subtree_loop.induct)
  case (1 rows seen)
  have "(report_edge rows)\<^sup>* `` set seen = set seen" by (rule closed_rtrancl) (use 1 in auto)
  then show ?case by simp
next
  case (2 rows seen cur stack)
  show ?case
  proof (cases "cur \<in> set seen")
    case True
    then have "set seen \<union> set (cur # stack) = set seen \<union> set stack" by auto
    with 2(1) [OF True 2(4)] 2(5) True show ?thesis by auto
  next
    case new: False
    show ?thesis
    proof (cases "store_get rows cur")
      case None
      have "set (cur # seen) \<union> set stack = set seen \<union> set (cur # stack)" by auto
      moreover have "set (cur # seen) \<inter> known rows = set seen \<inter> known rows" using None by (auto simp: known_def)
      moreover have "\<And>x y. x \<in> set (cur # seen) \<Longrightarrow> (x, y) \<in> report_edge rows \<Longrightarrow> y \<in> set (cur # seen) \<union> set stack"
        using 2(5) None by (auto simp: report_edge_def)
      ultimately show ?thesis using 2(2) [OF new None 2(4)] new None by simp
    next
      case (Some a)
      have id: "ag_id a = cur" "cur \<in> known rows" using 2(4) Some by (auto simp: keyed_agents_def known_def)
      have "\<And>x y. x \<in> set (cur # seen) \<Longrightarrow> (x, y) \<in> report_edge rows \<Longrightarrow>
          y \<in> set (cur # seen) \<union> set (rev (ag_report_agent_ids a) @ stack)"
        using 2(5) Some by (auto simp: report_edge_def)
      note 2(3) [OF new Some 2(4) this]
      moreover have "(report_edge rows)\<^sup>* `` (set (cur # seen) \<union> set (rev (ag_report_agent_ids a) @ stack)) =
          (report_edge rows)\<^sup>* `` (set seen \<union> set (cur # stack))"
        using reach_absorbs [of cur "set seen \<union> set (cur # stack)" "set (ag_report_agent_ids a)" "report_edge rows"] Some
        by (simp add: report_edge_def Un_ac)
      ultimately show ?thesis using new Some id by (simp add: insert_commute Int_insert_left)
    qed
  qed
qed

lemma subtree_reach:
  assumes "keyed_agents (oc_agents oc)"
  shows "ag_id ` set (subtree oc k) = {y. (k, y) \<in> (report_edge (oc_agents oc))\<^sup>* \<and> agent_of oc y \<noteq> None}"
  using subtree_loop_reach [OF assms, of "[]" "[k]"] by (auto simp: subtree_def known_def agent_of_def)

section \<open>What the check decides\<close>

text \<open>What lets an agent hand work to another without standing in for anybody.\<close>

definition ground :: "org_chart \<Rightarrow> int \<Rightarrow> agent \<Rightarrow> string \<Rightarrow> bool" where
  "ground oc day src to \<longleftrightarrow> to \<in> set (ag_report_agent_ids src) \<or> to \<in> set (ag_peer_agent_ids src) \<or>
     (\<exists>g \<in> set (ag_mission_grants src). grant_is_open g day \<and> to \<in> set (gr_peers g)) \<or>
     (\<exists>a \<in> set (subtree oc (ag_id src)). ag_id a = to) \<or>
     (\<exists>dst. agent_of oc to = Some dst \<and> ag_kind dst = KindService)"

inductive may_delegate :: "org_chart \<Rightarrow> int \<Rightarrow> string \<Rightarrow> string \<Rightarrow> bool" for oc day where
  by_ground: "frm \<noteq> to \<Longrightarrow> agent_of oc frm = Some src \<Longrightarrow> is_active src \<Longrightarrow>
     (\<And>b. agent_of oc to = Some b \<Longrightarrow> is_active b) \<Longrightarrow> ground oc day src to \<Longrightarrow> may_delegate oc day frm to"
| by_standing_in: "frm \<noteq> to \<Longrightarrow> agent_of oc frm = Some src \<Longrightarrow> is_active src \<Longrightarrow>
     (\<And>b. agent_of oc to = Some b \<Longrightarrow> is_active b) \<Longrightarrow> a \<in> set (standing_in_as oc frm day) \<Longrightarrow>
     may_delegate oc day (aa_failed_agent_id a) to \<Longrightarrow> may_delegate oc day frm to"

inductive_cases may_delegateE: "may_delegate oc day frm to"

lemma may_delegate_neq: "may_delegate oc day frm to \<Longrightarrow> frm \<noteq> to"
  by (erule may_delegateE) simp_all

lemma open_peers_iff: "to \<in> set (open_peers gs day) \<longleftrightarrow> (\<exists>g \<in> set gs. grant_is_open g day \<and> to \<in> set (gr_peers g))"
  by (auto simp: open_peers_def)

lemma lent_reach_spec:
  assumes "lent_reach check to as = Some b" and "\<And>x c. check x = Some c \<Longrightarrow> c \<longleftrightarrow> P x"
    and "\<not> P to"
  shows "b \<longleftrightarrow> (\<exists>a \<in> set as. P (aa_failed_agent_id a))"
  using assms(1)
proof (induction as)
  case (Cons a as)
  then show ?case using assms(2) [of "aa_failed_agent_id a"] assms(3) by (auto split: if_splits option.splits bool.splits)
qed simp

lemma can_delegate_decides:
  assumes "keyed_agents (oc_agents oc)" and "can_delegate n oc frm to day = Some b"
  shows "b \<longleftrightarrow> may_delegate oc day frm to"
  using assms(2)
proof (induction n arbitrary: frm b)
  case (Suc n)
  let ?lent = "lent_reach (\<lambda>failed. can_delegate n oc failed to day) to (standing_in_as oc frm day)"
  have neq: "\<not> may_delegate oc day to to" using may_delegate_neq by blast
  show ?case
  proof (cases "frm = to")
    case True
    with Suc.prems neq show ?thesis by simp
  next
    case ne: False
    show ?thesis
    proof (cases "\<exists>src. agent_of oc frm = Some src \<and> is_active src \<and> (\<forall>b. agent_of oc to = Some b \<longrightarrow> is_active b)")
      case False
      then have "\<not> may_delegate oc day frm to" by (blast elim: may_delegateE)
      with False Suc.prems ne show ?thesis by (auto split: option.splits if_splits)
    next
      case True
      then obtain src where src: "agent_of oc frm = Some src" "is_active src" "\<forall>b. agent_of oc to = Some b \<longrightarrow> is_active b"
        by blast
      have id: "ag_id src = frm" using src(1) assms(1) by (simp add: keyed_agents_def agent_of_def)
      show ?thesis
      proof (cases "ground oc day src to")
        case True
        then have "may_delegate oc day frm to" using ne src by (blast intro: may_delegate.by_ground)
        with True Suc.prems ne src id show ?thesis
          by (auto simp: ground_def open_peers_iff split: option.splits if_splits)
      next
        case False
        then have "?lent = Some b" using Suc.prems ne src id
          by (auto simp: ground_def open_peers_iff split: option.splits if_splits)
        then have "b \<longleftrightarrow> (\<exists>a \<in> set (standing_in_as oc frm day). may_delegate oc day (aa_failed_agent_id a) to)"
          by (rule lent_reach_spec) (use Suc.IH neq in auto)
        moreover have "may_delegate oc day frm to \<longleftrightarrow>
            (\<exists>a \<in> set (standing_in_as oc frm day). may_delegate oc day (aa_failed_agent_id a) to)"
        proof
          assume "may_delegate oc day frm to"
          then show "\<exists>a \<in> set (standing_in_as oc frm day). may_delegate oc day (aa_failed_agent_id a) to"
            using False src(1) by cases auto
        next
          assume "\<exists>a \<in> set (standing_in_as oc frm day). may_delegate oc day (aa_failed_agent_id a) to"
          then show "may_delegate oc day frm to" using ne src by (blast intro: may_delegate.by_standing_in)
        qed
        ultimately show ?thesis by simp
      qed
    qed
  qed
qed simp

section \<open>Standing in never closes a circle\<close>

text \<open>An edge from whoever stands in to whom they stand in for, on a day.\<close>

definition lends :: "org_chart \<Rightarrow> int \<Rightarrow> (string \<times> string) set" where
  "lends oc day = {(aa_successor_agent_id a, aa_failed_agent_id a) | a.
     a \<in> row_body ` set (oc_acting oc) \<and> assignment_is_open a day}"

lemma standing_in_lends: "a \<in> set (standing_in_as oc frm day) \<Longrightarrow> (frm, aa_failed_agent_id a) \<in> lends oc day"
  using store_list_rows [of a None 2000 0 "oc_acting oc"]
  by (auto simp: standing_in_as_def acting_assignments_def lends_def)

lemma lent_reach_returns: "(\<And>a. a \<in> set as \<Longrightarrow> check (aa_failed_agent_id a) \<noteq> None) \<Longrightarrow> lent_reach check to as \<noteq> None"
proof (induction as)
  case (Cons a as)
  then have "lent_reach check to as \<noteq> None" by simp
  moreover obtain b where "check (aa_failed_agent_id a) = Some b" using Cons.prems [of a] by auto
  ultimately show ?case by (cases b) (simp_all del: not_None_eq)
qed simp

lemma finite_lends: "finite (lends oc day)"
proof -
  have "lends oc day \<subseteq> (\<lambda>a. (aa_successor_agent_id a, aa_failed_agent_id a)) ` (row_body ` set (oc_acting oc))"
    by (auto simp: lends_def)
  then show ?thesis by (rule finite_subset) simp
qed

lemma card_reach_shrinks:
  assumes "acyclic r" and "finite r" and "(x, y) \<in> r"
  shows "card (r\<^sup>+ `` {y}) < card (r\<^sup>+ `` {x})"
proof (rule psubset_card_mono)
  have "r\<^sup>+ `` {x} \<subseteq> Range r" by (auto dest: tranclD2)
  then show "finite (r\<^sup>+ `` {x})" using finite_Range [OF assms(2)] finite_subset by blast
  have "y \<notin> r\<^sup>+ `` {y}" using assms(1) by (simp add: acyclic_def)
  moreover have "y \<in> r\<^sup>+ `` {x}" "r\<^sup>+ `` {y} \<subseteq> r\<^sup>+ `` {x}" using assms(3) by auto
  ultimately show "r\<^sup>+ `` {y} \<subset> r\<^sup>+ `` {x}" by blast
qed

lemma can_delegate_returns:
  assumes "acyclic (lends oc day)" and "card ((lends oc day)\<^sup>+ `` {frm}) < n"
  shows "can_delegate n oc frm to day \<noteq> None"
  using assms(2)
proof (induction n arbitrary: frm)
  case (Suc n)
  have "can_delegate n oc (aa_failed_agent_id a) to day \<noteq> None" if "a \<in> set (standing_in_as oc frm day)" for a
    using Suc.IH card_reach_shrinks [OF assms(1) finite_lends standing_in_lends [OF that]] Suc.prems by simp
  then have "lent_reach (\<lambda>failed. can_delegate n oc failed to day) to (standing_in_as oc frm day) \<noteq> None"
    by (rule lent_reach_returns)
  then show ?case by (auto split: option.split simp del: not_None_eq)
qed simp

lemma card_reach_rows: "card ((lends oc day)\<^sup>+ `` {frm}) \<le> length (oc_acting oc)"
proof -
  have "(lends oc day)\<^sup>+ `` {frm} \<subseteq> Range (lends oc day)" by (auto dest: tranclD2)
  also have "\<dots> \<subseteq> aa_failed_agent_id ` row_body ` set (oc_acting oc)" by (auto simp: lends_def)
  finally have "card ((lends oc day)\<^sup>+ `` {frm}) \<le> card (aa_failed_agent_id ` row_body ` set (oc_acting oc))"
    by (intro card_mono) simp
  also have "\<dots> \<le> length (oc_acting oc)" using card_image_le card_length by (metis List.finite_set image_image le_trans)
  finally show ?thesis .
qed

text \<open>A run of the chart: its operations, and days that pass. A new assignment has an unused id.\<close>

inductive chart_step :: "org_chart \<times> int \<Rightarrow> org_chart \<times> int \<Rightarrow> bool" where
  unit_added: "chart_step (oc, d) (add_unit now u oc, d)"
| agent_added: "add_agent now a oc = Inr (oc', a') \<Longrightarrow> chart_step (oc, d) (oc', d)"
| stood_in: "store_get (oc_acting oc) fresh = None \<Longrightarrow>
    stand_in_for fresh now d k separations reason ends_on adopted oc = (oc', res) \<Longrightarrow> chart_step (oc, d) (oc', d)"
| closed: "chart_step (oc, d) (fst (close_standing_in now k oc), d)"
| left: "chart_step (oc, d) (fst (decommission now d k reason oc), d)"
| night: "d \<le> d' \<Longrightarrow> chart_step (oc, d) (oc, d')"

text \<open>What the operations do to the rows of assignments: only closing and a new one.\<close>

definition only_closes :: "acting_assignment docs \<Rightarrow> acting_assignment docs \<Rightarrow> bool" where
  "only_closes rows rows' \<longleftrightarrow> length rows \<le> length rows' \<and>
     (\<forall>a \<in> row_body ` set rows'. a \<in> row_body ` set rows \<or>
        aa_status a \<noteq> ''active'' \<and> (\<exists>b \<in> row_body ` set rows. aa_starts_on a = aa_starts_on b))"

lemma only_closes_refl: "only_closes rows rows"
  by (simp add: only_closes_def)

lemma only_closes_trans: "only_closes r1 r2 \<Longrightarrow> only_closes r2 r3 \<Longrightarrow> only_closes r1 r3"
proof -
  assume a: "only_closes r1 r2" "only_closes r2 r3"
  have "x \<in> row_body ` set r1 \<or> aa_status x \<noteq> ''active'' \<and> (\<exists>b \<in> row_body ` set r1. aa_starts_on x = aa_starts_on b)"
    if "x \<in> row_body ` set r3" for x
  proof (cases "x \<in> row_body ` set r2")
    case True
    with a(1) show ?thesis unfolding only_closes_def by blast
  next
    case False
    with a(2) that obtain b where b: "aa_status x \<noteq> ''active''" "b \<in> row_body ` set r2" "aa_starts_on x = aa_starts_on b"
      unfolding only_closes_def by blast
    from a(1) b(2) have "b \<in> row_body ` set r1 \<or> (\<exists>c \<in> row_body ` set r1. aa_starts_on b = aa_starts_on c)"
      unfolding only_closes_def by blast
    with b show ?thesis by metis
  qed
  with a show ?thesis unfolding only_closes_def by (meson le_trans)
qed

lemma put_rows: "row_body ` set (store_put now k x p n rows) \<subseteq> insert x (row_body ` set rows)"
  by (auto simp: store_put_def Let_def)

lemma put_length: "length rows \<le> length (store_put now k x p n rows)"
  by (simp add: store_put_def Let_def)

lemma put_closed:
  assumes "only_closes r0 rows" and "b \<in> row_body ` set r0"
  shows "only_closes r0 (store_put now k (b\<lparr>aa_status := ''closed''\<rparr>) p n rows)"
  unfolding only_closes_def
proof (intro conjI ballI)
  show "length r0 \<le> length (store_put now k (b\<lparr>aa_status := ''closed''\<rparr>) p n rows)"
    using assms(1) put_length [of rows] unfolding only_closes_def by (meson le_trans)
  fix a assume "a \<in> row_body ` set (store_put now k (b\<lparr>aa_status := ''closed''\<rparr>) p n rows)"
  with put_rows [of now k "b\<lparr>aa_status := ''closed''\<rparr>" p n rows]
  consider "a = b\<lparr>aa_status := ''closed''\<rparr>" | "a \<in> row_body ` set rows" by blast
  then show "a \<in> row_body ` set r0 \<or> aa_status a \<noteq> ''active'' \<and> (\<exists>b \<in> row_body ` set r0. aa_starts_on a = aa_starts_on b)"
  proof cases
    case 1
    then show ?thesis using assms(2) by auto
  next
    case 2
    then show ?thesis using assms(1) unfolding only_closes_def by blast
  qed
qed

lemma close_loop_closes:
  assumes "only_closes r0 (oc_acting oc)" and "set as \<subseteq> row_body ` set r0"
  shows "only_closes r0 (oc_acting (fst (close_loop now failed as oc)))"
  using assms
proof (induction as arbitrary: oc)
  case (Cons a as)
  have "only_closes r0 (oc_acting (put_assignment now failed (a\<lparr>aa_status := ''closed''\<rparr>) oc))"
    unfolding put_assignment_def using put_closed [OF Cons.prems(1), of a] Cons.prems(2) by simp
  from Cons.IH [OF this] Cons.IH [OF Cons.prems(1)] Cons.prems(2) show ?case by (simp add: case_prod_beta)
qed simp

lemma acting_assignments_rows: "set (acting_assignments oc) \<subseteq> row_body ` set (oc_acting oc)"
  by (auto simp: acting_assignments_def dest!: store_list_rows)

lemma close_standing_in_closes: "only_closes (oc_acting oc) (oc_acting (fst (close_standing_in now k oc)))"
  unfolding close_standing_in_def
  by (rule close_loop_closes [OF only_closes_refl acting_assignments_rows])

lemma decommission_closes: "only_closes (oc_acting oc) (oc_acting (fst (decommission now d k reason oc)))"
proof -
  have cs: "only_closes (oc_acting oc) (oc_acting (fold (\<lambda>failed oc. fst (close_standing_in now failed oc)) ks oc))" for ks oc
    by (induction ks arbitrary: oc) (auto intro: only_closes_refl only_closes_trans [OF close_standing_in_closes])
  show ?thesis
  proof (cases "agent_of oc k")
    case (Some a)
    show ?thesis
    proof (cases "is_active a")
      case True
      have "oc_acting (fst (decommission now d k reason oc)) =
          oc_acting (fst (close_standing_in now k (fold (\<lambda>failed oc. fst (close_standing_in now failed oc))
            (map aa_failed_agent_id (standing_in_as oc k d)) oc)))"
        using Some True by (simp add: decommission_def Let_def put_agent_def case_prod_beta)
      then show ?thesis using only_closes_trans [OF cs close_standing_in_closes] by metis
    qed (simp add: decommission_def Some only_closes_refl)
  qed (simp add: decommission_def only_closes_refl)
qed

definition circle_free :: "org_chart \<times> int \<Rightarrow> bool" where
  "circle_free s \<longleftrightarrow> (\<forall>a \<in> row_body ` set (oc_acting (fst s)). aa_starts_on a = NoDate) \<and>
     (length (oc_acting (fst s)) \<le> 2000 \<longrightarrow> acyclic (lends (fst s) (snd s)))"

lemma closing_keeps:
  assumes "only_closes (oc_acting oc) (oc_acting oc')" and "circle_free (oc, d)"
  shows "circle_free (oc', d)"
proof -
  have old: "a \<in> row_body ` set (oc_acting oc) \<or>
      aa_status a \<noteq> ''active'' \<and> (\<exists>b \<in> row_body ` set (oc_acting oc). aa_starts_on a = aa_starts_on b)"
    if "a \<in> row_body ` set (oc_acting oc')" for a
    using assms(1) that unfolding only_closes_def by blast
  have still: "a \<in> row_body ` set (oc_acting oc)"
    if "a \<in> row_body ` set (oc_acting oc')" "assignment_is_open a d" for a
    using old [OF that(1)] that(2) by (auto simp only: assignment_is_open_def split: if_splits)
  have "lends oc' d \<subseteq> lends oc d"
    unfolding lends_def using still by blast
  then have "acyclic (lends oc' d)" if "acyclic (lends oc d)" using that by (rule acyclic_subset [rotated])
  moreover have "aa_starts_on a = NoDate" if "a \<in> row_body ` set (oc_acting oc')" for a
    using old [OF that] assms(2) by (auto simp: circle_free_def)
  moreover have "length (oc_acting oc) \<le> length (oc_acting oc')" using assms(1) by (simp add: only_closes_def)
  ultimately show ?thesis using assms(2) by (simp add: circle_free_def)
qed

lemma open_assignment_new:
  "aa_starts_on (open_assignment fresh now today f s lm sm rules h reason e) = NoDate"
  "aa_failed_agent_id (open_assignment fresh now today f s lm sm rules h reason e) = f"
  "aa_successor_agent_id (open_assignment fresh now today f s lm sm rules h reason e) = s"
  by (simp_all add: open_assignment_def case_prod_beta)

lemma stand_in_cases:
  assumes "stand_in_for fresh now d k separations reason ends_on adopted oc = (oc', res)"
  obtains "oc' = oc" | F S a where "oc' = put_assignment now F a oc" and "aa_starts_on a = NoDate"
    and "aa_failed_agent_id a = F" and "aa_successor_agent_id a = S" and "S \<noteq> F" and "acting_for oc S d = None"
  using assms
  by (auto simp: stand_in_for_def Let_def open_assignment_new split: option.splits if_splits)

lemma standing_in_keeps:
  assumes "stand_in_for fresh now d k separations reason ends_on adopted oc = (oc', res)" and "circle_free (oc, d)"
  shows "circle_free (oc', d)"
  using assms(1)
proof (cases rule: stand_in_cases)
  case 1
  with assms(2) show ?thesis by simp
next
  case (2 F S a)
  have rows: "row_body ` set (oc_acting oc') \<subseteq> insert a (row_body ` set (oc_acting oc))"
    using put_rows by (simp add: 2(1) put_assignment_def)
  have len: "length (oc_acting oc) \<le> length (oc_acting oc')" using put_length by (simp add: 2(1) put_assignment_def)
  have "acyclic (lends oc' d)" if "length (oc_acting oc') \<le> 2000"
  proof -
    have small: "length (oc_acting oc) \<le> 2000" using that len by simp
    have all: "set (acting_assignments oc) = row_body ` set (oc_acting oc)"
      unfolding acting_assignments_def by (rule store_list_all [OF small])
    have "(x, S) \<notin> lends oc d" for x
      using 2(6) all by (auto simp: acting_for_def lends_def find_None_iff')
    then have "(F, S) \<notin> (lends oc d)\<^sup>*" using 2(5) by (auto elim: rtranclE)
    then have "acyclic (insert (S, F) (lends oc d))"
      using assms(2) small by (simp add: circle_free_def acyclic_insert)
    moreover have "lends oc' d \<subseteq> insert (S, F) (lends oc d)" using rows 2(3,4) by (auto simp: lends_def)
    ultimately show ?thesis by (rule acyclic_subset)
  qed
  with rows 2(2) assms(2) show ?thesis unfolding circle_free_def by auto
qed

lemma night_keeps: "circle_free (oc, d) \<Longrightarrow> d \<le> d' \<Longrightarrow> circle_free (oc, d')"
proof -
  assume free: "circle_free (oc, d)" and "d \<le> d'"
  have "assignment_is_open a d" if "a \<in> row_body ` set (oc_acting oc)" "assignment_is_open a d'" for a
  proof -
    have "aa_starts_on a = NoDate" using free that(1) by (auto simp: circle_free_def)
    then show ?thesis using that(2) \<open>d \<le> d'\<close> by (auto simp: assignment_is_open_def window_open_iff split: if_splits)
  qed
  then have "lends oc d' \<subseteq> lends oc d" unfolding lends_def by blast
  with free show ?thesis by (auto simp: circle_free_def intro: acyclic_subset)
qed

lemma add_agent_acting: "add_agent now a oc = Inr (oc', a') \<Longrightarrow> oc_acting oc' = oc_acting oc"
  by (auto simp: add_agent_def ebind_eq_Inr put_agent_def Let_def split: option.splits if_splits)

lemma chart_step_keeps: "chart_step s s' \<Longrightarrow> circle_free s \<Longrightarrow> circle_free s'"
proof (induction rule: chart_step.induct)
  case (unit_added oc d now u)
  then show ?case by (rule closing_keeps [rotated]) (simp add: add_unit_def only_closes_refl)
next
  case (agent_added now a oc oc' a' d)
  show ?case by (rule closing_keeps [OF _ agent_added(2)]) (simp add: add_agent_acting [OF agent_added(1)] only_closes_refl)
qed (auto intro: standing_in_keeps closing_keeps close_standing_in_closes decommission_closes night_keeps)

definition empty_chart :: "separation list \<Rightarrow> org_chart" where
  "empty_chart rules = \<lparr>oc_units = [], oc_agents = [], oc_acting = [], oc_separations = rules\<rparr>"

lemma chart_run_circle_free:
  assumes "chart_step\<^sup>*\<^sup>* (empty_chart rules, d0) s"
  shows "circle_free s"
  using assms
proof (induction rule: rtranclp_induct)
  case base
  have "acyclic {}" by (simp add: acyclic_def)
  then show ?case by (simp add: circle_free_def empty_chart_def lends_def)
next
  case (step s s')
  then show ?case using chart_step_keeps by blast
qed

section \<open>Agents stay under their own key\<close>

lemma put_agent_keyed: "keyed_agents (oc_agents oc) \<Longrightarrow> keyed_agents (oc_agents (put_agent now a oc))"
  by (simp add: keyed_agents_def put_agent_def store_get_put)

lemma add_agent_keyed: "add_agent now a oc = Inr (oc', a') \<Longrightarrow> keyed_agents (oc_agents oc) \<Longrightarrow> keyed_agents (oc_agents oc')"
  by (auto simp: add_agent_def ebind_eq_Inr Let_def put_agent_keyed split: option.splits if_splits)

lemma close_loop_agents: "oc_agents (fst (close_loop now failed as oc)) = oc_agents oc"
  by (induction as arbitrary: oc) (simp_all add: case_prod_beta put_assignment_def)

lemma close_standing_in_agents: "oc_agents (fst (close_standing_in now failed oc)) = oc_agents oc"
  by (simp add: close_standing_in_def close_loop_agents)

lemma close_many_agents:
  "oc_agents (fold (\<lambda>failed oc. fst (close_standing_in now failed oc)) ks oc) = oc_agents oc"
  by (induction ks arbitrary: oc) (simp_all add: close_standing_in_agents)

lemma decommission_agents:
  "oc_agents (fst (decommission now d k reason oc)) =
     (case agent_of oc k of
        None \<Rightarrow> oc_agents oc
      | Some a \<Rightarrow> if is_active a
          then store_put now (ag_id a) (a\<lparr>ag_decommissioned_at := Some now,
                 ag_decommission_reason := (if reason \<noteq> [] then reason else ''left the organization'')\<rparr>)
                 (ag_org_unit_id a) (Some (ag_name a)) (oc_agents oc)
          else oc_agents oc)"
  by (simp add: decommission_def Let_def put_agent_def case_prod_beta close_standing_in_agents close_many_agents
      split: option.split)

lemma chart_step_keyed: "chart_step s s' \<Longrightarrow> keyed_agents (oc_agents (fst s)) \<Longrightarrow> keyed_agents (oc_agents (fst s'))"
proof (induction rule: chart_step.induct)
  case (stood_in oc fresh now d k separations reason ends_on adopted oc' res)
  from stood_in(2) have "oc_agents oc' = oc_agents oc"
    by (cases rule: stand_in_cases) (simp_all add: put_assignment_def)
  with stood_in show ?case by simp
next
  case (left oc d now k reason)
  then show ?case by (auto simp: decommission_agents keyed_agents_def store_get_put split: option.split)
qed (auto simp: add_unit_def close_standing_in_agents dest: add_agent_keyed)

lemma chart_run_keyed:
  assumes "chart_step\<^sup>*\<^sup>* (empty_chart rules, d0) s"
  shows "keyed_agents (oc_agents (fst s))"
  using assms
proof (induction rule: rtranclp_induct)
  case base
  show ?case by (simp add: keyed_agents_def empty_chart_def store_get_def)
next
  case (step s s')
  then show ?case using chart_step_keyed by blast
qed


section \<open>A chart\<close>

definition plain_agent :: "string \<Rightarrow> string option \<Rightarrow> agent" where
  "plain_agent k m = \<lparr>ag_id = k, ag_name = k, ag_kind = KindIndividual, ag_org_unit_id = None, ag_manager_agent_id = m,
     ag_report_agent_ids = [], ag_peer_agent_ids = [], ag_mission_grants = [], ag_decommissioned_at = None,
     ag_decommission_reason = [], ag_successor_agent_id = None, ag_mandate = [], ag_groups = []\<rparr>"

definition with_agents :: "agent list \<Rightarrow> org_chart \<Rightarrow> org_chart" where
  "with_agents as oc = fold (\<lambda>a oc. case add_agent 0 a oc of Inl e \<Rightarrow> oc | Inr (oc', a') \<Rightarrow> oc') as oc"

lemma with_agents_run: "chart_step\<^sup>*\<^sup>* (oc, d) (with_agents as oc, d)"
proof (induction as arbitrary: oc)
  case (Cons a as)
  have "chart_step\<^sup>*\<^sup>* (oc, d) (case add_agent 0 a oc of Inl e \<Rightarrow> oc | Inr (oc', a') \<Rightarrow> oc', d)"
    by (cases "add_agent 0 a oc") (auto intro: chart_step.agent_added)
  with Cons show ?case by (simp add: with_agents_def) (meson rtranclp_trans)
qed (simp add: with_agents_def)

text \<open>\<open>ceo\<close> over \<open>cfo\<close>, who leads \<open>clerk\<close>; \<open>coo\<close> stands in for \<open>cfo\<close>.\<close>

definition example_agents :: "agent list" where
  "example_agents = [plain_agent ''ceo'' None, (plain_agent ''cfo'' (Some ''ceo''))\<lparr>ag_successor_agent_id := Some ''coo''\<rparr>,
     plain_agent ''coo'' (Some ''ceo''), plain_agent ''clerk'' (Some ''cfo'')]"

definition example_chart :: org_chart where
  "example_chart = fst (stand_in_for ''a1'' 0 10 ''cfo'' None ''ill'' NoDate [] (with_agents example_agents (empty_chart [])))"

lemma example_chart_run: "chart_step\<^sup>*\<^sup>* (empty_chart [], 10) (example_chart, 10)"
proof -
  have "store_get (oc_acting (with_agents example_agents (empty_chart []))) ''a1'' = None"
    by code_simp
  then have "chart_step (with_agents example_agents (empty_chart []), 10) (example_chart, 10)"
    by (rule chart_step.stood_in [where res = "snd (stand_in_for ''a1'' 0 10 ''cfo'' None ''ill'' NoDate []
        (with_agents example_agents (empty_chart [])))"]) (simp add: example_chart_def)
  then show ?thesis using with_agents_run by (rule rtranclp.rtrancl_into_rtrancl [rotated])
qed


section \<open>Where the chart promises more than it keeps\<close>

definition stood :: "string \<Rightarrow> int \<Rightarrow> string \<Rightarrow> org_chart \<Rightarrow> org_chart" where
  "stood fresh d k oc = fst (stand_in_for fresh 0 d k None ''ill'' NoDate [] oc)"

text \<open>The rule against chains is checked for the successor only: opened in the other order, a chain stands.\<close>

definition chain_agents :: "agent list" where
  "chain_agents = [plain_agent ''c'' None, (plain_agent ''b'' None)\<lparr>ag_successor_agent_id := Some ''c''\<rparr>,
     (plain_agent ''a'' None)\<lparr>ag_successor_agent_id := Some ''b''\<rparr>, plain_agent ''x'' (Some ''a'')]"

lemma standing_in_chains:
  "can_delegate 3 (stood ''2'' 10 ''b'' (stood ''1'' 10 ''a'' (with_agents chain_agents (empty_chart []))))
     ''c'' ''x'' 10 = Some True"
  "snd (stand_in_for ''2'' 0 10 ''a'' None ''ill'' NoDate [] (stood ''1'' 10 ''b'' (with_agents chain_agents (empty_chart [])))) = None"
  by code_simp+

text \<open>What the successor already covers is not counted: two leaders' decisions meet in one stand-in.\<close>

definition two_leaders :: "agent list" where
  "two_leaders = [plain_agent ''s'' None,
     (plain_agent ''a'' None)\<lparr>ag_successor_agent_id := Some ''s'', ag_mandate := [''approve'']\<rparr>,
     (plain_agent ''b'' None)\<lparr>ag_successor_agent_id := Some ''s'', ag_mandate := [''pay'']\<rparr>]"

definition pay_or_approve :: separation where
  "pay_or_approve = \<lparr>sp_id = ''sod'', sp_reason = ''four eyes'', sp_decisions = [''approve'', ''pay'']\<rparr>"

lemma two_covers_complete_a_separation:
  "map aa_decisions (standing_in_as (stood ''2'' 10 ''b'' (stood ''1'' 10 ''a'' (with_agents two_leaders (empty_chart [pay_or_approve])))) ''s'' 10) =
     [[''approve''], [''pay'']]"
  by code_simp

text \<open>Moving an agent to another manager leaves it among the reports of the first.\<close>

lemma moved_agent_keeps_its_old_edge:
  "map_option ag_report_agent_ids (agent_of (with_agents [plain_agent ''m'' None, plain_agent ''n'' None,
     plain_agent ''x'' (Some ''m''), plain_agent ''x'' (Some ''n'')] (empty_chart [])) ''m'') = Some [''x'']"
  "can_delegate 1 (with_agents [plain_agent ''m'' None, plain_agent ''n'' None,
     plain_agent ''x'' (Some ''m''), plain_agent ''x'' (Some ''n'')] (empty_chart [])) ''m'' ''x'' 0 = Some True"
  by code_simp+

text \<open>A successor that has left is still made to stand in, and is then the holder of the decision.\<close>

definition left_successor :: org_chart where
  "left_successor = stood ''1'' 10 ''a'' (fst (decommission 0 10 ''s'' [] (with_agents two_leaders (empty_chart []))))"

lemma departed_successor_holds_the_mandate:
  "map_option (\<lambda>a. (ag_id a, is_active a)) (mandate_holder left_successor 10 ''a'' ''approve'') = Some (''s'', False)"
  by code_simp

text \<open>
  Asked for a day in the past, the check looks at the end of an assignment only. Two agents that covered
  each other in turn then both count, and the recursion does not end.
\<close>

definition took_turns :: org_chart where
  "took_turns = stood ''2'' 30 ''b'' (stood ''1'' 10 ''a'' (with_agents
     [(plain_agent ''a'' None)\<lparr>ag_successor_agent_id := Some ''b''\<rparr>, (plain_agent ''b'' None)\<lparr>ag_successor_agent_id := Some ''a''\<rparr>]
     (empty_chart [])))"

lemma past_day_does_not_return: "can_delegate n took_turns ''a'' ''x'' 10 = None \<and> can_delegate n took_turns ''b'' ''x'' 10 = None"
proof (induction n)
  case (Suc n)
  have a: "agent_of took_turns ''a'' = Some ((plain_agent ''a'' None)\<lparr>ag_successor_agent_id := Some ''b''\<rparr>)"
    "agent_of took_turns ''b'' = Some ((plain_agent ''b'' None)\<lparr>ag_successor_agent_id := Some ''a''\<rparr>)"
    "agent_of took_turns ''x'' = None"
    by code_simp+
  have s: "map aa_failed_agent_id (standing_in_as took_turns ''a'' 10) = [''b'']"
    "map aa_failed_agent_id (standing_in_as took_turns ''b'' 10) = [''a'']"
    "map ag_id (subtree took_turns ''a'') = [''a'']" "map ag_id (subtree took_turns ''b'') = [''b'']"
    by code_simp+
  have sub: "\<not> (\<exists>a \<in> set (subtree took_turns ''a''). ag_id a = ''x'')" "\<not> (\<exists>a \<in> set (subtree took_turns ''b''). ag_id a = ''x'')"
    using s(3,4) by (auto simp: map_eq_Cons_conv)
  have lent: "lent_reach check ''x'' as = (case check k of None \<Rightarrow> None | Some True \<Rightarrow> Some True | Some False \<Rightarrow> Some False)"
    if "map aa_failed_agent_id as = [k]" "k \<noteq> ''x''" for check k as
    using that by (auto simp: map_eq_Cons_conv split: option.split bool.split)
  show ?case
    using Suc.IH a sub lent [OF s(1)] lent [OF s(2)]
    by (simp add: plain_agent_def is_active_def open_peers_def)
qed simp

end
