(* ===== verification/Placements.thy ===== *)
theory Placements
  imports Mandates
begin

text \<open>
  Placement (\<open>placements.py\<close>): which sandbox environment every agent's work lives in, what the
  volume of one may carry, and the network rules between them; and the checks over the result
  (\<open>spec/validation/placement.py\<close>). Of a specification the model keeps the fields these read.
  The code's frozen sets and sorted tuples are lists; the rules are collected in the order of the calls
  of \<open>permit\<close>, as pairs of agents with what permits the pair.
\<close>

section \<open>The organization\<close>

record place_agent =
  pa_id :: string
  pa_peers :: "string list"
  pa_environments :: "string list"
  pa_shared_service :: bool

datatype place_team = PlaceTeam (pt_id: string) (pt_leader: string) (pt_groups: "string list")
  (pt_placement: bool) (pt_members: "place_agent list") (pt_teams: "place_team list")

record data_class =
  dc_id :: string
  dc_scope :: string
  dc_groups :: "string list"

record interaction_flow =
  fl_source :: string
  fl_target :: string
  fl_kind :: string

record channel_spec =
  ch_id :: string
  ch_members :: "string list"

record place_spec =
  ps_organization :: place_team
  ps_data_classes :: "data_class list"
  ps_flows :: "interaction_flow list"
  ps_channels :: "channel_spec list"

fun team_walk :: "place_team \<Rightarrow> place_team list" where
  "team_walk (PlaceTeam k l gs b ms ts) = PlaceTeam k l gs b ms ts # concat (map team_walk ts)"

definition spec_teams :: "place_spec \<Rightarrow> place_team list" where
  "spec_teams sp = team_walk (ps_organization sp)"

text \<open>\<open>{t.id: t for t in teams}\<close>: of two teams with one id the later is found.\<close>

definition by_id :: "place_team list \<Rightarrow> string \<Rightarrow> place_team option" where
  "by_id ts k = List.find (\<lambda>t. pt_id t = k) (rev ts)"

section \<open>Placements\<close>

definition placement_id :: "string \<Rightarrow> string \<Rightarrow> string" where
  "placement_id unit_id environment = unit_id @ ''--'' @ environment"

record placement =
  pl_id :: string
  pl_unit :: string
  pl_environment :: string
  pl_agents :: "string list"
  pl_groups :: "string list"
  pl_data_classes :: "string list"

record placement_rule =
  ru_source :: string
  ru_target :: string
  ru_via :: string
  ru_reason :: string

record placement_map =
  pm_placements :: "(string \<times> placement) list"
  pm_home :: "(string \<times> string list) list"
  pm_boundary :: "(string \<times> string) list"
  pm_rules :: "placement_rule list"
  pm_declared :: "string list"

definition shares_a_volume :: "placement \<Rightarrow> bool" where
  "shares_a_volume p \<longleftrightarrow> length (pl_agents p) > 1"

definition homes :: "placement_map \<Rightarrow> string \<Rightarrow> string list" where
  "homes m a = dict_get (pm_home m) a []"

definition placements_of :: "placement_map \<Rightarrow> string \<Rightarrow> placement list" where
  "placements_of m a = List.map_filter (map_of (pm_placements m)) (homes m a)"

text \<open>One loop over the agents of the agent's placements; \<open>add_new\<close> is the guarded append.\<close>

definition add_new :: "'a \<Rightarrow> 'a list \<Rightarrow> 'a list" where
  "add_new x out = (if x \<in> set out then out else out @ [x])"

definition co_resident :: "placement_map \<Rightarrow> string \<Rightarrow> string list" where
  "co_resident m a = fold (\<lambda>other out. if other \<noteq> a then add_new other out else out)
     (concat (map pl_agents (placements_of m a))) []"

definition same_placement :: "placement_map \<Rightarrow> string \<Rightarrow> string \<Rightarrow> bool" where
  "same_placement m one other \<longleftrightarrow> (\<exists>p \<in> set (homes m one). p \<in> set (homes m other))"

definition permits :: "placement_map \<Rightarrow> string \<Rightarrow> string \<Rightarrow> bool" where
  "permits m source target \<longleftrightarrow>
     (if map_of (pm_home m) source = None \<or> map_of (pm_home m) target = None then False
      else if same_placement m source target then True
      else (\<exists>src \<in> set (homes m source). \<exists>dst \<in> set (homes m target). \<exists>r \<in> set (pm_rules m).
              ru_source r = src \<and> ru_target r = dst))"

section \<open>Resolving\<close>

text \<open>The boundary of every team, and the units declared as boundaries so far.\<close>

fun place_walk :: "place_team \<Rightarrow> string \<Rightarrow> (string \<times> string) list \<times> string list \<Rightarrow> (string \<times> string) list \<times> string list" where
  "place_walk (PlaceTeam k l gs b ms ts) inherited (boundary, declared) =
     (let unit = (if b then k else inherited);
          declared' = (if b then add_new unit declared else declared)
      in fold (\<lambda>c acc. place_walk c unit acc) ts (AList.update k unit boundary, declared'))"

declare place_walk.simps [simp del]

text \<open>\<open>parent[child.id] = team.id\<close> over all teams.\<close>

definition parent_of :: "place_team list \<Rightarrow> string \<Rightarrow> string option" where
  "parent_of ts k = map_option fst (List.find (\<lambda>(p, c). c = k)
     (rev (concat (map (\<lambda>t. map (\<lambda>c. (pt_id t, pt_id c)) (pt_teams t)) ts))))"

lemma by_id_mem: "by_id ts k = Some t \<Longrightarrow> t \<in> set ts \<and> pt_id t = k"
  by (auto simp: by_id_def dest: find_SomeD)

lemma unseen_teams_shrink:
  assumes "by_id ts k = Some t" and "k \<notin> set seen"
  shows "card (pt_id ` set ts - set (k # seen)) < card (pt_id ` set ts - set seen)"
  using assms by_id_mem [OF assms(1)] by (intro psubset_card_mono) auto

function group_line :: "place_team list \<Rightarrow> string list \<Rightarrow> string option \<Rightarrow> string list \<Rightarrow> string list" where
  "group_line ts seen current groups =
     (case current of
        None \<Rightarrow> groups
      | Some k \<Rightarrow>
          if k = [] \<or> k \<in> set seen then groups
          else (case by_id ts k of
                  None \<Rightarrow> groups
                | Some t \<Rightarrow> group_line ts (k # seen) (parent_of ts k) (fold add_new (pt_groups t) groups)))"
  by pat_completeness auto

termination
  by (relation "measure (\<lambda>(ts, seen, current, groups). card (pt_id ` set ts - set seen))")
    (simp_all add: unseen_teams_shrink del: set_simps)

declare group_line.simps [simp del]

definition unit_line_groups :: "place_spec \<Rightarrow> string \<Rightarrow> string list" where
  "unit_line_groups sp unit_id = group_line (spec_teams sp) [] (Some unit_id) []"

type_synonym membership = "((string \<times> string) \<times> string list) list \<times> (string \<times> string list) list"

definition dict_push :: "'k \<Rightarrow> 'v \<Rightarrow> ('k \<times> 'v list) list \<Rightarrow> ('k \<times> 'v list) list" where
  "dict_push k x d = AList.update k (dict_get d k [] @ [x]) d"

definition place_agent_in :: "string \<Rightarrow> place_agent \<Rightarrow> membership \<Rightarrow> membership" where
  "place_agent_in unit a =
     fold (\<lambda>e (members, home). (dict_push (unit, e) (pa_id a) members, dict_push (pa_id a) (placement_id unit e) home))
       (pa_environments a)"

definition place_members :: "place_spec \<Rightarrow> (string \<times> string) list \<Rightarrow> membership" where
  "place_members sp boundary =
     fold (\<lambda>t. fold (place_agent_in (dict_get boundary (pt_id t) (pt_id (ps_organization sp)))) (pt_members t))
       (spec_teams sp) ([], [])"

definition carried :: "place_spec \<Rightarrow> string list \<Rightarrow> string list" where
  "carried sp groups = sort (map dc_id (filter (\<lambda>dc. dc_scope dc = ''protected'' \<and> (\<exists>g \<in> set (dc_groups dc). g \<in> set groups))
     (ps_data_classes sp)))"

definition made_placement :: "place_spec \<Rightarrow> (string \<times> string) \<times> string list \<Rightarrow> placement" where
  "made_placement sp = (\<lambda>((unit, e), members).
     (let groups = unit_line_groups sp unit
      in \<lparr>pl_id = placement_id unit e, pl_unit = unit, pl_environment = e, pl_agents = sort members,
          pl_groups = groups, pl_data_classes = carried sp groups\<rparr>))"

section \<open>The network rules\<close>

text \<open>\<open>permit(a, b, via, reason)\<close>, over every pair of their placements.\<close>

type_synonym found_rules = "((string \<times> string) \<times> placement_rule) list"

definition permit_one :: "string \<Rightarrow> string \<Rightarrow> string \<Rightarrow> string \<Rightarrow> found_rules \<Rightarrow> found_rules" where
  "permit_one via reason ha hb found =
     (if ha = hb then found
      else dict_setdefault (ha, hb) \<lparr>ru_source = ha, ru_target = hb, ru_via = via, ru_reason = reason\<rparr> found)"

type_synonym request = "string \<times> string \<times> string \<times> string"

definition permit :: "placement_map \<Rightarrow> request \<Rightarrow> found_rules \<Rightarrow> found_rules" where
  "permit m = (\<lambda>(a, b, via, reason). fold (\<lambda>ha. fold (\<lambda>hb. permit_one via reason ha hb) (homes m b)) (homes m a))"

definition peer_requests :: "place_spec \<Rightarrow> request list" where
  "peer_requests sp = concat (map (\<lambda>t. concat (map (\<lambda>a. concat (map (\<lambda>p.
     [(pa_id a, p, ''peer:'' @ pa_id a, ''a declared peer link''), (p, pa_id a, ''peer:'' @ pa_id a, ''a declared peer link'')])
     (pa_peers a))) (pt_members t))) (spec_teams sp))"

definition flow_requests :: "place_spec \<Rightarrow> request list" where
  "flow_requests sp = map (\<lambda>f. (fl_source f, fl_target f, ''flow:'' @ fl_source f @ ''->'' @ fl_target f,
     ''a declared '' @ fl_kind f @ '' flow'')) (ps_flows sp)"

text \<open>The stack of \<open>beneath\<close>, top first.\<close>

function beneath_loop :: "place_team list \<Rightarrow> string list \<Rightarrow> string list \<Rightarrow> string list" where
  "beneath_loop ts seen [] = []"
| "beneath_loop ts seen (current # stack) =
     (if current \<in> set seen then beneath_loop ts seen stack
      else (case by_id ts current of
              None \<Rightarrow> beneath_loop ts (current # seen) stack
            | Some t \<Rightarrow> map pa_id (pt_members t) @
                beneath_loop ts (current # seen) (rev (map pt_id (pt_teams t)) @ stack)))"
  by pat_completeness auto

termination
proof (relation "measures [\<lambda>(ts, seen, stack). card (pt_id ` set ts - set seen), \<lambda>(ts, seen, stack). length stack]", goal_cases)
  case (3 ts seen current stack)
  have "card (pt_id ` set ts - set (current # seen)) \<le> card (pt_id ` set ts - set seen)"
    by (intro card_mono) auto
  then show ?case by (auto simp del: set_simps)
next
  case (4 ts seen current stack t)
  then show ?case by (simp add: unseen_teams_shrink del: set_simps)
qed simp_all

definition beneath :: "place_spec \<Rightarrow> string \<Rightarrow> string list" where
  "beneath sp k = beneath_loop (spec_teams sp) [] [k]"

definition leader_requests :: "place_spec \<Rightarrow> request list" where
  "leader_requests sp = concat (map (\<lambda>t.
     if pt_leader t = [] then []
     else concat (map (\<lambda>target.
       if target = pt_leader t then []
       else [(pt_leader t, target, ''leads:'' @ pt_id t, ''the manager chain''),
             (target, pt_leader t, ''leads:'' @ pt_id t, ''the manager chain'')]) (beneath sp (pt_id t))))
     (spec_teams sp))"

definition all_agents :: "place_spec \<Rightarrow> place_agent list" where
  "all_agents sp = concat (map pt_members (spec_teams sp))"

definition services :: "place_spec \<Rightarrow> string list" where
  "services sp = map pa_id (filter pa_shared_service (all_agents sp))"

definition service_requests :: "place_spec \<Rightarrow> request list" where
  "service_requests sp = concat (map (\<lambda>s. map (\<lambda>a. (pa_id a, s, ''service:'' @ s, ''a shared service, callable from anywhere''))
     (all_agents sp)) (services sp))"

definition channel_agents :: "place_spec \<Rightarrow> channel_spec \<Rightarrow> string list" where
  "channel_agents sp c = concat (map (\<lambda>t. map pa_id (filter (\<lambda>a. pa_id a \<in> set (ch_members c) \<or> pt_id t \<in> set (ch_members c))
     (pt_members t))) (spec_teams sp))"

definition channel_requests :: "place_spec \<Rightarrow> request list" where
  "channel_requests sp = concat (map (\<lambda>c. concat (map (\<lambda>one. concat (map (\<lambda>other.
     if one \<noteq> other then [(one, other, ''channel:'' @ ch_id c, ''both are on channel '' @ quoted (ch_id c))] else [])
     (channel_agents sp c))) (channel_agents sp c))) (ps_channels sp))"

definition requests :: "place_spec \<Rightarrow> request list" where
  "requests sp = peer_requests sp @ flow_requests sp @ leader_requests sp @ service_requests sp @ channel_requests sp"

definition network_rules :: "place_spec \<Rightarrow> placement_map \<Rightarrow> placement_rule list" where
  "network_rules sp m = sort_key (\<lambda>r. (ru_source r, ru_target r)) (map snd (fold (permit m) (requests sp) []))"

definition resolve_placements :: "place_spec \<Rightarrow> placement_map" where
  "resolve_placements sp =
     (let root = pt_id (ps_organization sp);
          (boundary, declared) = place_walk (ps_organization sp) root ([], [root]);
          (members, home) = place_members sp boundary;
          m = \<lparr>pm_placements = fold (\<lambda>kv d. AList.update (pl_id (made_placement sp kv)) (made_placement sp kv) d) members [],
               pm_home = home, pm_boundary = boundary, pm_rules = [], pm_declared = declared\<rparr>
      in m\<lparr>pm_rules := network_rules sp m\<rparr>)"

text \<open>Who may hand work to whom by standing structure, as the check of the rules reads it.\<close>

definition standing_reach :: "place_spec \<Rightarrow> (string \<times> string \<times> string) list" where
  "standing_reach sp = concat (map (\<lambda>t. concat (map (\<lambda>a.
     map (\<lambda>p. (pa_id a, p, ''a declared peer link'')) (pa_peers a) @
     (if pa_id a = pt_leader t
      then map (\<lambda>target. (pa_id a, target, ''skip-level delegation'')) (filter (\<lambda>x. x \<noteq> pa_id a) (beneath sp (pt_id t)))
      else []) @
     map (\<lambda>s. (pa_id a, s, ''a shared service'')) (filter (\<lambda>s. s \<noteq> pa_id a) (services sp)))
     (pt_members t))) (spec_teams sp))"

section \<open>The checks\<close>

datatype placement_finding =
    SinglePlacement nat
  | PlacementDeniesDelegation string string string
  | SeparatedCoResident string "string list" string

definition single_findings :: "placement_map \<Rightarrow> placement_finding list" where
  "single_findings m =
     (if length (pm_declared m) = 1 \<and> length (pm_placements m) > 0
      then (let total = sum_list (map (\<lambda>p. length (pl_agents (snd p))) (pm_placements m))
            in if total > 1 then [SinglePlacement total] else [])
      else [])"

definition drift_findings :: "place_spec \<Rightarrow> placement_map \<Rightarrow> placement_finding list" where
  "drift_findings sp m = List.map_filter (\<lambda>(source, target, why).
     if map_of (pm_home m) source \<noteq> None \<and> map_of (pm_home m) target \<noteq> None \<and> \<not> permits m source target
     then Some (PlacementDeniesDelegation source target why) else None) (standing_reach sp)"

text \<open>A separation is its id with its decisions; the mandates of the agents are absent when nothing was resolved.\<close>

definition held_here :: "(string \<times> effective_mandate) list option \<Rightarrow> string list \<Rightarrow> string \<Rightarrow> string list" where
  "held_here mandates decisions a = sorted_set (filter (\<lambda>d.
     case mandates of None \<Rightarrow> False
     | Some m \<Rightarrow> (case map_of m a of None \<Rightarrow> False | Some e \<Rightarrow> d \<in> set (em_decisions e))) decisions)"

definition co_resident_findings ::
  "(string \<times> effective_mandate) list option \<Rightarrow> (string \<times> string list) list \<Rightarrow> placement_map \<Rightarrow> placement_finding list" where
  "co_resident_findings mandates separations m = concat (map (\<lambda>(rule, decisions).
     List.map_filter (\<lambda>(pid, p).
       (let sides = filter (\<lambda>a. held_here mandates decisions a \<noteq> []) (fromkeys (pl_agents p));
            distinct_sides = remdups (map (held_here mandates decisions) sides)
        in if length sides > 1 \<and> length distinct_sides > 1
           then Some (SeparatedCoResident rule (sort sides) (pl_id p)) else None)) (pm_placements m)) separations)"

definition placements_say_what_they_share ::
  "(string \<times> effective_mandate) list option \<Rightarrow> (string \<times> string list) list \<Rightarrow> place_spec \<Rightarrow> placement_finding list" where
  "placements_say_what_they_share mandates separations sp =
     (let placed = resolve_placements sp
      in single_findings placed @ drift_findings sp placed @ co_resident_findings mandates separations placed)"

end
