(* ===== verification/PlacementRules.thy ===== *)
theory PlacementRules
  imports Placements "HOL-Library.Multiset"
begin

text \<open>
  What the resolved placements and the network rules between them are: which unit bounds a team, where an
  agent lives, which pairs of placements get a rule, and what a volume carries.
\<close>

section \<open>Collecting rules\<close>

lemma fold_adds:
  assumes "\<And>x d. x \<in> set xs \<Longrightarrow> g (f x d) = g d \<union> K x"
  shows "g (fold f xs d) = g d \<union> (\<Union>x \<in> set xs. K x)"
  using assms by (induction xs arbitrary: d) (simp_all add: Un_assoc)

lemma fold_keeps:
  assumes "\<And>x d. x \<in> set xs \<Longrightarrow> P d \<Longrightarrow> P (f x d)" and "P d"
  shows "P (fold f xs d)"
  using assms by (induction xs arbitrary: d) simp_all

lemma setdefault_keys: "fst ` set (dict_setdefault k v d) = insert k (fst ` set d)"
  by (auto simp: dict_setdefault_def dom_map_of_conv_image_fst [symmetric] split: option.splits)

lemma permit_one_keys:
  "fst ` set (permit_one via reason ha hb found) = fst ` set found \<union> (if ha = hb then {} else {(ha, hb)})"
  by (simp add: permit_one_def setdefault_keys)

lemma permit_keys:
  "fst ` set (permit m (a, b, via, reason) found) =
     fst ` set found \<union> {(ha, hb). ha \<in> set (homes m a) \<and> hb \<in> set (homes m b) \<and> ha \<noteq> hb}"
proof -
  have one: "fst ` set (fold (\<lambda>hb. permit_one via reason ha hb) hbs d) =
      fst ` set d \<union> (\<Union>hb \<in> set hbs. if ha = hb then {} else {(ha, hb)})" for ha hbs and d :: found_rules
    by (rule fold_adds [where g = "\<lambda>d. fst ` set d"]) (rule permit_one_keys)
  have "fst ` set (fold (\<lambda>ha. fold (\<lambda>hb. permit_one via reason ha hb) (homes m b)) (homes m a) found) =
      fst ` set found \<union> (\<Union>ha \<in> set (homes m a). \<Union>hb \<in> set (homes m b). if ha = hb then {} else {(ha, hb)})"
    by (rule fold_adds [where g = "\<lambda>d. fst ` set d"]) (rule one)
  also have "(\<Union>ha \<in> set (homes m a). \<Union>hb \<in> set (homes m b). if ha = hb then {} else {(ha, hb)}) =
      {(ha, hb). ha \<in> set (homes m a) \<and> hb \<in> set (homes m b) \<and> ha \<noteq> hb}"
    by (auto split: if_splits)
  finally show ?thesis by (simp add: permit_def)
qed

definition keyed_rules :: "found_rules \<Rightarrow> bool" where
  "keyed_rules d \<longleftrightarrow> (\<forall>(k, r) \<in> set d. k = (ru_source r, ru_target r))"

lemma permit_one_keyed: "keyed_rules d \<Longrightarrow> keyed_rules (permit_one via reason ha hb d)"
  by (auto simp: permit_one_def dict_setdefault_def keyed_rules_def split: option.split)

lemma permit_keyed: "keyed_rules d \<Longrightarrow> keyed_rules (permit m q d)"
  unfolding permit_def by (cases q) (auto intro!: fold_keeps [where P = keyed_rules] permit_one_keyed)

lemma keyed_rules_at:
  assumes "keyed_rules d"
  shows "(\<exists>r \<in> snd ` set d. ru_source r = src \<and> ru_target r = dst) \<longleftrightarrow> (src, dst) \<in> fst ` set d"
proof
  assume "\<exists>r \<in> snd ` set d. ru_source r = src \<and> ru_target r = dst"
  then obtain k r where "(k, r) \<in> set d" "ru_source r = src" "ru_target r = dst" by auto
  moreover from this(1) have "k = (ru_source r, ru_target r)" using assms unfolding keyed_rules_def by blast
  ultimately show "(src, dst) \<in> fst ` set d" by force
next
  assume "(src, dst) \<in> fst ` set d"
  then obtain r where r: "((src, dst), r) \<in> set d" by auto
  then have "(src, dst) = (ru_source r, ru_target r)" using assms unfolding keyed_rules_def by blast
  with r show "\<exists>r \<in> snd ` set d. ru_source r = src \<and> ru_target r = dst" by force
qed

lemma network_rules_pairs:
  "(\<exists>r \<in> set (network_rules sp m). ru_source r = src \<and> ru_target r = dst) \<longleftrightarrow>
     src \<noteq> dst \<and> (\<exists>(a, b, v, w) \<in> set (requests sp). src \<in> set (homes m a) \<and> dst \<in> set (homes m b))"
proof -
  let ?found = "fold (permit m) (requests sp) []"
  have "keyed_rules ?found" by (rule fold_keeps [where P = keyed_rules]) (simp_all add: permit_keyed, simp add: keyed_rules_def)
  from keyed_rules_at [OF this, of src dst]
  have "(\<exists>r \<in> set (network_rules sp m). ru_source r = src \<and> ru_target r = dst) \<longleftrightarrow> (src, dst) \<in> fst ` set ?found"
    by (simp only: network_rules_def set_sort set_map)
  also have "fst ` set ?found = fst ` set ([] :: found_rules) \<union> (\<Union>(a, b, v, w) \<in> set (requests sp).
      {(ha, hb). ha \<in> set (homes m a) \<and> hb \<in> set (homes m b) \<and> ha \<noteq> hb})"
    by (rule fold_adds [where g = "\<lambda>d. fst ` set d"]) (clarsimp simp only: permit_keys split: prod.split)
  finally show ?thesis by auto
qed

section \<open>Who is at home where\<close>

lemma dict_push_get: "dict_get (dict_push k x d) k' [] = dict_get d k' [] @ (if k' = k then [x] else [])"
  by (simp add: dict_push_def)

lemma dict_push_dom: "map_of (dict_push k x d) k' \<noteq> None \<longleftrightarrow> map_of d k' \<noteq> None \<or> k' = k"
  by (simp add: dict_push_def)

definition filled :: "('k \<times> 'v list) list \<Rightarrow> bool" where
  "filled d \<longleftrightarrow> (\<forall>k v. map_of d k = Some v \<longrightarrow> v \<noteq> [])"

lemma filled_push: "filled d \<Longrightarrow> filled (dict_push k x d)"
  by (auto simp: filled_def dict_push_def)

definition unit_at :: "place_spec \<Rightarrow> (string \<times> string) list \<Rightarrow> place_team \<Rightarrow> string" where
  "unit_at sp boundary t = dict_get boundary (pt_id t) (pt_id (ps_organization sp))"

lemma place_agent_home:
  "set (dict_get (snd (place_agent_in u x acc)) a []) =
     set (dict_get (snd acc) a []) \<union> {placement_id u e | e. e \<in> set (pa_environments x) \<and> pa_id x = a}"
proof -
  have "set (dict_get (snd (place_agent_in u x acc)) a []) = set (dict_get (snd acc) a []) \<union>
      (\<Union>e \<in> set (pa_environments x). if pa_id x = a then {placement_id u e} else {})"
    unfolding place_agent_in_def
    by (rule fold_adds [where g = "\<lambda>acc. set (dict_get (snd acc) a [])"]) (auto simp: dict_push_get split: prod.split)
  then show ?thesis by auto
qed

lemma place_members_home:
  "set (dict_get (snd (place_members sp boundary)) a []) =
     {placement_id (unit_at sp boundary t) e | t x e. t \<in> set (spec_teams sp) \<and> x \<in> set (pt_members t) \<and>
        e \<in> set (pa_environments x) \<and> pa_id x = a}"
proof -
  have inner: "set (dict_get (snd (fold (place_agent_in u) xs acc)) a []) = set (dict_get (snd acc) a []) \<union>
      (\<Union>x \<in> set xs. {placement_id u e | e. e \<in> set (pa_environments x) \<and> pa_id x = a})" for u xs acc
    by (rule fold_adds [where g = "\<lambda>acc. set (dict_get (snd acc) a [])"]) (rule place_agent_home)
  have "set (dict_get (snd (place_members sp boundary)) a []) = set (dict_get (snd (([], []) :: membership)) a []) \<union>
      (\<Union>t \<in> set (spec_teams sp). \<Union>x \<in> set (pt_members t).
        {placement_id (unit_at sp boundary t) e | e. e \<in> set (pa_environments x) \<and> pa_id x = a})"
    unfolding place_members_def unit_at_def
    by (rule fold_adds [where g = "\<lambda>acc. set (dict_get (snd acc) a [])"]) (rule inner)
  then show ?thesis by auto
qed

lemma place_members_filled: "filled (snd (place_members sp boundary))"
  unfolding place_members_def
  by (rule fold_keeps [where P = "\<lambda>acc. filled (snd acc)"], rule fold_keeps [where P = "\<lambda>acc. filled (snd acc)"])
    (auto simp: place_agent_in_def filled_def [of "[]"] intro!: fold_keeps [where P = "\<lambda>acc. filled (snd acc)"]
      filled_push split: prod.splits)

lemma place_members_groups:
  "set (dict_get (fst (place_members sp boundary)) (u, e) []) =
     {pa_id x | t x. t \<in> set (spec_teams sp) \<and> x \<in> set (pt_members t) \<and> e \<in> set (pa_environments x) \<and> unit_at sp boundary t = u}"
proof -
  have agent: "set (dict_get (fst (place_agent_in v x acc)) (u, e) []) = set (dict_get (fst acc) (u, e) []) \<union>
      (\<Union>e' \<in> set (pa_environments x). if v = u \<and> e' = e then {pa_id x} else {})" for v x acc
    unfolding place_agent_in_def
    by (rule fold_adds [where g = "\<lambda>acc. set (dict_get (fst acc) (u, e) [])"]) (auto simp: dict_push_get split: prod.split)
  have inner: "set (dict_get (fst (fold (place_agent_in v) xs acc)) (u, e) []) = set (dict_get (fst acc) (u, e) []) \<union>
      (\<Union>x \<in> set xs. \<Union>e' \<in> set (pa_environments x). if v = u \<and> e' = e then {pa_id x} else {})" for v xs acc
    by (rule fold_adds [where g = "\<lambda>acc. set (dict_get (fst acc) (u, e) [])"]) (rule agent)
  have "set (dict_get (fst (place_members sp boundary)) (u, e) []) = set (dict_get (fst (([], []) :: membership)) (u, e) []) \<union>
      (\<Union>t \<in> set (spec_teams sp). \<Union>x \<in> set (pt_members t). \<Union>e' \<in> set (pa_environments x).
        if unit_at sp boundary t = u \<and> e' = e then {pa_id x} else {})"
    unfolding place_members_def unit_at_def
    by (rule fold_adds [where g = "\<lambda>acc. set (dict_get (fst acc) (u, e) [])"]) (rule inner)
  then show ?thesis by (auto split: if_splits)
qed

lemma resolve_home: "pm_home (resolve_placements sp) = snd (place_members sp (pm_boundary (resolve_placements sp)))"
  by (simp add: resolve_placements_def Let_def case_prod_beta)

lemma resolve_rules:
  "pm_rules (resolve_placements sp) = network_rules sp ((resolve_placements sp)\<lparr>pm_rules := []\<rparr>)"
  by (simp add: resolve_placements_def Let_def case_prod_beta)

lemma homes_rules [simp]: "homes (m\<lparr>pm_rules := rs\<rparr>) = homes m"
  by (simp add: homes_def fun_eq_iff)

lemma placed_iff: "map_of (pm_home (resolve_placements sp)) a \<noteq> None \<longleftrightarrow> homes (resolve_placements sp) a \<noteq> []"
  using place_members_filled [of sp "pm_boundary (resolve_placements sp)"]
  by (auto simp: homes_def dict_get_def resolve_home filled_def split: option.split)

text \<open>Two placements some request is about.\<close>

definition asked :: "place_spec \<Rightarrow> string \<Rightarrow> string \<Rightarrow> bool" where
  "asked sp p q \<longleftrightarrow> (\<exists>(a, b, v, w) \<in> set (requests sp).
     p \<in> set (homes (resolve_placements sp) a) \<and> q \<in> set (homes (resolve_placements sp) b))"

lemma meet_or_rule:
  "(\<exists>p \<in> A. p \<in> B) \<or> (\<exists>p \<in> A. \<exists>q \<in> B. p \<noteq> q \<and> R p q) \<longleftrightarrow> (\<exists>p \<in> A. \<exists>q \<in> B. p = q \<or> R p q)"
  (is "?l \<longleftrightarrow> ?r")
proof
  show "?l \<Longrightarrow> ?r" by fast
next
  assume ?r
  then obtain p q where "p \<in> A" "q \<in> B" "p = q \<or> R p q" by fast
  then show ?l by (cases "p = q") fast+
qed

lemma permits_iff:
  "permits (resolve_placements sp) a b \<longleftrightarrow>
     (\<exists>p \<in> set (homes (resolve_placements sp) a). \<exists>q \<in> set (homes (resolve_placements sp) b).
        p = q \<or> asked sp p q)"
proof -
  let ?m = "resolve_placements sp"
  have rule: "(\<exists>r \<in> set (pm_rules ?m). ru_source r = p \<and> ru_target r = q) \<longleftrightarrow>
      p \<noteq> q \<and> asked sp p q" for p q
    using network_rules_pairs [of sp "?m\<lparr>pm_rules := []\<rparr>" p q] by (simp add: resolve_rules asked_def)
  show ?thesis
  proof (cases "homes ?m a = [] \<or> homes ?m b = []")
    case True
    then have "map_of (pm_home ?m) a = None \<or> map_of (pm_home ?m) b = None" using placed_iff by blast
    then have "\<not> permits ?m a b" by (auto simp: permits_def)
    with True show ?thesis by fastforce
  next
    case False
    then have "map_of (pm_home ?m) a \<noteq> None" "map_of (pm_home ?m) b \<noteq> None" using placed_iff by blast+
    then have "permits ?m a b \<longleftrightarrow> same_placement ?m a b \<or>
        (\<exists>p \<in> set (homes ?m a). \<exists>q \<in> set (homes ?m b). \<exists>r \<in> set (pm_rules ?m). ru_source r = p \<and> ru_target r = q)"
      by (simp add: permits_def del: not_None_eq)
    then have eq: "permits ?m a b \<longleftrightarrow> (\<exists>p \<in> set (homes ?m a). p \<in> set (homes ?m b)) \<or>
        (\<exists>p \<in> set (homes ?m a). \<exists>q \<in> set (homes ?m b). p \<noteq> q \<and> asked sp p q)"
      by (simp only: rule same_placement_def)
    show ?thesis unfolding eq by (rule meet_or_rule)
  qed
qed

section \<open>Generated policy does not drift from the org chart\<close>

lemma request_permits:
  assumes "(a, b, v, w) \<in> set (requests sp)" and "homes (resolve_placements sp) a \<noteq> []" and "homes (resolve_placements sp) b \<noteq> []"
  shows "permits (resolve_placements sp) a b"
proof -
  obtain p q where "p \<in> set (homes (resolve_placements sp) a)" "q \<in> set (homes (resolve_placements sp) b)"
    using assms(2,3) by (metis list.set_sel(1))
  moreover from this have "asked sp p q" unfolding asked_def using assms(1) by blast
  ultimately show ?thesis unfolding permits_iff by blast
qed

lemma standing_requested:
  assumes "(a, b, why) \<in> set (standing_reach sp)" and "[] \<notin> pa_id ` set (all_agents sp)"
  shows "\<exists>v w. (a, b, v, w) \<in> set (requests sp)"
proof -
  from assms obtain t x where t: "t \<in> set (spec_teams sp)" "x \<in> set (pt_members t)" "pa_id x = a"
    and how: "b \<in> set (pa_peers x) \<or> a = pt_leader t \<and> b \<in> set (beneath sp (pt_id t)) \<and> b \<noteq> a \<or> b \<in> set (services sp) \<and> b \<noteq> a"
    by (auto simp: standing_reach_def split: if_splits)
  from how consider "b \<in> set (pa_peers x)" | "a = pt_leader t" "b \<in> set (beneath sp (pt_id t))" "b \<noteq> a"
    | "b \<in> set (services sp)" by blast
  then show ?thesis
  proof cases
    case 1
    with t have "(a, b, ''peer:'' @ a, ''a declared peer link'') \<in> set (peer_requests sp)"
      unfolding peer_requests_def by fastforce
    then show ?thesis unfolding requests_def by auto
  next
    case 2
    have "a \<noteq> []" using t assms(2) by (force simp: all_agents_def)
    with 2 t have "(a, b, ''leads:'' @ pt_id t, ''the manager chain'') \<in> set (leader_requests sp)"
      unfolding leader_requests_def by fastforce
    then show ?thesis unfolding requests_def by auto
  next
    case 3
    with t have "(a, b, ''service:'' @ b, ''a shared service, callable from anywhere'') \<in> set (service_requests sp)"
      unfolding service_requests_def all_agents_def by fastforce
    then show ?thesis unfolding requests_def by auto
  qed
qed

text \<open>
  The network policy generated from the placements never refuses what standing structure allows:
  whatever the organization and however it is placed, for no pair of placed agents where one may hand
  work to the other (a peer, somebody anywhere beneath a unit it leads, a shared service) does the check
  of a design report that the rules do not reach. Only an agent without an id could make a difference.
\<close>

theorem generated_policy_does_not_drift:
  assumes "[] \<notin> pa_id ` set (all_agents sp)"
  shows "drift_findings sp (resolve_placements sp) = []"
proof -
  have "permits (resolve_placements sp) a b"
    if "(a, b, why) \<in> set (standing_reach sp)" and "map_of (pm_home (resolve_placements sp)) a \<noteq> None"
      and "map_of (pm_home (resolve_placements sp)) b \<noteq> None" for a b why
    using standing_requested [OF that(1) assms] that(2,3) placed_iff request_permits by metis
  then show ?thesis
    unfolding drift_findings_def map_filter_def by (fastforce simp: filter_empty_conv simp del: not_None_eq)
qed

section \<open>Which unit bounds a team\<close>

inductive bounded_by :: "place_spec \<Rightarrow> place_team \<Rightarrow> string \<Rightarrow> bool" for sp where
  root: "bounded_by sp (ps_organization sp) (pt_id (ps_organization sp))"
| below: "bounded_by sp t u \<Longrightarrow> c \<in> set (pt_teams t) \<Longrightarrow> bounded_by sp c (if pt_placement c then pt_id c else u)"

fun assigned :: "place_team \<Rightarrow> string \<Rightarrow> (place_team \<times> string) list" where
  "assigned (PlaceTeam k l gs b ms ts) u =
     (PlaceTeam k l gs b ms ts, if b then k else u) # concat (map (\<lambda>c. assigned c (if b then k else u)) ts)"

lemma assigned_teams: "map fst (assigned t u) = team_walk t"
  by (induction t u rule: assigned.induct) (simp add: map_concat comp_def cong: map_cong)

lemma place_walk_boundary:
  "fst (place_walk t u acc) = fold (\<lambda>(t, v). AList.update (pt_id t) v) (assigned t u) (fst acc)"
proof (induction t arbitrary: u acc)
  case (PlaceTeam k l gs b ms ts)
  let ?u = "if b then k else u"
  have "fst (fold (\<lambda>c acc. place_walk c ?u acc) ts acc') =
      fold (\<lambda>(t, v). AList.update (pt_id t) v) (concat (map (\<lambda>c. assigned c ?u) ts)) (fst acc')" for acc'
    using PlaceTeam.IH by (induction ts arbitrary: acc') (simp_all)
  then show ?case by (cases acc) (simp add: place_walk.simps Let_def)
qed

lemma fold_update_map_of:
  "distinct (map fst kvs) \<Longrightarrow> (k, v) \<in> set kvs \<Longrightarrow> map_of (fold (\<lambda>(k, v). AList.update k v) kvs d) k = Some v"
proof (induction kvs arbitrary: d)
  case (Cons kv kvs)
  have keep: "k \<notin> fst ` set kvs \<Longrightarrow> map_of (fold (\<lambda>(k, v). AList.update k v) kvs d) k = map_of d k" for d
    by (induction kvs arbitrary: d) auto
  show ?case using Cons keep by (cases kv) auto
qed simp

lemma assigned_boundary:
  assumes "distinct (map pt_id (team_walk t))" and "(s, v) \<in> set (assigned t u)"
  shows "map_of (fst (place_walk t u ([], decl))) (pt_id s) = Some v"
proof -
  let ?kvs = "map (\<lambda>(t, v). (pt_id t, v)) (assigned t u)"
  have "map fst ?kvs = map pt_id (team_walk t)" by (simp add: assigned_teams [of t u, symmetric] case_prod_beta)
  then have "map_of (fold (\<lambda>(k, v). AList.update k v) ?kvs []) (pt_id s) = Some v"
    using assms by (intro fold_update_map_of) force+
  then show ?thesis by (simp add: place_walk_boundary fold_map comp_def case_prod_beta')
qed

lemma assigned_closed:
  "(s, v) \<in> set (assigned t u) \<Longrightarrow> c \<in> set (pt_teams s) \<Longrightarrow> (c, if pt_placement c then pt_id c else v) \<in> set (assigned t u)"
proof (induction t u rule: assigned.induct)
  case (1 k l gs b ms ts u)
  have self: "(c, if pt_placement c then pt_id c else w) \<in> set (assigned c w)" for c w by (cases c) simp
  from 1(2) consider "s = PlaceTeam k l gs b ms ts" "v = (if b then k else u)"
    | x where "x \<in> set ts" "(s, v) \<in> set (assigned x (if b then k else u))" by auto
  then show ?case
  proof cases
    case 1
    with "1.prems"(2) self [of c "if b then k else u"] show ?thesis by (simp only: place_team.sel) force
  next
    case 2
    then show ?thesis using "1.IH" [OF 2 "1.prems"(2)] by (simp only: assigned.simps) force
  qed
qed

lemma assigned_root: "bounded_by sp t u \<Longrightarrow> (t, u) \<in> set (assigned (ps_organization sp) (pt_id (ps_organization sp)))"
proof (induction rule: bounded_by.induct)
  case root
  show ?case by (cases "ps_organization sp") simp
qed (rule assigned_closed)

lemma bounded_assigned:
  "(s, v) \<in> set (assigned t u) \<Longrightarrow> bounded_by sp t (if pt_placement t then pt_id t else u) \<Longrightarrow> bounded_by sp s v"
proof (induction t u rule: assigned.induct)
  case (1 k l gs b ms ts u)
  from 1(2) consider "s = PlaceTeam k l gs b ms ts" "v = (if b then k else u)"
    | c where "c \<in> set ts" "(s, v) \<in> set (assigned c (if b then k else u))" by auto
  then show ?case
  proof cases
    case 2
    then have "bounded_by sp c (if pt_placement c then pt_id c else (if b then k else u))"
      using bounded_by.below [OF 1(3), of c] by (simp only: place_team.sel)
    with 1(1) 2 show ?thesis by blast
  qed (use 1(3) in \<open>simp only: place_team.sel\<close>)
qed

lemma every_team_bounded:
  assumes "t \<in> set (spec_teams sp)"
  obtains u where "bounded_by sp t u"
proof -
  have "t \<in> fst ` set (assigned (ps_organization sp) (pt_id (ps_organization sp)))"
    using assms assigned_teams by (metis list.set_map spec_teams_def)
  then obtain u where "(t, u) \<in> set (assigned (ps_organization sp) (pt_id (ps_organization sp)))" by auto
  then have "bounded_by sp t u" by (rule bounded_assigned) (simp add: bounded_by.root)
  then show thesis by (rule that)
qed

lemma unit_at_bounds:
  assumes "distinct (map pt_id (spec_teams sp))" and "bounded_by sp t u"
  shows "unit_at sp (pm_boundary (resolve_placements sp)) t = u"
proof -
  have "pm_boundary (resolve_placements sp) =
      fst (place_walk (ps_organization sp) (pt_id (ps_organization sp)) ([], [pt_id (ps_organization sp)]))"
    by (simp add: resolve_placements_def Let_def case_prod_beta)
  then show ?thesis
    using assigned_boundary [OF _ assigned_root [OF assms(2)]] assms(1)
    by (simp add: unit_at_def dict_get_def spec_teams_def)
qed

lemma bounded_team: "bounded_by sp t u \<Longrightarrow> t \<in> set (spec_teams sp)"
  using assigned_root assigned_teams unfolding spec_teams_def by (metis fst_conv image_eqI list.set_map)

definition lives_in :: "place_spec \<Rightarrow> string \<Rightarrow> string \<Rightarrow> bool" where
  "lives_in sp a p \<longleftrightarrow> (\<exists>t u x e. bounded_by sp t u \<and> x \<in> set (pt_members t) \<and> pa_id x = a \<and>
     e \<in> set (pa_environments x) \<and> p = placement_id u e)"

lemma homes_iff:
  assumes "distinct (map pt_id (spec_teams sp))"
  shows "p \<in> set (homes (resolve_placements sp) a) \<longleftrightarrow> lives_in sp a p"
proof -
  have "p \<in> set (homes (resolve_placements sp) a) \<longleftrightarrow> (\<exists>t x e. t \<in> set (spec_teams sp) \<and> x \<in> set (pt_members t) \<and>
      e \<in> set (pa_environments x) \<and> pa_id x = a \<and> p = placement_id (unit_at sp (pm_boundary (resolve_placements sp)) t) e)"
    unfolding homes_def resolve_home place_members_home by blast
  also have "\<dots> \<longleftrightarrow> lives_in sp a p"
    unfolding lives_in_def using unit_at_bounds [OF assms] bounded_team every_team_bounded by metis
  finally show ?thesis .
qed

section \<open>Everybody beneath a unit\<close>

lemma find_snoc:
  "List.find p (as @ [z]) = (case List.find p as of None \<Rightarrow> if p z then Some z else None | Some w \<Rightarrow> Some w)"
  by (induction as) auto

lemma find_unique:
  "distinct (map g xs) \<Longrightarrow> x \<in> set xs \<Longrightarrow> List.find (\<lambda>y. g y = g x) (rev xs) = Some x"
proof (induction xs)
  case (Cons y ys)
  have "List.find (\<lambda>z. g z = g x) (rev ys) = None" if "x = y"
    using Cons.prems that by (simp add: find_None_iff' image_iff) metis
  with Cons show ?case by (auto simp: find_snoc)
qed simp

lemma by_id_unique: "distinct (map pt_id ts) \<Longrightarrow> t \<in> set ts \<Longrightarrow> by_id ts (pt_id t) = Some t"
  unfolding by_id_def by (rule find_unique)

lemma walk_size: "length (concat (map team_walk fs)) = (\<Sum>t\<leftarrow>fs. length (team_walk t))"
  by (induction fs) simp_all

lemma mset_rev_concat: "mset (concat (map f (rev xs))) = mset (concat (map f xs))"
  by (induction xs) (simp_all add: union_commute)

lemma beneath_forest:
  assumes "\<And>t. t \<in> set (concat (map team_walk fs)) \<Longrightarrow> by_id ts (pt_id t) = Some t"
    and "distinct (map pt_id (concat (map team_walk fs)))" and "set seen \<inter> pt_id ` set (concat (map team_walk fs)) = {}"
  shows "set (beneath_loop ts seen (map pt_id fs)) = (\<Union>t \<in> set (concat (map team_walk fs)). pa_id ` set (pt_members t))"
  using assms
proof (induction fs arbitrary: seen rule: measure_induct_rule [where f = "\<lambda>fs. length (concat (map team_walk fs))"])
  case (less fs)
  show ?case
  proof (cases fs)
    case (Cons t rest)
    obtain k l gs b ms cs where t: "t = PlaceTeam k l gs b ms cs" by (cases t)
    let ?next = "rev cs @ rest"
    have m: "mset (concat (map team_walk fs)) = add_mset t (mset (concat (map team_walk ?next)))"
      by (simp add: Cons t mset_rev_concat del: mset_concat)
    then have walked: "set (concat (map team_walk fs)) = insert t (set (concat (map team_walk ?next)))"
      by (metis set_mset_add_mset_insert set_mset_mset)
    have ids: "mset (map pt_id (concat (map team_walk fs))) = mset (pt_id t # map pt_id (concat (map team_walk ?next)))"
      using m by (simp only: mset_map mset.simps image_mset_add_mset)
    then have d: "distinct (pt_id t # map pt_id (concat (map team_walk ?next)))"
      using less.prems(2) mset_eq_imp_distinct_iff by blast
    have found: "by_id ts (pt_id t) = Some t" using less.prems(1) walked by blast
    have "pt_id t \<notin> set seen" using less.prems(3) walked by blast
    then have step: "beneath_loop ts seen (map pt_id fs) = map pa_id ms @ beneath_loop ts (k # seen) (map pt_id ?next)"
      using found by (simp add: Cons t rev_map)
    have "length (concat (map team_walk ?next)) < length (concat (map team_walk fs))"
      using m by (metis lessI size_add_mset size_mset)
    then have "set (beneath_loop ts (k # seen) (map pt_id ?next)) =
        (\<Union>t \<in> set (concat (map team_walk ?next)). pa_id ` set (pt_members t))"
    proof (rule less.IH)
      show "\<And>s. s \<in> set (concat (map team_walk ?next)) \<Longrightarrow> by_id ts (pt_id s) = Some s"
        using less.prems(1) walked by blast
      show "distinct (map pt_id (concat (map team_walk ?next)))" using d by simp
      show "set (k # seen) \<inter> pt_id ` set (concat (map team_walk ?next)) = {}"
        using d less.prems(3) walked t by (auto simp del: set_concat)
    qed
    then show ?thesis unfolding step walked by (simp add: t del: set_concat)
  qed simp
qed

text \<open>A team under another is in the walk of the whole.\<close>

lemma walk_nested: "s \<in> set (team_walk t) \<Longrightarrow> set (team_walk s) \<subseteq> set (team_walk t)"
  by (induction t rule: team_walk.induct) auto

lemma walk_nested_ids:
  assumes "distinct (map pt_id (team_walk t))" and "s \<in> set (team_walk t)"
  shows "distinct (map pt_id (team_walk s))"
  using assms
proof (induction t rule: team_walk.induct)
  case (1 k l gs b ms ts)
  show ?case
  proof (cases "s = PlaceTeam k l gs b ms ts")
    case False
    then obtain c where c: "c \<in> set ts" "s \<in> set (team_walk c)" using 1(3) by auto
    from 1(2) have "distinct (concat (map (map pt_id) (map team_walk ts)))" by (simp add: map_concat)
    then have "distinct (map pt_id (team_walk c))" using c(1) by (induction ts) auto
    then show ?thesis using 1(1) c by blast
  qed (use 1 in simp)
qed

lemma beneath_unit:
  assumes "distinct (map pt_id (spec_teams sp))" and "t \<in> set (spec_teams sp)"
  shows "set (beneath sp (pt_id t)) = (\<Union>s \<in> set (team_walk t). pa_id ` set (pt_members s))"
proof -
  have w: "set (team_walk t) \<subseteq> set (spec_teams sp)" "distinct (map pt_id (team_walk t))"
    using walk_nested walk_nested_ids assms unfolding spec_teams_def by blast+
  have "set (beneath_loop (spec_teams sp) [] (map pt_id [t])) =
      (\<Union>s \<in> set (concat (map team_walk [t])). pa_id ` set (pt_members s))"
    by (rule beneath_forest) (use w by_id_unique [OF assms(1)] in auto)
  then show ?thesis by (simp add: beneath_def del: beneath_loop.simps)
qed

section \<open>What stands behind a rule\<close>

inductive stands :: "place_spec \<Rightarrow> string \<Rightarrow> string \<Rightarrow> bool" for sp where
  peer: "x \<in> set (all_agents sp) \<Longrightarrow> p \<in> set (pa_peers x) \<Longrightarrow> stands sp (pa_id x) p"
| peer_back: "x \<in> set (all_agents sp) \<Longrightarrow> p \<in> set (pa_peers x) \<Longrightarrow> stands sp p (pa_id x)"
| flow: "f \<in> set (ps_flows sp) \<Longrightarrow> stands sp (fl_source f) (fl_target f)"
| leads: "t \<in> set (spec_teams sp) \<Longrightarrow> pt_leader t \<noteq> [] \<Longrightarrow> s \<in> set (team_walk t) \<Longrightarrow> x \<in> set (pt_members s) \<Longrightarrow>
     pa_id x \<noteq> pt_leader t \<Longrightarrow> stands sp (pt_leader t) (pa_id x)"
| led: "t \<in> set (spec_teams sp) \<Longrightarrow> pt_leader t \<noteq> [] \<Longrightarrow> s \<in> set (team_walk t) \<Longrightarrow> x \<in> set (pt_members s) \<Longrightarrow>
     pa_id x \<noteq> pt_leader t \<Longrightarrow> stands sp (pa_id x) (pt_leader t)"
| service: "x \<in> set (all_agents sp) \<Longrightarrow> y \<in> set (all_agents sp) \<Longrightarrow> pa_shared_service y \<Longrightarrow> stands sp (pa_id x) (pa_id y)"
| channel: "c \<in> set (ps_channels sp) \<Longrightarrow> t \<in> set (spec_teams sp) \<Longrightarrow> x \<in> set (pt_members t) \<Longrightarrow>
     pa_id x \<in> set (ch_members c) \<or> pt_id t \<in> set (ch_members c) \<Longrightarrow> s \<in> set (spec_teams sp) \<Longrightarrow> y \<in> set (pt_members s) \<Longrightarrow>
     pa_id y \<in> set (ch_members c) \<or> pt_id s \<in> set (ch_members c) \<Longrightarrow> pa_id x \<noteq> pa_id y \<Longrightarrow> stands sp (pa_id x) (pa_id y)"

definition pairs :: "request list \<Rightarrow> (string \<times> string) set" where
  "pairs rs = {(a, b). \<exists>v w. (a, b, v, w) \<in> set rs}"

lemma pairs_list: "pairs rs = set (map (\<lambda>(a, b, v, w). (a, b)) rs)"
  by (force simp: pairs_def)

lemma pairs_append [simp]: "pairs (xs @ ys) = pairs xs \<union> pairs ys"
  by (auto simp: pairs_def)

lemma all_agents_iff: "x \<in> set (all_agents sp) \<longleftrightarrow> (\<exists>t \<in> set (spec_teams sp). x \<in> set (pt_members t))"
  by (auto simp: all_agents_def)

lemma peer_pairs: "pairs (peer_requests sp) =
    {(pa_id x, p) | x p. x \<in> set (all_agents sp) \<and> p \<in> set (pa_peers x)} \<union>
    {(p, pa_id x) | x p. x \<in> set (all_agents sp) \<and> p \<in> set (pa_peers x)}"
  unfolding pairs_def peer_requests_def all_agents_iff by (simp, blast)

lemma flow_pairs: "pairs (flow_requests sp) = {(fl_source f, fl_target f) | f. f \<in> set (ps_flows sp)}"
  unfolding pairs_def flow_requests_def by force

lemma leader_pairs: "pairs (leader_requests sp) =
    {(pt_leader t, k) | t k. t \<in> set (spec_teams sp) \<and> pt_leader t \<noteq> [] \<and> k \<in> set (beneath sp (pt_id t)) \<and> k \<noteq> pt_leader t} \<union>
    {(k, pt_leader t) | t k. t \<in> set (spec_teams sp) \<and> pt_leader t \<noteq> [] \<and> k \<in> set (beneath sp (pt_id t)) \<and> k \<noteq> pt_leader t}"
  unfolding pairs_def leader_requests_def by (auto split: if_splits)

lemma service_pairs: "pairs (service_requests sp) =
    {(pa_id x, pa_id y) | x y. x \<in> set (all_agents sp) \<and> y \<in> set (all_agents sp) \<and> pa_shared_service y}"
  unfolding pairs_def service_requests_def services_def by force

lemma channel_agents_iff: "k \<in> set (channel_agents sp c) \<longleftrightarrow> (\<exists>t \<in> set (spec_teams sp). \<exists>x \<in> set (pt_members t).
    k = pa_id x \<and> (pa_id x \<in> set (ch_members c) \<or> pt_id t \<in> set (ch_members c)))"
  unfolding channel_agents_def by force

lemma channel_pairs: "pairs (channel_requests sp) =
    {(a, b). \<exists>c \<in> set (ps_channels sp). a \<in> set (channel_agents sp c) \<and> b \<in> set (channel_agents sp c) \<and> a \<noteq> b}"
  unfolding pairs_def channel_requests_def by (auto split: if_splits)

lemma leader_stands:
  assumes "distinct (map pt_id (spec_teams sp))" and "t \<in> set (spec_teams sp)" and "pt_leader t \<noteq> []"
    and "k \<in> set (beneath sp (pt_id t))" and "k \<noteq> pt_leader t"
  shows "stands sp (pt_leader t) k" and "stands sp k (pt_leader t)"
  using assms(2-5) stands.leads [of t sp] stands.led [of t sp] unfolding beneath_unit [OF assms(1,2)] by blast+

lemma requests_stand:
  assumes "distinct (map pt_id (spec_teams sp))"
  shows "(a, b) \<in> pairs (requests sp) \<longleftrightarrow> stands sp a b"
proof
  assume "(a, b) \<in> pairs (requests sp)"
  then consider "(a, b) \<in> pairs (peer_requests sp)" | "(a, b) \<in> pairs (flow_requests sp)" | "(a, b) \<in> pairs (leader_requests sp)"
    | "(a, b) \<in> pairs (service_requests sp)" | "(a, b) \<in> pairs (channel_requests sp)"
    by (auto simp: requests_def)
  then show "stands sp a b"
  proof cases
    case 1
    then show ?thesis unfolding peer_pairs by (auto intro: stands.peer stands.peer_back)
  next
    case 2
    then show ?thesis unfolding flow_pairs by (auto intro: stands.flow)
  next
    case 3
    then show ?thesis unfolding leader_pairs using leader_stands [OF assms] by auto
  next
    case 4
    then show ?thesis unfolding service_pairs by (auto intro: stands.service)
  next
    case 5
    then show ?thesis unfolding channel_pairs channel_agents_iff by clarsimp (metis stands.channel)
  qed
next
  assume "stands sp a b"
  then show "(a, b) \<in> pairs (requests sp)"
  proof cases
    case (leads t s x)
    then have "(a, b) \<in> pairs (leader_requests sp)"
      unfolding leader_pairs using beneath_unit [OF assms leads(3)] by auto
    then show ?thesis by (simp add: requests_def)
  next
    case (led t s x)
    then have "(a, b) \<in> pairs (leader_requests sp)"
      unfolding leader_pairs using beneath_unit [OF assms led(3)] by auto
    then show ?thesis by (simp add: requests_def)
  next
    case (channel c t x s y)
    then have "(a, b) \<in> pairs (channel_requests sp)" unfolding channel_pairs channel_agents_iff by auto
    then show ?thesis by (simp add: requests_def)
  qed (auto simp: requests_def peer_pairs flow_pairs service_pairs)
qed

text \<open>
  C6: In an organization whose teams have different ids, the network lets one agent reach another
  exactly when both live in some placement and either share one, or between a placement of the first and
  one of the second some pair of agents living there is allowed to talk by standing structure: a declared
  peer link in either direction, a declared flow, a leader and anybody under the unit it leads in either
  direction, a shared service, or two agents on one channel. Everything else is denied, and where an agent
  lives is the nearest unit above it that declares itself a boundary, crossed with each of its environments.
\<close>

theorem network_is_the_standing_structure:
  assumes "distinct (map pt_id (spec_teams sp))"
  shows "permits (resolve_placements sp) a b \<longleftrightarrow>
    (\<exists>p q. lives_in sp a p \<and> lives_in sp b q \<and>
       (p = q \<or> (\<exists>a' b'. lives_in sp a' p \<and> lives_in sp b' q \<and> stands sp a' b')))"
proof -
  have "asked sp p q \<longleftrightarrow> (\<exists>a' b'. (a', b') \<in> pairs (requests sp) \<and> lives_in sp a' p \<and> lives_in sp b' q)" for p q
    unfolding asked_def pairs_def homes_iff [OF assms] by blast
  then have "asked sp p q \<longleftrightarrow> (\<exists>a' b'. lives_in sp a' p \<and> lives_in sp b' q \<and> stands sp a' b')" for p q
    unfolding requests_stand [OF assms] by blast
  then show ?thesis unfolding permits_iff by (metis homes_iff [OF assms])
qed

section \<open>What a volume carries\<close>

inductive line :: "place_spec \<Rightarrow> place_team \<Rightarrow> place_team list \<Rightarrow> bool" for sp where
  top: "line sp (ps_organization sp) []"
| child: "line sp t up \<Longrightarrow> c \<in> set (pt_teams t) \<Longrightarrow> line sp c (t # up)"

lemma walk_self: "t \<in> set (team_walk t)" by (cases t) simp

lemma walk_child: "c \<in> set (pt_teams t) \<Longrightarrow> c \<in> set (team_walk t)"
  by (cases t) (use walk_self in force)

lemma line_teams: "line sp t up \<Longrightarrow> set (t # up) \<subseteq> set (spec_teams sp)"
proof (induction rule: line.induct)
  case (child t up c)
  then have "c \<in> set (spec_teams sp)" using walk_child walk_nested unfolding spec_teams_def by (meson list.set_intros(1) subset_iff)
  with child show ?case by simp
qed (simp add: spec_teams_def walk_self)

lemma child_smaller: "c \<in> set (pt_teams t) \<Longrightarrow> size c < size t"
  by (cases t) (auto simp: less_Suc_eq_le size_list_estimation' trans_le_add2 dest!: size_list_estimation' [OF _ order_refl])

lemma line_larger: "line sp t up \<Longrightarrow> s \<in> set up \<Longrightarrow> size t < size s"
  by (induction rule: line.induct) (auto dest: child_smaller intro: less_trans)

lemma children_of_walk: "mset (team_walk t) = add_mset t (mset (concat (map pt_teams (team_walk t))))"
proof (induction t rule: team_walk.induct)
  case (1 k l gs b ms ts)
  have "mset (concat (map team_walk ts)) = mset ts + mset (concat (map pt_teams (concat (map team_walk ts))))"
    using 1 by (induction ts) (simp_all add: ac_simps)
  then show ?case by (simp del: mset_concat)
qed

lemma parent_of_child:
  assumes "distinct (map pt_id (spec_teams sp))" and "t \<in> set (spec_teams sp)" and "c \<in> set (pt_teams t)"
  shows "parent_of (spec_teams sp) (pt_id c) = Some (pt_id t)"
proof -
  let ?ps = "concat (map (\<lambda>t. map (\<lambda>c. (pt_id t, pt_id c)) (pt_teams t)) (spec_teams sp))"
  have snds: "map snd ?ps = map pt_id (concat (map pt_teams (spec_teams sp)))"
    by (simp add: map_concat comp_def)
  have "mset (map pt_id (spec_teams sp)) =
      mset (pt_id (ps_organization sp) # map pt_id (concat (map pt_teams (spec_teams sp))))"
    using children_of_walk [of "ps_organization sp"] unfolding spec_teams_def by (simp only: mset_map mset.simps image_mset_add_mset)
  then have "distinct (map snd ?ps)" using assms(1) mset_eq_imp_distinct_iff unfolding snds by fastforce
  moreover have "(pt_id t, pt_id c) \<in> set ?ps" using assms(2,3) by auto
  ultimately have "List.find (\<lambda>y. snd y = snd (pt_id t, pt_id c)) (rev ?ps) = Some (pt_id t, pt_id c)" by (rule find_unique)
  then show ?thesis unfolding parent_of_def by (simp add: case_prod_beta')
qed

lemma parent_of_top:
  assumes "distinct (map pt_id (spec_teams sp))"
  shows "parent_of (spec_teams sp) (pt_id (ps_organization sp)) = None"
proof -
  have "mset (map pt_id (spec_teams sp)) =
      mset (pt_id (ps_organization sp) # map pt_id (concat (map pt_teams (spec_teams sp))))"
    using children_of_walk [of "ps_organization sp"] unfolding spec_teams_def by (simp only: mset_map mset.simps image_mset_add_mset)
  then have "distinct (pt_id (ps_organization sp) # map pt_id (concat (map pt_teams (spec_teams sp))))"
    using assms mset_eq_imp_distinct_iff by blast
  then show ?thesis unfolding parent_of_def by (force simp: find_None_iff' image_iff)
qed

lemma set_fold_add_new: "set (fold add_new xs ys) = set ys \<union> set xs"
  by (induction xs arbitrary: ys) (auto simp: add_new_def)

lemma group_line_set:
  assumes "line sp t up" and "distinct (map pt_id (spec_teams sp))" and "[] \<notin> pt_id ` set (spec_teams sp)"
    and "set seen \<inter> pt_id ` set (t # up) = {}"
  shows "set (group_line (spec_teams sp) seen (Some (pt_id t)) gs) = set gs \<union> (\<Union>s \<in> set (t # up). set (pt_groups s))"
  using assms
proof (induction arbitrary: seen gs rule: line.induct)
  case top
  have "ps_organization sp \<in> set (spec_teams sp)" by (simp add: spec_teams_def walk_self)
  moreover from this have "pt_id (ps_organization sp) \<noteq> []" using top(2) by (metis image_eqI)
  ultimately show ?case using top
    by (subst group_line.simps) (auto simp: by_id_unique parent_of_top set_fold_add_new group_line.simps)
next
  case (child t up c)
  have l: "line sp c (t # up)" by (rule line.child [OF child.hyps])
  have mem: "c \<in> set (spec_teams sp)" "t \<in> set (spec_teams sp)" using line_teams [OF l] by auto
  have "pt_id c \<notin> pt_id ` set (t # up)"
  proof
    assume "pt_id c \<in> pt_id ` set (t # up)"
    then obtain s where s: "s \<in> set (t # up)" "pt_id c = pt_id s" by auto
    then have "s \<in> set (spec_teams sp)" using line_teams [OF l] by auto
    then have "c = s" using s(2) mem(1) child.prems(1) by (auto simp: distinct_map dest: inj_onD)
    then show False using line_larger [OF l s(1)] by simp
  qed
  then have "set (pt_id c # seen) \<inter> pt_id ` set (t # up) = {}" using child.prems(3) by auto
  then have "set (group_line (spec_teams sp) (pt_id c # seen) (Some (pt_id t)) (fold add_new (pt_groups c) gs)) =
      set (fold add_new (pt_groups c) gs) \<union> (\<Union>s \<in> set (t # up). set (pt_groups s))"
    by (rule child.IH [OF child.prems(1,2)])
  moreover have "pt_id c \<noteq> []" "pt_id c \<notin> set seen" using child.prems(2,3) mem(1) by (metis image_eqI, auto)
  ultimately show ?case
    using by_id_unique [OF child.prems(1) mem(1)] parent_of_child [OF child.prems(1) mem(2) child.hyps(2)]
    by (subst group_line.simps) (auto simp: set_fold_add_new)
qed

lemma unit_line_set:
  assumes "line sp t up" and "distinct (map pt_id (spec_teams sp))" and "[] \<notin> pt_id ` set (spec_teams sp)"
  shows "set (unit_line_groups sp (pt_id t)) = (\<Union>s \<in> set (t # up). set (pt_groups s))"
  unfolding unit_line_groups_def using group_line_set [OF assms, of "[]" "[]"] by simp

lemma bound_on_line: "bounded_by sp t u \<Longrightarrow>
   \<exists>up s ov. line sp t up \<and> line sp s ov \<and> pt_id s = u \<and> set (s # ov) \<subseteq> set (t # up)"
proof (induction rule: bounded_by.induct)
  case root
  show ?case using line.top by blast
next
  case (below t u c)
  then obtain up s ov where l: "line sp t up" "line sp s ov" "pt_id s = u" "set (s # ov) \<subseteq> set (t # up)" by blast
  have "line sp c (t # up)" by (rule line.child [OF l(1) below.hyps(2)])
  then show ?case
  proof (cases "pt_placement c")
    case True
    with \<open>line sp c (t # up)\<close> show ?thesis by fastforce
  next
    case False
    with \<open>line sp c (t # up)\<close> l show ?thesis by (intro exI [of _ "t # up"] exI [of _ s] exI [of _ ov]) auto
  qed
qed

lemma bound_groups:
  assumes "bounded_by sp t u" and "distinct (map pt_id (spec_teams sp))" and "[] \<notin> pt_id ` set (spec_teams sp)"
  shows "set (unit_line_groups sp u) \<subseteq> set (unit_line_groups sp (pt_id t))"
proof -
  obtain up s ov where l: "line sp t up" "line sp s ov" "pt_id s = u" "set (s # ov) \<subseteq> set (t # up)"
    using bound_on_line [OF assms(1)] by blast
  then show ?thesis using unit_line_set [OF l(1) assms(2,3)] unit_line_set [OF l(2) assms(2,3)] by blast
qed

lemma place_members_keys: "distinct (map fst (fst (place_members sp boundary)))"
  unfolding place_members_def
  by (rule fold_keeps [where P = "\<lambda>acc. distinct (map fst (fst acc))"], rule fold_keeps [where P = "\<lambda>acc. distinct (map fst (fst acc))"])
    (auto simp: place_agent_in_def dict_push_def distinct_update intro!: fold_keeps [where P = "\<lambda>acc. distinct (map fst (fst acc))"]
      split: prod.splits)

lemma update_subset: "set (AList.update k v d) \<subseteq> insert (k, v) (set d)"
  by (induction d) auto

lemma resolved_placement:
  assumes "(pid, pl) \<in> set (pm_placements (resolve_placements sp))"
  obtains kv where "kv \<in> set (fst (place_members sp (pm_boundary (resolve_placements sp))))" and "pl = made_placement sp kv"
proof -
  let ?members = "fst (place_members sp (pm_boundary (resolve_placements sp)))"
  have "pm_placements (resolve_placements sp) =
      fold (\<lambda>kv d. AList.update (pl_id (made_placement sp kv)) (made_placement sp kv) d) ?members []"
    by (simp add: resolve_placements_def Let_def case_prod_beta)
  moreover have "\<forall>(k, v) \<in> set (fold (\<lambda>kv d. AList.update (pl_id (made_placement sp kv)) (made_placement sp kv) d) ?members []).
      \<exists>kv \<in> set ?members. v = made_placement sp kv"
    by (rule fold_keeps) (use update_subset in fastforce)+
  ultimately show thesis using assms that by fastforce
qed

text \<open>
  Sharing a volume grants nothing. In an organization whose teams have different, non-empty ids,
  every agent that lives in a resolved placement belongs to a team whose own line of units already has
  every group the volume is scoped to, and every data class the volume carries is a declared protected
  class shared with one of that team's groups.
\<close>

theorem volume_grants_nothing:
  assumes "distinct (map pt_id (spec_teams sp))" and "[] \<notin> pt_id ` set (spec_teams sp)"
    and "(pid, pl) \<in> set (pm_placements (resolve_placements sp))" and "a \<in> set (pl_agents pl)"
  shows "\<exists>t \<in> set (spec_teams sp). \<exists>x \<in> set (pt_members t). pa_id x = a \<and> pl_environment pl \<in> set (pa_environments x) \<and>
    set (pl_groups pl) \<subseteq> set (unit_line_groups sp (pt_id t)) \<and>
    (\<forall>c \<in> set (pl_data_classes pl). \<exists>dc \<in> set (ps_data_classes sp). dc_id dc = c \<and> dc_scope dc = ''protected'' \<and>
       (\<exists>g \<in> set (dc_groups dc). g \<in> set (unit_line_groups sp (pt_id t))))"
proof -
  let ?b = "pm_boundary (resolve_placements sp)"
  obtain u e ms where kv: "((u, e), ms) \<in> set (fst (place_members sp ?b))" "pl = made_placement sp ((u, e), ms)"
    using resolved_placement [OF assms(3)] by (metis prod.exhaust)
  have "ms = dict_get (fst (place_members sp ?b)) (u, e) []"
    using kv(1) place_members_keys [of sp ?b] by (simp add: dict_get_def)
  then have "a \<in> set (dict_get (fst (place_members sp ?b)) (u, e) [])"
    using assms(4) kv(2) by (simp add: made_placement_def Let_def)
  then obtain t x where t: "t \<in> set (spec_teams sp)" "x \<in> set (pt_members t)" "pa_id x = a" "e \<in> set (pa_environments x)"
      "unit_at sp ?b t = u" unfolding place_members_groups by blast
  obtain v where v: "bounded_by sp t v" using every_team_bounded [OF t(1)] by blast
  have "v = u" using unit_at_bounds [OF assms(1) v] t(5) by simp
  then have sub: "set (unit_line_groups sp u) \<subseteq> set (unit_line_groups sp (pt_id t))"
    using bound_groups [OF v assms(1,2)] by simp
  have "pl_groups pl = unit_line_groups sp u" "pl_environment pl = e" "pl_data_classes pl = carried sp (unit_line_groups sp u)"
    by (simp_all add: kv(2) made_placement_def Let_def)
  then show ?thesis using t sub by (intro bexI [of _ t] bexI [of _ x]) (auto simp: carried_def)
qed

section \<open>An organization\<close>

definition place_member :: "string \<Rightarrow> string list \<Rightarrow> place_agent" where
  "place_member k es = \<lparr>pa_id = k, pa_peers = [], pa_environments = es, pa_shared_service = False\<rparr>"

definition example_units :: place_spec where
  "example_units = \<lparr>ps_organization = PlaceTeam ''org'' ''ceo'' [''all''] False [place_member ''ceo'' [''analysis'']]
       [PlaceTeam ''hr'' ''hr-lead'' [''people''] True [place_member ''hr-lead'' [''analysis''], place_member ''clerk'' [''analysis'']] [],
        PlaceTeam ''ops'' ''coo'' [] False [place_member ''coo'' [''analysis'']] []],
     ps_data_classes = [\<lparr>dc_id = ''payroll'', dc_scope = ''protected'', dc_groups = [''people'']\<rparr>],
     ps_flows = [], ps_channels = []\<rparr>"

theorem generated_policy_does_not_drift_witness:
  "drift_findings example_units (resolve_placements example_units) = [] \<and> standing_reach example_units \<noteq> []"
proof
  have "[] \<notin> pa_id ` set (all_agents example_units)" by code_simp
  then show "drift_findings example_units (resolve_placements example_units) = []" by (rule generated_policy_does_not_drift)
  show "standing_reach example_units \<noteq> []" by code_simp
qed

theorem network_is_the_standing_structure_witness:
  "(\<exists>p q. lives_in example_units ''ceo'' p \<and> lives_in example_units ''clerk'' q \<and>
      (p = q \<or> (\<exists>a' b'. lives_in example_units a' p \<and> lives_in example_units b' q \<and> stands example_units a' b'))) \<and>
   permits (resolve_placements example_units) ''coo'' ''clerk'' \<and> \<not> permits (resolve_placements example_units) ''x'' ''clerk''"
proof -
  have "distinct (map pt_id (spec_teams example_units))" by code_simp
  moreover have "permits (resolve_placements example_units) ''ceo'' ''clerk''"
    "permits (resolve_placements example_units) ''coo'' ''clerk''" "\<not> permits (resolve_placements example_units) ''x'' ''clerk''"
    by code_simp+
  ultimately show ?thesis using network_is_the_standing_structure [of example_units "''ceo''" "''clerk''"] by simp
qed

definition example_volume :: placement where
  "example_volume = \<lparr>pl_id = ''hr--analysis'', pl_unit = ''hr'', pl_environment = ''analysis'', pl_agents = [''clerk'', ''hr-lead''],
     pl_groups = [''people'', ''all''], pl_data_classes = [''payroll'']\<rparr>"

theorem volume_grants_nothing_witness:
  "\<exists>t \<in> set (spec_teams example_units). \<exists>x \<in> set (pt_members t). pa_id x = ''clerk'' \<and> ''analysis'' \<in> set (pa_environments x) \<and>
    {''people'', ''all''} \<subseteq> set (unit_line_groups example_units (pt_id t))"
proof -
  have "distinct (map pt_id (spec_teams example_units))" "[] \<notin> pt_id ` set (spec_teams example_units)"
    "(''hr--analysis'', example_volume) \<in> set (pm_placements (resolve_placements example_units))" "''clerk'' \<in> set (pl_agents example_volume)"
    by code_simp+
  from volume_grants_nothing [OF this] show ?thesis by (auto simp: example_volume_def)
qed

section \<open>Where the code falls short\<close>

text \<open>Two units and environments whose ids join to one text are one placement, and one unit's agents are left out of it.\<close>

definition colliding_org :: place_spec where
  "colliding_org = \<lparr>ps_organization = PlaceTeam ''o'' [] [] False []
       [PlaceTeam ''a'' [] [] True [place_member ''x'' [''b--c'']] [], PlaceTeam ''a--b'' [] [] True [place_member ''y'' [''c'']] []],
     ps_data_classes = [], ps_flows = [], ps_channels = []\<rparr>"

lemma placement_ids_collide:
  "permits (resolve_placements colliding_org) ''x'' ''y''"
  "map (pl_agents \<circ> snd) (pm_placements (resolve_placements colliding_org)) = [[''y'']]"
  by code_simp+

text \<open>One agent with two environments is reported as two placed agents that share.\<close>

lemma one_agent_counts_twice:
  "placements_say_what_they_share None [] \<lparr>ps_organization = PlaceTeam ''o'' [] [] False [place_member ''x'' [''a'', ''b'']] [],
     ps_data_classes = [], ps_flows = [], ps_channels = []\<rparr> = [SinglePlacement 2]"
  by code_simp

text \<open>A leader of one placement lends its reach to everybody who lives with it.\<close>

lemma reach_is_shared_in_a_placement:
  "permits (resolve_placements example_units) ''coo'' ''clerk'' \<and> \<not> stands example_units ''coo'' ''clerk''"
proof
  show "permits (resolve_placements example_units) ''coo'' ''clerk''" by code_simp
  have "(''coo'', ''clerk'') \<notin> pairs (requests example_units)"
    unfolding pairs_list by code_simp
  moreover have "distinct (map pt_id (spec_teams example_units))" by code_simp
  ultimately show "\<not> stands example_units ''coo'' ''clerk''" using requests_stand by blast
qed

end
