(* ===== verification/Scheduling.thy ===== *)
theory Scheduling
  imports Prelude
begin

text \<open>
  Cadences (\<open>scheduling.py\<close>): parsing of cron expressions and plain intervals, the times they
  fire at, what was missed, and the policies of a trigger. An instant is a number of microseconds since
  the epoch. A time zone is what \<open>zoneinfo\<close> gives for its name: the wall clock at an instant, and
  the instant of a wall-clock reading (the first of two where the clock was set back); arithmetic on
  aware datetimes is on the wall clock. Wall-clock readings are microseconds, whole minutes where the code
  cuts them. The years 1 to 9999 that a \<open>datetime\<close> is limited to are not modelled.
\<close>

section \<open>Reading numbers\<close>

definition digit_value :: "char \<Rightarrow> int" where
  "digit_value c = int (of_char c :: nat) - 48"

definition py_isdigit :: "string \<Rightarrow> bool" where
  "py_isdigit s \<longleftrightarrow> s \<noteq> [] \<and> list_all is_digit s"

definition digits_value :: "string \<Rightarrow> int" where
  "digits_value s = foldl (\<lambda>n c. 10 * n + digit_value c) 0 s"

text \<open>\<open>int(text)\<close>: a sign, digits, and single underscores between digits.\<close>

fun int_digits :: "bool \<Rightarrow> int \<Rightarrow> string \<Rightarrow> int option" where
  "int_digits after_digit n [] = (if after_digit then Some n else None)"
| "int_digits after_digit n (c # cs) =
     (if is_digit c then int_digits True (10 * n + digit_value c) cs
      else if c = CHR ''_'' \<and> after_digit then int_digits False n cs
      else None)"

definition py_int :: "string \<Rightarrow> int option" where
  "py_int s =
     (case py_strip s of
        [] \<Rightarrow> None
      | c # cs \<Rightarrow> if c = CHR ''-'' then map_option uminus (int_digits False 0 cs)
                  else if c = CHR ''+'' then int_digits False 0 cs
                  else int_digits False 0 (c # cs))"

text \<open>\<open>s.split(sep, 1)\<close>: what is before the first separator, and what is after it if there is one.\<close>

fun split_first :: "char \<Rightarrow> string \<Rightarrow> string \<times> string option" where
  "split_first sep [] = ([], None)"
| "split_first sep (c # cs) =
     (if c = sep then ([], Some cs) else (case split_first sep cs of (a, b) \<Rightarrow> (c # a, b)))"

text \<open>\<open>s.split()\<close>.\<close>

fun words_from :: "string \<Rightarrow> string \<Rightarrow> string list" where
  "words_from word [] = (if word = [] then [] else [word])"
| "words_from word (c # cs) =
     (if is_space c then (if word = [] then words_from [] cs else word # words_from [] cs)
      else words_from (word @ [c]) cs)"

definition py_words :: "string \<Rightarrow> string list" where
  "py_words s = words_from [] s"

section \<open>Cron\<close>

text \<open>
  Everything but \<open>NotANumber\<close> (a \<open>ValueError\<close> of \<open>int\<close>) and \<open>UnknownUnit\<close> (a \<open>KeyError\<close>) is a
  \<open>CadenceError\<close>. \<open>InWeekdays\<close> is the one around the message of another error.
\<close>

datatype schedule_error =
    InvalidStep string
  | FieldOutOfRange string int int
  | MatchesNothing string
  | FieldCount nat string
  | InWeekdays schedule_error
  | UnknownTimezone string
  | IntervalTooSmall
  | NotANumber string
  | UnknownUnit string

definition read_int :: "string \<Rightarrow> schedule_error + int" where
  "read_int s = (case py_int s of None \<Rightarrow> Inl (NotANumber s) | Some n \<Rightarrow> Inr n)"

text \<open>\<open>range(start, end + 1, step)\<close>.\<close>

definition stepped :: "int \<Rightarrow> int \<Rightarrow> int \<Rightarrow> int list" where
  "stepped start fin step = map (\<lambda>i. start + int i * step) [0..<nat ((fin - start) div step + 1)]"

definition parse_part :: "string \<Rightarrow> int \<Rightarrow> int \<Rightarrow> string \<Rightarrow> schedule_error + int list" where
  "parse_part field low high part =
     (case split_first CHR ''/'' part of (body, step_text) \<Rightarrow>
        ebind (case step_text of
                 None \<Rightarrow> Inr 1
               | Some t \<Rightarrow> if \<not> py_isdigit t \<or> digits_value t < 1 then Inl (InvalidStep t) else Inr (digits_value t))
          (\<lambda>step.
        ebind (if body = ''*'' \<or> body = ''?'' then Inr (low, high)
               else (case split_first CHR ''-'' body of
                       (a, Some b) \<Rightarrow> ebind (read_int a) (\<lambda>start. ebind (read_int b) (\<lambda>fin. Inr (start, fin)))
                     | (a, None) \<Rightarrow> ebind (read_int a) (\<lambda>n. Inr (n, n))))
          (\<lambda>(start, fin).
             if low \<le> start \<and> start \<le> high \<and> low \<le> fin \<and> fin \<le> high \<and> start \<le> fin
             then Inr (stepped start fin step)
             else Inl (FieldOutOfRange field low high))))"

fun parse_parts :: "string \<Rightarrow> int \<Rightarrow> int \<Rightarrow> string list \<Rightarrow> int set \<Rightarrow> schedule_error + int set" where
  "parse_parts field low high [] values = Inr values"
| "parse_parts field low high (p # ps) values =
     ebind (parse_part field low high p) (\<lambda>ns. parse_parts field low high ps (values \<union> set ns))"

definition parse_field :: "string \<Rightarrow> int \<Rightarrow> int \<Rightarrow> schedule_error + int set" where
  "parse_field field low high =
     ebind (parse_parts field low high (split_on CHR '','' field) {})
       (\<lambda>values. if values = {} then Inl (MatchesNothing field) else Inr values)"

record cron_schedule =
  cr_minutes :: "int set"
  cr_hours :: "int set"
  cr_days :: "int set"
  cr_months :: "int set"
  cr_weekdays :: "int set"

definition cron_parse :: "string \<Rightarrow> schedule_error + cron_schedule" where
  "cron_parse expression =
     (let fields = py_words expression in
      if length fields \<noteq> 5 then Inl (FieldCount (length fields) expression)
      else ebind (case parse_field (fields ! 4) 0 7 of Inl e \<Rightarrow> Inl (InWeekdays e) | Inr w \<Rightarrow> Inr w) (\<lambda>w.
        let weekdays = (if 7 \<in> w then (w - {7}) \<union> {0} else w) in
        ebind (parse_field (fields ! 0) 0 59) (\<lambda>minutes.
        ebind (parse_field (fields ! 1) 0 23) (\<lambda>hours.
        ebind (parse_field (fields ! 2) 1 31) (\<lambda>days.
        ebind (parse_field (fields ! 3) 1 12) (\<lambda>months.
          Inr \<lparr>cr_minutes = minutes, cr_hours = hours, cr_days = days, cr_months = months, cr_weekdays = weekdays\<rparr>))))))"

text \<open>
  The calendar of a day counted from 1 January 1970, as \<open>datetime\<close> computes it: the day within its cycles
  of 400, 100, 4 and 1 years, then the month. The first day is a Thursday.
\<close>

fun month_from :: "int list \<Rightarrow> int \<Rightarrow> int \<Rightarrow> int \<times> int" where
  "month_from [] m n = (m, n + 1)"
| "month_from (l # ls) m n = (if n < l then (m, n + 1) else month_from ls (m + 1) (n - l))"

definition month_day :: "int \<Rightarrow> int \<times> int" where
  "month_day day =
     (let n0 = (day + 719162) mod 146097;
          n100 = n0 div 36524; n1 = n0 mod 36524;
          n4 = n1 div 1461; n2 = n1 mod 1461;
          y = n2 div 365; n = n2 mod 365
      in if y = 4 \<or> n100 = 4 then (12, 31)
         else (let leap = (y = 3 \<and> (n4 \<noteq> 24 \<or> n100 = 3))
               in month_from [31, if leap then 29 else 28, 31, 30, 31, 30, 31, 31, 30, 31, 30, 31] 1 n))"

definition minute_of :: "int \<Rightarrow> int" where
  "minute_of m = m mod 60"

definition hour_of :: "int \<Rightarrow> int" where
  "hour_of m = m div 60 mod 24"

text \<open>A wall-clock minute, counted from the start of 1970.\<close>

definition cron_matches :: "cron_schedule \<Rightarrow> int \<Rightarrow> bool" where
  "cron_matches c m \<longleftrightarrow>
     (let day = m div 1440; (month, dom) = month_day day; weekday = (day + 3) mod 7 in
      minute_of m \<in> cr_minutes c \<and> hour_of m \<in> cr_hours c \<and> month \<in> cr_months c \<and>
      dom \<in> cr_days c \<and> (weekday + 1) mod 7 \<in> cr_weekdays c)"

section \<open>Cadences\<close>

record cadence =
  ca_expression :: string
  ca_timezone :: string

record zone =
  zn_to_local :: "instant \<Rightarrow> int"
  zn_to_utc :: "int \<Rightarrow> instant"

definition utc_zone :: zone where
  "utc_zone = \<lparr>zn_to_local = (\<lambda>t. t), zn_to_utc = (\<lambda>l. l)\<rparr>"

type_synonym zone_db = "string \<Rightarrow> zone option"

definition resolve_timezone :: "zone_db \<Rightarrow> string \<Rightarrow> schedule_error + zone" where
  "resolve_timezone db name =
     (case db name of
        Some z \<Rightarrow> Inr z
      | None \<Rightarrow> if py_upper name = ''UTC'' then Inr utc_zone else Inl (UnknownTimezone name))"

definition aliases :: "(string \<times> string) list" where
  "aliases = [(''hourly'', ''every 1 hour''), (''daily'', ''every 1 day''), (''nightly'', ''0 2 * * *''),
     (''weekly'', ''every 1 week''), (''weekdays'', ''0 9 * * 1-5''), (''@hourly'', ''0 * * * *''),
     (''@daily'', ''0 0 * * *''), (''@weekly'', ''0 0 * * 0''), (''@monthly'', ''0 0 1 * *'')]"

definition unit_seconds :: "(string \<times> int) list" where
  "unit_seconds = [(''minute'', 60), (''hour'', 3600), (''day'', 86400), (''week'', 604800)]"

definition unit_words :: "string list" where
  "unit_words = [''minute'', ''minutes'', ''hour'', ''hours'', ''day'', ''days'', ''week'', ''weeks'']"

text \<open>
  The match of \<open>_INTERVAL_RE\<close> on a stripped expression: the word \<open>every\<close>, perhaps digits, a unit, in
  any case, between white space. The second component is the unit as it is written.
\<close>

definition interval_match :: "string \<Rightarrow> (string option \<times> string) option" where
  "interval_match expression =
     (case py_words expression of
        [a, b] \<Rightarrow> if py_lower a = ''every'' \<and> py_lower b \<in> set unit_words then Some (None, b) else None
      | [a, n, b] \<Rightarrow> if py_lower a = ''every'' \<and> py_isdigit n \<and> py_lower b \<in> set unit_words then Some (Some n, b) else None
      | _ \<Rightarrow> None)"

text \<open>\<open>text.rstrip("s")\<close>.\<close>

definition rstrip_s :: "string \<Rightarrow> string" where
  "rstrip_s s = rev (dropWhile (\<lambda>c. c = CHR ''s'') (rev s))"

datatype timing = CronTiming cron_schedule | IntervalTiming int

record parsed_cadence =
  pc_timing :: timing
  pc_tz :: zone
  pc_source :: string

definition parse_cadence :: "zone_db \<Rightarrow> cadence \<Rightarrow> schedule_error + parsed_cadence" where
  "parse_cadence db c =
     (let expression = dict_get aliases (py_lower (py_strip (ca_expression c))) (py_strip (ca_expression c)) in
      ebind (resolve_timezone db (ca_timezone c)) (\<lambda>tz.
        case interval_match expression of
          Some (n, u) \<Rightarrow>
            (let count = (case n of None \<Rightarrow> 1 | Some d \<Rightarrow> digits_value d);
                 word = py_lower (rstrip_s u)
             in if count < 1 then Inl IntervalTooSmall
                else (case map_of unit_seconds word of
                        None \<Rightarrow> Inl (UnknownUnit word)
                      | Some s \<Rightarrow> Inr \<lparr>pc_timing = IntervalTiming (count * s), pc_tz = tz, pc_source = expression\<rparr>))
        | None \<Rightarrow> ebind (cron_parse expression) (\<lambda>cron.
            Inr \<lparr>pc_timing = CronTiming cron, pc_tz = tz, pc_source = expression\<rparr>)))"

definition describe_cadence :: "parsed_cadence \<Rightarrow> string" where
  "describe_cadence p =
     (case pc_timing p of
        IntervalTiming seconds \<Rightarrow>
          (case List.find (\<lambda>(u, secs). seconds mod secs = 0)
                  [(''week'', 604800), (''day'', 86400), (''hour'', 3600), (''minute'', 60 :: int)] of
             Some (u, secs) \<Rightarrow> (let n = seconds div secs in
               ''every '' @ show_int n @ '' '' @ u @ (if n = 1 then [] else ''s''))
           | None \<Rightarrow> ''cron `'' @ pc_source p @ ''`'')
      | CronTiming _ \<Rightarrow> ''cron `'' @ pc_source p @ ''`'')"

section \<open>Fire times\<close>

text \<open>The scan, from minute to minute, that jumps to the next hour when the hour cannot match.\<close>

function cron_scan :: "cron_schedule \<Rightarrow> int \<Rightarrow> nat \<Rightarrow> int \<Rightarrow> int list" where
  "cron_scan c deadline count m =
     (if m \<le> deadline \<and> 0 < count
      then (if cron_matches c m then m # cron_scan c deadline (count - 1) (m + 1)
            else if hour_of m \<notin> cr_hours c then cron_scan c deadline count ((m + 60) div 60 * 60)
            else cron_scan c deadline count (m + 1))
      else [])"
  by pat_completeness auto

termination
  by (relation "measure (\<lambda>(c, deadline, count, m). nat (deadline + 1 - m))") auto

declare cron_scan.simps [simp del]

definition minute_us :: int where
  "minute_us = 60000000"

definition times_of :: "parsed_cadence \<Rightarrow> instant \<Rightarrow> nat \<Rightarrow> int \<Rightarrow> instant list" where
  "times_of p after_t count horizon_days =
     (case pc_timing p of
        IntervalTiming seconds \<Rightarrow>
          (let step = seconds * 1000000; elapsed = after_t div step; first = (elapsed + 1) * step
           in map (\<lambda>i. first + int i * step) [0..<count])
      | CronTiming cron \<Rightarrow>
          (let local_m = zn_to_local (pc_tz p) after_t div minute_us
           in map (\<lambda>m. zn_to_utc (pc_tz p) (m * minute_us))
                (cron_scan cron (local_m + horizon_days * 1440) count (local_m + 1))))"

definition next_fire_times :: "zone_db \<Rightarrow> cadence \<Rightarrow> instant \<Rightarrow> nat \<Rightarrow> int \<Rightarrow> schedule_error + instant list" where
  "next_fire_times db c after_t count horizon_days =
     ebind (parse_cadence db c) (\<lambda>p. Inr (times_of p after_t count horizon_days))"

definition next_fire_time :: "zone_db \<Rightarrow> cadence \<Rightarrow> instant \<Rightarrow> schedule_error + instant option" where
  "next_fire_time db c after_t =
     ebind (next_fire_times db c after_t 1 400) (\<lambda>ts. Inr (case ts of [] \<Rightarrow> None | t # _ \<Rightarrow> Some t))"

text \<open>The generator drained into a list; \<open>None\<close> is a loop that did not end within the fuel.\<close>

fun iter_fire_times :: "nat \<Rightarrow> zone_db \<Rightarrow> cadence \<Rightarrow> instant \<Rightarrow> instant \<Rightarrow> (schedule_error + instant list) option" where
  "iter_fire_times 0 db c cursor fin = None"
| "iter_fire_times (Suc fuel) db c cursor fin =
     (case next_fire_time db c cursor of
        Inl e \<Rightarrow> Some (Inl e)
      | Inr None \<Rightarrow> Some (Inr [])
      | Inr (Some upcoming) \<Rightarrow>
          if fin \<le> upcoming then Some (Inr [])
          else map_option (\<lambda>r. ebind r (\<lambda>ts. Inr (upcoming # ts))) (iter_fire_times fuel db c upcoming fin))"

section \<open>Policies\<close>

datatype overlap_policy = OverlapSkip | OverlapQueue | OverlapCancelPrevious | OverlapAllow

datatype catch_up_policy = SkipMissed | RunOnce | RunAll

record failure_policy =
  fp_retries :: int
  fp_backoff_seconds :: int
  fp_escalate_after_failures :: int
  fp_notify_channel :: "string option"
  fp_halt_after_consecutive_failures :: int

record trigger =
  tg_id :: string
  tg_agent :: string
  tg_cadence :: "cadence option"
  tg_enabled :: bool
  tg_overlap :: overlap_policy
  tg_catch_up :: catch_up_policy
  tg_deliver_to :: "string list"
  tg_failure :: failure_policy

definition missed_runs :: "nat \<Rightarrow> zone_db \<Rightarrow> trigger \<Rightarrow> instant \<Rightarrow> instant \<Rightarrow> (schedule_error + instant list) option" where
  "missed_runs fuel db tg last_run now =
     (case tg_cadence tg of
        None \<Rightarrow> Some (Inr [])
      | Some c \<Rightarrow> map_option (\<lambda>r. ebind r (\<lambda>missed. Inr
          (if missed = [] \<or> tg_catch_up tg = SkipMissed then []
           else if tg_catch_up tg = RunOnce then [last missed] else missed)))
          (iter_fire_times fuel db c last_run now))"

definition admits_new_run :: "trigger \<Rightarrow> nat \<Rightarrow> bool" where
  "admits_new_run tg running \<longleftrightarrow>
     running = 0 \<or> tg_overlap tg \<in> {OverlapAllow, OverlapQueue, OverlapCancelPrevious}"

definition should_halt :: "trigger \<Rightarrow> int \<Rightarrow> bool" where
  "should_halt tg failures \<longleftrightarrow> failures \<ge> fp_halt_after_consecutive_failures (tg_failure tg)"

definition should_escalate :: "trigger \<Rightarrow> int \<Rightarrow> bool" where
  "should_escalate tg failures \<longleftrightarrow> failures \<ge> fp_escalate_after_failures (tg_failure tg)"

definition retry_delays :: "trigger \<Rightarrow> int list" where
  "retry_delays tg = map (\<lambda>i. fp_backoff_seconds (tg_failure tg) * 2 ^ i) [0..<nat (fp_retries (tg_failure tg))]"

end
