(* ===== verification/Scheduler.thy ===== *)
theory Scheduler
  imports Scheduling
begin

text \<open>
  The scheduler service (\<open>runtime/scheduler.py\<close>): what is due, firing a trigger under its overlap,
  retry, escalation and halt rules, catching up, ticking. The runner and the notifier are given to the
  service; they act on a world of their own and do not call the service back. What they raise is caught
  (the runner's failures are retried) or not modelled (the notifier's). Reasons are values with what the
  text interpolates.
\<close>

section \<open>State\<close>

record trigger_state =
  ts_next_run :: "instant option"
  ts_last_run :: "instant option"
  ts_running :: nat
  ts_queued :: nat
  ts_consecutive_failures :: nat
  ts_total_runs :: nat
  ts_total_failures :: nat
  ts_halted :: bool
  ts_halted_reason :: nat

definition new_state :: trigger_state where
  "new_state = \<lparr>ts_next_run = None, ts_last_run = None, ts_running = 0, ts_queued = 0, ts_consecutive_failures = 0,
     ts_total_runs = 0, ts_total_failures = 0, ts_halted = False, ts_halted_reason = 0\<rparr>"

datatype fire_reason = NoReason | Halted nat | AtMaxConcurrency | StillInFlight | QueuedBehind | RunFailed string bool

record 'r fire_outcome =
  fo_trigger_id :: string
  fo_fired_at :: instant
  fo_ok :: bool
  fo_skipped :: bool
  fo_reason :: fire_reason
  fo_attempts :: nat
  fo_escalated_to :: "string option"
  fo_result :: "'r option"

record 'r scheduler =
  sc_triggers :: "trigger list"
  sc_max_concurrency :: nat
  sc_state :: "(string \<times> trigger_state) list"
  sc_history :: "'r fire_outcome list"

datatype 'r notice = Completed string "'r option" | FailedTimes string nat fire_reason string

record ('w, 'r) given =
  gv_zones :: zone_db
  gv_runner :: "'w \<Rightarrow> trigger \<Rightarrow> instant \<Rightarrow> 'w \<times> (string + 'r)"
  gv_notifier :: "('w \<Rightarrow> string \<Rightarrow> 'r notice \<Rightarrow> 'w) option"

definition new_scheduler :: "trigger list \<Rightarrow> nat \<Rightarrow> 'r scheduler" where
  "new_scheduler tgs limit = \<lparr>sc_triggers = tgs, sc_max_concurrency = limit,
     sc_state = fold (\<lambda>tg. dict_setdefault (tg_id tg) new_state) tgs [], sc_history = []\<rparr>"

definition state_of :: "'r scheduler \<Rightarrow> string \<Rightarrow> trigger_state option" where
  "state_of sc k = map_of (sc_state sc) k"

definition put_state :: "string \<Rightarrow> trigger_state \<Rightarrow> 'r scheduler \<Rightarrow> 'r scheduler" where
  "put_state k st sc = sc\<lparr>sc_state := AList.update k st (sc_state sc)\<rparr>"

datatype fire_error = NoSuchTrigger string | BadCadence schedule_error

section \<open>Planning\<close>

definition next_run_for :: "zone_db \<Rightarrow> trigger \<Rightarrow> instant \<Rightarrow> trigger_state \<Rightarrow> fire_error + trigger_state" where
  "next_run_for db tg now st =
     (case tg_cadence tg of
        None \<Rightarrow> Inr st
      | Some c \<Rightarrow> (case next_fire_time db c now of
          Inl e \<Rightarrow> Inl (BadCadence e) | Inr r \<Rightarrow> Inr (st\<lparr>ts_next_run := r\<rparr>)))"

text \<open>A loop over triggers that stops at the first error, with what was done until then.\<close>

fun prime_all :: "zone_db \<Rightarrow> instant \<Rightarrow> trigger list \<Rightarrow> 'r scheduler \<Rightarrow> 'r scheduler \<times> (fire_error + unit)" where
  "prime_all db now [] sc = (sc, Inr ())"
| "prime_all db now (tg # tgs) sc =
     (if tg_cadence tg = None \<or> \<not> tg_enabled tg then prime_all db now tgs sc
      else (case state_of sc (tg_id tg) of
              None \<Rightarrow> (sc, Inl (NoSuchTrigger (tg_id tg)))
            | Some st \<Rightarrow> (case next_run_for db tg now st of
                Inl e \<Rightarrow> (sc, Inl e)
              | Inr st' \<Rightarrow> prime_all db now tgs (put_state (tg_id tg) st' sc))))"

definition prime_triggers :: "zone_db \<Rightarrow> instant \<Rightarrow> 'r scheduler \<Rightarrow> 'r scheduler \<times> (fire_error + unit)" where
  "prime_triggers db now sc = prime_all db now (sc_triggers sc) sc"

definition is_due :: "'r scheduler \<Rightarrow> instant \<Rightarrow> trigger \<Rightarrow> bool" where
  "is_due sc now tg \<longleftrightarrow>
     (case state_of sc (tg_id tg) of
        None \<Rightarrow> False
      | Some st \<Rightarrow> tg_enabled tg \<and> \<not> ts_halted st \<and> (case ts_next_run st of None \<Rightarrow> False | Some t \<Rightarrow> t \<le> now))"

definition due :: "'r scheduler \<Rightarrow> instant \<Rightarrow> trigger list" where
  "due sc now = filter (is_due sc now) (sc_triggers sc)"

definition in_flight :: "'r scheduler \<Rightarrow> nat" where
  "in_flight sc = sum_list (map (\<lambda>(k, st). ts_running st) (sc_state sc))"

section \<open>Firing\<close>

definition notify :: "('w, 'r) given \<Rightarrow> string option \<Rightarrow> 'r notice \<Rightarrow> 'w \<Rightarrow> 'w" where
  "notify gv channel what w =
     (case (channel, gv_notifier gv) of (Some ch, Some f) \<Rightarrow> if ch \<noteq> [] then f w ch what else w | _ \<Rightarrow> w)"

definition deliver :: "('w, 'r) given \<Rightarrow> trigger \<Rightarrow> 'r fire_outcome \<Rightarrow> 'w \<Rightarrow> 'w" where
  "deliver gv tg out w = fold (\<lambda>ch. notify gv (Some ch) (Completed (tg_id tg) (fo_result out))) (tg_deliver_to tg) w"

fun attempts :: "('w, 'r) given \<Rightarrow> trigger \<Rightarrow> instant \<Rightarrow> nat \<Rightarrow> nat \<Rightarrow> 'w \<Rightarrow> 'w \<times> nat \<times> (string + 'r)" where
  "attempts gv tg now spare done_so_far w =
     (case gv_runner gv w tg now of
        (w', Inr r) \<Rightarrow> (w', done_so_far + 1, Inr r)
      | (w', Inl e) \<Rightarrow>
          (case spare of 0 \<Rightarrow> (w', done_so_far + 1, Inl e) | Suc n \<Rightarrow> attempts gv tg now n (done_so_far + 1) w'))"

declare attempts.simps [simp del]

definition skip_run ::
  "('w, 'r) given \<Rightarrow> trigger \<Rightarrow> instant \<Rightarrow> fire_reason \<Rightarrow> trigger_state \<Rightarrow> 'r scheduler \<Rightarrow> 'r scheduler \<times> (fire_error + 'r fire_outcome)" where
  "skip_run gv tg now reason st sc =
     (let out = \<lparr>fo_trigger_id = tg_id tg, fo_fired_at = now, fo_ok = True, fo_skipped = True, fo_reason = reason,
                 fo_attempts = 1, fo_escalated_to = None, fo_result = None\<rparr>
      in case next_run_for (gv_zones gv) tg now st of
           Inl e \<Rightarrow> (put_state (tg_id tg) st sc, Inl e)
         | Inr st' \<Rightarrow> ((put_state (tg_id tg) st' sc)\<lparr>sc_history := sc_history sc @ [out]\<rparr>, Inr out))"

text \<open>The run itself, with the state already past the overlap rules.\<close>

definition failed_run ::
  "('w, 'r) given \<Rightarrow> trigger \<Rightarrow> instant \<Rightarrow> string \<Rightarrow> nat \<Rightarrow> trigger_state \<Rightarrow> 'w \<Rightarrow> trigger_state \<times> 'r fire_outcome \<times> 'w" where
  "failed_run gv tg now e n st w =
     (let count = ts_consecutive_failures st + 1;
          st1 = st\<lparr>ts_consecutive_failures := count, ts_total_failures := ts_total_failures st + 1\<rparr>;
          halt = should_halt tg (int count);
          st2 = (if halt then st1\<lparr>ts_halted := True, ts_halted_reason := count\<rparr> else st1);
          escalate = should_escalate tg (int count);
          channel = fp_notify_channel (tg_failure tg);
          out = \<lparr>fo_trigger_id = tg_id tg, fo_fired_at = now, fo_ok = False, fo_skipped = False, fo_reason = RunFailed e halt,
                 fo_attempts = n, fo_escalated_to = (if escalate then channel else None), fo_result = None\<rparr>
      in (st2, out, if escalate then notify gv channel (FailedTimes (tg_id tg) count (RunFailed e halt) (tg_agent tg)) w else w))"

definition run_trigger ::
  "('w, 'r) given \<Rightarrow> trigger \<Rightarrow> instant \<Rightarrow> trigger_state \<Rightarrow> 'r scheduler \<Rightarrow> 'w \<Rightarrow>
     'r scheduler \<times> 'w \<times> (fire_error + 'r fire_outcome)" where
  "run_trigger gv tg now st sc w =
     (case attempts gv tg now (length (retry_delays tg)) 0 w of (w1, n, answer) \<Rightarrow>
        (let st1 = st\<lparr>ts_running := ts_running st + 1 - 1, ts_total_runs := ts_total_runs st + 1, ts_last_run := Some now\<rparr> in
         case next_run_for (gv_zones gv) tg now st1 of
           Inl e \<Rightarrow> (put_state (tg_id tg) st1 sc, w1, Inl e)
         | Inr st2 \<Rightarrow>
             (case answer of
                Inr r \<Rightarrow>
                  (let out = \<lparr>fo_trigger_id = tg_id tg, fo_fired_at = now, fo_ok = True, fo_skipped = False, fo_reason = NoReason,
                              fo_attempts = n, fo_escalated_to = None, fo_result = Some r\<rparr>
                   in ((put_state (tg_id tg) (st2\<lparr>ts_consecutive_failures := 0\<rparr>) sc)\<lparr>sc_history := sc_history sc @ [out]\<rparr>,
                       deliver gv tg out w1, Inr out))
              | Inl e \<Rightarrow>
                  (case failed_run gv tg now e n st2 w1 of (st3, out, w2) \<Rightarrow>
                     ((put_state (tg_id tg) st3 sc)\<lparr>sc_history := sc_history sc @ [out]\<rparr>, w2, Inr out)))))"

definition fire ::
  "('w, 'r) given \<Rightarrow> trigger \<Rightarrow> instant \<Rightarrow> 'r scheduler \<Rightarrow> 'w \<Rightarrow> 'r scheduler \<times> 'w \<times> (fire_error + 'r fire_outcome)" where
  "fire gv tg now sc w =
     (case state_of sc (tg_id tg) of
        None \<Rightarrow> (sc, w, Inl (NoSuchTrigger (tg_id tg)))
      | Some st \<Rightarrow>
          (let skip = (\<lambda>reason st. case skip_run gv tg now reason st sc of (sc', r) \<Rightarrow> (sc', w, r)) in
           if ts_halted st then skip (Halted (ts_halted_reason st)) st
           else if in_flight sc \<ge> sc_max_concurrency sc then skip AtMaxConcurrency st
           else if ts_running st > 0 \<and> tg_overlap tg = OverlapSkip then skip StillInFlight st
           else if ts_running st > 0 \<and> tg_overlap tg = OverlapQueue then skip QueuedBehind (st\<lparr>ts_queued := ts_queued st + 1\<rparr>)
           else if ts_running st > 0 \<and> tg_overlap tg = OverlapCancelPrevious then run_trigger gv tg now (st\<lparr>ts_running := 0\<rparr>) sc w
           else run_trigger gv tg now st sc w))"

section \<open>Ticking and catching up\<close>

fun fire_each ::
  "('w, 'r) given \<Rightarrow> (trigger \<times> instant) list \<Rightarrow> 'r scheduler \<Rightarrow> 'w \<Rightarrow> 'r scheduler \<times> 'w \<times> (fire_error + 'r fire_outcome list)" where
  "fire_each gv [] sc w = (sc, w, Inr [])"
| "fire_each gv ((tg, now) # rest) sc w =
     (case fire gv tg now sc w of
        (sc1, w1, Inl e) \<Rightarrow> (sc1, w1, Inl e)
      | (sc1, w1, Inr out) \<Rightarrow>
          (case fire_each gv rest sc1 w1 of
             (sc2, w2, Inl e) \<Rightarrow> (sc2, w2, Inl e)
           | (sc2, w2, Inr outs) \<Rightarrow> (sc2, w2, Inr (out # outs))))"

definition tick :: "('w, 'r) given \<Rightarrow> instant \<Rightarrow> 'r scheduler \<Rightarrow> 'w \<Rightarrow> 'r scheduler \<times> 'w \<times> (fire_error + 'r fire_outcome list)" where
  "tick gv now sc w = fire_each gv (map (\<lambda>tg. (tg, now)) (due sc now)) sc w"

text \<open>\<open>None\<close> is the drain of a cadence that did not end within the fuel.\<close>

fun catch_up_from ::
  "nat \<Rightarrow> ('w, 'r) given \<Rightarrow> instant \<Rightarrow> instant \<Rightarrow> trigger list \<Rightarrow> 'r scheduler \<Rightarrow> 'w \<Rightarrow>
     ('r scheduler \<times> 'w \<times> (fire_error + 'r fire_outcome list)) option" where
  "catch_up_from fuel gv now since [] sc w = Some (sc, w, Inr [])"
| "catch_up_from fuel gv now since (tg # tgs) sc w =
     (if \<not> tg_enabled tg \<or> tg_cadence tg = None then catch_up_from fuel gv now since tgs sc w
      else (case missed_runs fuel (gv_zones gv) tg since now of
              None \<Rightarrow> None
            | Some (Inl e) \<Rightarrow> Some (sc, w, Inl (BadCadence e))
            | Some (Inr moments) \<Rightarrow>
                (case fire_each gv (map (\<lambda>t. (tg, t)) moments) sc w of
                   (sc1, w1, Inl e) \<Rightarrow> Some (sc1, w1, Inl e)
                 | (sc1, w1, Inr outs) \<Rightarrow>
                     map_option (\<lambda>(sc2, w2, r). (sc2, w2, ebind r (\<lambda>more. Inr (outs @ more))))
                       (catch_up_from fuel gv now since tgs sc1 w1))))"

definition catch_up ::
  "nat \<Rightarrow> ('w, 'r) given \<Rightarrow> instant \<Rightarrow> instant \<Rightarrow> 'r scheduler \<Rightarrow> 'w \<Rightarrow>
     ('r scheduler \<times> 'w \<times> (fire_error + 'r fire_outcome list)) option" where
  "catch_up fuel gv now since sc w = catch_up_from fuel gv now since (sc_triggers sc) sc w"

end
