(* ===== verification/ScheduleRuns.thy ===== *)
theory ScheduleRuns
  imports Scheduling
begin

text \<open>
  When a cadence fires: the scan that skips hours against a look at every minute, the first time after an
  instant in a zone whose clock is never set, and what the catch-up after a downtime consists of.
\<close>

section \<open>The scan\<close>

lemma skipped_hour:
  assumes "hour_of m \<notin> cr_hours c" and "m \<le> m'" and "m' < (m + 60) div 60 * 60"
  shows "\<not> cron_matches c m'"
proof -
  have "m' < m div 60 * 60 + 60" using assms(3) by (simp add: div_add_self2 distrib_right)
  moreover have "m div 60 * 60 + m mod 60 = m" "m' div 60 * 60 + m' mod 60 = m'" by simp_all
  moreover have "0 \<le> m mod 60" "m mod 60 < 60" "0 \<le> m' mod 60" "m' mod 60 < 60" by simp_all
  ultimately have "m' div 60 = m div 60" using assms(2) by linarith
  then have "hour_of m' = hour_of m" by (simp add: hour_of_def)
  with assms(1) show ?thesis by (auto simp: cron_matches_def Let_def split: prod.splits)
qed

lemma cron_scan_filter: "cron_scan c deadline count m = take count (filter (cron_matches c) [m..deadline])"
proof (induction c deadline count m rule: cron_scan.induct)
  case (1 c deadline count m)
  show ?case
  proof (cases "m \<le> deadline \<and> 0 < count")
    case False
    then show ?thesis by (subst cron_scan.simps) auto
  next
    case go: True
    then have first: "[m..deadline] = m # [m + 1..deadline]" by (simp add: upto_rec1)
    show ?thesis
    proof (cases "cron_matches c m")
      case True
      then show ?thesis using 1(1) go by (subst cron_scan.simps) (simp add: first take_Cons')
    next
      case no: False
      show ?thesis
      proof (cases "hour_of m \<notin> cr_hours c")
        case False
        then show ?thesis using 1(3) go no by (subst cron_scan.simps) (simp add: first)
      next
        case skip: True
        let ?j = "(m + 60) div 60 * 60"
        have j: "m < ?j" by linarith
        have step: "cron_scan c deadline count m = take count (filter (cron_matches c) [?j..deadline])"
          using 1(2) go no skip by (subst cron_scan.simps) simp
        have "filter (cron_matches c) [m..deadline] = filter (cron_matches c) [?j..deadline]"
        proof (cases "?j \<le> deadline")
          case True
          then have "[m..deadline] = [m..?j - 1] @ [?j..deadline]" using j by (intro upto_split1) simp_all
          moreover have "filter (cron_matches c) [m..?j - 1] = []"
            using skipped_hour [OF skip] by (auto simp: filter_empty_conv)
          ultimately show ?thesis by simp
        next
          case False
          then show ?thesis using skipped_hour [OF skip] by (auto simp: filter_empty_conv)
        qed
        then show ?thesis by (simp add: step)
      qed
    qed
  qed
qed

text \<open>
  C25: The fire times of a cron expression, computed by a scan that jumps over hours that cannot match,
  are those a look at every single minute would give: the first \<open>count\<close> minutes after the given
  instant, on the wall clock of the zone and within the horizon, whose minute, hour, day of the month, month
  and weekday all match.
\<close>

theorem cron_times_are_every_matching_minute:
  assumes "parse_cadence db c = Inr p" and "pc_timing p = CronTiming cron"
  shows "next_fire_times db c t count horizon =
    (let now_m = zn_to_local (pc_tz p) t div minute_us
     in Inr (map (\<lambda>m. zn_to_utc (pc_tz p) (m * minute_us))
          (take count (filter (cron_matches cron) [now_m + 1..now_m + horizon * 1440]))))"
  using assms by (simp add: next_fire_times_def times_of_def Let_def cron_scan_filter)

section \<open>The first time after an instant\<close>

definition fixed_zone :: "zone \<Rightarrow> int \<Rightarrow> bool" where
  "fixed_zone z off \<longleftrightarrow> (\<forall>t. zn_to_local z t = t + off) \<and> (\<forall>l. zn_to_utc z l = l - off)"

definition fires :: "parsed_cadence \<Rightarrow> instant \<Rightarrow> bool" where
  "fires p t \<longleftrightarrow> (case pc_timing p of
     IntervalTiming seconds \<Rightarrow> t mod (seconds * 1000000) = 0
   | CronTiming cron \<Rightarrow> zn_to_local (pc_tz p) t mod minute_us = 0 \<and> cron_matches cron (zn_to_local (pc_tz p) t div minute_us))"

definition days_us :: "int \<Rightarrow> int" where
  "days_us d = d * 86400000000"

text \<open>The first time after \<open>t\<close>, or none within the horizon.\<close>

definition first_fire :: "parsed_cadence \<Rightarrow> instant \<Rightarrow> instant option \<Rightarrow> bool" where
  "first_fire p t r \<longleftrightarrow> (case r of
     None \<Rightarrow> \<forall>u. t < u \<and> u \<le> t + days_us 400 \<longrightarrow> \<not> fires p u
   | Some v \<Rightarrow> t < v \<and> fires p v \<and> (\<forall>u. t < u \<and> u < v \<longrightarrow> \<not> fires p u))"

lemma digits_value_nonneg: "0 \<le> digits_value s \<or> \<not> py_isdigit s"
proof -
  have "0 \<le> foldl (\<lambda>n c. 10 * n + digit_value c) n s" if "0 \<le> n" "list_all is_digit s" for n
    using that by (induction s arbitrary: n) (auto simp: is_digit_def digit_value_def Let_def)
  then show ?thesis by (auto simp: digits_value_def py_isdigit_def)
qed

lemma interval_seconds:
  assumes "parse_cadence db c = Inr p" and "pc_timing p = IntervalTiming s"
  shows "0 < s" and "60 dvd s"
proof -
  have "w \<in> {60, 3600, 86400, 604800}" if "map_of unit_seconds k = Some w" for k w
    using that by (auto simp: unit_seconds_def split: if_splits)
  moreover have "\<exists>n u. 1 \<le> n \<and> (\<exists>w. map_of unit_seconds u = Some w \<and> s = n * w)"
  proof -
    define expression where "expression = dict_get aliases (py_lower (py_strip (ca_expression c))) (py_strip (ca_expression c))"
    obtain tz where tz: "resolve_timezone db (ca_timezone c) = Inr tz"
      using assms(1) by (auto simp: parse_cadence_def Let_def ebind_eq_Inr)
    show ?thesis
    proof (cases "interval_match expression")
      case None
      then show ?thesis using assms tz unfolding parse_cadence_def Let_def expression_def [symmetric]
        by (auto simp: ebind_eq_Inr)
    next
      case (Some nu)
      obtain n u where nu: "nu = (n, u)" by (cases nu)
      let ?n = "case n of None \<Rightarrow> 1 | Some d \<Rightarrow> digits_value d"
      have "1 \<le> ?n \<and> (\<exists>w. map_of unit_seconds (py_lower (rstrip_s u)) = Some w \<and> s = ?n * w)"
        using assms tz Some unfolding parse_cadence_def Let_def expression_def [symmetric] nu
        by (cases "map_of unit_seconds (py_lower (rstrip_s u))") (auto split: if_splits)
      then show ?thesis by blast
    qed
  qed
  ultimately obtain n w where nw: "s = n * w" "1 \<le> n" "w \<in> {60, 3600, 86400, 604800 :: int}" by blast
  then have "0 < w" "60 dvd w" by auto
  with nw show "0 < s" "60 dvd s" by auto
qed

lemma interval_first:
  assumes "0 < step"
  shows "t < (t div step + 1) * step" and "(t div step + 1) * step mod step = (0 :: int)"
    and "t < u \<Longrightarrow> u < (t div step + 1) * step \<Longrightarrow> u mod step \<noteq> 0"
proof -
  show "t < (t div step + 1) * step"
    using assms by (metis add.commute distrib_right div_mult_mod_eq mult_1 add_le_cancel_left not_le pos_mod_bound)
  show "(t div step + 1) * step mod step = 0" by simp
  assume u: "t < u" "u < (t div step + 1) * step"
  show "u mod step \<noteq> 0"
  proof
    assume "u mod step = 0"
    then obtain k where k: "u = k * step" by (metis dvdE mod_eq_0_iff_dvd mult.commute)
    have "k < t div step + 1" using u(2) assms k by simp
    then have "k * step \<le> t div step * step" using assms by simp
    also have "\<dots> \<le> t" using assms by (metis div_mult_mod_eq le_add_same_cancel1 pos_mod_sign)
    finally show False using u(1) k by simp
  qed
qed

lemma take_1_filter:
  "take 1 (filter P xs) = [] \<and> (\<forall>x \<in> set xs. \<not> P x) \<or>
   (\<exists>ys x zs. xs = ys @ x # zs \<and> P x \<and> (\<forall>y \<in> set ys. \<not> P y) \<and> take 1 (filter P xs) = [x])"
proof (cases "List.find P xs")
  case None
  then show ?thesis by (auto simp: find_None_iff')
next
  case (Some x)
  from find_split [OF this] obtain ys zs where "xs = ys @ x # zs" "P x" "\<forall>y \<in> set ys. \<not> P y" by blast
  then show ?thesis by (intro disjI2 exI [of _ ys] exI [of _ x] exI [of _ zs]) (simp add: filter_empty_conv)
qed

lemma upto_parts:
  assumes "[a..b] = ys @ x # zs"
  shows "a \<le> x" and "a \<le> m \<Longrightarrow> m < x \<Longrightarrow> m \<in> set ys"
proof -
  have "x \<in> set [a..b]" by (simp add: assms)
  then show "a \<le> x" by simp
  assume "a \<le> m" "m < x"
  moreover have "sorted (ys @ x # zs)" by (metis assms sorted_upto)
  moreover have "m \<in> set [a..b]" using \<open>x \<in> set [a..b]\<close> \<open>a \<le> m\<close> \<open>m < x\<close> by simp
  ultimately show "m \<in> set ys" unfolding assms by (auto simp: sorted_append)
qed

lemma cron_first:
  assumes "pc_timing p = CronTiming cron" and "fixed_zone (pc_tz p) off"
  shows "first_fire p t (case times_of p t 1 400 of [] \<Rightarrow> None | v # _ \<Rightarrow> Some v)"
proof -
  let ?m = "(t + off) div minute_us"
  have fire: "fires p u \<longleftrightarrow> (\<exists>k. u + off = k * minute_us \<and> cron_matches cron k)" for u
    using assms by (auto simp: fires_def fixed_zone_def minute_us_def elim!: dvdE simp: mod_eq_0_iff_dvd)
  have after_m: "t < u \<Longrightarrow> u + off = k * minute_us \<Longrightarrow> ?m + 1 \<le> k" for u k
    by (simp add: minute_us_def)
  have within: "u \<le> t + days_us 400 \<Longrightarrow> u + off = k * minute_us \<Longrightarrow> k \<le> ?m + 400 * 1440" for u k
    by (simp add: minute_us_def days_us_def)
  have times: "times_of p t 1 400 =
      map (\<lambda>m. m * minute_us - off) (take 1 (filter (cron_matches cron) [?m + 1..?m + 400 * 1440]))"
    using assms by (simp add: times_of_def Let_def cron_scan_filter fixed_zone_def)
  from take_1_filter [of "cron_matches cron" "[?m + 1..?m + 400 * 1440]"] show ?thesis
  proof
    assume none: "take 1 (filter (cron_matches cron) [?m + 1..?m + 400 * 1440]) = [] \<and>
      (\<forall>x \<in> set [?m + 1..?m + 400 * 1440]. \<not> cron_matches cron x)"
    then have "\<not> fires p u" if "t < u" "u \<le> t + days_us 400" for u
      using fire [of u] after_m [OF that(1)] within [OF that(2)] by fastforce
    with none show ?thesis unfolding first_fire_def times by simp
  next
    assume "\<exists>ys x zs. [?m + 1..?m + 400 * 1440] = ys @ x # zs \<and> cron_matches cron x \<and>
      (\<forall>y \<in> set ys. \<not> cron_matches cron y) \<and> take 1 (filter (cron_matches cron) [?m + 1..?m + 400 * 1440]) = [x]"
    then obtain ys x zs where x: "[?m + 1..?m + 400 * 1440] = ys @ x # zs" "cron_matches cron x"
        "\<forall>y \<in> set ys. \<not> cron_matches cron y" "take 1 (filter (cron_matches cron) [?m + 1..?m + 400 * 1440]) = [x]" by blast
    let ?v = "x * minute_us - off"
    have "?m + 1 \<le> x" by (rule upto_parts [OF x(1)])
    then have "t < ?v" by (simp add: minute_us_def)
    moreover have "fires p ?v" unfolding fire using x(2) by (intro exI [of _ x]) simp
    moreover have "\<not> fires p u" if "t < u" "u < ?v" for u
    proof
      assume "fires p u"
      then obtain k where k: "u + off = k * minute_us" "cron_matches cron k" unfolding fire by blast
      have "k < x" using k(1) that(2) by (simp add: minute_us_def)
      then have "k \<in> set ys" using upto_parts(2) [OF x(1)] after_m [OF that(1) k(1)] by blast
      then show False using x(3) k(2) by blast
    qed
    ultimately show ?thesis unfolding first_fire_def times x(4) by simp
  qed
qed

lemma next_fire_time_first:
  assumes "parse_cadence db c = Inr p" and "fixed_zone (pc_tz p) off"
  obtains r where "next_fire_time db c t = Inr r" and "first_fire p t r"
proof (cases "pc_timing p")
  case (CronTiming cron)
  then show thesis
    using that [of "case times_of p t 1 400 of [] \<Rightarrow> None | v # _ \<Rightarrow> Some v"] cron_first [OF _ assms(2)] assms(1)
    by (simp add: next_fire_time_def next_fire_times_def)
next
  case (IntervalTiming s)
  then have "0 < s * 1000000" using interval_seconds [OF assms(1)] by simp
  note first = interval_first [OF this, of t]
  have "first_fire p t (Some ((t div (s * 1000000) + 1) * (s * 1000000)))"
    unfolding first_fire_def fires_def using first IntervalTiming by simp
  then show thesis
    using that [of "Some ((t div (s * 1000000) + 1) * (s * 1000000))"] assms(1) IntervalTiming
    by (simp add: next_fire_time_def next_fire_times_def times_of_def Let_def)
qed

text \<open>
  C24: In a time zone whose clock is never set back or forward, the next fire time after an instant is the
  first one: it lies strictly after the instant, the cadence fires then, and it fires at no time between;
  when there is none, the cadence does not fire within 400 days. An interval fires at the multiples of its
  length since the epoch, a cron expression at the whole minutes that match it.
\<close>

theorem next_fire_time_is_the_first:
  assumes "parse_cadence db c = Inr p" and "fixed_zone (pc_tz p) off"
  shows "\<exists>r. next_fire_time db c t = Inr r \<and> (case r of
     None \<Rightarrow> \<forall>u. t < u \<and> u \<le> t + days_us 400 \<longrightarrow> \<not> fires p u
   | Some v \<Rightarrow> t < v \<and> fires p v \<and> (\<forall>u. t < u \<and> u < v \<longrightarrow> \<not> fires p u))"
proof (rule next_fire_time_first [OF assms, of t])
  fix r
  assume "next_fire_time db c t = Inr r" and "first_fire p t r"
  then show ?thesis unfolding first_fire_def by (intro exI [of _ r] conjI)
qed

section \<open>What a downtime missed\<close>

definition minute_no :: "parsed_cadence \<Rightarrow> int \<Rightarrow> instant \<Rightarrow> int" where
  "minute_no p off t = (t + (case pc_timing p of IntervalTiming s \<Rightarrow> 0 | CronTiming cron \<Rightarrow> off)) div minute_us"

lemma minute_no_mono: "t \<le> u \<Longrightarrow> minute_no p off t \<le> minute_no p off u"
  unfolding minute_no_def by (intro zdiv_mono1) (simp_all add: minute_us_def)

lemma fires_next_minute:
  assumes "parse_cadence db c = Inr p" and "fixed_zone (pc_tz p) off" and "fires p v" and "t < v"
  shows "minute_no p off t < minute_no p off v"
proof -
  define a where "a = (case pc_timing p of IntervalTiming s \<Rightarrow> 0 | CronTiming cron \<Rightarrow> off)"
  have "minute_us dvd v + a"
  proof (cases "pc_timing p")
    case (IntervalTiming s)
    then have "s * 1000000 dvd v" using assms(3) by (simp add: fires_def mod_eq_0_iff_dvd)
    moreover have "minute_us dvd s * 1000000"
      using mult_dvd_mono [OF interval_seconds(2) [OF assms(1) IntervalTiming] dvd_refl, of 1000000] by (simp add: minute_us_def)
    ultimately show ?thesis using IntervalTiming dvd_trans by (simp add: a_def) blast
  next
    case (CronTiming cron)
    then show ?thesis using assms(2,3) by (simp add: a_def fires_def fixed_zone_def mod_eq_0_iff_dvd)
  qed
  then obtain k where "v + a = minute_us * k" by (rule dvdE)
  then show ?thesis using assms(4) unfolding minute_no_def a_def [symmetric] by (simp add: minute_us_def)
qed

definition silent :: "parsed_cadence \<Rightarrow> instant \<Rightarrow> instant \<Rightarrow> bool" where
  "silent p g h \<longleftrightarrow> (\<forall>u. g < u \<and> u \<le> h \<longrightarrow> \<not> fires p u)"

text \<open>
  The times between two instants, all of them up to the first stretch of more than 400 days without one.
\<close>

definition missed_between :: "parsed_cadence \<Rightarrow> instant \<Rightarrow> instant \<Rightarrow> instant list \<Rightarrow> bool" where
  "missed_between p start fin ts \<longleftrightarrow> sorted_wrt (<) ts \<and> (\<forall>v \<in> set ts. start < v \<and> v < fin \<and> fires p v) \<and>
     (\<forall>v. start < v \<and> v < fin \<and> fires p v \<longrightarrow>
        v \<in> set ts \<or> (\<exists>g. start \<le> g \<and> g + days_us 400 < v \<and> silent p g (g + days_us 400)))"

lemma iter_fires:
  assumes "parse_cadence db c = Inr p" and "fixed_zone (pc_tz p) off"
    and "nat (minute_no p off fin - minute_no p off start) \<le> n"
  shows "\<exists>ts. (\<forall>fuel > n. iter_fire_times fuel db c start fin = Some (Inr ts)) \<and> missed_between p start fin ts"
  using assms(3)
proof (induction n arbitrary: start)
  case base: 0
  obtain r where r: "next_fire_time db c start = Inr r" "first_fire p start r"
    using next_fire_time_first [OF assms(1,2)] by metis
  have "fin \<le> v" if "r = Some v" for v
  proof (rule ccontr)
    assume "\<not> fin \<le> v"
    then have "minute_no p off v \<le> minute_no p off fin" by (simp add: minute_no_mono)
    moreover have "minute_no p off start < minute_no p off v"
      using fires_next_minute [OF assms(1,2)] r(2) that by (simp add: first_fire_def)
    ultimately show False using base by simp
  qed
  then have "iter_fire_times fuel db c start fin = Some (Inr [])" if "0 < fuel" for fuel
    using that r(1) by (cases fuel) (auto split: option.split)
  moreover have "missed_between p start fin []"
    using r(2) \<open>\<And>v. r = Some v \<Longrightarrow> fin \<le> v\<close>
    by (cases r) (fastforce simp: missed_between_def first_fire_def silent_def)+
  ultimately show ?case by blast
next
  case (Suc n)
  obtain r where r: "next_fire_time db c start = Inr r" "first_fire p start r"
    using next_fire_time_first [OF assms(1,2)] by metis
  show ?case
  proof (cases "\<exists>v. r = Some v \<and> v < fin")
    case False
    then have "iter_fire_times fuel db c start fin = Some (Inr [])" if "Suc n < fuel" for fuel
      using that r(1) by (cases fuel) (auto split: option.split)
    moreover have "missed_between p start fin []"
      using r(2) False by (cases r) (fastforce simp: missed_between_def first_fire_def silent_def)+
    ultimately show ?thesis by blast
  next
    case True
    then obtain v where v: "r = Some v" "v < fin" "start < v" "fires p v" "\<And>u. start < u \<Longrightarrow> u < v \<Longrightarrow> \<not> fires p u"
      using r(2) by (auto simp: first_fire_def)
    have "minute_no p off start < minute_no p off v" using fires_next_minute [OF assms(1,2) v(4,3)] .
    moreover have "minute_no p off v \<le> minute_no p off fin" using v(2) by (simp add: minute_no_mono)
    ultimately have "nat (minute_no p off fin - minute_no p off v) \<le> n" using Suc.prems by simp
    from Suc.IH [OF this] obtain ts where ts: "\<forall>fuel > n. iter_fire_times fuel db c v fin = Some (Inr ts)"
        "missed_between p v fin ts" by blast
    have "iter_fire_times fuel db c start fin = Some (Inr (v # ts))" if "Suc n < fuel" for fuel
      using that r(1) v(1,2) ts(1) by (cases fuel) auto
    moreover have "missed_between p start fin (v # ts)"
      unfolding missed_between_def
    proof (intro conjI allI impI)
      show "sorted_wrt (<) (v # ts)" using ts(2) by (auto simp: missed_between_def)
      show "\<forall>u \<in> set (v # ts). start < u \<and> u < fin \<and> fires p u" using ts(2) v by (auto simp: missed_between_def)
      fix u assume u: "start < u \<and> u < fin \<and> fires p u"
      show "u \<in> set (v # ts) \<or> (\<exists>g. start \<le> g \<and> g + days_us 400 < u \<and> silent p g (g + days_us 400))"
      proof (cases "u \<le> v")
        case True
        then show ?thesis using v(5) u by fastforce
      next
        case False
        then have "u \<in> set ts \<or> (\<exists>g. v \<le> g \<and> g + days_us 400 < u \<and> silent p g (g + days_us 400))"
          using ts(2) u unfolding missed_between_def by simp
        then show ?thesis using v(3) by (meson less_imp_le list.set_intros(2) order_trans)
      qed
    qed
    ultimately show ?thesis by blast
  qed
qed

lemma minutes_between: "minute_no p off fin - minute_no p off start \<le> (fin - start) div minute_us + 1"
proof -
  define a where "a = (case pc_timing p of IntervalTiming s \<Rightarrow> 0 | CronTiming cron \<Rightarrow> off)"
  show ?thesis unfolding minute_no_def a_def [symmetric] by (simp add: minute_us_def)
qed

text \<open>
  Catching up after a downtime, in a zone whose clock is never set, ends (within one step for every
  minute that passed, and two) and runs what the policy says of the missed times: none, only the latest,
  or every one. The missed times are those strictly between the last run and now, in order, up to the first
  stretch of more than 400 days in which the cadence does not fire.
\<close>

theorem catch_up_runs_what_was_missed:
  assumes "parse_cadence db c = Inr p" and "fixed_zone (pc_tz p) off" and "tg_cadence tg = Some c"
  shows "\<exists>ts. missed_between p last_run now ts \<and>
    (\<forall>fuel > nat ((now - last_run) div minute_us + 1).
       missed_runs fuel db tg last_run now = Some (Inr (case tg_catch_up tg of
         SkipMissed \<Rightarrow> [] | RunOnce \<Rightarrow> if ts = [] then [] else [last ts] | RunAll \<Rightarrow> ts)))"
proof -
  have "nat (minute_no p off now - minute_no p off last_run) \<le> nat ((now - last_run) div minute_us + 1)"
    using minutes_between by (rule nat_mono)
  from iter_fires [OF assms(1,2) this] obtain ts where ts:
    "\<forall>fuel > nat ((now - last_run) div minute_us + 1). iter_fire_times fuel db c last_run now = Some (Inr ts)"
    "missed_between p last_run now ts" by blast
  then show ?thesis
    by (intro exI [of _ ts]) (auto simp: missed_runs_def assms(3) split: catch_up_policy.split)
qed

section \<open>Cadences in UTC\<close>

definition no_zones :: zone_db where
  "no_zones name = None"

definition in_utc :: "string \<Rightarrow> cadence" where
  "in_utc e = \<lparr>ca_expression = e, ca_timezone = ''UTC''\<rparr>"

lemma parse_zone: "parse_cadence db c = Inr p \<Longrightarrow> resolve_timezone db (ca_timezone c) = Inr (pc_tz p)"
proof -
  assume parsed: "parse_cadence db c = Inr p"
  define expression where "expression = dict_get aliases (py_lower (py_strip (ca_expression c))) (py_strip (ca_expression c))"
  obtain tz where tz: "resolve_timezone db (ca_timezone c) = Inr tz"
    using parsed by (auto simp: parse_cadence_def Let_def ebind_eq_Inr)
  show ?thesis
  proof (cases "interval_match expression")
    case None
    then show ?thesis using parsed tz unfolding parse_cadence_def Let_def expression_def [symmetric]
      by (auto simp: ebind_eq_Inr)
  next
    case (Some nu)
    then show ?thesis using parsed tz unfolding parse_cadence_def Let_def expression_def [symmetric]
      by (cases nu, cases "map_of unit_seconds (py_lower (rstrip_s (snd nu)))") (auto split: if_splits)
  qed
qed

lemma utc_fixed:
  assumes "parse_cadence no_zones (in_utc e) = Inr p"
  shows "fixed_zone (pc_tz p) 0"
proof -
  have "py_upper ''UTC'' = ''UTC''" by code_simp
  then have "pc_tz p = utc_zone" using parse_zone [OF assms] by (simp add: resolve_timezone_def no_zones_def in_utc_def)
  then show ?thesis by (simp add: fixed_zone_def utc_zone_def)
qed

lemma utc_parses:
  assumes "\<not> isl (parse_cadence no_zones (in_utc e))"
  obtains p where "parse_cadence no_zones (in_utc e) = Inr p"
  using assms by (cases "parse_cadence no_zones (in_utc e)") auto

theorem next_fire_time_is_the_first_witness:
  "\<exists>v. next_fire_time no_zones (in_utc ''every 2 hours'') 5 = Inr (Some v) \<and> 5 < v \<and> v = 7200000000"
proof -
  have "\<not> isl (parse_cadence no_zones (in_utc ''every 2 hours''))" by code_simp
  then obtain p where p: "parse_cadence no_zones (in_utc ''every 2 hours'') = Inr p" by (rule utc_parses)
  have "next_fire_time no_zones (in_utc ''every 2 hours'') 5 = Inr (Some 7200000000)" by code_simp
  with next_fire_time_is_the_first [OF p utc_fixed [OF p], of 5] show ?thesis by auto
qed

theorem cron_times_are_every_matching_minute_witness:
  "\<exists>cron. map (\<lambda>m. m * minute_us) (take 2 (filter (cron_matches cron) [1..400 * 1440])) = [7200000000, 93600000000]"
proof -
  have "\<not> isl (parse_cadence no_zones (in_utc ''nightly''))" by code_simp
  then obtain p where p: "parse_cadence no_zones (in_utc ''nightly'') = Inr p" by (rule utc_parses)
  have times: "next_fire_times no_zones (in_utc ''nightly'') 0 2 400 = Inr [7200000000, 93600000000]" by code_simp
  show ?thesis
  proof (cases "pc_timing p")
    case (CronTiming cron)
    from cron_times_are_every_matching_minute [OF p this, of 0 2 400] times utc_fixed [OF p] show ?thesis
      by (auto simp: fixed_zone_def minute_us_def)
  next
    case (IntervalTiming s)
    then show ?thesis using times p interval_seconds [OF p] by (auto simp: next_fire_times_def times_of_def Let_def upt_rec)
  qed
qed

definition nightly_trigger :: "catch_up_policy \<Rightarrow> trigger" where
  "nightly_trigger policy = \<lparr>tg_id = ''n'', tg_agent = ''a'', tg_cadence = Some (in_utc ''nightly''), tg_enabled = True,
     tg_overlap = OverlapSkip, tg_catch_up = policy, tg_deliver_to = [],
     tg_failure = \<lparr>fp_retries = 0, fp_backoff_seconds = 60, fp_escalate_after_failures = 2, fp_notify_channel = None,
       fp_halt_after_consecutive_failures = 5\<rparr>\<rparr>"

theorem catch_up_runs_what_was_missed_witness:
  "\<exists>p ts. missed_between p 0 200000000000 ts \<and>
     missed_runs 4000 no_zones (nightly_trigger RunAll) 0 200000000000 = Some (Inr ts) \<and>
     missed_runs 4000 no_zones (nightly_trigger RunOnce) 0 200000000000 = Some (Inr [180000000000])"
proof -
  have "\<not> isl (parse_cadence no_zones (in_utc ''nightly''))" by code_simp
  then obtain p where p: "parse_cadence no_zones (in_utc ''nightly'') = Inr p" by (rule utc_parses)
  have once: "missed_runs 4000 no_zones (nightly_trigger RunOnce) 0 200000000000 = Some (Inr [180000000000])" by code_simp
  have "tg_cadence (nightly_trigger RunAll) = Some (in_utc ''nightly'')" by (simp add: nightly_trigger_def)
  from catch_up_runs_what_was_missed [OF p utc_fixed [OF p] this, of 0 200000000000] obtain ts where
    "missed_between p 0 200000000000 ts"
    "\<forall>fuel > nat (200000000000 div minute_us + 1). missed_runs fuel no_zones (nightly_trigger RunAll) 0 200000000000 = Some (Inr ts)"
    by (auto simp: nightly_trigger_def)
  moreover have "4000 > nat (200000000000 div minute_us + 1)" by (simp add: minute_us_def)
  ultimately show ?thesis using once by blast
qed

section \<open>Where the code falls short\<close>

text \<open>A clock set back an hour at instant 0: one wall-clock hour is read twice.\<close>

definition set_back :: zone where
  "set_back = \<lparr>zn_to_local = (\<lambda>t. if t < 0 then t + 3600000000 else t),
     zn_to_utc = (\<lambda>l. if l < 3600000000 then l - 3600000000 else l)\<rparr>"

definition set_back_db :: zone_db where
  "set_back_db name = Some set_back"

lemma fire_time_in_the_past:
  "next_fire_time set_back_db (in_utc ''* * * * *'') 0 = Inr (Some (- 3540000000))"
  by code_simp

text \<open>From the start of 1970 the next 29 February is more than 400 days away, so there is no next time.\<close>

lemma leap_day_is_never_found: "next_fire_time no_zones (in_utc ''0 0 29 2 *'') 0 = Inr None"
proof -
  let ?cron = "\<lambda>p. case pc_timing p of IntervalTiming s \<Rightarrow> False | CronTiming cron \<Rightarrow> cr_days cron = {29} \<and> cr_months cron = {2}"
  have "map_sum id ?cron (parse_cadence no_zones (in_utc ''0 0 29 2 *'')) = Inr True" by code_simp
  then obtain p cron where p: "parse_cadence no_zones (in_utc ''0 0 29 2 *'') = Inr p" "pc_timing p = CronTiming cron"
      "cr_days cron = {29}" "cr_months cron = {2}"
    by (cases "parse_cadence no_zones (in_utc ''0 0 29 2 *'')") (auto split: timing.splits)
  have "list_all (\<lambda>d. month_day d \<noteq> (2, 29)) [0..400]" by code_simp
  then have "month_day (m div 1440) \<noteq> (2, 29)" if "1 \<le> m" "m \<le> 576000" for m
  proof -
    have "0 \<le> m div 1440" "m div 1440 \<le> 400" using that by simp_all
    then show ?thesis using \<open>list_all (\<lambda>d. month_day d \<noteq> (2, 29)) [0..400]\<close> by (simp add: list_all_iff)
  qed
  then have "filter (cron_matches cron) [1..576000] = []"
    using p(3,4) by (auto simp: filter_empty_conv cron_matches_def Let_def split: prod.splits)
  then show ?thesis
    using cron_times_are_every_matching_minute [OF p(1,2), of 0 1 400] utc_fixed [OF p(1)]
    by (simp add: next_fire_time_def fixed_zone_def minute_us_def)
qed

lemma upper_case_unit_is_a_key_error:
  "map_sum id (\<lambda>_. ()) (parse_cadence no_zones (in_utc ''every 2 HOURS'')) = Inl (UnknownUnit ''hours'')"
  by code_simp

lemma number_error_is_no_cadence_error:
  "map_sum id (\<lambda>_. ()) (parse_cadence no_zones (in_utc ''x 0 * * *'')) = Inl (NotANumber ''x'')"
  "map_sum id (\<lambda>_. ()) (parse_cadence no_zones (in_utc ''0 0 * * x'')) = Inl (InWeekdays (NotANumber ''x''))"
  by code_simp+

lemma start_is_left_out:
  "next_fire_time no_zones (in_utc ''nightly'') 7200000000 = Inr (Some 93600000000)"
  by code_simp

end
