(* ===== verification/SchedulerRuns.thy ===== *)
theory SchedulerRuns
  imports Scheduler ScheduleRuns
begin

text \<open>
  Runs of the scheduler: its counters are those of its history, a halted trigger stays halted, and a tick
  leaves nothing due. A run is a sequence of priming, firing, ticking and catching up.
\<close>

section \<open>What the history says\<close>

definition ran :: "string \<Rightarrow> 'r fire_outcome list \<Rightarrow> 'r fire_outcome list" where
  "ran k h = filter (\<lambda>out. fo_trigger_id out = k \<and> \<not> fo_skipped out) h"

definition streak :: "string \<Rightarrow> 'r fire_outcome list \<Rightarrow> nat" where
  "streak k h = length (takeWhile (\<lambda>out. \<not> fo_ok out) (rev (ran k h)))"

lemma ran_snoc: "ran k (h @ [out]) = ran k h @ (if fo_trigger_id out = k \<and> \<not> fo_skipped out then [out] else [])"
  by (simp add: ran_def)

lemma streak_snoc:
  "streak k (h @ [out]) = (if fo_trigger_id out = k \<and> \<not> fo_skipped out then (if fo_ok out then 0 else Suc (streak k h)) else streak k h)"
  by (simp add: streak_def ran_snoc)

definition mirrors :: "trigger \<Rightarrow> trigger_state \<Rightarrow> 'r fire_outcome list \<Rightarrow> bool" where
  "mirrors tg st h \<longleftrightarrow>
     ts_running st = 0 \<and> ts_queued st = 0 \<and>
     ts_total_runs st = length (ran (tg_id tg) h) \<and>
     ts_total_failures st = length (filter (\<lambda>out. \<not> fo_ok out) (ran (tg_id tg) h)) \<and>
     ts_consecutive_failures st = streak (tg_id tg) h \<and>
     ts_last_run st = (if ran (tg_id tg) h = [] then None else Some (fo_fired_at (last (ran (tg_id tg) h)))) \<and>
     (ts_halted st \<longleftrightarrow> 0 < streak (tg_id tg) h \<and> should_halt tg (int (streak (tg_id tg) h))) \<and>
     (tg_cadence tg = None \<longrightarrow> ts_next_run st = None)"

definition parses :: "zone_db \<Rightarrow> trigger \<Rightarrow> bool" where
  "parses db tg \<longleftrightarrow> (\<forall>c. tg_cadence tg = Some c \<longrightarrow> \<not> isl (parse_cadence db c))"

definition svc_ok :: "zone_db \<Rightarrow> 'r scheduler \<Rightarrow> bool" where
  "svc_ok db sc \<longleftrightarrow> distinct (map tg_id (sc_triggers sc)) \<and> (\<forall>tg \<in> set (sc_triggers sc). parses db tg) \<and>
     distinct (map fst (sc_state sc)) \<and> fst ` set (sc_state sc) \<subseteq> tg_id ` set (sc_triggers sc) \<and>
     (\<forall>tg \<in> set (sc_triggers sc). \<exists>st. state_of sc (tg_id tg) = Some st \<and> mirrors tg st (sc_history sc))"

lemma svc_okD:
  assumes "svc_ok db sc" and "tg \<in> set (sc_triggers sc)"
  obtains st where "state_of sc (tg_id tg) = Some st" and "mirrors tg st (sc_history sc)" and "parses db tg"
  using assms unfolding svc_ok_def by blast

lemma same_trigger: "svc_ok db sc \<Longrightarrow> tg \<in> set (sc_triggers sc) \<Longrightarrow> tg' \<in> set (sc_triggers sc) \<Longrightarrow> tg_id tg = tg_id tg' \<Longrightarrow> tg = tg'"
  unfolding svc_ok_def distinct_map by (meson inj_onD)

lemma nothing_in_flight: "svc_ok db sc \<Longrightarrow> in_flight sc = 0"
proof -
  assume ok: "svc_ok db sc"
  have idle: "ts_running st = 0" if m: "(k, st) \<in> set (sc_state sc)" for k st
  proof -
    have "k \<in> tg_id ` set (sc_triggers sc)" using ok m unfolding svc_ok_def by (metis fst_conv image_eqI subsetD)
    then obtain tg where tg: "tg \<in> set (sc_triggers sc)" "k = tg_id tg" by blast
    obtain st' where st': "state_of sc (tg_id tg) = Some st'" "mirrors tg st' (sc_history sc)" by (rule svc_okD [OF ok tg(1)])
    have "map_of (sc_state sc) k = Some st" using ok m by (simp add: svc_ok_def)
    then show ?thesis using st' tg(2) by (simp add: state_of_def mirrors_def)
  qed
  have "map (\<lambda>(k, st). ts_running st) (sc_state sc) = map (\<lambda>_. 0) (sc_state sc)"
    using idle by (auto intro: map_cong)
  then show ?thesis by (simp add: in_flight_def)
qed

lemma state_of_put [simp]:
  "state_of (put_state k st sc) k' = (if k' = k then Some st else state_of sc k')"
  "sc_triggers (put_state k st sc) = sc_triggers sc"
  "sc_history (put_state k st sc) = sc_history sc"
  "state_of (sc\<lparr>sc_history := h\<rparr>) k' = state_of sc k'"
  by (simp_all add: state_of_def put_state_def)

lemma mirrors_other: "fo_trigger_id out \<noteq> tg_id tg \<Longrightarrow> mirrors tg st (h @ [out]) = mirrors tg st h"
  by (simp add: mirrors_def ran_snoc streak_snoc)

lemma svc_ok_put:
  assumes "svc_ok db sc" and "tg \<in> set (sc_triggers sc)" and "mirrors tg st (sc_history sc @ outs)"
    and "\<forall>out \<in> set outs. fo_trigger_id out = tg_id tg" and "length outs \<le> 1"
  shows "svc_ok db ((put_state (tg_id tg) st sc)\<lparr>sc_history := sc_history sc @ outs\<rparr>)"
proof -
  have "mirrors tg' st' (sc_history sc @ outs) = mirrors tg' st' (sc_history sc)" if "tg_id tg' \<noteq> tg_id tg" for tg' st'
    using assms(4,5) that by (cases outs) (auto simp: mirrors_other)
  then have "\<exists>st'. state_of (put_state (tg_id tg) st sc) (tg_id tg') = Some st' \<and> mirrors tg' st' (sc_history sc @ outs)"
    if "tg' \<in> set (sc_triggers sc)" for tg'
    using svc_okD [OF assms(1) that] assms(3) same_trigger [OF assms(1) that assms(2)]
    by (cases "tg_id tg' = tg_id tg") (auto, metis)
  then show ?thesis
    using assms(1,2) unfolding svc_ok_def by (auto simp: put_state_def distinct_update dom_update state_of_def)
qed

section \<open>What firing does\<close>

lemma next_run_total: "parses db tg \<Longrightarrow> \<exists>r. next_run_for db tg now st = Inr (if tg_cadence tg = None then st else st\<lparr>ts_next_run := r\<rparr>)"
proof (cases "tg_cadence tg")
  case (Some c)
  assume "parses db tg"
  then obtain p where "parse_cadence db c = Inr p" using Some by (auto simp: parses_def isl_def) (meson sum.exhaust)
  then show ?thesis by (auto simp: next_run_for_def Some next_fire_time_def next_fire_times_def)
qed (simp add: next_run_for_def)

lemma attempts_count: "attempts gv tg now n k w = (w', m, r) \<Longrightarrow> k < m \<and> m \<le> k + n + 1"
proof (induction gv tg now n k w rule: attempts.induct)
  case (1 gv tg now n k w)
  then show ?case
    by (subst (asm) attempts.simps) (fastforce split: prod.splits sum.splits nat.splits)
qed

text \<open>
  Firing one of the service's triggers: it is skipped, with only its next time set, or it is run, within the
  retries it has.
\<close>

lemma fire_cases:
  assumes "svc_ok (gv_zones gv) sc" and "tg \<in> set (sc_triggers sc)" and "fire gv tg now sc w = (sc', w', res)"
    and "state_of sc (tg_id tg) = Some st"
  obtains (skipped) out nx where "sc' = (put_state (tg_id tg) (if tg_cadence tg = None then st else st\<lparr>ts_next_run := nx\<rparr>) sc)
        \<lparr>sc_history := sc_history sc @ [out]\<rparr>" and "res = Inr out" and "fo_trigger_id out = tg_id tg" and "fo_skipped out"
      and "fo_ok out" and "w' = w" and "ts_halted st \<or> sc_max_concurrency sc = 0"
      and "next_run_for (gv_zones gv) tg now st = Inr (if tg_cadence tg = None then st else st\<lparr>ts_next_run := nx\<rparr>)"
  | (run) out st' where "sc' = (put_state (tg_id tg) st' sc)\<lparr>sc_history := sc_history sc @ [out]\<rparr>" and "res = Inr out"
      and "\<not> ts_halted st" and "fo_trigger_id out = tg_id tg" and "\<not> fo_skipped out" and "fo_fired_at out = now"
      and "mirrors tg st' (sc_history sc @ [out])"
      and "next_run_for (gv_zones gv) tg now st = Inr (st\<lparr>ts_next_run := ts_next_run st'\<rparr>)"
      and "1 \<le> fo_attempts out" and "fo_attempts out \<le> nat (fp_retries (tg_failure tg)) + 1"
proof -
  obtain st0 where st0: "state_of sc (tg_id tg) = Some st0" "mirrors tg st0 (sc_history sc)" "parses (gv_zones gv) tg"
    by (rule svc_okD [OF assms(1,2)])
  then have m: "mirrors tg st (sc_history sc)" using assms(4) by simp
  have flight: "in_flight sc = 0" by (rule nothing_in_flight [OF assms(1)])
  have idle: "ts_running st = 0" using m by (simp add: mirrors_def)
  obtain nx where nx: "next_run_for (gv_zones gv) tg now st = Inr (if tg_cadence tg = None then st else st\<lparr>ts_next_run := nx\<rparr>)"
    using next_run_total [OF st0(3)] by blast
  show thesis
  proof (cases "ts_halted st \<or> sc_max_concurrency sc = 0")
    case True
    define reason where "reason = (if ts_halted st then Halted (ts_halted_reason st) else AtMaxConcurrency)"
    have fired: "fire gv tg now sc w = (case skip_run gv tg now reason st sc of (sc', r) \<Rightarrow> (sc', w, r))"
      using True flight assms(4) by (auto simp: fire_def Let_def reason_def)
    let ?out = "\<lparr>fo_trigger_id = tg_id tg, fo_fired_at = now, fo_ok = True, fo_skipped = True, fo_reason = reason,
       fo_attempts = 1, fo_escalated_to = None, fo_result = None\<rparr>"
    show thesis
      by (rule skipped [of ?out nx]) (use assms(3) nx True fired in \<open>simp_all add: skip_run_def Let_def\<close>)
  next
    case False
    have fired: "fire gv tg now sc w = run_trigger gv tg now st sc w"
      using False flight idle assms(4) by (simp add: fire_def Let_def)
    obtain w1 n answer where a: "attempts gv tg now (length (retry_delays tg)) 0 w = (w1, n, answer)" by (metis prod_cases3)
    have n: "1 \<le> n" "n \<le> nat (fp_retries (tg_failure tg)) + 1"
      using attempts_count [OF a] by (simp_all add: retry_delays_def)
    define st2 where "st2 = (if tg_cadence tg = None then st else st\<lparr>ts_next_run := nx\<rparr>)
      \<lparr>ts_total_runs := ts_total_runs st + 1, ts_last_run := Some now\<rparr>"
    have next2: "next_run_for (gv_zones gv) tg now (st\<lparr>ts_running := ts_running st + 1 - 1,
        ts_total_runs := ts_total_runs st + 1, ts_last_run := Some now\<rparr>) = Inr st2"
      using nx by (auto simp: next_run_for_def st2_def dest!: arg_cong [of _ _ ts_next_run] split: option.splits sum.splits)
    have nx2: "next_run_for (gv_zones gv) tg now st = Inr (st\<lparr>ts_next_run := ts_next_run st2\<rparr>)"
      using nx by (simp add: st2_def)
    show thesis
    proof (cases answer)
      case (Inr r)
      let ?out = "\<lparr>fo_trigger_id = tg_id tg, fo_fired_at = now, fo_ok = True, fo_skipped = False, fo_reason = NoReason,
         fo_attempts = n, fo_escalated_to = None, fo_result = Some r\<rparr>"
      show thesis
      proof (rule run [of ?out "st2\<lparr>ts_consecutive_failures := 0\<rparr>"])
        show "mirrors tg (st2\<lparr>ts_consecutive_failures := 0\<rparr>) (sc_history sc @ [?out])"
          using m False by (auto simp: mirrors_def st2_def ran_snoc streak_snoc)
      qed (use assms(3) fired a next2 nx2 Inr n False in \<open>auto simp: run_trigger_def Let_def\<close>)
    next
      case (Inl e)
      let ?count = "Suc (ts_consecutive_failures st)"
      let ?halt = "should_halt tg (int ?count)"
      let ?out = "\<lparr>fo_trigger_id = tg_id tg, fo_fired_at = now, fo_ok = False, fo_skipped = False, fo_reason = RunFailed e ?halt,
         fo_attempts = n, fo_escalated_to = (if should_escalate tg (int ?count) then fp_notify_channel (tg_failure tg) else None),
         fo_result = None\<rparr>"
      let ?st3 = "let s = st2\<lparr>ts_consecutive_failures := ?count, ts_total_failures := ts_total_failures st + 1\<rparr>
        in if ?halt then s\<lparr>ts_halted := True, ts_halted_reason := ?count\<rparr> else s"
      have counts: "ts_consecutive_failures st2 = ts_consecutive_failures st" "ts_total_failures st2 = ts_total_failures st"
        by (simp_all add: st2_def)
      show thesis
      proof (rule run [of ?out ?st3])
        show "mirrors tg ?st3 (sc_history sc @ [?out])"
          using m False by (auto simp: mirrors_def st2_def ran_snoc streak_snoc Let_def)
      qed (use assms(3) fired a next2 nx2 Inl n False counts in \<open>auto simp: run_trigger_def failed_run_def Let_def\<close>)
    qed
  qed
qed

lemma fire_ok:
  assumes "svc_ok (gv_zones gv) sc" and "tg \<in> set (sc_triggers sc)" and "fire gv tg now sc w = (sc', w', res)"
  shows "svc_ok (gv_zones gv) sc'" and "\<exists>out. res = Inr out" and "sc_triggers sc' = sc_triggers sc"
proof -
  obtain st where st: "state_of sc (tg_id tg) = Some st" "mirrors tg st (sc_history sc)" by (rule svc_okD [OF assms(1,2)])
  from assms(1,2,3) st(1) show "\<exists>out. res = Inr out" by (cases rule: fire_cases) simp_all
  from assms(1,2,3) st(1) show "sc_triggers sc' = sc_triggers sc" by (cases rule: fire_cases) simp_all
  from assms(1,2,3) st(1) show "svc_ok (gv_zones gv) sc'"
  proof (cases rule: fire_cases)
    case (skipped out nx)
    have "mirrors tg (if tg_cadence tg = None then st else st\<lparr>ts_next_run := nx\<rparr>) (sc_history sc @ [out])"
      using st(2) skipped(4) by (auto simp: mirrors_def ran_snoc streak_snoc)
    then show ?thesis unfolding skipped(1) by (rule svc_ok_put [OF assms(1,2)]) (simp_all add: skipped(3))
  next
    case (run out st')
    show ?thesis unfolding run(1) by (rule svc_ok_put [OF assms(1,2) run(7)]) (simp_all add: run(4))
  qed
qed

lemma fire_each_ok:
  assumes "svc_ok (gv_zones gv) sc" and "\<forall>(tg, t) \<in> set fs. tg \<in> set (sc_triggers sc)" and "fire_each gv fs sc w = (sc', w', res)"
  shows "svc_ok (gv_zones gv) sc' \<and> (\<exists>outs. res = Inr outs) \<and> sc_triggers sc' = sc_triggers sc"
  using assms
proof (induction fs arbitrary: sc w sc' w' res)
  case (Cons f fs)
  obtain tg t where f: "f = (tg, t)" by (cases f)
  obtain sc1 w1 r1 where one: "fire gv tg t sc w = (sc1, w1, r1)" by (metis prod_cases3)
  have tg: "tg \<in> set (sc_triggers sc)" using Cons.prems(2) f by simp
  note ok = fire_ok [OF Cons.prems(1) tg one]
  obtain out where out: "r1 = Inr out" using ok(2) by blast
  obtain sc2 w2 r2 where rest: "fire_each gv fs sc1 w1 = (sc2, w2, r2)" by (metis prod_cases3)
  have "svc_ok (gv_zones gv) sc2 \<and> (\<exists>outs. r2 = Inr outs) \<and> sc_triggers sc2 = sc_triggers sc1"
    by (rule Cons.IH [OF ok(1) _ rest]) (use Cons.prems(2) ok(3) in auto)
  then show ?case using Cons.prems(3) f one out rest ok(3) by auto
qed simp

text \<open>What every firing keeps, a sequence of them keeps.\<close>

lemma fire_each_keeps:
  assumes "svc_ok (gv_zones gv) sc" and "\<forall>(tg, t) \<in> set fs. tg \<in> set (sc_triggers sc)" and "fire_each gv fs sc w = (sc', w', res)"
    and "\<And>tg t sc w sc' w' res. svc_ok (gv_zones gv) sc \<Longrightarrow> (tg, t) \<in> set fs \<Longrightarrow> tg \<in> set (sc_triggers sc) \<Longrightarrow>
      fire gv tg t sc w = (sc', w', res) \<Longrightarrow> P sc \<Longrightarrow> P sc'"
    and "P sc"
  shows "P sc'"
  using assms
proof (induction fs arbitrary: sc w sc' w' res)
  case (Cons f fs)
  obtain tg t where f: "f = (tg, t)" by (cases f)
  obtain sc1 w1 r1 where one: "fire gv tg t sc w = (sc1, w1, r1)" by (metis prod_cases3)
  have tg: "tg \<in> set (sc_triggers sc)" using Cons.prems(2) f by simp
  note ok = fire_ok [OF Cons.prems(1) tg one]
  obtain out where out: "r1 = Inr out" using ok(2) by blast
  obtain sc2 w2 r2 where rest: "fire_each gv fs sc1 w1 = (sc2, w2, r2)" by (metis prod_cases3)
  have "sc2 = sc'" using Cons.prems(3) f one out rest by (auto split: sum.splits)
  have "P sc1" using Cons.prems(4) [OF Cons.prems(1) _ tg one Cons.prems(5)] f by simp
  have "P sc2"
  proof (rule Cons.IH [OF ok(1) _ rest _ \<open>P sc1\<close>])
    show "\<forall>(tg, t) \<in> set fs. tg \<in> set (sc_triggers sc1)" using Cons.prems(2) ok(3) by auto
    fix tg' t' s v s' v' r
    assume "svc_ok (gv_zones gv) s" "(tg', t') \<in> set fs" "tg' \<in> set (sc_triggers s)" "fire gv tg' t' s v = (s', v', r)" "P s"
    then show "P s'" using Cons.prems(4) [of s tg' t' v s' v' r] by simp
  qed
  with \<open>sc2 = sc'\<close> show ?case by simp
qed simp

lemma catch_up_keeps:
  assumes "svc_ok (gv_zones gv) sc" and "set tgs \<subseteq> set (sc_triggers sc)" and "catch_up_from fuel gv now since tgs sc w = Some (sc', w', res)"
    and "\<And>tg t sc w sc' w' res. svc_ok (gv_zones gv) sc \<Longrightarrow> tg \<in> set (sc_triggers sc) \<Longrightarrow>
      fire gv tg t sc w = (sc', w', res) \<Longrightarrow> P sc \<Longrightarrow> P sc'"
    and "P sc"
  shows "P sc' \<and> svc_ok (gv_zones gv) sc' \<and> sc_triggers sc' = sc_triggers sc"
  using assms
proof (induction tgs arbitrary: sc w sc' w' res)
  case (Cons tg tgs)
  show ?case
  proof (cases "\<not> tg_enabled tg \<or> tg_cadence tg = None")
    case True
    then have rest: "catch_up_from fuel gv now since tgs sc w = Some (sc', w', res)" using Cons.prems(3) by simp
    show ?thesis
    proof (rule Cons.IH [OF Cons.prems(1) _ rest])
      show "set tgs \<subseteq> set (sc_triggers sc)" using Cons.prems(2) by simp
    qed (rule Cons.prems(4), assumption+, rule Cons.prems(5))
  next
    case go: False
    obtain r where r: "missed_runs fuel (gv_zones gv) tg since now = Some r"
      using Cons.prems(3) go by (cases "missed_runs fuel (gv_zones gv) tg since now") auto
    show ?thesis
    proof (cases r)
      case (Inl e)
      then show ?thesis using Cons.prems(1,3,5) go r by auto
    next
      case (Inr ms)
      let ?fs = "map (\<lambda>t. (tg, t)) ms"
      obtain sc1 w1 r1 where one: "fire_each gv ?fs sc w = (sc1, w1, r1)" by (metis prod_cases3)
      have fs: "\<forall>(tg, t) \<in> set ?fs. tg \<in> set (sc_triggers sc)" using Cons.prems(2) by auto
      from fire_each_ok [OF Cons.prems(1) fs one] obtain outs where
        ok: "svc_ok (gv_zones gv) sc1" "r1 = Inr outs" "sc_triggers sc1 = sc_triggers sc" by blast
      have "P sc1" by (rule fire_each_keeps [where P = P, OF Cons.prems(1) fs one]) (rule Cons.prems(4), assumption+, rule Cons.prems(5))
      obtain sc2 w2 r2 where rest: "catch_up_from fuel gv now since tgs sc1 w1 = Some (sc2, w2, r2)" and "sc' = sc2"
        using Cons.prems(3) go r Inr one ok(2) by auto
      have "P sc2 \<and> svc_ok (gv_zones gv) sc2 \<and> sc_triggers sc2 = sc_triggers sc1"
      proof (rule Cons.IH [OF ok(1) _ rest])
        show "set tgs \<subseteq> set (sc_triggers sc1)" using Cons.prems(2) ok(3) by simp
      qed (rule Cons.prems(4), assumption+, rule \<open>P sc1\<close>)
      with \<open>sc' = sc2\<close> ok(3) show ?thesis by simp
    qed
  qed
qed simp

lemma prime_all_ok:
  assumes "svc_ok db sc" and "set tgs \<subseteq> set (sc_triggers sc)" and "prime_all db now tgs sc = (sc', res)"
  shows "svc_ok db sc' \<and> sc_triggers sc' = sc_triggers sc \<and> sc_history sc' = sc_history sc \<and>
    (\<forall>k. map_option ts_halted (state_of sc' k) = map_option ts_halted (state_of sc k))"
  using assms
proof (induction tgs arbitrary: sc)
  case (Cons tg tgs)
  have tg: "tg \<in> set (sc_triggers sc)" using Cons.prems(2) by simp
  obtain st where st: "state_of sc (tg_id tg) = Some st" "mirrors tg st (sc_history sc)" "parses db tg"
    by (rule svc_okD [OF Cons.prems(1) tg])
  show ?case
  proof (cases "tg_cadence tg = None \<or> \<not> tg_enabled tg")
    case True
    then show ?thesis using Cons by simp
  next
    case False
    obtain nx where nx: "next_run_for db tg now st = Inr (st\<lparr>ts_next_run := nx\<rparr>)"
      using next_run_total [OF st(3)] False by fastforce
    let ?sc1 = "put_state (tg_id tg) (st\<lparr>ts_next_run := nx\<rparr>) sc"
    have "mirrors tg (st\<lparr>ts_next_run := nx\<rparr>) (sc_history sc @ [])" using st(2) False by (auto simp: mirrors_def)
    from svc_ok_put [OF Cons.prems(1) tg this] have "svc_ok db ?sc1" by (simp add: put_state_def)
    from Cons.IH [OF this] show ?thesis using Cons.prems(2,3) False st(1) nx by auto
  qed
qed simp

section \<open>Runs\<close>

inductive svc_step :: "('w, 'r) given \<Rightarrow> 'r scheduler \<times> 'w \<Rightarrow> 'r scheduler \<times> 'w \<Rightarrow> bool" for gv where
  primed: "prime_triggers (gv_zones gv) now sc = (sc', r) \<Longrightarrow> svc_step gv (sc, w) (sc', w)"
| fired: "tg \<in> set (sc_triggers sc) \<Longrightarrow> fire gv tg now sc w = (sc', w', r) \<Longrightarrow> svc_step gv (sc, w) (sc', w')"
| ticked: "tick gv now sc w = (sc', w', r') \<Longrightarrow> svc_step gv (sc, w) (sc', w')"
| caught_up: "catch_up fuel gv now since sc w = Some (sc', w', r') \<Longrightarrow> svc_step gv (sc, w) (sc', w')"

lemma due_triggers: "\<forall>(tg, t) \<in> set (map (\<lambda>tg. (tg, now)) (due sc now)). tg \<in> set (sc_triggers sc)"
  by (auto simp: due_def)

text \<open>A step keeps the invariant, and what every firing and priming keeps.\<close>

lemma svc_step_keeps:
  assumes "svc_step gv s s'" and "svc_ok (gv_zones gv) (fst s)"
    and "\<And>tg t sc w sc' w' res. svc_ok (gv_zones gv) sc \<Longrightarrow> tg \<in> set (sc_triggers sc) \<Longrightarrow>
      fire gv tg t sc w = (sc', w', res) \<Longrightarrow> P sc \<Longrightarrow> P sc'"
    and "\<And>now sc sc' r. svc_ok (gv_zones gv) sc \<Longrightarrow> prime_triggers (gv_zones gv) now sc = (sc', r) \<Longrightarrow> P sc \<Longrightarrow> P sc'"
    and "P (fst s)"
  shows "svc_ok (gv_zones gv) (fst s') \<and> sc_triggers (fst s') = sc_triggers (fst s) \<and> P (fst s')"
  using assms(1)
proof cases
  case (primed now sc sc' r w)
  then show ?thesis using prime_all_ok [OF assms(2) subset_refl] assms(2,4,5) unfolding prime_triggers_def by fastforce
next
  case (fired tg sc now w sc' w' r)
  then show ?thesis using fire_ok [of gv sc tg now w sc' w' r] assms(2,3,5) by auto
next
  case (ticked now sc w sc' w' r')
  have "P sc'"
    by (rule fire_each_keeps [OF _ due_triggers ticked(3) [unfolded tick_def]]) (use assms(2,3,5) ticked(1) in auto)
  then show ?thesis using fire_each_ok [OF _ due_triggers ticked(3) [unfolded tick_def]] assms(2) ticked(1,2) by auto
next
  case (caught_up fuel now since sc w sc' w' r')
  then show ?thesis
    using catch_up_keeps [OF _ subset_refl caught_up(3) [unfolded catch_up_def], of P] assms(2,3,5) by auto
qed

lemma new_states: "map_of (fold (\<lambda>tg. dict_setdefault (tg_id tg) new_state) tgs d) k =
    (case map_of d k of None \<Rightarrow> if k \<in> tg_id ` set tgs then Some new_state else None | Some st \<Rightarrow> Some st)"
  by (induction tgs arbitrary: d) (auto simp: map_of_setdefault split: option.splits)

lemma new_keys: "distinct (map fst d) \<Longrightarrow> distinct (map fst (fold (\<lambda>tg. dict_setdefault (tg_id tg) new_state) tgs d))"
proof (induction tgs arbitrary: d)
  case (Cons tg tgs)
  have "distinct (map fst (dict_setdefault (tg_id tg) new_state d))"
    using Cons.prems by (auto simp: dict_setdefault_def map_of_eq_None_iff split: option.split)
  then show ?case using Cons.IH by simp
qed simp

lemma new_scheduler_ok:
  assumes "distinct (map tg_id tgs)" and "\<forall>tg \<in> set tgs. parses db tg"
  shows "svc_ok db (new_scheduler tgs limit)"
proof -
  let ?d = "fold (\<lambda>tg. dict_setdefault (tg_id tg) new_state) tgs []"
  have "fst ` set ?d \<subseteq> tg_id ` set tgs"
    using new_states [of tgs "[]"] by (auto simp: dom_map_of_conv_image_fst [symmetric] split: if_splits)
  then show ?thesis using assms new_states [of tgs "[]"] new_keys [of "[]" tgs]
    by (auto simp: svc_ok_def new_scheduler_def state_of_def mirrors_def new_state_def ran_def streak_def)
qed

lemma svc_run_keeps:
  assumes "(svc_step gv)\<^sup>*\<^sup>* s s'" and "svc_ok (gv_zones gv) (fst s)"
    and "\<And>tg t sc w sc' w' res. svc_ok (gv_zones gv) sc \<Longrightarrow> tg \<in> set (sc_triggers sc) \<Longrightarrow>
      fire gv tg t sc w = (sc', w', res) \<Longrightarrow> P sc \<Longrightarrow> P sc'"
    and "\<And>now sc sc' r. svc_ok (gv_zones gv) sc \<Longrightarrow> prime_triggers (gv_zones gv) now sc = (sc', r) \<Longrightarrow> P sc \<Longrightarrow> P sc'"
    and "P (fst s)"
  shows "svc_ok (gv_zones gv) (fst s') \<and> sc_triggers (fst s') = sc_triggers (fst s) \<and> P (fst s')"
  using assms(1)
proof (induction rule: rtranclp_induct)
  case base
  then show ?case using assms(2,5) by simp
next
  case (step s1 s2)
  then have one: "svc_ok (gv_zones gv) (fst s1)" "P (fst s1)" "sc_triggers (fst s1) = sc_triggers (fst s)" by simp_all
  from svc_step_keeps [where P = P, OF step.hyps(2) one(1) assms(3,4) one(2)] one(3) show ?case by simp
qed

lemma svc_reached:
  assumes "(svc_step gv)\<^sup>*\<^sup>* (new_scheduler tgs limit, w0) (sc, w)" and "distinct (map tg_id tgs)"
    and "\<forall>tg \<in> set tgs. parses (gv_zones gv) tg"
  shows "svc_ok (gv_zones gv) sc" and "sc_triggers sc = tgs"
proof -
  have base: "svc_ok (gv_zones gv) (fst (new_scheduler tgs limit, w0))" using new_scheduler_ok [OF assms(2,3)] by simp
  note keeps = svc_run_keeps [where P = "\<lambda>_. True", OF assms(1) base]
  show "svc_ok (gv_zones gv) sc" using keeps by simp
  show "sc_triggers sc = tgs" using keeps by (simp add: new_scheduler_def)
qed


text \<open>Halted, with the runs so far.\<close>

definition halted_at :: "string \<Rightarrow> 'r fire_outcome list \<Rightarrow> 'r scheduler \<Rightarrow> bool" where
  "halted_at k runs sc \<longleftrightarrow> map_option ts_halted (state_of sc k) = Some True \<and> ran k (sc_history sc) = runs"

lemma halted_fire:
  assumes "svc_ok (gv_zones gv) sc" and "tg \<in> set (sc_triggers sc)" and "fire gv tg t sc w = (sc', w', res)" and "halted_at k runs sc"
  shows "halted_at k runs sc'"
proof -
  obtain st where st: "state_of sc (tg_id tg) = Some st" by (rule svc_okD [OF assms(1,2)])
  from assms(1-3) st show ?thesis
  proof (cases rule: fire_cases)
    case (skipped out nx)
    then show ?thesis using assms(4) st by (auto simp: halted_at_def ran_snoc)
  next
    case (run out st')
    then have "k \<noteq> tg_id tg" using assms(4) st by (auto simp: halted_at_def)
    then show ?thesis using run assms(4) by (auto simp: halted_at_def ran_snoc)
  qed
qed

text \<open>
  C23: A trigger that was halted never runs again: in whatever sequence of calls follows, it stays halted,
  no run of it is added to the history, and firing it leaves the world of the runner as it is.
\<close>

theorem halted_trigger_never_runs_again:
  assumes "(svc_step gv)\<^sup>*\<^sup>* (new_scheduler tgs limit, w0) (sc, w)" and "distinct (map tg_id tgs)"
    and "\<forall>tg \<in> set tgs. parses (gv_zones gv) tg" and "tg \<in> set tgs" and "state_of sc (tg_id tg) = Some st" and "ts_halted st"
    and "(svc_step gv)\<^sup>*\<^sup>* (sc, w) (sc', w')"
  shows "map_option ts_halted (state_of sc' (tg_id tg)) = Some True \<and>
    ran (tg_id tg) (sc_history sc') = ran (tg_id tg) (sc_history sc) \<and> fst (snd (fire gv tg now sc' w')) = w'"
proof -
  note ok = svc_reached(1) [OF assms(1-3)] and tgs = svc_reached(2) [OF assms(1-3)]
  have "svc_ok (gv_zones gv) (fst (sc', w')) \<and> sc_triggers (fst (sc', w')) = sc_triggers (fst (sc, w)) \<and>
      halted_at (tg_id tg) (ran (tg_id tg) (sc_history sc)) (fst (sc', w'))"
  proof (rule svc_run_keeps [OF assms(7)])
    show "svc_ok (gv_zones gv) (fst (sc, w))" using ok by simp
    show "halted_at (tg_id tg) (ran (tg_id tg) (sc_history sc)) (fst (sc, w))" using assms(5,6) by (simp add: halted_at_def)
  next
    fix now s s' r
    assume "svc_ok (gv_zones gv) s" "prime_triggers (gv_zones gv) now s = (s', r)" "halted_at (tg_id tg) (ran (tg_id tg) (sc_history sc)) s"
    then show "halted_at (tg_id tg) (ran (tg_id tg) (sc_history sc)) s'"
      using prime_all_ok [OF _ subset_refl] unfolding prime_triggers_def halted_at_def by metis
  qed (rule halted_fire)
  then have after: "svc_ok (gv_zones gv) sc'" "tg \<in> set (sc_triggers sc')" "halted_at (tg_id tg) (ran (tg_id tg) (sc_history sc)) sc'"
    using assms(4) tgs by simp_all
  obtain st' where st': "state_of sc' (tg_id tg) = Some st'" by (rule svc_okD [OF after(1,2)])
  have "ts_halted st'" using after(3) st' by (simp add: halted_at_def)
  obtain sc2 w2 r2 where f: "fire gv tg now sc' w' = (sc2, w2, r2)" by (metis prod_cases3)
  from after(1,2) f st' have "w2 = w'"
    by (cases rule: fire_cases) (simp_all add: \<open>ts_halted st'\<close>)
  with f after(3) show ?thesis by (simp add: halted_at_def)
qed

section \<open>A tick leaves nothing due\<close>

lemma next_run_later:
  assumes "tg_cadence tg = Some c" and "parse_cadence db c = Inr p" and "fixed_zone (pc_tz p) off"
    and "next_run_for db tg now st = Inr st'"
  shows "case ts_next_run st' of None \<Rightarrow> True | Some t \<Rightarrow> now < t"
proof (rule next_fire_time_first [OF assms(2,3), of now])
  fix r
  assume "next_fire_time db c now = Inr r" and "first_fire p now r"
  then show ?thesis using assms(1,4) by (auto simp: next_run_for_def first_fire_def split: option.splits)
qed

definition unset_clock :: "zone_db \<Rightarrow> trigger \<Rightarrow> bool" where
  "unset_clock db tg \<longleftrightarrow> (\<forall>c p. tg_cadence tg = Some c \<and> parse_cadence db c = Inr p \<longrightarrow> (\<exists>off. fixed_zone (pc_tz p) off))"

lemma fire_sets_next:
  assumes "svc_ok (gv_zones gv) sc" and "tg \<in> set (sc_triggers sc)" and "fire gv tg now sc w = (sc', w', res)"
    and "unset_clock (gv_zones gv) tg"
  shows "\<not> is_due sc' now tg" and "tg' \<in> set (sc_triggers sc) \<Longrightarrow> tg' \<noteq> tg \<Longrightarrow> is_due sc' now tg' = is_due sc now tg'"
proof -
  obtain st where st: "state_of sc (tg_id tg) = Some st" "mirrors tg st (sc_history sc)" "parses (gv_zones gv) tg"
    by (rule svc_okD [OF assms(1,2)])
  have later: "case ts_next_run st' of None \<Rightarrow> True | Some t \<Rightarrow> now < t"
    if "next_run_for (gv_zones gv) tg now st = Inr st'" for st'
  proof (cases "tg_cadence tg")
    case None
    then show ?thesis using st(2) that by (simp add: next_run_for_def mirrors_def)
  next
    case (Some c)
    obtain p where p: "parse_cadence (gv_zones gv) c = Inr p"
      using st(3) Some by (cases "parse_cadence (gv_zones gv) c") (auto simp: parses_def)
    then obtain off where "fixed_zone (pc_tz p) off" using assms(4) Some by (auto simp: unset_clock_def)
    then show ?thesis using next_run_later [OF Some p _ that] by blast
  qed
  obtain nx where nx: "next_run_for (gv_zones gv) tg now st = Inr (if tg_cadence tg = None then st else st\<lparr>ts_next_run := nx\<rparr>)"
    using next_run_total [OF st(3)] by blast
  from assms(1-3) st(1) show "\<not> is_due sc' now tg"
  proof (cases rule: fire_cases)
    case (skipped out nx')
    then show ?thesis using later [OF skipped(8)] by (auto simp: is_due_def split: option.splits)
  next
    case (run out st')
    then show ?thesis using later [OF run(8)] by (auto simp: is_due_def split: option.splits)
  qed
  assume "tg' \<in> set (sc_triggers sc)" "tg' \<noteq> tg"
  then have "tg_id tg' \<noteq> tg_id tg" using same_trigger [OF assms(1) _ assms(2)] by blast
  with assms(1-3) st(1) show "is_due sc' now tg' = is_due sc now tg'"
    by (cases rule: fire_cases) (simp_all add: is_due_def)
qed

text \<open>
  Ticking leaves nothing due: whatever was due at a moment is fired once, run or skipped, and has its
  next time strictly later, so a second tick at the same moment fires nothing. For triggers with different
  ids and cadences that can be read, in zones whose clock is never set.
\<close>

theorem tick_leaves_nothing_due:
  assumes "(svc_step gv)\<^sup>*\<^sup>* (new_scheduler tgs limit, w0) (sc, w)" and "distinct (map tg_id tgs)"
    and "\<forall>tg \<in> set tgs. parses (gv_zones gv) tg" and "\<forall>tg \<in> set tgs. unset_clock (gv_zones gv) tg"
    and "tick gv now sc w = (sc', w', res)"
  shows "due sc' now = [] \<and> tick gv now sc' w' = (sc', w', Inr [])"
proof -
  note ok = svc_reached(1) [OF assms(1-3)] and tgs = svc_reached(2) [OF assms(1-3)]
  have "\<forall>tg \<in> set tgs. is_due sc' now tg \<longrightarrow> tg \<in> set pending"
    if "fire_each gv (map (\<lambda>tg. (tg, now)) (ds @ [])) s v = (sc', w', r)" "svc_ok (gv_zones gv) s" "sc_triggers s = tgs"
      "set ds \<subseteq> set tgs" "\<forall>tg \<in> set tgs. is_due s now tg \<longrightarrow> tg \<in> set (ds @ pending)" for ds s v r pending
    using that
  proof (induction ds arbitrary: s v r)
    case (Cons tg ds)
    obtain s1 v1 r1 where one: "fire gv tg now s v = (s1, v1, r1)" by (metis prod_cases3)
    have tg: "tg \<in> set (sc_triggers s)" "unset_clock (gv_zones gv) tg" using Cons.prems(3,4) assms(4) by auto
    note fok = fire_ok [OF Cons.prems(2) tg(1) one]
    obtain out where out: "r1 = Inr out" using fok(2) by blast
    obtain s2 v2 r2 where rest: "fire_each gv (map (\<lambda>tg. (tg, now)) (ds @ [])) s1 v1 = (s2, v2, r2)" by (metis prod_cases3)
    have "s2 = sc'" "v2 = w'" using Cons.prems(1) one out rest by (auto split: sum.splits)
    show ?case
    proof (rule Cons.IH [of s1 v1 r2])
      show "fire_each gv (map (\<lambda>tg. (tg, now)) (ds @ [])) s1 v1 = (sc', w', r2)" using rest \<open>s2 = sc'\<close> \<open>v2 = w'\<close> by simp
      show "svc_ok (gv_zones gv) s1" by (rule fok(1))
      show "sc_triggers s1 = tgs" using fok(3) Cons.prems(3) by simp
      show "set ds \<subseteq> set tgs" using Cons.prems(4) by simp
      show "\<forall>tg \<in> set tgs. is_due s1 now tg \<longrightarrow> tg \<in> set (ds @ pending)"
        using fire_sets_next [OF Cons.prems(2) tg(1) one tg(2)] Cons.prems(3,5) by auto
    qed
  qed simp
  from this [of "due sc now" sc w res "[]"] have "\<forall>tg \<in> set tgs. \<not> is_due sc' now tg"
    using assms(5) ok tgs by (auto simp: tick_def due_def)
  moreover have "sc_triggers sc' = tgs"
    using fire_each_ok [OF ok due_triggers assms(5) [unfolded tick_def]] tgs by simp
  ultimately have "due sc' now = []" by (simp add: due_def)
  then show ?thesis by (simp add: tick_def)
qed

section \<open>A trigger that fails\<close>

definition broken :: "(nat, unit) given" where
  "broken = \<lparr>gv_zones = no_zones, gv_runner = (\<lambda>w tg t. (w + 1, Inl ''boom'')), gv_notifier = None\<rparr>"

definition fragile :: trigger where
  "fragile = (nightly_trigger SkipMissed)\<lparr>tg_failure := \<lparr>fp_retries = 1, fp_backoff_seconds = 60, fp_escalate_after_failures = 2,
     fp_notify_channel = None, fp_halt_after_consecutive_failures = 1\<rparr>\<rparr>"

definition idle_service :: "unit scheduler" where
  "idle_service = new_scheduler [fragile] 4"

definition failed_once :: "unit scheduler \<times> nat" where
  "failed_once = (case fire broken fragile 0 idle_service 0 of (sc, w, r) \<Rightarrow> (sc, w))"

lemma failed_once_reached: "(svc_step broken)\<^sup>*\<^sup>* (idle_service, 0) failed_once"
proof -
  have "fragile \<in> set (sc_triggers idle_service)" by (simp add: idle_service_def new_scheduler_def)
  then have "svc_step broken (idle_service, 0) failed_once"
    unfolding failed_once_def by (auto intro: svc_step.fired split: prod.split)
  then show ?thesis by blast
qed

lemma fragile_ok:
  "distinct (map tg_id [fragile])" "\<forall>tg \<in> set [fragile]. parses (gv_zones broken) tg"
  "\<forall>tg \<in> set [fragile]. unset_clock (gv_zones broken) tg" "fragile \<in> set [fragile]"
proof -
  have c: "tg_cadence fragile = Some (in_utc ''nightly'')" "gv_zones broken = no_zones"
    by (simp_all add: fragile_def nightly_trigger_def broken_def)
  have "\<not> isl (parse_cadence no_zones (in_utc ''nightly''))" by code_simp
  with c show "\<forall>tg \<in> set [fragile]. parses (gv_zones broken) tg" by (simp add: parses_def)
  show "\<forall>tg \<in> set [fragile]. unset_clock (gv_zones broken) tg"
    using c utc_fixed by (auto simp: unset_clock_def)
qed simp_all


theorem halted_trigger_never_runs_again_witness:
  "length (ran ''n'' (sc_history (fst failed_once))) = 1 \<and> fst (snd (fire broken fragile 5 (fst failed_once) 2)) = 2"
proof
  have n: "tg_id fragile = ''n''" by (simp add: fragile_def nightly_trigger_def)
  show "length (ran ''n'' (sc_history (fst failed_once))) = 1" by code_simp
  have w: "snd failed_once = 2" by code_simp
  have "map_option ts_halted (state_of (fst failed_once) ''n'') = Some True" by code_simp
  then obtain st where st: "state_of (fst failed_once) ''n'' = Some st" "ts_halted st" by auto
  have "(svc_step broken)\<^sup>*\<^sup>* (new_scheduler [fragile] 4, 0) (fst failed_once, snd failed_once)"
    using failed_once_reached by (simp add: idle_service_def)
  from halted_trigger_never_runs_again [OF this fragile_ok(1,2,4) _ st(2) rtranclp.rtrancl_refl, of 5] st(1)
  show "fst (snd (fire broken fragile 5 (fst failed_once) 2)) = 2" by (simp add: n w)
qed

theorem tick_leaves_nothing_due_witness:
  "\<exists>sc. (svc_step broken)\<^sup>*\<^sup>* (idle_service, 0) (sc, 0) \<and> due sc 7200000000 \<noteq> [] \<and>
     due (fst (tick broken 7200000000 sc 0)) 7200000000 = []"
proof -
  let ?sc = "fst (prime_triggers (gv_zones broken) 0 idle_service)"
  have "svc_step broken (idle_service, 0) (?sc, 0)" by (metis prod.collapse svc_step.primed)
  then have run: "(svc_step broken)\<^sup>*\<^sup>* (new_scheduler [fragile] 4, 0) (?sc, 0)" by (simp add: idle_service_def r_into_rtranclp)
  moreover have "due ?sc 7200000000 \<noteq> []" by code_simp
  moreover have "tick broken 7200000000 ?sc 0 = (fst (tick broken 7200000000 ?sc 0),
      fst (snd (tick broken 7200000000 ?sc 0)), snd (snd (tick broken 7200000000 ?sc 0)))" by simp
  from tick_leaves_nothing_due [OF run fragile_ok(1-3) this] have "due (fst (tick broken 7200000000 ?sc 0)) 7200000000 = []" by simp
  ultimately show ?thesis by (intro exI [of _ ?sc]) (simp add: idle_service_def)
qed

section \<open>Where the code falls short\<close>

text \<open>A run put in the queue is counted and skipped; nothing takes it from there.\<close>

definition busy_service :: "unit scheduler" where
  "busy_service = put_state ''n'' (new_state\<lparr>ts_running := 1\<rparr>) (new_scheduler [fragile\<lparr>tg_overlap := OverlapQueue\<rparr>] 4)"

lemma queued_run_is_skipped:
  "(case fire broken (fragile\<lparr>tg_overlap := OverlapQueue\<rparr>) 0 busy_service 7 of (sc, w, r) \<Rightarrow>
      (map_option ts_queued (state_of sc ''n''), map_option ts_total_runs (state_of sc ''n''), map fo_reason (sc_history sc), w)) =
     (Some 1, Some 0, [QueuedBehind], 7)"
  by code_simp

end
