(* ===== verification/Catalog.thy ===== *)
theory Catalog
  imports DocStore Complex_Main
begin

text \<open>
  The platform catalog (\<open>catalogs/\<close>): entries with their review status, entitlement, provenance and
  history (\<open>models.py\<close>), the sources figures are refreshed from (\<open>sources.py\<close>), the index of which
  design uses which entry (\<open>usage.py\<close>), and the service over both (\<open>service.py\<close>).

  The attributes of an entry are a dictionary of values of a type \<open>'v\<close> whose equality is Python's
  \<open>==\<close>. What pydantic reads as \<open>ModelAttributes\<close> from it, and what Python says of a value, are
  parameters. An ISO time is read once: absent, unreadable, or an instant. Prices are exact
  fractions, and the age of a figure is compared exactly, where the code has floats.
\<close>

section \<open>Entries\<close>

datatype catalog_kind =
    KindModel | KindMcpServer | KindPlugin | KindTool | KindEnvironmentTemplate | KindSkill | KindGuardrail
  | KindPermissionSet | KindKnowledgeSource | KindWorkflow | KindAgentTemplate | KindEndpoint

fun kind_value :: "catalog_kind \<Rightarrow> string" where
  "kind_value KindModel = ''model''"
| "kind_value KindMcpServer = ''mcp_server''"
| "kind_value KindPlugin = ''plugin''"
| "kind_value KindTool = ''tool''"
| "kind_value KindEnvironmentTemplate = ''environment_template''"
| "kind_value KindSkill = ''skill''"
| "kind_value KindGuardrail = ''guardrail''"
| "kind_value KindPermissionSet = ''permission_set''"
| "kind_value KindKnowledgeSource = ''knowledge_source''"
| "kind_value KindWorkflow = ''workflow''"
| "kind_value KindAgentTemplate = ''agent_template''"
| "kind_value KindEndpoint = ''endpoint''"

definition all_kinds :: "catalog_kind list" where
  "all_kinds = [KindModel, KindMcpServer, KindPlugin, KindTool, KindEnvironmentTemplate, KindSkill, KindGuardrail,
     KindPermissionSet, KindKnowledgeSource, KindWorkflow, KindAgentTemplate, KindEndpoint]"

definition kind_of_value :: "string \<Rightarrow> catalog_kind option" where
  "kind_of_value v = List.find (\<lambda>k. kind_value k = v) all_kinds"

datatype approval_status = Proposed | InReview | Approved | Restricted | Deprecated | Retired | Rejected

fun status_value :: "approval_status \<Rightarrow> string" where
  "status_value Proposed = ''proposed''"
| "status_value InReview = ''in_review''"
| "status_value Approved = ''approved''"
| "status_value Restricted = ''restricted''"
| "status_value Deprecated = ''deprecated''"
| "status_value Retired = ''retired''"
| "status_value Rejected = ''rejected''"

record entitlement =
  en_groups :: "string list"
  en_workspaces :: "string list"
  en_environments :: "string list"

definition permits :: "entitlement \<Rightarrow> string list \<Rightarrow> string \<Rightarrow> string \<Rightarrow> bool" where
  "permits en groups workspace environment =
     (if en_groups en \<noteq> [] \<and> \<not> (\<exists>g \<in> set (en_groups en). g \<in> set groups) then False
      else if en_workspaces en \<noteq> [] \<and> workspace \<noteq> [] \<and> workspace \<notin> set (en_workspaces en) then False
      else if en_environments en \<noteq> [] \<and> environment \<notin> set (en_environments en) then False
      else True)"

datatype figure_method = OperatorEntered | Imported | Placeholder

datatype iso_time = NoTime | BadTime | AtTime instant

record provenance =
  fp_method :: figure_method
  fp_source :: string
  fp_source_url :: string
  fp_confirmed_at :: iso_time
  fp_horizon_days :: int
  fp_fields :: "string list"
  fp_note :: string

definition age :: "provenance \<Rightarrow> instant \<Rightarrow> int option" where
  "age p now = (case fp_confirmed_at p of AtTime t \<Rightarrow> Some (now - t) | _ \<Rightarrow> None)"

definition day_us :: int where
  "day_us = 86400 * 1000000"

definition is_stale :: "provenance \<Rightarrow> instant \<Rightarrow> bool" where
  "is_stale p now = (case age p now of None \<Rightarrow> True | Some a \<Rightarrow> a > fp_horizon_days p * day_us)"

record catalog_event =
  ce_action :: string
  ce_actor :: string
  ce_at :: instant
  ce_changes :: "string list"
  ce_note :: string

record 'v catalog_entry =
  ct_id :: string
  ct_kind :: catalog_kind
  ct_name :: string
  ct_version :: string
  ct_summary :: string
  ct_description :: string
  ct_owner :: string
  ct_status :: approval_status
  ct_entitlement :: entitlement
  ct_tags :: "string list"
  ct_attributes :: "(string \<times> 'v) list"
  ct_requires :: "string list"
  ct_documentation_url :: string
  ct_superseded_by :: "string option"
  ct_installs :: int
  ct_created_at :: instant
  ct_updated_at :: instant
  ct_reviewed_by :: string
  ct_reviewed_at :: "instant option"
  ct_review_note :: string
  ct_provenance :: provenance
  ct_history :: "catalog_event list"

definition editorial_fields :: "string list" where
  "editorial_fields = [''name'', ''summary'', ''description'', ''owner'', ''tags'', ''documentation_url'']"

definition substantive_fields :: "string list" where
  "substantive_fields = [''kind'', ''version'', ''attributes'']"

definition figures_stale :: "'v catalog_entry \<Rightarrow> instant \<Rightarrow> bool" where
  "figures_stale e now =
     (if ct_kind e \<noteq> KindModel then False
      else if fp_method (ct_provenance e) = Placeholder then False
      else is_stale (ct_provenance e) now)"

definition figure_state :: "'v catalog_entry \<Rightarrow> instant \<Rightarrow> string" where
  "figure_state e now =
     (if ct_kind e \<noteq> KindModel then ''n/a''
      else if fp_method (ct_provenance e) = Placeholder then ''placeholder''
      else if is_stale (ct_provenance e) now then ''stale'' else ''fresh'')"

definition substantively_locked :: "'v catalog_entry \<Rightarrow> bool" where
  "substantively_locked e = (ct_status e \<in> {Approved, Restricted})"

definition selectable :: "'v catalog_entry \<Rightarrow> bool" where
  "selectable e = (ct_status e \<in> {Approved, Restricted, Deprecated})"

definition available_to :: "'v catalog_entry \<Rightarrow> string list \<Rightarrow> string \<Rightarrow> string \<Rightarrow> bool" where
  "available_to e groups workspace environment =
     (if \<not> selectable e then False
      else if ct_status e = Restricted \<or> en_groups (ct_entitlement e) \<noteq> []
           then permits (ct_entitlement e) groups workspace environment
      else permits (ct_entitlement e) groups workspace environment)"

text \<open>\<open>ModelAttributes\<close>, the fields that are read.\<close>

record model_attributes =
  ma_provider :: string
  ma_model_id :: string
  ma_classes :: "string list"
  ma_context_tokens :: int
  ma_cost_in :: "rat option"
  ma_cost_out :: "rat option"
  ma_regions :: "string list"
  ma_trains_on_data :: bool

text \<open>\<open>round(x, 3)\<close>: to the nearest thousandth, a tie to the even one.\<close>

definition round_3 :: "rat \<Rightarrow> rat" where
  "round_3 x =
     (let y = x * 1000; f = \<lfloor>y\<rfloor>; d = y - of_int f
      in of_int (if d < 1/2 \<or> (d = 1/2 \<and> even f) then f else f + 1) / 1000)"

definition cost_per_million :: "model_attributes \<Rightarrow> rat option" where
  "cost_per_million a =
     (case ma_cost_in a of
        None \<Rightarrow> None
      | Some i \<Rightarrow>
          (let out = (case ma_cost_out a of None \<Rightarrow> i | Some x \<Rightarrow> if x = 0 then i else x)
           in Some (round_3 ((3 * i + out) / 4))))"

section \<open>Sources of figures\<close>

text \<open>What the model is given: pydantic's reading of a model's attributes (\<open>None\<close> is a
  \<open>ValidationError\<close>); whether a value is one of \<open>None\<close>, \<open>""\<close>, \<open>[]\<close>, \<open>{}\<close>; and \<open>str\<close> of a value,
  as it is and read as a time.\<close>

record 'v readings =
  rd_model :: "(string \<times> 'v) list \<Rightarrow> model_attributes option"
  rd_empty :: "'v \<Rightarrow> bool"
  rd_str :: "'v \<Rightarrow> string"
  rd_time :: "'v \<Rightarrow> iso_time"

datatype catalog_error =
    NoEntry string | StillUsed string "string list" | SubstantiveFields "string list"
  | NotEditable "string list" | NotSubstantive "string list" | LockedEntry string approval_status
  | BadKind string | Reviewed string approval_status | InvalidAttributes string

definition model_of :: "'v readings \<Rightarrow> 'v catalog_entry \<Rightarrow> catalog_error + model_attributes" where
  "model_of R e = (case rd_model R (ct_attributes e) of None \<Rightarrow> Inl (InvalidAttributes (ct_id e)) | Some a \<Rightarrow> Inr a)"

definition refreshable_fields :: "string list" where
  "refreshable_fields = [''context_tokens'', ''max_output_tokens'', ''cost_per_million_input'',
     ''cost_per_million_output'', ''regions'', ''knowledge_cutoff'']"

record 'v figure_quote =
  fq_figures :: "(string \<times> 'v) list"
  fq_observed_at :: iso_time
  fq_source_url :: string
  fq_note :: string

definition clean :: "'v readings \<Rightarrow> 'v figure_quote \<Rightarrow> (string \<times> 'v) list" where
  "clean R q = filter (\<lambda>(k, v). k \<in> set refreshable_fields \<and> \<not> rd_empty R v) (fq_figures q)"

text \<open>The protocol \<open>FigureSource\<close>.\<close>

record 'v figure_source =
  fs_name :: string
  fs_quote :: "'v catalog_entry \<Rightarrow> catalog_error + 'v figure_quote option"

record 'v mapping_source =
  ms_name :: string
  ms_observed_at :: iso_time
  ms_source_url :: string
  ms_models :: "(string \<times> (string \<times> 'v) list) list"

definition row_quote :: "'v readings \<Rightarrow> 'v mapping_source \<Rightarrow> (string \<times> 'v) list \<Rightarrow> 'v figure_quote" where
  "row_quote R ms entries =
     \<lparr>fq_figures = entries,
      fq_observed_at = (case map_of entries ''observed_at'' of None \<Rightarrow> ms_observed_at ms | Some v \<Rightarrow> rd_time R v),
      fq_source_url = (case map_of entries ''source_url'' of None \<Rightarrow> ms_source_url ms | Some v \<Rightarrow> rd_str R v),
      fq_note = []\<rparr>"

definition mapping_quote ::
  "'v readings \<Rightarrow> 'v mapping_source \<Rightarrow> 'v catalog_entry \<Rightarrow> catalog_error + 'v figure_quote option" where
  "mapping_quote R ms e =
     (if ct_kind e \<noteq> KindModel then Inr None
      else ebind (model_of R e) (\<lambda>a.
        if ma_model_id a = [] then Inr None
        else (case map_of (ms_models ms) (ma_provider a @ ''/'' @ ma_model_id a) of
            Some r \<Rightarrow> Inr (Some (row_quote R ms r))
          | None \<Rightarrow> Inr (map_option (row_quote R ms) (map_of (ms_models ms) (ma_model_id a))))))"

definition mapping_figure_source :: "'v readings \<Rightarrow> 'v mapping_source \<Rightarrow> 'v figure_source" where
  "mapping_figure_source R ms = \<lparr>fs_name = ms_name ms, fs_quote = mapping_quote R ms\<rparr>"

section \<open>Which design uses what\<close>

record catalog_usage =
  cu_id :: string
  cu_entry_id :: string
  cu_entry_name :: string
  cu_system :: string
  cu_subject :: string
  cu_role :: string
  cu_note :: string
  cu_recorded_at :: instant

text \<open>What \<open>references_in_ir\<close> reads of a resolved design.\<close>

record model_ref =
  mr_catalog_entry :: "string option"
  mr_model :: string
  mr_subagent_catalog_entry :: "string option"
  mr_subagent_model :: "string option"

record ir_agent =
  ia_id :: string
  ia_model_approval :: "model_ref option"

record design_ir =
  ir_name :: string
  ir_agents :: "ir_agent list"

definition reference_of :: "instant \<Rightarrow> string \<Rightarrow> string \<Rightarrow> string option \<times> string \<times> string \<Rightarrow> (string \<Rightarrow> catalog_usage) list" where
  "reference_of now system subject = (\<lambda>(entry_id, role, model).
     (case entry_id of
        None \<Rightarrow> []
      | Some k \<Rightarrow>
          if k = [] then []
          else [\<lambda>fresh. \<lparr>cu_id = fresh, cu_entry_id = k, cu_entry_name = [], cu_system = system, cu_subject = subject,
                 cu_role = role, cu_note = (if model \<noteq> [] then ''bound to '' @ quoted model else []),
                 cu_recorded_at = now\<rparr>]))"

definition agent_references :: "instant \<Rightarrow> string \<Rightarrow> ir_agent \<Rightarrow> (string \<Rightarrow> catalog_usage) list" where
  "agent_references now system a =
     (case ia_model_approval a of
        None \<Rightarrow> []
      | Some r \<Rightarrow> concat (map (reference_of now system (ia_id a))
          [(mr_catalog_entry r, ''model'', mr_model r),
           (mr_subagent_catalog_entry r, ''subagent_model'', (case mr_subagent_model r of None \<Rightarrow> [] | Some m \<Rightarrow> m))]))"

text \<open>The rows of a design, each made with the id it is handed.\<close>

definition references_in_ir :: "instant \<Rightarrow> design_ir \<Rightarrow> (string \<Rightarrow> catalog_usage) list" where
  "references_in_ir now ir = concat (map (agent_references now (ir_name ir)) (ir_agents ir))"

definition usage_limit :: nat where
  "usage_limit = 5000"

definition usage_all :: "catalog_usage docs \<Rightarrow> catalog_usage list" where
  "usage_all us = store_list None usage_limit 0 us"

definition usage_for_entry :: "string \<Rightarrow> catalog_usage docs \<Rightarrow> catalog_usage list" where
  "usage_for_entry entry_id us = store_list (Some entry_id) usage_limit 0 us"

definition usage_for_system :: "string \<Rightarrow> catalog_usage docs \<Rightarrow> catalog_usage list" where
  "usage_for_system system us = filter (\<lambda>u. cu_system u = system) (usage_all us)"

definition usage_record :: "instant \<Rightarrow> catalog_usage \<Rightarrow> catalog_usage docs \<Rightarrow> catalog_usage docs \<times> catalog_usage" where
  "usage_record now u us =
     (let existing = List.find (\<lambda>x. cu_subject x = cu_subject u \<and> cu_role x = cu_role u) (usage_for_system (cu_system u) us);
          kept = (case existing of None \<Rightarrow> u | Some x \<Rightarrow> u\<lparr>cu_id := cu_id x\<rparr>);
          stamped = kept\<lparr>cu_recorded_at := now\<rparr>
      in (store_put now (cu_id stamped) stamped (Some (cu_entry_id stamped))
            (Some (cu_system u @ '':'' @ cu_subject u @ '':'' @ cu_role u)) us, stamped))"

definition forget_system :: "string \<Rightarrow> catalog_usage docs \<Rightarrow> catalog_usage docs \<times> nat" where
  "forget_system system us =
     (let doomed = usage_for_system system us
      in (fold (\<lambda>u rs. fst (store_delete (cu_id u) rs)) doomed us, length doomed))"

definition systems_using :: "string \<Rightarrow> catalog_usage docs \<Rightarrow> string list" where
  "systems_using entry_id us = sorted_set (filter (\<lambda>s. s \<noteq> []) (map cu_system (usage_for_entry entry_id us)))"

section \<open>The inventory\<close>

record 'v catalog =
  cat_entries :: "'v catalog_entry docs"
  cat_usage :: "catalog_usage docs"

type_synonym ('v, 'a) catalog_op = "'v catalog \<Rightarrow> 'v catalog \<times> (catalog_error + 'a)"

definition log_event :: "catalog_event \<Rightarrow> 'v catalog_entry \<Rightarrow> 'v catalog_entry" where
  "log_event ev e = e\<lparr>ct_history := ct_history e @ [ev]\<rparr>"

definition publish :: "instant \<Rightarrow> 'v catalog_entry \<Rightarrow> string \<Rightarrow> 'v catalog \<Rightarrow> 'v catalog \<times> 'v catalog_entry" where
  "publish now e actor ct =
     (let named = (if actor \<noteq> [] \<and> ct_history e = []
                   then log_event \<lparr>ce_action = ''created'', ce_actor = actor, ce_at = now, ce_changes = [],
                          ce_note = kind_value (ct_kind e) @ '' '' @ quoted (ct_name e) @ '' v'' @ ct_version e\<rparr> e
                   else e);
          e' = named\<lparr>ct_updated_at := now\<rparr>
      in (ct\<lparr>cat_entries := store_put now (ct_id e') e' (Some (kind_value (ct_kind e'))) (Some (ct_name e')) (cat_entries ct)\<rparr>, e'))"

definition catalog_get :: "'v catalog \<Rightarrow> string \<Rightarrow> 'v catalog_entry option" where
  "catalog_get ct k = store_get (cat_entries ct) k"

definition catalog_list :: "catalog_kind option \<Rightarrow> 'v catalog \<Rightarrow> 'v catalog_entry list" where
  "catalog_list kind ct = store_list (map_option kind_value kind) 5000 0 (cat_entries ct)"

definition by_name :: "catalog_kind \<Rightarrow> string \<Rightarrow> 'v catalog \<Rightarrow> 'v catalog_entry option" where
  "by_name kind nm ct = List.find (\<lambda>e. ct_name e = nm) (catalog_list (Some kind) ct)"

record catalog_search =
  cs_query :: string
  cs_kind :: "catalog_kind option"
  cs_status :: "approval_status option"
  cs_tags :: "string list"
  cs_groups :: "string list"
  cs_workspace :: string
  cs_environment :: string
  cs_selectable_only :: bool

definition found_by :: "catalog_search \<Rightarrow> 'v catalog_entry \<Rightarrow> bool" where
  "found_by q e =
     (let lowered = py_lower (cs_query q);
          haystack = py_lower (ct_name e @ '' '' @ ct_summary e @ '' '' @ join_with '' '' (ct_tags e))
      in if lowered \<noteq> [] \<and> \<not> sublist lowered haystack then False
         else if cs_status q \<noteq> None \<and> cs_status q \<noteq> Some (ct_status e) then False
         else if cs_tags q \<noteq> [] \<and> \<not> (\<forall>t \<in> set (cs_tags q). t \<in> set (ct_tags e)) then False
         else if cs_selectable_only q \<and> \<not> available_to e (cs_groups q) (cs_workspace q) (cs_environment q) then False
         else True)"

definition search :: "catalog_search \<Rightarrow> 'v catalog \<Rightarrow> 'v catalog_entry list" where
  "search q ct = sort_key (\<lambda>e. (kind_value (ct_kind e), ct_name e)) (filter (found_by q) (catalog_list (cs_kind q) ct))"

text \<open>\<open>_require\<close>, with what follows it.\<close>

definition require_entry :: "string \<Rightarrow> ('v catalog_entry \<Rightarrow> ('v, 'a) catalog_op) \<Rightarrow> ('v, 'a) catalog_op" where
  "require_entry k f ct = (case catalog_get ct k of None \<Rightarrow> (ct, Inl (NoEntry k)) | Some e \<Rightarrow> f e ct)"

definition publish_op :: "instant \<Rightarrow> 'v catalog_entry \<Rightarrow> ('v, 'v catalog_entry) catalog_op" where
  "publish_op now e ct = (case publish now e [] ct of (ct', e') \<Rightarrow> (ct', Inr e'))"

definition review_event :: "instant \<Rightarrow> approval_status \<Rightarrow> string \<Rightarrow> string \<Rightarrow> catalog_event" where
  "review_event now status reviewer comment =
     \<lparr>ce_action = ''reviewed'', ce_actor = reviewer, ce_at = now, ce_changes = [''status''],
      ce_note = ''status -> '' @ status_value status @ (if comment \<noteq> [] then '': '' @ comment else [])\<rparr>"

definition review :: "instant \<Rightarrow> string \<Rightarrow> approval_status \<Rightarrow> string \<Rightarrow> string \<Rightarrow> ('v, 'v catalog_entry) catalog_op" where
  "review now k status reviewer comment = require_entry k (\<lambda>e.
     publish_op now (log_event (review_event now status reviewer comment)
       (e\<lparr>ct_status := status, ct_reviewed_by := reviewer, ct_reviewed_at := Some now, ct_review_note := comment\<rparr>)))"

definition entitle :: "instant \<Rightarrow> string \<Rightarrow> entitlement \<Rightarrow> string \<Rightarrow> ('v, 'v catalog_entry) catalog_op" where
  "entitle now k en actor = require_entry k (\<lambda>e.
     publish_op now (log_event \<lparr>ce_action = ''entitled'', ce_actor = actor, ce_at = now, ce_changes = [''entitlement''],
         ce_note = (let gs = join_with '', '' (en_groups en) in if gs \<noteq> [] then gs else ''everyone'')\<rparr>
       (e\<lparr>ct_entitlement := en\<rparr>)))"

definition retire ::
  "instant \<Rightarrow> string \<Rightarrow> string \<Rightarrow> string option \<Rightarrow> bool \<Rightarrow> ('v, 'v catalog_entry) catalog_op" where
  "retire now k reviewer superseded_by force ct =
     (let users = systems_using k (cat_usage ct)
      in if users \<noteq> [] \<and> \<not> force then (ct, Inl (StillUsed k users))
         else (case review now k Retired reviewer
                      (case superseded_by of Some (c # cs) \<Rightarrow> ''superseded by '' @ (c # cs) | _ \<Rightarrow> ''retired'') ct of
             (ct', Inl err) \<Rightarrow> (ct', Inl err)
           | (ct', Inr e) \<Rightarrow> publish_op now (e\<lparr>ct_superseded_by := superseded_by\<rparr>) ct'))"

section \<open>Editing\<close>

text \<open>An item of the dictionary of changes: a field with a value of its type, a field that is none of
  the editable ones, or any field with \<open>None\<close>.\<close>

datatype 'v field_change =
    SetName string | SetSummary string | SetDescription string | SetOwner string | SetTags "string list"
  | SetDocumentationUrl string | SetKind string | SetVersion string | SetAttributes "(string \<times> 'v) list"
  | SetOther string | NoValue string

fun field_of :: "'v field_change \<Rightarrow> string" where
  "field_of (SetName _) = ''name''"
| "field_of (SetSummary _) = ''summary''"
| "field_of (SetDescription _) = ''description''"
| "field_of (SetOwner _) = ''owner''"
| "field_of (SetTags _) = ''tags''"
| "field_of (SetDocumentationUrl _) = ''documentation_url''"
| "field_of (SetKind _) = ''kind''"
| "field_of (SetVersion _) = ''version''"
| "field_of (SetAttributes _) = ''attributes''"
| "field_of (SetOther k) = k"
| "field_of (NoValue k) = k"

fun has_value :: "'v field_change \<Rightarrow> bool" where
  "has_value (NoValue _) = False"
| "has_value _ = True"

definition same_dict :: "(string \<times> 'v) list \<Rightarrow> (string \<times> 'v) list \<Rightarrow> bool" where
  "same_dict a b = (\<forall>k \<in> set (map fst a @ map fst b). map_of a k = map_of b k)"

text \<open>\<open>getattr(entry, key) != value\<close>, and \<open>setattr(entry, key, value)\<close>; the kind is converted first.\<close>

fun differs :: "'v catalog_entry \<Rightarrow> 'v field_change \<Rightarrow> bool" where
  "differs e (SetName v) = (ct_name e \<noteq> v)"
| "differs e (SetSummary v) = (ct_summary e \<noteq> v)"
| "differs e (SetDescription v) = (ct_description e \<noteq> v)"
| "differs e (SetOwner v) = (ct_owner e \<noteq> v)"
| "differs e (SetTags v) = (ct_tags e \<noteq> v)"
| "differs e (SetDocumentationUrl v) = (ct_documentation_url e \<noteq> v)"
| "differs e (SetKind v) = (kind_of_value v \<noteq> Some (ct_kind e))"
| "differs e (SetVersion v) = (ct_version e \<noteq> v)"
| "differs e (SetAttributes v) = (\<not> same_dict (ct_attributes e) v)"
| "differs e _ = True"

fun set_field :: "'v field_change \<Rightarrow> 'v catalog_entry \<Rightarrow> catalog_error + 'v catalog_entry" where
  "set_field (SetName v) e = Inr (e\<lparr>ct_name := v\<rparr>)"
| "set_field (SetSummary v) e = Inr (e\<lparr>ct_summary := v\<rparr>)"
| "set_field (SetDescription v) e = Inr (e\<lparr>ct_description := v\<rparr>)"
| "set_field (SetOwner v) e = Inr (e\<lparr>ct_owner := v\<rparr>)"
| "set_field (SetTags v) e = Inr (e\<lparr>ct_tags := v\<rparr>)"
| "set_field (SetDocumentationUrl v) e = Inr (e\<lparr>ct_documentation_url := v\<rparr>)"
| "set_field (SetKind v) e = (case kind_of_value v of None \<Rightarrow> Inl (BadKind v) | Some k \<Rightarrow> Inr (e\<lparr>ct_kind := k\<rparr>))"
| "set_field (SetVersion v) e = Inr (e\<lparr>ct_version := v\<rparr>)"
| "set_field (SetAttributes v) e = Inr (e\<lparr>ct_attributes := v\<rparr>)"
| "set_field _ e = Inr e"

fun set_fields :: "'v field_change list \<Rightarrow> 'v catalog_entry \<Rightarrow> catalog_error + 'v catalog_entry" where
  "set_fields [] e = Inr e"
| "set_fields (c # cs) e = ebind (set_field c e) (set_fields cs)"

definition edited_event :: "instant \<Rightarrow> string \<Rightarrow> string \<Rightarrow> 'v field_change list \<Rightarrow> string \<Rightarrow> 'v catalog_entry \<Rightarrow> catalog_event" where
  "edited_event now action actor offered comment e =
     \<lparr>ce_action = action, ce_actor = actor, ce_at = now,
      ce_changes = sort (map field_of (filter (differs e) offered)), ce_note = comment\<rparr>"

definition offered_of :: "'v field_change list \<Rightarrow> 'v field_change list" where
  "offered_of changes = filter has_value changes"

definition edit_with ::
  "instant \<Rightarrow> string \<Rightarrow> string \<Rightarrow> 'v field_change list \<Rightarrow> string \<Rightarrow> 'v catalog_entry \<Rightarrow> ('v, 'v catalog_entry) catalog_op" where
  "edit_with now action actor offered comment e ct =
     (case set_fields offered e of
        Inl err \<Rightarrow> (ct, Inl err)
      | Inr e' \<Rightarrow> publish_op now (log_event (edited_event now action actor offered comment e) e') ct)"

definition update_entry ::
  "instant \<Rightarrow> string \<Rightarrow> 'v field_change list \<Rightarrow> string \<Rightarrow> string \<Rightarrow> ('v, 'v catalog_entry) catalog_op" where
  "update_entry now k changes actor comment = require_entry k (\<lambda>e ct.
     let offered = offered_of changes;
         substantive = sorted_set (filter (\<lambda>f. f \<in> set substantive_fields) (map field_of offered));
         unknown = sorted_set (filter (\<lambda>f. f \<notin> set editorial_fields) (map field_of offered))
     in if substantive \<noteq> [] then (ct, Inl (SubstantiveFields substantive))
        else if unknown \<noteq> [] then (ct, Inl (NotEditable unknown))
        else edit_with now ''updated'' actor offered comment e ct)"

definition amend ::
  "instant \<Rightarrow> string \<Rightarrow> 'v field_change list \<Rightarrow> string \<Rightarrow> string \<Rightarrow> ('v, 'v catalog_entry) catalog_op" where
  "amend now k changes actor comment = require_entry k (\<lambda>e ct.
     let offered = offered_of changes;
         unknown = sorted_set (filter (\<lambda>f. f \<notin> set substantive_fields) (map field_of offered))
     in if unknown \<noteq> [] then (ct, Inl (NotSubstantive unknown))
        else if substantively_locked e then (ct, Inl (LockedEntry (ct_name e) (ct_status e)))
        else edit_with now ''amended'' actor offered comment e ct)"

definition send_back :: "instant \<Rightarrow> string \<Rightarrow> string \<Rightarrow> string \<Rightarrow> ('v, 'v catalog_entry) catalog_op" where
  "send_back now k actor comment = require_entry k (\<lambda>_ ct.
     let users = systems_using k (cat_usage ct);
         reason = (if comment \<noteq> [] then comment else ''sent back for review'')
     in review now k Proposed actor
          (reason @ (if users \<noteq> [] then ''; unselectable for '' @ join_with '', '' users else [])) ct)"

definition delete_entry :: "string \<Rightarrow> ('v, string) catalog_op" where
  "delete_entry k = require_entry k (\<lambda>e ct.
     if ct_status e \<noteq> Proposed \<or> ct_reviewed_at e \<noteq> None then (ct, Inl (Reviewed (ct_name e) (ct_status e)))
     else (let users = systems_using k (cat_usage ct)
           in if users \<noteq> [] then (ct, Inl (StillUsed (ct_name e) users))
              else (ct\<lparr>cat_entries := fst (store_delete k (cat_entries ct))\<rparr>, Inr k)))"

definition deletable :: "'v catalog \<Rightarrow> 'v catalog_entry \<Rightarrow> bool" where
  "deletable ct e = (ct_status e = Proposed \<and> ct_reviewed_at e = None \<and> systems_using (ct_id e) (cat_usage ct) = [])"

definition record_install :: "instant \<Rightarrow> string \<Rightarrow> ('v, 'v catalog_entry) catalog_op" where
  "record_install now k = require_entry k (\<lambda>e. publish_op now (e\<lparr>ct_installs := ct_installs e + 1\<rparr>))"

section \<open>Models\<close>

text \<open>\<open>ModelPolicy\<close> of the specification.\<close>

record model_policy =
  mp_classes :: "string list"
  mp_allow :: "string list"
  mp_deny :: "string list"
  mp_max_cost :: "rat option"
  mp_min_context :: "int option"
  mp_no_training :: bool
  mp_regions :: "string list"

text \<open>Who asks, from where.\<close>

record asker =
  ak_groups :: "string list"
  ak_workspace :: string
  ak_environment :: string

datatype verdict =
    EntryRetired "string option" | NotApproved approval_status | NotEntitled | DeniedByPolicy | NamedInPolicy
  | NotOnTheList | WrongClass "string list" "string list" | TrainsOnData | TooLittleContext int int
  | TooExpensive rat rat | WrongRegion "string list" "string list" | SatisfiesPolicy
  | NoModelPermitted | WouldBeChosen string | NotInCatalog string

record 'v model_decision =
  md_allowed :: bool
  md_verdict :: verdict
  md_entry :: "'v catalog_entry option"
  md_alternatives :: "string list"
  md_stale :: bool

definition decided :: "bool \<Rightarrow> verdict \<Rightarrow> 'v catalog_entry option \<Rightarrow> string list \<Rightarrow> bool \<Rightarrow> 'v model_decision" where
  "decided ok v e names stale =
     \<lparr>md_allowed = ok, md_verdict = v, md_entry = e, md_alternatives = names, md_stale = stale\<rparr>"

definition named_in :: "'v catalog_entry \<Rightarrow> string list \<Rightarrow> bool" where
  "named_in e names = (ct_id e \<in> set names \<or> ct_name e \<in> set names)"

definition check_model ::
  "'v readings \<Rightarrow> instant \<Rightarrow> asker \<Rightarrow> model_policy \<Rightarrow> 'v catalog_entry \<Rightarrow> catalog_error + 'v model_decision" where
  "check_model R now ak policy e = ebind (model_of R e) (\<lambda>a. Inr (
     let stale = figures_stale e now; cost = cost_per_million a;
         no = (\<lambda>v. decided False v (Some e) [] False)
     in if ct_status e = Retired then no (EntryRetired (ct_superseded_by e))
        else if \<not> selectable e then no (NotApproved (ct_status e))
        else if \<not> available_to e (ak_groups ak) (ak_workspace ak) (ak_environment ak) then no NotEntitled
        else if named_in e (mp_deny policy) then no DeniedByPolicy
        else if mp_allow policy \<noteq> [] then
          (if named_in e (mp_allow policy) then decided True NamedInPolicy (Some e) [] stale else no NotOnTheList)
        else if mp_classes policy \<noteq> [] \<and> \<not> (\<exists>c \<in> set (mp_classes policy). c \<in> set (ma_classes a)) then
          no (WrongClass (ma_classes a) (sorted_set (mp_classes policy)))
        else if mp_no_training policy \<and> ma_trains_on_data a then no TrainsOnData
        else if (case mp_min_context policy of
                Some m \<Rightarrow> m \<noteq> 0 \<and> ma_context_tokens a < m | None \<Rightarrow> False) then
          decided False (TooLittleContext (ma_context_tokens a) (the (mp_min_context policy))) (Some e) [] stale
        else if (case (mp_max_cost policy, cost) of (Some m, Some c) \<Rightarrow> c > m | _ \<Rightarrow> False) then
          decided False (TooExpensive (the cost) (the (mp_max_cost policy))) (Some e) [] stale
        else if mp_regions policy \<noteq> [] \<and> \<not> (\<exists>r \<in> set (mp_regions policy). r \<in> set (ma_regions a)) then
          no (WrongRegion (ma_regions a) (mp_regions policy))
        else decided True SatisfiesPolicy (Some e) [] stale))"

fun first_match_for ::
  "'v readings \<Rightarrow> string \<Rightarrow> string \<Rightarrow> 'v catalog_entry list \<Rightarrow> catalog_error + 'v catalog_entry option" where
  "first_match_for R provider model_id [] = Inr None"
| "first_match_for R provider model_id (e # es) = ebind (model_of R e) (\<lambda>a.
     if ma_model_id a = model_id \<and> (provider = [] \<or> ma_provider a = provider) then Inr (Some e)
     else first_match_for R provider model_id es)"

definition model_for ::
  "'v readings \<Rightarrow> string \<Rightarrow> string \<Rightarrow> 'v catalog \<Rightarrow> catalog_error + 'v catalog_entry option" where
  "model_for R provider model_id ct = first_match_for R provider model_id (catalog_list (Some KindModel) ct)"

text \<open>The key permitted models are sorted by, \<open>(figures_stale, cost_per_million or 0.0)\<close>.\<close>

definition preference :: "instant \<Rightarrow> 'v catalog_entry \<Rightarrow> model_attributes \<Rightarrow> bool \<times> rat" where
  "preference now e a = (figures_stale e now, case cost_per_million a of None \<Rightarrow> 0 | Some c \<Rightarrow> c)"

fun allowed_rows ::
  "'v readings \<Rightarrow> instant \<Rightarrow> asker \<Rightarrow> model_policy \<Rightarrow> 'v catalog_entry list \<Rightarrow>
     catalog_error + ((bool \<times> rat) \<times> 'v catalog_entry) list" where
  "allowed_rows R now ak policy [] = Inr []"
| "allowed_rows R now ak policy (e # es) =
     ebind (check_model R now ak policy e) (\<lambda>d.
     ebind (if md_allowed d then ebind (model_of R e) (\<lambda>a. Inr [(preference now e a, e)]) else Inr []) (\<lambda>here.
     ebind (allowed_rows R now ak policy es) (\<lambda>rest. Inr (here @ rest))))"

definition permitted_models ::
  "'v readings \<Rightarrow> instant \<Rightarrow> asker \<Rightarrow> model_policy \<Rightarrow> 'v catalog \<Rightarrow> catalog_error + 'v catalog_entry list" where
  "permitted_models R now ak policy ct =
     ebind (allowed_rows R now ak policy (catalog_list (Some KindModel) ct)) (\<lambda>found. Inr (map snd (sort_key fst found)))"

definition resolve_model ::
  "'v readings \<Rightarrow> instant \<Rightarrow> asker \<Rightarrow> model_policy \<Rightarrow> string \<Rightarrow> string \<Rightarrow> 'v catalog \<Rightarrow> catalog_error + 'v model_decision" where
  "resolve_model R now ak policy provider model_id ct =
     ebind (permitted_models R now ak policy ct) (\<lambda>permitted.
       let names = map ct_name permitted
       in if model_id = [] then
            (case permitted of
               [] \<Rightarrow> Inr (decided False NoModelPermitted None names False)
             | e # _ \<Rightarrow> Inr (decided True (WouldBeChosen (ct_name e)) (Some e) names False))
          else ebind (model_for R provider model_id ct) (\<lambda>found.
            case found of
              None \<Rightarrow> Inr (decided False (NotInCatalog model_id) None names False)
            | Some e \<Rightarrow> ebind (check_model R now ak policy e) (\<lambda>d. Inr (d\<lparr>md_alternatives := names\<rparr>))))"

section \<open>Recording and reporting usage\<close>

fun record_each :: "instant \<Rightarrow> catalog_usage list \<Rightarrow> catalog_usage docs \<Rightarrow> catalog_usage docs \<times> catalog_usage list" where
  "record_each now [] us = (us, [])"
| "record_each now (u # rest) us =
     (case usage_record now u us of (us1, u') \<Rightarrow>
        (case record_each now rest us1 of (us2, out) \<Rightarrow> (us2, u' # out)))"

definition record_ir_usage ::
  "instant \<Rightarrow> (nat \<Rightarrow> string) \<Rightarrow> design_ir \<Rightarrow> 'v catalog \<Rightarrow> 'v catalog \<times> catalog_usage list" where
  "record_ir_usage now ids ir ct =
     (let us1 = fst (forget_system (ir_name ir) (cat_usage ct));
          refs = map (\<lambda>(i, mk). mk (ids i)) (enumerate 0 (references_in_ir now ir))
      in case record_each now refs us1 of (us2, out) \<Rightarrow> (ct\<lparr>cat_usage := us2\<rparr>, out))"

definition add_user :: "catalog_usage \<Rightarrow> (string \<times> string list) list \<Rightarrow> (string \<times> string list) list" where
  "add_user u d =
     (let d1 = dict_setdefault (cu_entry_id u) [] d; seen = dict_get d1 (cu_entry_id u) []
      in if cu_system u \<noteq> [] \<and> cu_system u \<notin> set seen
         then AList.update (cu_entry_id u) (seen @ [cu_system u]) d1 else d1)"

record usage_summary =
  ur_references :: nat
  ur_by_entry :: "(string \<times> string list) list"
  ur_unused :: "string list"

definition usage_report :: "'v catalog \<Rightarrow> usage_summary" where
  "usage_report ct =
     (let rows = usage_all (cat_usage ct);
          by_entry = fold add_user rows [];
          names = fold (\<lambda>e. AList.update (ct_id e) (ct_name e)) (catalog_list None ct) []
      in \<lparr>ur_references = length rows,
          ur_by_entry = fold (\<lambda>(k, v). AList.update (dict_get names k k) (sort v)) by_entry [],
          ur_unused = sort (map snd (filter (\<lambda>(i, _). i \<notin> fst ` set by_entry) names))\<rparr>)"

section \<open>Refreshing figures\<close>

record refresh_report =
  rr_source :: string
  rr_updated :: "(string \<times> string list) list"
  rr_reconfirmed :: "string list"
  rr_uncovered :: "string list"

definition with_figures ::
  "instant \<Rightarrow> string \<Rightarrow> int option \<Rightarrow> 'v figure_quote \<Rightarrow> (string \<times> 'v) list \<Rightarrow> 'v catalog_entry \<Rightarrow> 'v catalog_entry" where
  "with_figures now source horizon_days q figures e =
     e\<lparr>ct_attributes := fold (\<lambda>(k, v). AList.update k v) figures (ct_attributes e),
       ct_provenance := \<lparr>fp_method = Imported, fp_source = source, fp_source_url = fq_source_url q,
         fp_confirmed_at = (if fq_observed_at q \<noteq> NoTime then fq_observed_at q else AtTime now),
         fp_horizon_days = (case horizon_days of Some h \<Rightarrow> h | None \<Rightarrow> fp_horizon_days (ct_provenance e)),
         fp_fields = sort (map fst figures), fp_note = fq_note q\<rparr>\<rparr>"

fun refresh_each ::
  "'v readings \<Rightarrow> instant \<Rightarrow> 'v figure_source \<Rightarrow> int option \<Rightarrow> 'v catalog_entry list \<Rightarrow> refresh_report \<Rightarrow>
     ('v, refresh_report) catalog_op" where
  "refresh_each R now src horizon_days [] report ct = (ct, Inr report)"
| "refresh_each R now src horizon_days (e # es) report ct =
     (case fs_quote src e of
        Inl err \<Rightarrow> (ct, Inl err)
      | Inr q \<Rightarrow>
          (let figures = (case q of None \<Rightarrow> [] | Some fq \<Rightarrow> clean R fq) in
           if figures = [] then
             refresh_each R now src horizon_days es (report\<lparr>rr_uncovered := rr_uncovered report @ [ct_name e]\<rparr>) ct
           else (let changed = sort (map fst (filter (\<lambda>(k, v). map_of (ct_attributes e) k \<noteq> Some v) figures));
                     ct' = fst (publish now (with_figures now (rr_source report) horizon_days (the q) figures e) [] ct)
                 in refresh_each R now src horizon_days es
                      (if changed \<noteq> [] then report\<lparr>rr_updated := AList.update (ct_name e) changed (rr_updated report)\<rparr>
                       else report\<lparr>rr_reconfirmed := rr_reconfirmed report @ [ct_name e]\<rparr>) ct')))"

definition refresh_figures ::
  "'v readings \<Rightarrow> instant \<Rightarrow> 'v figure_source \<Rightarrow> int option \<Rightarrow> catalog_kind \<Rightarrow> ('v, refresh_report) catalog_op" where
  "refresh_figures R now src horizon_days kind ct =
     refresh_each R now src horizon_days (catalog_list (Some kind) ct)
       \<lparr>rr_source = fs_name src, rr_updated = [], rr_reconfirmed = [], rr_uncovered = []\<rparr> ct"

definition stale_entries :: "instant \<Rightarrow> 'v catalog \<Rightarrow> 'v catalog_entry list" where
  "stale_entries now ct = filter (\<lambda>e. figures_stale e now) (catalog_list None ct)"

section \<open>Statistics\<close>

definition tally :: "string list \<Rightarrow> (string \<times> nat) list" where
  "tally xs = fold (\<lambda>x d. AList.update x (dict_get d x 0 + 1) d) xs []"

record catalog_stats =
  st_total :: nat
  st_by_kind :: "(string \<times> nat) list"
  st_by_status :: "(string \<times> nat) list"
  st_installs :: int
  st_unreviewed :: "string list"
  st_deprecated_in_use :: "string list"
  st_stale_figures :: "string list"
  st_placeholder_figures :: "string list"
  st_figure_sources :: "string list"
  st_referenced_entries :: nat

definition stats :: "instant \<Rightarrow> 'v catalog \<Rightarrow> catalog_stats" where
  "stats now ct =
     (let es = catalog_list None ct; names = (\<lambda>P. map ct_name (filter P es)) in
      \<lparr>st_total = length es,
       st_by_kind = tally (map (\<lambda>e. kind_value (ct_kind e)) es),
       st_by_status = tally (map (\<lambda>e. status_value (ct_status e)) es),
       st_installs = sum_list (map ct_installs es),
       st_unreviewed = names (\<lambda>e. ct_status e \<in> {Proposed, InReview}),
       st_deprecated_in_use = names (\<lambda>e. ct_status e = Deprecated \<and> ct_installs e \<noteq> 0),
       st_stale_figures = names (\<lambda>e. figures_stale e now),
       st_placeholder_figures = names (\<lambda>e. fp_method (ct_provenance e) = Placeholder),
       st_figure_sources = sorted_set (filter (\<lambda>s. s \<noteq> []) (map (\<lambda>e. fp_source (ct_provenance e)) es)),
       st_referenced_entries = length (ur_by_entry (usage_report ct))\<rparr>)"

end
