(* ===== verification/CatalogChoice.thy ===== *)
theory CatalogChoice
  imports Catalog
begin

text \<open>
  Which model of the catalog a policy lets an agent run on: a model that is allowed is permitted by one
  condition, and where none was bound the choice is fresh if one is, and the cheapest of those. The
  lemmas at the end show what the check lets through that the policy does not mean to.
\<close>

section \<open>Choosing a model\<close>

text \<open>What a policy asks of a model, as one condition.\<close>

definition suits :: "'v readings \<Rightarrow> asker \<Rightarrow> model_policy \<Rightarrow> 'v catalog_entry \<Rightarrow> model_attributes \<Rightarrow> bool" where
  "suits R ak policy e a \<longleftrightarrow>
     model_of R e = Inr a \<and> ct_status e \<in> {Approved, Restricted, Deprecated} \<and>
     permits (ct_entitlement e) (ak_groups ak) (ak_workspace ak) (ak_environment ak) \<and> \<not> named_in e (mp_deny policy) \<and>
     (if mp_allow policy \<noteq> [] then named_in e (mp_allow policy)
      else (mp_classes policy = [] \<or> set (mp_classes policy) \<inter> set (ma_classes a) \<noteq> {}) \<and>
           (mp_no_training policy \<longrightarrow> \<not> ma_trains_on_data a) \<and>
           (\<forall>m. mp_min_context policy = Some m \<longrightarrow> m = 0 \<or> m \<le> ma_context_tokens a) \<and>
           (\<forall>m c. mp_max_cost policy = Some m \<longrightarrow> cost_per_million a = Some c \<longrightarrow> c \<le> m) \<and>
           (mp_regions policy = [] \<or> set (mp_regions policy) \<inter> set (ma_regions a) \<noteq> {}))"

lemma available_to_eq: "available_to e gs w env \<longleftrightarrow> selectable e \<and> permits (ct_entitlement e) gs w env"
  by (simp add: available_to_def)

lemma check_model_decides:
  assumes "check_model R now ak policy e = Inr d"
  shows "(md_allowed d \<longleftrightarrow> (\<exists>a. suits R ak policy e a)) \<and> md_entry d = Some e"
proof -
  obtain a where a: "model_of R e = Inr a" using assms by (auto simp: check_model_def ebind_eq_Inr)
  have status: "ct_status e \<in> {Approved, Restricted, Deprecated} \<longleftrightarrow> selectable e" by (simp add: selectable_def)
  have retired: "ct_status e = Retired \<Longrightarrow> \<not> selectable e" by (simp add: selectable_def)
  define ctx where "ctx \<longleftrightarrow> (case mp_min_context policy of Some m \<Rightarrow> m \<noteq> 0 \<and> ma_context_tokens a < m | None \<Rightarrow> False)"
  define dear where "dear \<longleftrightarrow> (case (mp_max_cost policy, cost_per_million a) of (Some m, Some c) \<Rightarrow> c > m | _ \<Rightarrow> False)"
  have s: "suits R ak policy e a \<longleftrightarrow> selectable e \<and>
     permits (ct_entitlement e) (ak_groups ak) (ak_workspace ak) (ak_environment ak) \<and> \<not> named_in e (mp_deny policy) \<and>
     (if mp_allow policy \<noteq> [] then named_in e (mp_allow policy)
      else (mp_classes policy = [] \<or> (\<exists>c \<in> set (mp_classes policy). c \<in> set (ma_classes a))) \<and>
           \<not> (mp_no_training policy \<and> ma_trains_on_data a) \<and> \<not> ctx \<and> \<not> dear \<and>
           (mp_regions policy = [] \<or> (\<exists>r \<in> set (mp_regions policy). r \<in> set (ma_regions a))))"
    unfolding suits_def status ctx_def dear_def
    by (simp add: a disjoint_iff not_less not_le split: option.split) fastforce
  have "(md_allowed d \<longleftrightarrow> suits R ak policy e a) \<and> md_entry d = Some e"
    using assms retired unfolding check_model_def s a available_to_eq ebind_simps Let_def
      ctx_def [symmetric] dear_def [symmetric] decided_def
    by (simp split: if_splits) (blast | fastforce)+
  then show ?thesis using a by (auto simp: suits_def)
qed

lemma allowed_rows_set:
  "allowed_rows R now ak policy es = Inr found \<Longrightarrow>
     set found = {(preference now e a, e) |e a. e \<in> set es \<and> suits R ak policy e a}"
proof (induction es arbitrary: found)
  case (Cons e es)
  then obtain d here rest where d: "check_model R now ak policy e = Inr d"
    and h: "(if md_allowed d then ebind (model_of R e) (\<lambda>a. Inr [(preference now e a, e)]) else Inr []) = Inr here"
    and rest: "allowed_rows R now ak policy es = Inr rest" "found = here @ rest"
    unfolding allowed_rows.simps ebind_eq_Inr by blast
  have one: "suits R ak policy e a \<Longrightarrow> model_of R e = Inr a" for a by (simp add: suits_def)
  have "set here = {(preference now e a, e) |a. suits R ak policy e a}"
  proof (cases "md_allowed d")
    case True
    then obtain a where a: "suits R ak policy e a" using check_model_decides [OF d] by blast
    then have "here = [(preference now e a, e)]" using h True one [OF a] by simp
    moreover have "suits R ak policy e b \<longleftrightarrow> b = a" for b using a one [OF a] one [of b] by auto
    ultimately show ?thesis by simp
  next
    case False
    then show ?thesis using h check_model_decides [OF d] by simp
  qed
  then show ?case using Cons.IH [OF rest(1)] rest(2) by auto
qed simp

lemma first_match_found:
  "first_match_for R provider model_id es = Inr (Some e) \<Longrightarrow>
     e \<in> set es \<and> (\<exists>a. model_of R e = Inr a \<and> ma_model_id a = model_id \<and> (provider = [] \<or> ma_provider a = provider))"
  by (induction es) (auto simp: ebind_eq_Inr split: if_splits)

lemma snd_image: "snd ` {(f e a, e) |e a. e \<in> A \<and> P e a} = {e \<in> A. \<exists>a. P e a}"
  by force

lemma permitted_models_set:
  "permitted_models R now ak policy ct = Inr es \<Longrightarrow>
     set es = {e \<in> set (catalog_list (Some KindModel) ct). \<exists>a. suits R ak policy e a}"
proof -
  assume "permitted_models R now ak policy ct = Inr es"
  then obtain found where found: "allowed_rows R now ak policy (catalog_list (Some KindModel) ct) = Inr found" and
    "es = map snd (sort_key fst found)" by (auto simp: permitted_models_def ebind_eq_Inr)
  then have "set es = snd ` set found" by simp
  also note allowed_rows_set [OF found]
  finally have "set es = snd ` {(preference now e a, e) |e a. e \<in> set (catalog_list (Some KindModel) ct) \<and> suits R ak policy e a}" .
  then show ?thesis by (simp only: snd_image)
qed

lemma permitted_models_first:
  assumes "permitted_models R now ak policy ct = Inr (e # es)" and "e' \<in> set (catalog_list (Some KindModel) ct)"
    and "suits R ak policy e' a'"
  obtains a where "suits R ak policy e a" "preference now e a \<le> preference now e' a'"
proof -
  obtain found where found: "allowed_rows R now ak policy (catalog_list (Some KindModel) ct) = Inr found"
    and hd: "map snd (sort_key fst found) = e # es" using assms(1) by (auto simp: permitted_models_def ebind_eq_Inr)
  then obtain r rest where s: "sort_key fst found = r # rest" "snd r = e" by auto
  have "sorted (map fst (r # rest))" using sorted_sort_key [of fst found] s(1) by simp
  then have le: "fst r \<le> fst q" if "q \<in> set found" for q
    using that s(1) set_sort [of fst found] by auto
  have "r \<in> set found" using s(1) set_sort [of fst found] by auto
  then obtain a where "suits R ak policy e a" "fst r = preference now e a"
    using allowed_rows_set [OF found] s(2) by auto
  moreover have "(preference now e' a', e') \<in> set found" using allowed_rows_set [OF found] assms(2,3) by auto
  ultimately show ?thesis using le that by (metis fst_conv)
qed

section \<open>The choice\<close>


text \<open>A catalog of two models, whose attribute is their price: one confirmed long ago, one just now.\<close>

definition everyone :: entitlement where
  "everyone = \<lparr>en_groups = [], en_workspaces = [], en_environments = [''development'', ''staging'', ''production'']\<rparr>"

definition example_provenance :: "instant \<Rightarrow> provenance" where
  "example_provenance t = \<lparr>fp_method = OperatorEntered, fp_source = ''ops'', fp_source_url = [], fp_confirmed_at = AtTime t,
     fp_horizon_days = 180, fp_fields = [], fp_note = []\<rparr>"

definition example_entry :: "string \<Rightarrow> string \<Rightarrow> approval_status \<Rightarrow> (string \<times> int) list \<Rightarrow> instant \<Rightarrow> int catalog_entry" where
  "example_entry k nm st attrs confirmed = \<lparr>ct_id = k, ct_kind = KindModel, ct_name = nm, ct_version = ''1.0.0'', ct_summary = [],
     ct_description = [], ct_owner = ''platform'', ct_status = st, ct_entitlement = everyone, ct_tags = [], ct_attributes = attrs,
     ct_requires = [], ct_documentation_url = [], ct_superseded_by = None, ct_installs = 0, ct_created_at = 0, ct_updated_at = 0,
     ct_reviewed_by = [], ct_reviewed_at = None, ct_review_note = [], ct_provenance = example_provenance confirmed,
     ct_history = []\<rparr>"

definition example_readings :: "int readings" where
  "example_readings = \<lparr>rd_model = (\<lambda>attrs. Some \<lparr>ma_provider = ''acme'', ma_model_id = ''large'', ma_classes = [''balanced''],
       ma_context_tokens = 1000, ma_cost_in = map_option of_int (map_of attrs ''cost_per_million_input''), ma_cost_out = None,
       ma_regions = [], ma_trains_on_data = False\<rparr>),
     rd_empty = (\<lambda>v. v = 0), rd_str = (\<lambda>v. []), rd_time = (\<lambda>v. AtTime v)\<rparr>"

definition example_asker :: asker where
  "example_asker = \<lparr>ak_groups = [], ak_workspace = [], ak_environment = ''development''\<rparr>"

definition example_policy :: "string list \<Rightarrow> rat option \<Rightarrow> model_policy" where
  "example_policy deny most = \<lparr>mp_classes = [''balanced''], mp_allow = [], mp_deny = deny, mp_max_cost = most,
     mp_min_context = None, mp_no_training = True, mp_regions = []\<rparr>"

definition example_models :: "int catalog" where
  "example_models = fst (publish 2 (example_entry ''b'' ''New'' Approved [] 20000000000000) []
     (fst (publish 1 (example_entry ''a'' ''Old'' Approved [] 0) [] \<lparr>cat_entries = [], cat_usage = []\<rparr>)))"


section \<open>What the check lets through\<close>

text \<open>An entry that is restricted, but names no group, is open to everybody.\<close>

lemma restricted_without_groups_is_open:
  "available_to (example_entry k nm Restricted attrs t) groups workspace ''development''"
  by (simp add: available_to_def selectable_def permits_def example_entry_def everyone_def)

text \<open>A policy may deny by name, and a name may be edited at any status without a review: renaming an
  approved model takes it out of every deny list that names it.\<close>

lemma renaming_evades_a_deny:
  "md_allowed (projr (check_model example_readings 1 example_asker (example_policy [''Old''] None) (example_entry ''a'' ''Old'' Approved [] 0)))
     = False \<and>
   md_allowed (projr (check_model example_readings 1 example_asker (example_policy [''Old''] None)
     (projr (snd (update_entry 1 ''a'' [SetName ''Old (legacy)''] [] [] example_models))))) = True"
  by code_simp

text \<open>A model without a price passes every ceiling, and is the cheapest.\<close>

lemma unknown_price_passes_a_ceiling:
  "md_allowed (projr (check_model example_readings 1 example_asker (example_policy [] (Some 0)) (example_entry ''a'' ''Old'' Approved [] 0)))"
  by (simp add: check_model_def model_of_def example_readings_def example_entry_def example_policy_def example_asker_def Let_def
      selectable_def available_to_def permits_def everyone_def named_in_def decided_def cost_per_million_def)

text \<open>A free output is priced as the input.\<close>

lemma free_output_is_priced_as_input:
  "ma_cost_in a = Some 4 \<Longrightarrow> ma_cost_out a = Some 0 \<Longrightarrow> cost_per_million a = Some 4"
  by (simp add: cost_per_million_def round_3_def Let_def)

text \<open>A deprecated entry may still be chosen, and is amended in place without a review.\<close>

lemma deprecated_entry_is_amended_in_place:
  "selectable (projr (snd (amend 1 ''a'' [SetVersion ''2.0.0''] ''ann'' []
     (fst (publish 1 (example_entry ''a'' ''Old'' Deprecated [] 0) [] \<lparr>cat_entries = [], cat_usage = []\<rparr>))))) \<and>
   ct_version (projr (snd (amend 1 ''a'' [SetVersion ''2.0.0''] ''ann'' []
     (fst (publish 1 (example_entry ''a'' ''Old'' Deprecated [] 0) [] \<lparr>cat_entries = [], cat_usage = []\<rparr>))))) = ''2.0.0''"
  by code_simp

end
