(* ===== verification/CatalogRuns.thy ===== *)
theory CatalogRuns
  imports CatalogChoice
begin

text \<open>
  What the catalog promises: the substance of an approved entry changes only after a recorded review,
  the index of usage is the recorded design, and an entry a design uses is not withdrawn unforced.
\<close>

section \<open>What an operation does to an entry\<close>

definition substance :: "'v catalog_entry \<Rightarrow> catalog_kind \<times> string \<times> (string \<times> 'v) list" where
  "substance e = (ct_kind e, ct_version e, ct_attributes e)"

text \<open>The event of a review that gave this status.\<close>

definition review_to :: "approval_status \<Rightarrow> catalog_event \<Rightarrow> bool" where
  "review_to st ev \<longleftrightarrow> ce_action ev = ''reviewed'' \<and> prefix (''status -> '' @ status_value st) (ce_note ev)"

definition unlocks :: "catalog_event \<Rightarrow> bool" where
  "unlocks ev \<longleftrightarrow> (\<exists>st. review_to st ev \<and> st \<notin> {Approved, Restricted})"

text \<open>Looked at by somebody: not a draft.\<close>

definition settled :: "'v catalog_entry \<Rightarrow> bool" where
  "settled e \<longleftrightarrow> ct_status e \<noteq> Proposed \<or> ct_reviewed_at e \<noteq> None"

inductive entry_step :: "'v catalog_entry \<Rightarrow> 'v catalog_entry \<Rightarrow> bool" where
  plain: "ct_id e' = ct_id e \<Longrightarrow> substance e' = substance e \<Longrightarrow> ct_status e' = ct_status e \<Longrightarrow>
    ct_reviewed_at e' = ct_reviewed_at e \<Longrightarrow> ct_history e' = ct_history e @ evs \<Longrightarrow> entry_step e e'"
| reviewed: "ct_id e' = ct_id e \<Longrightarrow> substance e' = substance e \<Longrightarrow> ct_reviewed_at e' \<noteq> None \<Longrightarrow>
    ct_history e' = ct_history e @ [ev] \<Longrightarrow> review_to (ct_status e') ev \<Longrightarrow> entry_step e e'"
| amended: "\<not> substantively_locked e \<Longrightarrow> ct_id e' = ct_id e \<Longrightarrow> ct_status e' = ct_status e \<Longrightarrow>
    ct_reviewed_at e' = ct_reviewed_at e \<Longrightarrow> ct_history e' = ct_history e @ [ev] \<Longrightarrow> ce_action ev = ''amended'' \<Longrightarrow>
    entry_step e e'"

lemma entry_step_refl [simp, intro]: "entry_step e e"
  by (rule plain [where evs = "[]"]) simp_all

lemma settled_step: "entry_step e e' \<Longrightarrow> settled e \<Longrightarrow> settled e'"
  by (induction rule: entry_step.induct) (auto simp: settled_def)

text \<open>What the events since tell about the entry.\<close>

definition reopened :: "catalog_event list \<Rightarrow> bool" where
  "reopened evs \<longleftrightarrow> (\<exists>xs u ys a zs. evs = xs @ u # ys @ a # zs \<and> unlocks u \<and> ce_action a = ''amended'')"

lemma reopened_append: "reopened evs \<Longrightarrow> reopened (evs @ later)"
  by (fastforce simp: reopened_def)

lemma reopened_amended:
  assumes "u \<in> set evs" and "unlocks u" and "ce_action a = ''amended''"
  shows "reopened (evs @ [a])"
proof -
  obtain xs ys where "evs = xs @ u # ys" using assms(1) by (meson split_list)
  then have "evs @ [a] = xs @ u # ys @ a # []" by simp
  then show ?thesis using assms(2,3) unfolding reopened_def by blast
qed

definition accounted :: "'v catalog_entry \<Rightarrow> 'v catalog_entry \<Rightarrow> catalog_event list \<Rightarrow> bool" where
  "accounted e e' evs \<longleftrightarrow>
     ct_history e' = ct_history e @ evs \<and>
     (ct_status e' = ct_status e \<or> (\<exists>ev \<in> set evs. review_to (ct_status e') ev)) \<and>
     (substantively_locked e \<and> \<not> substantively_locked e' \<longrightarrow> (\<exists>ev \<in> set evs. unlocks ev)) \<and>
     (substantively_locked e \<and> substance e' \<noteq> substance e \<longrightarrow>
        reopened evs)"

lemma accounted_refl: "accounted e e []"
  by (simp add: accounted_def)

lemma accounted_step:
  assumes "accounted e e' evs" and "entry_step e' e''"
  shows "\<exists>later. accounted e e'' (evs @ later)"
  using assms(2)
proof cases
  case (plain later)
  then have "accounted e e'' (evs @ later)"
    using assms(1) unfolding accounted_def substantively_locked_def by (auto intro: reopened_append)
  then show ?thesis by blast
next
  case (reviewed ev)
  have "unlocks ev" if "\<not> substantively_locked e''"
    using reviewed(5) that by (auto simp: unlocks_def substantively_locked_def)
  with reviewed have "accounted e e'' (evs @ [ev])"
    using assms(1) unfolding accounted_def by (auto intro: reopened_append)
  then show ?thesis by blast
next
  case (amended ev)
  have "reopened (evs @ [ev])" if "substantively_locked e"
    using assms(1) amended(1,6) that unfolding accounted_def by (blast intro: reopened_amended)
  with amended have "accounted e e'' (evs @ [ev])"
    using assms(1) unfolding accounted_def substantively_locked_def by auto
  then show ?thesis by blast
qed

text \<open>The entry under a key, over a step of the service: still there, or gone as an unsettled draft.\<close>

definition moves :: "'v catalog \<Rightarrow> 'v catalog \<Rightarrow> bool" where
  "moves ct ct' \<longleftrightarrow> (\<forall>k e. catalog_get ct k = Some e \<longrightarrow>
     (\<exists>e'. catalog_get ct' k = Some e' \<and> entry_step\<^sup>*\<^sup>* e e') \<or> catalog_get ct' k = None \<and> \<not> settled e)"

definition keyed :: "'v catalog \<Rightarrow> bool" where
  "keyed ct \<longleftrightarrow> wf_docs (cat_entries ct) \<and> (\<forall>k e. catalog_get ct k = Some e \<longrightarrow> ct_id e = k)"

lemma moves_refl [simp, intro]: "moves ct ct"
  by (auto simp: moves_def)

lemma settled_steps: "entry_step\<^sup>*\<^sup>* e e' \<Longrightarrow> settled e \<Longrightarrow> settled e'"
  by (induction rule: rtranclp_induct) (auto intro: settled_step)

lemma accounted_steps: "entry_step\<^sup>*\<^sup>* e e' \<Longrightarrow> accounted e0 e evs \<Longrightarrow> \<exists>later. accounted e0 e' (evs @ later)"
proof (induction rule: rtranclp_induct)
  case base then show ?case by (metis append_Nil2)
next
  case (step y z)
  then show ?case using accounted_step by (metis append_assoc)
qed

lemma entry_steps_id: "entry_step\<^sup>*\<^sup>* e e' \<Longrightarrow> ct_id e' = ct_id e"
  by (induction rule: rtranclp_induct) (auto elim: entry_step.cases)

section \<open>The operations\<close>

lemma publish_cases:
  assumes "publish now e actor ct = (ct', e')"
  obtains evs where "e' = e\<lparr>ct_history := ct_history e @ evs, ct_updated_at := now\<rparr>" "actor = [] \<Longrightarrow> evs = []"
    "ct' = ct\<lparr>cat_entries := store_put now (ct_id e) e' (Some (kind_value (ct_kind e))) (Some (ct_name e)) (cat_entries ct)\<rparr>"
proof (cases "actor \<noteq> [] \<and> ct_history e = []")
  case True
  then show ?thesis using assms by (intro that) (auto simp: publish_def Let_def log_event_def)
next
  case False
  then have "e' = e\<lparr>ct_updated_at := now\<rparr>" using assms by (auto simp: publish_def Let_def)
  then show ?thesis using assms False by (intro that [of "[]"]) (auto simp: publish_def Let_def)
qed

lemma get_publish:
  assumes "publish now e actor ct = (ct', e')"
  shows "catalog_get ct' k = (if k = ct_id e then Some e' else catalog_get ct k)"
  using assms by (rule publish_cases) (simp add: catalog_get_def store_get_put)

lemma publish_usage: "publish now e actor ct = (ct', e') \<Longrightarrow> cat_usage ct' = cat_usage ct"
  by (erule publish_cases) simp

lemma publish_id: "publish now e actor ct = (ct', e') \<Longrightarrow> ct_id e' = ct_id e"
  by (erule publish_cases) simp

lemma keyed_publish:
  assumes "keyed ct" and "publish now e actor ct = (ct', e')"
  shows "keyed ct'"
proof -
  have "wf_docs (cat_entries ct')"
    using assms(2) by (rule publish_cases) (use assms(1) in \<open>simp add: keyed_def wf_docs_put\<close>)
  then show ?thesis
    using assms(1) publish_id [OF assms(2)] by (simp add: keyed_def get_publish [OF assms(2)])
qed

lemma publish_plain: "publish now e [] ct = (ct', e') \<Longrightarrow> e' = e\<lparr>ct_updated_at := now\<rparr>"
  by (erule publish_cases) simp

text \<open>An operation that publishes what became of the stored entry.\<close>

lemma moves_publish:
  assumes "keyed ct" and "catalog_get ct k = Some e" and "entry_step e x" and "publish_op now x ct = (ct', r)"
  shows "moves ct ct' \<and> keyed ct' \<and> cat_usage ct' = cat_usage ct \<and>
    r = Inr (x\<lparr>ct_updated_at := now\<rparr>) \<and> catalog_get ct' k = Some (x\<lparr>ct_updated_at := now\<rparr>)"
proof -
  obtain e' where p: "publish now x [] ct = (ct', e')" and r: "r = Inr e'"
    using assms(4) by (auto simp: publish_op_def split: prod.splits)
  have e': "e' = x\<lparr>ct_updated_at := now\<rparr>" by (rule publish_plain [OF p])
  have k: "ct_id x = k" using assms(1-3) by (auto simp: keyed_def elim!: entry_step.cases)
  have "entry_step x e'" unfolding e' by (rule plain [where evs = "[]"]) (simp_all add: substance_def)
  then have "entry_step\<^sup>*\<^sup>* e e'" using assms(3) by (metis r_into_rtranclp rtranclp.rtrancl_into_rtrancl)
  then have "moves ct ct'"
    using assms(2) get_publish [OF p] k by (auto simp: moves_def)
  then show ?thesis using keyed_publish [OF assms(1) p] publish_usage [OF p] r e' get_publish [OF p] k by simp
qed

lemma require_entry_cases:
  assumes "require_entry k f ct = (ct', r)"
  obtains "catalog_get ct k = None" "ct' = ct" "r = Inl (NoEntry k)"
  | e where "catalog_get ct k = Some e" "f e ct = (ct', r)"
  using assms by (auto simp: require_entry_def split: option.splits)

text \<open>An operation keeps the records keyed and moves the entries along.\<close>

definition kept :: "'v catalog \<Rightarrow> 'v catalog \<Rightarrow> bool" where
  "kept ct ct' \<longleftrightarrow> moves ct ct' \<and> keyed ct' \<and> cat_usage ct' = cat_usage ct"

definition curates :: "('v, 'a) catalog_op \<Rightarrow> bool" where
  "curates f \<longleftrightarrow> (\<forall>ct. keyed ct \<longrightarrow> kept ct (fst (f ct)))"

lemma kept_refl [simp, intro]: "keyed ct \<Longrightarrow> kept ct ct"
  by (simp add: kept_def)

lemma kept_if: "(P \<Longrightarrow> kept ct (fst a)) \<Longrightarrow> (\<not> P \<Longrightarrow> kept ct (fst b)) \<Longrightarrow> kept ct (fst (if P then a else b))"
  by simp

lemma curatesD: "curates f \<Longrightarrow> keyed ct \<Longrightarrow> f ct = (ct', r) \<Longrightarrow> kept ct ct'"
  by (metis curates_def fst_conv)

lemma curates_require:
  assumes "\<And>ct e. keyed ct \<Longrightarrow> catalog_get ct k = Some e \<Longrightarrow> kept ct (fst (f e ct))"
  shows "curates (require_entry k f)"
  using assms by (auto simp: curates_def require_entry_def split: option.splits)

lemma curates_publish:
  assumes "keyed ct" and "catalog_get ct k = Some e" and "entry_step e x"
  shows "kept ct (fst (publish_op now x ct))"
  using moves_publish [OF assms, of now "fst (publish_op now x ct)" "snd (publish_op now x ct)"] by (simp add: kept_def)

lemma review_to_event: "review_to status (review_event now status reviewer comment)"
  unfolding review_to_def review_event_def catalog_event.simps append_assoc by (auto simp: prefix_def)

lemma review_entry_step:
  "entry_step e (log_event (review_event now status reviewer comment)
     (e\<lparr>ct_status := status, ct_reviewed_by := reviewer, ct_reviewed_at := Some now, ct_review_note := comment\<rparr>))"
  by (rule reviewed [where ev = "review_event now status reviewer comment"])
    (simp_all add: log_event_def substance_def review_to_event)

lemma curates_review: "curates (review now k status reviewer comment)"
  unfolding review_def by (rule curates_require) (blast intro: curates_publish review_entry_step)

lemma curates_entitle: "curates (entitle now k en actor)"
  unfolding entitle_def
  by (rule curates_require, rule curates_publish) (auto simp: log_event_def substance_def intro!: plain)

lemma curates_install: "curates (record_install now k)"
  unfolding record_install_def
  by (rule curates_require, rule curates_publish) (auto simp: substance_def intro!: plain [where evs = "[]"])

lemma curates_send_back: "curates (send_back now k actor comment)"
  unfolding send_back_def Let_def
  by (rule curates_require) (metis curates_def curates_review)

lemma moves_trans: "moves a b \<Longrightarrow> moves b c \<Longrightarrow> (\<And>k e. catalog_get b k = None \<Longrightarrow> catalog_get c k = None) \<Longrightarrow> moves a c"
  unfolding moves_def by (metis rtranclp_trans settled_steps)

lemma review_result:
  assumes "keyed ct" and "review now k status reviewer comment ct = (ct', Inr e')"
  shows "catalog_get ct' k = Some e' \<and> ct_status e' = status"
  using assms(2) unfolding review_def
proof (rule require_entry_cases, simp)
  fix e assume e: "catalog_get ct k = Some e"
    and p: "publish_op now (log_event (review_event now status reviewer comment)
       (e\<lparr>ct_status := status, ct_reviewed_by := reviewer, ct_reviewed_at := Some now, ct_review_note := comment\<rparr>)) ct = (ct', Inr e')"
  show ?thesis using moves_publish [OF assms(1) e review_entry_step p] by (simp add: log_event_def)
qed

lemma retire_cases:
  assumes "retire now k reviewer successor force ct = (ct', r)"
  obtains users where "users = systems_using k (cat_usage ct)" "users \<noteq> []" "\<not> force" "ct' = ct" "r = Inl (StillUsed k users)"
  | err comment where "review now k Retired reviewer comment ct = (ct', Inl err)" "r = Inl err"
      "systems_using k (cat_usage ct) = [] \<or> force"
  | e ct1 comment where "review now k Retired reviewer comment ct = (ct1, Inr e)"
      "publish_op now (e\<lparr>ct_superseded_by := successor\<rparr>) ct1 = (ct', r)" "systems_using k (cat_usage ct) = [] \<or> force"
proof (cases "systems_using k (cat_usage ct) \<noteq> [] \<and> \<not> force")
  case True
  then have "ct' = ct" "r = Inl (StillUsed k (systems_using k (cat_usage ct)))" using assms by (auto simp: retire_def Let_def)
  then show ?thesis using that(1) True by blast
next
  case False
  let ?c = "case successor of Some (c # cs) \<Rightarrow> ''superseded by '' @ (c # cs) | _ \<Rightarrow> ''retired''"
  obtain ct1 r1 where rev: "review now k Retired reviewer ?c ct = (ct1, r1)" by (cases "review now k Retired reviewer ?c ct")
  show ?thesis
  proof (cases r1)
    case (Inl err)
    then have "ct1 = ct'" "r = Inl err" using assms False rev unfolding retire_def Let_def by simp_all
    then show ?thesis using that(2) rev Inl False by blast
  next
    case (Inr e)
    then have "publish_op now (e\<lparr>ct_superseded_by := successor\<rparr>) ct1 = (ct', r)"
      using assms False rev unfolding retire_def Let_def by simp
    then show ?thesis using that(3) rev Inr False by blast
  qed
qed

lemma get_publish_op:
  "publish_op now x ct = (ct', r) \<Longrightarrow> j \<noteq> ct_id x \<Longrightarrow> catalog_get ct' j = catalog_get ct j"
  by (cases "publish now x [] ct") (simp add: publish_op_def get_publish)

lemma curates_retire: "curates (retire now k reviewer successor force)"
  unfolding curates_def
proof (intro allI impI)
  fix ct :: "'a catalog" assume ok: "keyed ct"
  obtain ct' r where f: "retire now k reviewer successor force ct = (ct', r)"
    by (cases "retire now k reviewer successor force ct")
  have rev: "kept ct ct1" if "review now k Retired reviewer comment ct = (ct1, r1)" for ct1 r1 comment
    using curatesD [OF curates_review ok that] .
  from f have "kept ct ct'"
  proof (cases rule: retire_cases)
    case (3 e ct1 comment)
    have e: "catalog_get ct1 k = Some e" using review_result [OF ok 3(1)] by simp
    have step: "entry_step e (e\<lparr>ct_superseded_by := successor\<rparr>)"
      by (rule plain [where evs = "[]"]) (simp_all add: substance_def)
    have k: "ct_id (e\<lparr>ct_superseded_by := successor\<rparr>) = k" using rev [OF 3(1)] e by (simp add: keyed_def kept_def)
    have p: "moves ct1 ct' \<and> keyed ct' \<and> cat_usage ct' = cat_usage ct1"
      using moves_publish [OF _ e step 3(2)] rev [OF 3(1)] by (auto simp: kept_def)
    have "catalog_get ct1 j = None \<Longrightarrow> catalog_get ct' j = None" for j
      using get_publish_op [OF 3(2), of j] e k by (cases "j = k") simp_all
    then show ?thesis using p rev [OF 3(1)] moves_trans unfolding kept_def by metis
  next
    case (1 users)
    then show ?thesis using ok by simp
  next
    case (2 err comment)
    then show ?thesis using rev by blast
  qed
  then show "kept ct (fst (retire now k reviewer successor force ct))" using f by simp
qed

lemma kept_delete:
  assumes "keyed ct" and "catalog_get ct k = Some e" and "\<not> settled e"
  shows "kept ct (ct\<lparr>cat_entries := fst (store_delete k (cat_entries ct))\<rparr>)"
  using assms by (auto simp: kept_def moves_def keyed_def catalog_get_def store_get_delete wf_docs_delete split: if_splits)

lemma curates_delete: "curates (delete_entry k)"
  unfolding delete_entry_def
  by (rule curates_require) (auto simp: Let_def settled_def intro!: kept_delete)

lemma set_fields_substantive:
  "set_fields cs e = Inr e' \<Longrightarrow> \<forall>c \<in> set cs. field_of c \<in> set substantive_fields \<Longrightarrow>
     ct_id e' = ct_id e \<and> ct_status e' = ct_status e \<and> ct_reviewed_at e' = ct_reviewed_at e \<and> ct_history e' = ct_history e"
proof (induction cs arbitrary: e)
  case (Cons c cs)
  then obtain e1 where "set_field c e = Inr e1" "set_fields cs e1 = Inr e'" by (auto simp: ebind_eq_Inr)
  with Cons show ?case
    by (cases c) (auto simp: substantive_fields_def split: option.splits)
qed simp

lemma set_fields_editorial:
  "set_fields cs e = Inr e' \<Longrightarrow> \<forall>c \<in> set cs. field_of c \<in> set editorial_fields \<and> has_value c \<Longrightarrow>
     ct_id e' = ct_id e \<and> ct_status e' = ct_status e \<and> ct_reviewed_at e' = ct_reviewed_at e \<and> ct_history e' = ct_history e
     \<and> substance e' = substance e"
proof (induction cs arbitrary: e)
  case (Cons c cs)
  then obtain e1 where "set_field c e = Inr e1" "set_fields cs e1 = Inr e'" by (auto simp: ebind_eq_Inr)
  with Cons show ?case
    by (cases c) (auto simp: editorial_fields_def substance_def)
qed simp

lemma sorted_set_Nil: "sorted_set xs = [] \<longleftrightarrow> xs = []"
  by (metis set_empty set_sorted_set)

lemma sorted_set_empty: "sorted_set (filter P (map f xs)) = [] \<longleftrightarrow> (\<forall>x \<in> set xs. \<not> P (f x))"
  by (simp add: sorted_set_Nil filter_empty_conv)

lemma kept_edit:
  assumes "keyed ct" and "catalog_get ct k = Some e"
    and "\<And>e'. set_fields offered e = Inr e' \<Longrightarrow> entry_step e (log_event (edited_event now action actor offered comment e) e')"
  shows "kept ct (fst (edit_with now action actor offered comment e ct))"
  using assms by (auto simp: edit_with_def split: sum.splits intro!: curates_publish)

lemma curates_update: "curates (update_entry now k changes actor comment)"
  unfolding update_entry_def Let_def
proof (rule curates_require, intro kept_if)
  fix ct :: "'a catalog" and e assume ok: "keyed ct" "catalog_get ct k = Some e"
  assume unknown: "\<not> sorted_set (filter (\<lambda>f. f \<notin> set editorial_fields) (map field_of (offered_of changes))) \<noteq> []"
  show "kept ct (fst (edit_with now ''updated'' actor (offered_of changes) comment e ct))"
    using ok
  proof (rule kept_edit)
    fix e' assume "set_fields (offered_of changes) e = Inr e'"
    from set_fields_editorial [OF this] unknown
    show "entry_step e (log_event (edited_event now ''updated'' actor (offered_of changes) comment e) e')"
      by (intro plain) (auto simp: sorted_set_empty offered_of_def log_event_def substance_def)
  qed
qed simp_all

lemma curates_amend: "curates (amend now k changes actor comment)"
  unfolding amend_def Let_def
proof (rule curates_require, intro kept_if)
  fix ct :: "'a catalog" and e assume ok: "keyed ct" "catalog_get ct k = Some e"
  assume unknown: "\<not> sorted_set (filter (\<lambda>f. f \<notin> set substantive_fields) (map field_of (offered_of changes))) \<noteq> []"
    and open_: "\<not> substantively_locked e"
  show "kept ct (fst (edit_with now ''amended'' actor (offered_of changes) comment e ct))"
    using ok
  proof (rule kept_edit)
    fix e' assume "set_fields (offered_of changes) e = Inr e'"
    from set_fields_substantive [OF this] unknown
    show "entry_step e (log_event (edited_event now ''amended'' actor (offered_of changes) comment e) e')"
      by (intro amended [OF open_]) (auto simp: sorted_set_empty log_event_def edited_event_def)
  qed
qed simp_all

section \<open>Runs\<close>

text \<open>What an operator may do with the catalog: publish a new entry, and every other verb. A refresh
  of figures is left out; it changes attributes at any status (\<open>refresh_rewrites_an_approved_entry\<close>).\<close>

inductive curated :: "'v catalog \<Rightarrow> 'v catalog \<Rightarrow> bool" where
  published: "catalog_get ct (ct_id e) = None \<Longrightarrow> publish now e actor ct = (ct', e') \<Longrightarrow> curated ct ct'"
| reviewing: "review now k status reviewer comment ct = (ct', r) \<Longrightarrow> curated ct ct'"
| entitling: "entitle now k en actor ct = (ct', r) \<Longrightarrow> curated ct ct'"
| retiring: "retire now k reviewer successor force ct = (ct', r) \<Longrightarrow> curated ct ct'"
| updating: "update_entry now k changes actor comment ct = (ct', r) \<Longrightarrow> curated ct ct'"
| amending: "amend now k changes actor comment ct = (ct', r) \<Longrightarrow> curated ct ct'"
| sending_back: "send_back now k actor comment ct = (ct', r) \<Longrightarrow> curated ct ct'"
| deleting: "delete_entry k ct = (ct', r') \<Longrightarrow> curated ct ct'"
| installing: "record_install now k ct = (ct', r) \<Longrightarrow> curated ct ct'"
| recording: "record_ir_usage now ids ir ct = (ct', rows) \<Longrightarrow> curated ct ct'"

lemma curated_step: "curated ct ct' \<Longrightarrow> keyed ct \<Longrightarrow> moves ct ct' \<and> keyed ct'"
proof (induction rule: curated.induct)
  case (published ct e now actor ct' e')
  then show ?case using get_publish [OF published(2)] keyed_publish by (fastforce simp: moves_def)
next
  case (recording now ids ir ct ct' rows)
  then have "cat_entries ct' = cat_entries ct" by (auto simp: record_ir_usage_def Let_def split: prod.splits)
  then show ?case using recording by (auto simp: moves_def keyed_def catalog_get_def)
qed (blast dest: curatesD [OF curates_review] curatesD [OF curates_entitle] curatesD [OF curates_retire]
      curatesD [OF curates_update] curatesD [OF curates_amend] curatesD [OF curates_send_back]
      curatesD [OF curates_delete] curatesD [OF curates_install] intro: kept_def [THEN iffD1, THEN conjunct1]
      kept_def [THEN iffD1, THEN conjunct2, THEN conjunct1])+

definition empty_catalog :: "'v catalog" where
  "empty_catalog = \<lparr>cat_entries = [], cat_usage = []\<rparr>"

lemma curated_keyed: "curated\<^sup>*\<^sup>* empty_catalog ct \<Longrightarrow> keyed ct"
proof (induction rule: rtranclp_induct)
  case base
  show ?case by (simp add: keyed_def empty_catalog_def catalog_get_def store_get_def wf_docs_def)
next
  case (step y z)
  then show ?case using curated_step by blast
qed

lemma curated_accounts:
  assumes "curated\<^sup>*\<^sup>* ct ct'" and "keyed ct" and "catalog_get ct k = Some e" and "settled e"
  shows "\<exists>e' evs. catalog_get ct' k = Some e' \<and> accounted e e' evs \<and> settled e'"
proof -
  have "keyed ct' \<and> (\<exists>e' evs. catalog_get ct' k = Some e' \<and> accounted e e' evs \<and> settled e')"
    using assms(1)
  proof (induction rule: rtranclp_induct)
    case base show ?case using assms(2-4) accounted_refl by blast
  next
    case (step b c)
    then obtain e1 evs where b: "keyed b" "catalog_get b k = Some e1" "accounted e e1 evs" "settled e1" by blast
    have "moves b c" "keyed c" using curated_step [OF step(2) b(1)] by simp_all
    then obtain e2 where "catalog_get c k = Some e2" "entry_step\<^sup>*\<^sup>* e1 e2"
      using b(2,4) unfolding moves_def by blast
    then show ?case using b(3,4) accounted_steps settled_steps \<open>keyed c\<close> by blast
  qed
  then show ?thesis by blast
qed

section \<open>The index of usage\<close>

text \<open>A row is stored under its own id, below the entry it names.\<close>

definition index_ok :: "catalog_usage docs \<Rightarrow> bool" where
  "index_ok us \<longleftrightarrow> wf_docs us \<and> (\<forall>r \<in> set us. row_id r = cu_id (row_body r) \<and> row_parent r = Some (cu_entry_id (row_body r)))"

lemma index_ok_put:
  "index_ok us \<Longrightarrow> k = cu_id u \<Longrightarrow> p = Some (cu_entry_id u) \<Longrightarrow> index_ok (store_put now k u p n us)"
  by (auto simp: index_ok_def wf_docs_put) (auto simp: store_put_def Let_def split: if_splits)

lemma index_ok_delete: "index_ok us \<Longrightarrow> index_ok (fst (store_delete k us))"
  by (auto simp: index_ok_def wf_docs_delete) (auto simp: store_delete_def)

lemma index_ok_record: "index_ok us \<Longrightarrow> index_ok (fst (usage_record now u us))"
  by (auto simp: usage_record_def Let_def split: option.splits intro: index_ok_put)

lemma usage_all_set: "length us \<le> usage_limit \<Longrightarrow> set (usage_all us) = row_body ` set us"
  by (simp add: usage_all_def store_list_all)

lemma systems_using_iff:
  assumes "index_ok us" and "length us \<le> usage_limit"
  shows "s \<in> set (systems_using k us) \<longleftrightarrow> s \<noteq> [] \<and> (\<exists>u \<in> row_body ` set us. cu_system u = s \<and> cu_entry_id u = k)"
proof -
  have "length (filter (\<lambda>r. row_parent r = Some k) us) \<le> usage_limit"
    using assms(2) le_trans length_filter_le by blast
  then have "set (usage_for_entry k us) = row_body ` {r \<in> set us. row_parent r = Some k}"
    by (simp add: usage_for_entry_def store_list_def)
  also have "\<dots> = {u \<in> row_body ` set us. cu_entry_id u = k}"
    using assms(1) by (auto simp: index_ok_def)
  finally show ?thesis by (auto simp: systems_using_def)
qed

lemma fold_delete: "fold (\<lambda>u rs. fst (store_delete (cu_id u) rs)) us rows = filter (\<lambda>r. row_id r \<notin> cu_id ` set us) rows"
  by (induction us arbitrary: rows) (auto simp: store_delete_def intro: filter_cong)

lemma forget_system_rows:
  assumes "index_ok us" and "length us \<le> usage_limit"
  shows "fst (forget_system system us) = filter (\<lambda>r. cu_system (row_body r) \<noteq> system) us"
proof -
  have "row_id r \<in> cu_id ` {u \<in> row_body ` set us. cu_system u = system} \<longleftrightarrow> cu_system (row_body r) = system" if "r \<in> set us" for r
    using assms(1) that by (auto simp: index_ok_def wf_docs_def distinct_map inj_on_def)
  then show ?thesis
    using assms(2) by (auto simp: forget_system_def fold_delete usage_for_system_def usage_all_set Let_def intro!: filter_cong)
qed

text \<open>The place of a row: what it is keyed by.\<close>

definition place :: "catalog_usage \<Rightarrow> string \<times> string \<times> string" where
  "place u = (cu_system u, cu_subject u, cu_role u)"

lemma store_put_new:
  "k \<notin> row_id ` set us \<Longrightarrow> store_put now k x p n us = us @ [\<lparr>row_id = k, row_parent = p, row_name = n, row_body = x, row_updated = sql_now now\<rparr>]"
  by (simp add: store_put_def Let_def)

lemma record_unknown:
  assumes "List.find (\<lambda>x. cu_subject x = cu_subject u \<and> cu_role x = cu_role u) (usage_for_system (cu_system u) us) = None"
    and "cu_id u \<notin> row_id ` set us"
  shows "\<exists>nm. usage_record now u us = (us @ [\<lparr>row_id = cu_id u, row_parent = Some (cu_entry_id u),
    row_name = nm, row_body = u\<lparr>cu_recorded_at := now\<rparr>, row_updated = sql_now now\<rparr>], u\<lparr>cu_recorded_at := now\<rparr>)"
proof -
  have "\<exists>nm. usage_record now u us = (store_put now (cu_id u) (u\<lparr>cu_recorded_at := now\<rparr>) (Some (cu_entry_id u)) nm us, u\<lparr>cu_recorded_at := now\<rparr>)"
    unfolding usage_record_def Let_def assms(1) by (intro exI) simp
  then show ?thesis by (simp add: store_put_new [OF assms(2)])
qed

lemma record_new_row:
  assumes "length us \<le> usage_limit" and "place u \<notin> place ` row_body ` set us" and "cu_id u \<notin> row_id ` set us"
  shows "\<exists>q. usage_record now u us = (us @ [q], u\<lparr>cu_recorded_at := now\<rparr>) \<and> row_id q = cu_id u \<and>
    row_body q = u\<lparr>cu_recorded_at := now\<rparr>"
proof -
  have "List.find (\<lambda>x. cu_subject x = cu_subject u \<and> cu_role x = cu_role u) (usage_for_system (cu_system u) us) = None"
  proof (rule ccontr)
    assume "List.find (\<lambda>x. cu_subject x = cu_subject u \<and> cu_role x = cu_role u) (usage_for_system (cu_system u) us) \<noteq> None"
    then obtain x where found: "List.find (\<lambda>x. cu_subject x = cu_subject u \<and> cu_role x = cu_role u)
      (usage_for_system (cu_system u) us) = Some x" by (elim not_None_eq [THEN iffD1, THEN exE])
    from find_SomeD [OF found] have "x \<in> row_body ` set us" "place x = place u"
      using usage_all_set [OF assms(1)] by (auto simp: usage_for_system_def place_def)
    then show False using assms(2) by (metis image_eqI)
  qed
  from record_unknown [OF this assms(3)] obtain nm where r: "usage_record now u us = (us @ [\<lparr>row_id = cu_id u,
    row_parent = Some (cu_entry_id u), row_name = nm, row_body = u\<lparr>cu_recorded_at := now\<rparr>, row_updated = sql_now now\<rparr>],
    u\<lparr>cu_recorded_at := now\<rparr>)" ..
  show ?thesis by (intro exI conjI, rule r) simp_all
qed

lemma record_each_rows:
  assumes "index_ok us" and "length us + length refs \<le> usage_limit" and "distinct (map place refs)" and "distinct (map cu_id refs)"
    and "\<forall>u \<in> set refs. place u \<notin> place ` row_body ` set us \<and> cu_id u \<notin> row_id ` set us"
  shows "index_ok (fst (record_each now refs us)) \<and>
    map row_body (fst (record_each now refs us)) = map row_body us @ map (cu_recorded_at_update (\<lambda>_. now)) refs \<and>
    snd (record_each now refs us) = map (cu_recorded_at_update (\<lambda>_. now)) refs"
  using assms
proof (induction refs arbitrary: us)
  case (Cons u refs)
  obtain q where rec: "usage_record now u us = (us @ [q], u\<lparr>cu_recorded_at := now\<rparr>)" and
    q: "row_id q = cu_id u" "row_body q = u\<lparr>cu_recorded_at := now\<rparr>"
    using record_new_row [of us u now] Cons.prems by auto
  have "index_ok (us @ [q])" using index_ok_record [OF Cons.prems(1), of now u] rec by simp
  moreover have "\<forall>v \<in> set refs. place v \<notin> place ` row_body ` set (us @ [q]) \<and> cu_id v \<notin> row_id ` set (us @ [q])"
  proof
    fix v assume v: "v \<in> set refs"
    have "place (row_body q) = place u" "row_id q = cu_id u" by (simp_all add: q place_def)
    moreover have "place u \<noteq> place v" "cu_id u \<noteq> cu_id v" using Cons.prems(3,4) v by force+
    ultimately show "place v \<notin> place ` row_body ` set (us @ [q]) \<and> cu_id v \<notin> row_id ` set (us @ [q])"
      using Cons.prems(5) v by auto
  qed
  ultimately have "index_ok (fst (record_each now refs (us @ [q]))) \<and>
    map row_body (fst (record_each now refs (us @ [q]))) = map row_body (us @ [q]) @ map (cu_recorded_at_update (\<lambda>_. now)) refs \<and>
    snd (record_each now refs (us @ [q])) = map (cu_recorded_at_update (\<lambda>_. now)) refs"
    using Cons.prems by (intro Cons.IH) simp_all
  then show ?case by (cases "record_each now refs (us @ [q])") (simp add: rec q)
qed simp

lemma record_each_ok: "index_ok us \<Longrightarrow> index_ok (fst (record_each now refs us))"
proof (induction refs arbitrary: us)
  case (Cons u refs)
  have "index_ok (fst (usage_record now u us))" by (rule index_ok_record [OF Cons.prems])
  then show ?case using Cons.IH by (simp split: prod.splits) (metis fst_conv)
qed simp

lemma forget_system_ok:
  assumes "index_ok us"
  shows "index_ok (fst (forget_system system us))"
proof -
  have "index_ok (fold (\<lambda>u rs. fst (store_delete (cu_id u) rs)) xs us)" for xs :: "catalog_usage list"
    using assms by (induction xs arbitrary: us) (simp_all add: index_ok_delete)
  then show ?thesis by (simp add: forget_system_def Let_def)
qed

lemma curated_usage:
  assumes "curated ct ct'" and "keyed ct"
  shows "cat_usage ct' = cat_usage ct \<or> (\<exists>now ids ir rows. record_ir_usage now ids ir ct = (ct', rows))"
  using assms
proof (induction rule: curated.induct)
  case (published ct e now actor ct' e')
  then show ?case using publish_usage by blast
qed (blast dest: curatesD [OF curates_review] curatesD [OF curates_entitle] curatesD [OF curates_retire]
      curatesD [OF curates_update] curatesD [OF curates_amend] curatesD [OF curates_send_back]
      curatesD [OF curates_delete] curatesD [OF curates_install] kept_def [THEN iffD1, THEN conjunct2, THEN conjunct2])+

lemma curated_index:
  assumes "curated\<^sup>*\<^sup>* empty_catalog ct"
  shows "index_ok (cat_usage ct)"
  using assms
proof (induction rule: rtranclp_induct)
  case base
  show ?case by (simp add: index_ok_def empty_catalog_def wf_docs_def)
next
  case (step b c)
  from curated_usage [OF step(2) curated_keyed [OF step(1)]] show ?case
  proof
    assume "\<exists>now ids ir rows. record_ir_usage now ids ir b = (c, rows)"
    then obtain now ids ir rows where r: "record_ir_usage now ids ir b = (c, rows)" by blast
    have "cat_usage c = fst (record_each now (map (\<lambda>(i, mk). mk (ids i)) (enumerate 0 (references_in_ir now ir)))
        (fst (forget_system (ir_name ir) (cat_usage b))))"
      using r by (auto simp: record_ir_usage_def Let_def split: prod.splits)
    then show ?thesis using record_each_ok forget_system_ok [OF step(3)] by metis
  qed (use step in simp)
qed

section \<open>What a design refers to\<close>

text \<open>An agent of the design is bound to the entry in this role.\<close>

definition binds :: "design_ir \<Rightarrow> string \<Rightarrow> string \<Rightarrow> string \<Rightarrow> bool" where
  "binds ir k subject role \<longleftrightarrow> k \<noteq> [] \<and> (\<exists>a \<in> set (ir_agents ir). ia_id a = subject \<and> (\<exists>r. ia_model_approval a = Some r \<and>
     (role = ''model'' \<and> mr_catalog_entry r = Some k \<or> role = ''subagent_model'' \<and> mr_subagent_catalog_entry r = Some k)))"

lemma reference_of_row:
  "mk \<in> set (reference_of now s subject (e, role, m)) \<Longrightarrow> cu_id (mk i) = i \<and> cu_system (mk i) = s \<and>
     cu_subject (mk i) = subject \<and> cu_role (mk i) = role \<and> e = Some (cu_entry_id (mk i)) \<and> cu_entry_id (mk i) \<noteq> []"
  by (cases e) (auto simp: reference_of_def split: if_splits)

lemma reference_of_some:
  "e = Some k \<Longrightarrow> k \<noteq> [] \<Longrightarrow> \<exists>mk. reference_of now s subject (e, role, m) = [mk] \<and> cu_entry_id (mk i) = k"
  by (simp add: reference_of_def)

lemma reference_of_length: "length (reference_of now s subject x) \<le> 1"
  by (cases x) (auto simp: reference_of_def split: option.split)

lemma agent_references_Some:
  "ia_model_approval a = Some r \<Longrightarrow> agent_references now s a =
     reference_of now s (ia_id a) (mr_catalog_entry r, ''model'', mr_model r) @
     reference_of now s (ia_id a) (mr_subagent_catalog_entry r, ''subagent_model'', (case mr_subagent_model r of None \<Rightarrow> [] | Some m \<Rightarrow> m))"
  by (simp add: agent_references_def)

lemma agent_references_row:
  assumes "mk \<in> set (agent_references now s a)"
  shows "cu_id (mk i) = i \<and> cu_system (mk i) = s \<and> cu_subject (mk i) = ia_id a \<and>
    (\<exists>r. ia_model_approval a = Some r \<and> cu_entry_id (mk i) \<noteq> [] \<and>
      (cu_role (mk i) = ''model'' \<and> mr_catalog_entry r = Some (cu_entry_id (mk i)) \<or>
       cu_role (mk i) = ''subagent_model'' \<and> mr_subagent_catalog_entry r = Some (cu_entry_id (mk i))))"
proof -
  obtain r where r: "ia_model_approval a = Some r" using assms by (cases "ia_model_approval a") (auto simp: agent_references_def)
  from assms show ?thesis unfolding agent_references_Some [OF r] using reference_of_row [where i = i] r by (metis Un_iff set_append)
qed

lemma agent_references_complete:
  assumes "ia_model_approval a = Some r" and "k \<noteq> []"
    and "role = ''model'' \<and> mr_catalog_entry r = Some k \<or> role = ''subagent_model'' \<and> mr_subagent_catalog_entry r = Some k"
  shows "\<exists>mk \<in> set (agent_references now s a). cu_entry_id (mk i) = k \<and> cu_role (mk i) = role"
  using assms(3)
proof
  assume m: "role = ''model'' \<and> mr_catalog_entry r = Some k"
  obtain mk where "reference_of now s (ia_id a) (mr_catalog_entry r, ''model'', mr_model r) = [mk]" "cu_entry_id (mk i) = k"
    using reference_of_some m assms(2) by blast
  then show ?thesis using reference_of_row [of mk now s "ia_id a" "mr_catalog_entry r" role "mr_model r" i] m
    unfolding agent_references_Some [OF assms(1)] by auto
next
  assume m: "role = ''subagent_model'' \<and> mr_subagent_catalog_entry r = Some k"
  let ?m = "case mr_subagent_model r of None \<Rightarrow> [] | Some m \<Rightarrow> m"
  obtain mk where "reference_of now s (ia_id a) (mr_subagent_catalog_entry r, ''subagent_model'', ?m) = [mk]" "cu_entry_id (mk i) = k"
    using reference_of_some m assms(2) by blast
  then show ?thesis using reference_of_row [of mk now s "ia_id a" "mr_subagent_catalog_entry r" role ?m i] m
    unfolding agent_references_Some [OF assms(1)] by auto
qed

lemma reference_place:
  "mk \<in> set (agent_references now s a) \<Longrightarrow> place (mk i) = place (mk j)"
  unfolding agent_references_def reference_of_def place_def by (auto split: option.splits if_splits)

lemma distinct_agent_places: "distinct (map (\<lambda>mk. place (mk [])) (agent_references now s a))"
proof (cases "ia_model_approval a")
  case None
  then show ?thesis by (simp add: agent_references_def)
next
  case (Some r)
  let ?m = "case mr_subagent_model r of None \<Rightarrow> [] | Some m \<Rightarrow> m"
  let ?A = "reference_of now s (ia_id a) (mr_catalog_entry r, ''model'', mr_model r)"
  let ?B = "reference_of now s (ia_id a) (mr_subagent_catalog_entry r, ''subagent_model'', ?m)"
  have single: "length xs \<le> 1 \<Longrightarrow> distinct (map (\<lambda>mk. place (mk [])) xs)" for xs :: "(string \<Rightarrow> catalog_usage) list"
    by (cases xs) auto
  have "cu_role (x []) = ''model''" if "x \<in> set ?A" for x using reference_of_row [OF that] by blast
  moreover have "cu_role (x []) = ''subagent_model''" if "x \<in> set ?B" for x using reference_of_row [OF that] by blast
  ultimately have "(\<lambda>mk. place (mk [])) ` set ?A \<inter> (\<lambda>mk. place (mk [])) ` set ?B = {}"
    by (fastforce simp: place_def)
  then show ?thesis unfolding agent_references_Some [OF Some]
    using single [OF reference_of_length] by (simp add: distinct_append)
qed

lemma distinct_places:
  "distinct (map ia_id as) \<Longrightarrow> distinct (map (\<lambda>mk. place (mk [])) (concat (map (agent_references now s) as)))"
proof (induction as)
  case (Cons a as)
  have "place (x []) \<noteq> place (y [])" if "x \<in> set (agent_references now s a)" "b \<in> set as" "y \<in> set (agent_references now s b)" for x y b
    using agent_references_row [OF that(1), of "[]"] agent_references_row [OF that(3), of "[]"] that(2) Cons.prems
    by (auto simp: place_def)
  then show ?case using Cons distinct_agent_places [of now s a] by fastforce
qed simp

definition handed_out :: "instant \<Rightarrow> (nat \<Rightarrow> string) \<Rightarrow> design_ir \<Rightarrow> catalog_usage list" where
  "handed_out now ids ir = map (\<lambda>(i, mk). mk (ids i)) (enumerate 0 (references_in_ir now ir))"

lemma handed_out_row:
  assumes "u \<in> set (handed_out now ids ir)"
  obtains i a mk where "u = mk (ids i)" "a \<in> set (ir_agents ir)" "mk \<in> set (agent_references now (ir_name ir) a)"
  using assms by (auto simp: handed_out_def references_in_ir_def in_set_enumerate_eq dest!: nth_mem)

lemma handed_out_complete:
  assumes "mk \<in> set (references_in_ir now ir)"
  shows "\<exists>i. mk (ids i) \<in> set (handed_out now ids ir)"
proof -
  obtain i where "i < length (references_in_ir now ir)" "references_in_ir now ir ! i = mk"
    using assms by (meson in_set_conv_nth)
  then have "(i, mk) \<in> set (enumerate 0 (references_in_ir now ir))" by (auto simp: in_set_enumerate_eq)
  then show ?thesis unfolding handed_out_def by force
qed

lemma handed_out_ids: "map cu_id (handed_out now ids ir) = map ids [0..<length (references_in_ir now ir)]"
proof (rule nth_equalityI)
  fix i assume "i < length (map cu_id (handed_out now ids ir))"
  then have i: "i < length (references_in_ir now ir)" by (simp add: handed_out_def)
  then have "references_in_ir now ir ! i \<in> set (references_in_ir now ir)" by simp
  then obtain a where "references_in_ir now ir ! i \<in> set (agent_references now (ir_name ir) a)"
    by (auto simp: references_in_ir_def)
  from agent_references_row [OF this] i
  show "map cu_id (handed_out now ids ir) ! i = map ids [0..<length (references_in_ir now ir)] ! i"
    by (simp add: handed_out_def nth_enumerate_eq)
qed (simp add: handed_out_def)

lemma handed_out_places:
  assumes "distinct (map ia_id (ir_agents ir))"
  shows "distinct (map place (handed_out now ids ir))"
proof -
  have "map place (handed_out now ids ir) = map (\<lambda>mk. place (mk [])) (references_in_ir now ir)"
  proof (rule nth_equalityI)
    fix i assume "i < length (map place (handed_out now ids ir))"
    then have i: "i < length (references_in_ir now ir)" by (simp add: handed_out_def)
    then have "references_in_ir now ir ! i \<in> set (references_in_ir now ir)" by simp
    then obtain a where "references_in_ir now ir ! i \<in> set (agent_references now (ir_name ir) a)"
      by (auto simp: references_in_ir_def)
    from reference_place [OF this] i
    show "map place (handed_out now ids ir) ! i = map (\<lambda>mk. place (mk [])) (references_in_ir now ir) ! i"
      by (simp add: handed_out_def nth_enumerate_eq)
  qed (simp add: handed_out_def)
  then show ?thesis using distinct_places [OF assms] by (simp add: references_in_ir_def)
qed

lemma binds_iff:
  "binds ir k subject role \<longleftrightarrow>
     (\<exists>u \<in> set (handed_out now ids ir). cu_entry_id u = k \<and> cu_subject u = subject \<and> cu_role u = role)"
proof
  assume "binds ir k subject role"
  then obtain a r where a: "a \<in> set (ir_agents ir)" "ia_id a = subject" "ia_model_approval a = Some r" "k \<noteq> []"
    "role = ''model'' \<and> mr_catalog_entry r = Some k \<or> role = ''subagent_model'' \<and> mr_subagent_catalog_entry r = Some k"
    by (auto simp: binds_def)
  have "\<exists>mk \<in> set (agent_references now (ir_name ir) a). cu_entry_id (mk i) = k \<and> cu_role (mk i) = role" for i
    by (rule agent_references_complete [OF a(3,4,5)])
  then obtain mk where mk: "mk \<in> set (agent_references now (ir_name ir) a)" "cu_entry_id (mk []) = k" "cu_role (mk []) = role"
    by blast
  then obtain i where "mk (ids i) \<in> set (handed_out now ids ir)"
    using handed_out_complete a(1) by (fastforce simp: references_in_ir_def)
  moreover have "cu_entry_id (mk i) = cu_entry_id (mk [])" "cu_role (mk i) = cu_role (mk [])" for i
    using mk(1) by (auto simp: agent_references_def reference_of_def split: option.splits if_splits)
  ultimately show "\<exists>u \<in> set (handed_out now ids ir). cu_entry_id u = k \<and> cu_subject u = subject \<and> cu_role u = role"
    using agent_references_row [OF mk(1)] mk a(2) by metis
next
  assume "\<exists>u \<in> set (handed_out now ids ir). cu_entry_id u = k \<and> cu_subject u = subject \<and> cu_role u = role"
  then obtain i a mk where u: "k = cu_entry_id (mk (ids i))" "subject = cu_subject (mk (ids i))" "role = cu_role (mk (ids i))"
    and a: "a \<in> set (ir_agents ir)" "mk \<in> set (agent_references now (ir_name ir) a)"
    by (metis handed_out_row)
  from agent_references_row [OF a(2), of "ids i"] obtain r where "ia_model_approval a = Some r"
    "cu_subject (mk (ids i)) = ia_id a" "cu_entry_id (mk (ids i)) \<noteq> []"
    "cu_role (mk (ids i)) = ''model'' \<and> mr_catalog_entry r = Some (cu_entry_id (mk (ids i))) \<or>
     cu_role (mk (ids i)) = ''subagent_model'' \<and> mr_subagent_catalog_entry r = Some (cu_entry_id (mk (ids i)))" by blast
  then show "binds ir k subject role" unfolding binds_def u using a(1) by (intro conjI bexI exI) simp_all
qed

lemma record_ir_usage_rows:
  assumes "index_ok (cat_usage ct)" and "length (cat_usage ct) + length (references_in_ir now ir) \<le> usage_limit"
    and "distinct (map ia_id (ir_agents ir))" and "inj ids" and "range ids \<inter> row_id ` set (cat_usage ct) = {}"
    and "record_ir_usage now ids ir ct = (ct', rows)"
  shows "rows = map (cu_recorded_at_update (\<lambda>_. now)) (handed_out now ids ir) \<and> index_ok (cat_usage ct') \<and>
    length (cat_usage ct') \<le> usage_limit \<and> cat_entries ct' = cat_entries ct \<and>
    map row_body (cat_usage ct') = filter (\<lambda>u. cu_system u \<noteq> ir_name ir) (map row_body (cat_usage ct)) @ rows"
proof -
  define us where "us = filter (\<lambda>r. cu_system (row_body r) \<noteq> ir_name ir) (cat_usage ct)"
  have us: "fst (forget_system (ir_name ir) (cat_usage ct)) = us"
    using forget_system_rows [OF assms(1)] assms(2) by (simp add: us_def)
  have len: "length us + length (handed_out now ids ir) \<le> usage_limit"
    using assms(2) unfolding us_def handed_out_def length_map length_enumerate
    by (meson add_le_mono1 le_trans length_filter_le)
  have fresh: "place u \<notin> place ` row_body ` set us \<and> cu_id u \<notin> row_id ` set us"
    if u: "u \<in> set (handed_out now ids ir)" for u
  proof -
    obtain i a mk where "u = mk (ids i)" "mk \<in> set (agent_references now (ir_name ir) a)"
      using u by (rule handed_out_row)
    then have "cu_id u \<in> range ids" "cu_system u = ir_name ir" using agent_references_row by auto
    then show ?thesis using assms(5) by (auto simp: us_def place_def)
  qed
  have "distinct (map cu_id (handed_out now ids ir))"
    using assms(4) by (simp add: handed_out_ids distinct_map) (meson inj_on_subset subset_UNIV)
  from record_each_rows [OF _ len handed_out_places [OF assms(3)] this, of now] fresh
    forget_system_ok [OF assms(1), of "ir_name ir"] us
  have r: "index_ok (fst (record_each now (handed_out now ids ir) us))"
    "map row_body (fst (record_each now (handed_out now ids ir) us)) =
       map row_body us @ map (cu_recorded_at_update (\<lambda>_. now)) (handed_out now ids ir)"
    "snd (record_each now (handed_out now ids ir) us) = map (cu_recorded_at_update (\<lambda>_. now)) (handed_out now ids ir)"
    by auto
  have ct': "ct' = ct\<lparr>cat_usage := fst (record_each now (handed_out now ids ir) us)\<rparr>"
    "rows = snd (record_each now (handed_out now ids ir) us)"
    using assms(6) us by (auto simp: record_ir_usage_def handed_out_def Let_def split: prod.splits)
  have "length (cat_usage ct') \<le> usage_limit"
    using arg_cong [OF r(2), of length] len ct' by simp
  moreover have "map row_body us = filter (\<lambda>u. cu_system u \<noteq> ir_name ir) (map row_body (cat_usage ct))"
    by (simp add: us_def filter_map o_def)
  ultimately show ?thesis using ct' r by simp
qed

lemma cu_keep [simp]: "cu_system (u\<lparr>cu_recorded_at := t\<rparr>) = cu_system u" "cu_entry_id (u\<lparr>cu_recorded_at := t\<rparr>) = cu_entry_id u"
  by simp_all

section \<open>Properties\<close>


text \<open>Recording the compiled design replaces what was recorded of it by one row for every entry an
  agent of it is bound to, as a model or as the model of its sub-agents, and leaves the rows of every
  other design alone.\<close>

theorem recorded_usage_is_the_design:
  assumes "curated\<^sup>*\<^sup>* empty_catalog ct" and "length (cat_usage ct) + length (references_in_ir now ir) \<le> usage_limit"
    and "distinct (map ia_id (ir_agents ir))" and "inj ids" and "range ids \<inter> row_id ` set (cat_usage ct) = {}"
    and "record_ir_usage now ids ir ct = (ct', rows)"
  shows "map row_body (cat_usage ct') = filter (\<lambda>u. cu_system u \<noteq> ir_name ir) (map row_body (cat_usage ct)) @ rows \<and>
    distinct (map place rows) \<and>
    (\<forall>k subject role. binds ir k subject role \<longleftrightarrow>
       (\<exists>u \<in> set rows. cu_system u = ir_name ir \<and> cu_entry_id u = k \<and> cu_subject u = subject \<and> cu_role u = role))"
proof -
  note r = record_ir_usage_rows [OF curated_index [OF assms(1)] assms(2-6)]
  have rows: "rows = map (cu_recorded_at_update (\<lambda>_. now)) (handed_out now ids ir)" using r by simp
  then have "map place rows = map place (handed_out now ids ir)" by (simp add: place_def)
  then have "distinct (map place rows)" using handed_out_places [OF assms(3)] by metis
  moreover have "cu_system u = ir_name ir" if "u \<in> set (handed_out now ids ir)" for u
    using that agent_references_row by (metis handed_out_row)
  then have "binds ir k subject role \<longleftrightarrow>
      (\<exists>u \<in> set rows. cu_system u = ir_name ir \<and> cu_entry_id u = k \<and> cu_subject u = subject \<and> cu_role u = role)"
    for k subject role unfolding rows binds_iff [where now = now and ids = ids] by simp
  ultimately show ?thesis using r by blast
qed

text \<open>As soon as a compiled design is recorded, no entry it is bound to can be deleted, nor retired
  unless that is forced; the refusal names the design, and nothing changes.\<close>

theorem used_entry_is_not_withdrawn:
  assumes "curated\<^sup>*\<^sup>* empty_catalog ct" and "length (cat_usage ct) + length (references_in_ir now ir) \<le> usage_limit"
    and "distinct (map ia_id (ir_agents ir))" and "inj ids" and "range ids \<inter> row_id ` set (cat_usage ct) = {}"
    and "record_ir_usage now ids ir ct = (ct', rows)" and "binds ir k subject role" and "ir_name ir \<noteq> []"
  shows "(\<exists>users. ir_name ir \<in> set users \<and> retire moment k reviewer successor False ct' = (ct', Inl (StillUsed k users))) \<and>
    (\<exists>err. delete_entry k ct' = (ct', Inl err))"
proof -
  note r = record_ir_usage_rows [OF curated_index [OF assms(1)] assms(2-6)]
  obtain u where u: "u \<in> set (handed_out now ids ir)" "cu_entry_id u = k" "cu_system u = ir_name ir"
    using assms(7) binds_iff [of ir k subject role now ids] agent_references_row by (metis handed_out_row)
  have "u\<lparr>cu_recorded_at := now\<rparr> \<in> row_body ` set (cat_usage ct')"
    using r u(1) by (metis UnI2 image_set imageI set_append)
  then have "\<exists>v \<in> row_body ` set (cat_usage ct'). cu_system v = ir_name ir \<and> cu_entry_id v = k"
    using u(2,3) by (metis cu_keep)
  then have "ir_name ir \<in> set (systems_using k (cat_usage ct'))"
    using r assms(8) by (simp add: systems_using_iff)
  then show ?thesis
    by (auto simp: retire_def Let_def delete_entry_def require_entry_def split: option.split)
qed

section \<open>Witnesses\<close>

lemma curated_fst:
  "catalog_get ct (ct_id e) = None \<Longrightarrow> curated ct (fst (publish now e actor ct))"
  "curated ct (fst (review now k status reviewer comment ct))"
  "curated ct (fst (send_back now k actor comment ct))"
  "curated ct (fst (amend now k changes actor comment ct))"
  by (rule curated.published reviewing sending_back amending, assumption?, rule prod.collapse [symmetric])+

definition drafted :: "int catalog" where
  "drafted = fst (publish 1 (example_entry ''a'' ''Old'' Proposed [] 0) ''ann'' empty_catalog)"

definition approved :: "int catalog" where
  "approved = fst (review 2 ''a'' Approved ''bob'' [] drafted)"

definition reworked :: "int catalog" where
  "reworked = fst (amend 4 ''a'' [SetVersion ''2.0.0''] ''ann'' [] (fst (send_back 3 ''a'' ''ann'' [] approved)))"

lemma drafted_run: "curated\<^sup>*\<^sup>* empty_catalog drafted"
  unfolding drafted_def
  by (rule r_into_rtranclp, rule curated_fst) (simp add: empty_catalog_def catalog_get_def store_get_def)

lemma approved_run: "curated\<^sup>*\<^sup>* empty_catalog approved"
  unfolding approved_def by (rule rtranclp.rtrancl_into_rtrancl [OF drafted_run curated_fst(2)])

lemma reworked_run: "curated\<^sup>*\<^sup>* approved reworked"
  unfolding reworked_def
  by (rule rtranclp.rtrancl_into_rtrancl, rule r_into_rtranclp, rule curated_fst(3), rule curated_fst(4))


definition example_ir :: design_ir where
  "example_ir = \<lparr>ir_name = ''shop'', ir_agents = [\<lparr>ia_id = ''clerk'', ia_model_approval = Some \<lparr>mr_catalog_entry = Some ''a'',
     mr_model = ''large'', mr_subagent_catalog_entry = None, mr_subagent_model = None\<rparr>\<rparr>]\<rparr>"

definition usage_ids :: "nat \<Rightarrow> string" where
  "usage_ids n = ''use_'' @ replicate n (CHR ''x'')"

lemma inj_usage_ids: "inj usage_ids"
  by (auto simp: inj_def usage_ids_def dest: arg_cong [of _ _ length])

lemma example_ir_small:
  "length (cat_usage approved) + length (references_in_ir 5 example_ir) \<le> usage_limit"
  "distinct (map ia_id (ir_agents example_ir))" "cat_usage approved = []"
proof -
  show "length (cat_usage approved) + length (references_in_ir 5 example_ir) \<le> usage_limit" by code_simp
  show "distinct (map ia_id (ir_agents example_ir))" by code_simp
  show "cat_usage approved = []" by code_simp
qed

theorem recorded_usage_is_the_design_witness:
  "\<exists>u \<in> set (snd (record_ir_usage 5 usage_ids example_ir approved)).
     cu_entry_id u = ''a'' \<and> cu_subject u = ''clerk'' \<and> cu_role u = ''model''"
proof -
  have "binds example_ir ''a'' ''clerk'' ''model''" by (simp add: binds_def example_ir_def)
  moreover have "range usage_ids \<inter> row_id ` set (cat_usage approved) = {}" by (simp add: example_ir_small)
  ultimately show ?thesis
    using recorded_usage_is_the_design [OF approved_run example_ir_small(1,2) inj_usage_ids _ prod.collapse [symmetric]] by blast
qed

theorem used_entry_is_not_withdrawn_witness:
  "\<exists>users. ''shop'' \<in> set users \<and>
     retire 6 ''a'' ''bob'' None False (fst (record_ir_usage 5 usage_ids example_ir approved)) =
       (fst (record_ir_usage 5 usage_ids example_ir approved), Inl (StillUsed ''a'' users))"
proof -
  have "binds example_ir ''a'' ''clerk'' ''model''" "ir_name example_ir = ''shop''" by (simp_all add: binds_def example_ir_def)
  moreover have "range usage_ids \<inter> row_id ` set (cat_usage approved) = {}" by (simp add: example_ir_small)
  ultimately show ?thesis
    using used_entry_is_not_withdrawn [OF approved_run example_ir_small(1,2) inj_usage_ids _ prod.collapse [symmetric],
      where k = "''a''" and moment = 6 and reviewer = "''bob''" and successor = None] by fastforce
qed

section \<open>Beside the record\<close>

text \<open>A refresh of figures rewrites the attributes of an approved entry, and leaves no event.\<close>

definition price_list :: "int figure_source" where
  "price_list = mapping_figure_source example_readings \<lparr>ms_name = ''prices'', ms_observed_at = NoTime, ms_source_url = [],
     ms_models = [(''large'', [(''cost_per_million_input'', 9)])]\<rparr>"

lemma refresh_rewrites_an_approved_entry:
  "(case (catalog_get approved ''a'', catalog_get (fst (refresh_figures example_readings 5 price_list None KindModel approved)) ''a'') of
      (Some e, Some e') \<Rightarrow> ct_status e' = Approved \<and> ct_history e' = ct_history e \<and>
        ct_attributes e = [] \<and> ct_attributes e' = [(''cost_per_million_input'', 9)]
    | _ \<Rightarrow> False)"
  by code_simp

text \<open>The report is keyed by the names of entries: of two with one name, the users of one are lost.\<close>

definition use_of :: "string \<Rightarrow> string \<Rightarrow> string \<Rightarrow> catalog_usage" where
  "use_of k entry_id system = \<lparr>cu_id = k, cu_entry_id = entry_id, cu_entry_name = [], cu_system = system, cu_subject = ''x'',
     cu_role = ''model'', cu_note = [], cu_recorded_at = 0\<rparr>"

lemma usage_report_drops_a_namesake:
  "ur_by_entry (usage_report \<lparr>cat_entries = cat_entries (fst (publish 2 (example_entry ''b'' ''Old'' Proposed [] 0) [] drafted)),
      cat_usage = fst (record_each 1 [use_of ''u1'' ''a'' ''shop'', use_of ''u2'' ''b'' ''bank''] [])\<rparr>) =
     [(''Old'', [''bank''])]"
  by code_simp

end
