(* ===== verification/Channels.thy ===== *)
theory Channels
  imports PyValue
begin

text \<open>
  Human channels (\<open>channels/\<close>): what a bridge to a chat product declares and is bound by
  (\<open>port.py\<close>, \<open>binding.py\<close>), the ledger that turns a click into a decision (\<open>approvals.py\<close>), and the
  service that drives a bound bridge for one tenant (\<open>service.py\<close>).

  A bridge is the record of its operations, as the \<open>Protocol\<close> of \<open>port.py\<close>; they thread a state
  \<open>'s\<close> of the bridge and the platform behind it, may raise, and are a parameter here. What the
  service relies on is the locale \<open>channel_bridge\<close>. The ledger keeps the request objects it hands
  out, so what is set on one is set in the ledger.
\<close>

section \<open>What is carried\<close>

datatype channel_purpose = PurposeNotify | PurposeApprove | PurposeHandoff | PurposeReport | PurposeAsk

record bot_principal =
  bp_id :: string
  bp_username :: string
  bp_display_name :: string
  bp_is_bot :: bool
  bp_agent_id :: string

record posted_message =
  pm_id :: string
  pm_channel_id :: string
  pm_thread_id :: string
  pm_text :: string
  pm_posted_by :: string

record inbound_message =
  im_channel_id :: string
  im_thread_id :: string
  im_author_id :: string
  im_author_contact :: string
  im_text :: string
  im_tenant_id :: string

datatype approval_decision = Approve | Deny

fun decision_value :: "approval_decision \<Rightarrow> string" where
  "decision_value Approve = ''approve''"
| "decision_value Deny = ''deny''"

definition decision_of_value :: "string \<Rightarrow> approval_decision option" where
  "decision_of_value v = List.find (\<lambda>d. decision_value d = v) [Approve, Deny]"

datatype approval_state = ApprovalPending | ApprovalApproved | ApprovalDenied | ApprovalExpired

record approval_request =
  ar_id :: string
  ar_tenant_id :: string
  ar_agent_id :: string
  ar_session_id :: string
  ar_channel_id :: string
  ar_question :: string
  ar_detail :: string
  ar_expected_approvers :: "string list"
  ar_requested_at :: instant
  ar_expires_at :: instant
  ar_state :: approval_state
  ar_decision :: "approval_decision option"
  ar_decided_by :: string
  ar_decided_at :: "instant option"
  ar_post_id :: string

definition is_expired :: "approval_request \<Rightarrow> instant \<Rightarrow> bool" where
  "is_expired r moment = (moment > ar_expires_at r)"

definition answered :: "approval_request \<Rightarrow> bool" where
  "answered r = (ar_state r \<noteq> ApprovalPending)"

record approval_callback =
  cb_request_id :: string
  cb_responder_id :: string
  cb_responder_contact :: string
  cb_tenant_id :: string
  cb_decision :: approval_decision
  cb_received_at :: instant

section \<open>The port\<close>

datatype principal_kind = PrincipalNone | PrincipalHuman | PrincipalService

record bridge_capabilities =
  bc_name :: string
  bc_principal_kind :: principal_kind
  bc_bot_principal_id :: string
  bc_can_mint_bot_principal :: bool
  bc_interactive_callbacks :: bool
  bc_threaded_replies :: bool
  bc_tenant_id :: string

definition post_only_purposes :: "channel_purpose list" where
  "post_only_purposes = [PurposeNotify, PurposeReport, PurposeAsk, PurposeHandoff]"

definition supported_purposes :: "bridge_capabilities \<Rightarrow> channel_purpose list" where
  "supported_purposes c = post_only_purposes @ (if bc_interactive_callbacks c then [PurposeApprove] else [])"

datatype not_authentic = NoContext | TokenMismatch | NoActingUser | NoDecision string

datatype approval_refusal =
    CrossTenantCallback string string | UnknownApproval | AlreadyAnswered approval_state string
  | StaleApproval instant instant | UnexpectedApprover string "string list"

datatype bridge_refusal =
    HumanPrincipal | NoPrincipal | CannotMint | UnnamedPrincipal | NoTenant | ServesOtherTenant string string
  | NoAuthenticCallback "channel_purpose list" | UnsupportedPurposes "channel_purpose list" "channel_purpose list"

datatype channel_error =
    PostFailed string | CallbackNotAuthenticated not_authentic | BridgeRefused string bridge_refusal
  | ApprovalRefused string approval_refusal | PurposeNotBound channel_purpose "channel_purpose list"
  | TenantMismatch string string | NoRuntime | NoApprovers | NoExpiry | NoLedgerTenant | RaisedElsewhere string

type_synonym ('s, 'a) bridge_op = "'s \<Rightarrow> 's \<times> (channel_error + 'a)"

type_synonym payload = "(string \<times> pyval) list"

record 's bridge =
  br_capabilities :: "'s \<Rightarrow> bridge_capabilities"
  br_identify :: "string \<Rightarrow> ('s, bot_principal) bridge_op"
  br_post :: "string \<Rightarrow> string \<Rightarrow> string \<Rightarrow> ('s, posted_message) bridge_op"
  br_reply :: "string \<Rightarrow> string \<Rightarrow> string \<Rightarrow> string \<Rightarrow> ('s, posted_message) bridge_op"
  br_open_approval :: "approval_request \<Rightarrow> ('s, posted_message) bridge_op"
  br_resolve_approval :: "'s \<Rightarrow> payload \<Rightarrow> instant \<Rightarrow> channel_error + approval_callback"

section \<open>Binding\<close>

record 's bound_bridge =
  bb_bridge :: "'s bridge"
  bb_capabilities :: bridge_capabilities
  bb_tenant_id :: string
  bb_purposes :: "channel_purpose list"

definition carries :: "'s bound_bridge \<Rightarrow> channel_purpose \<Rightarrow> bool" where
  "carries b p = (p \<in> set (bb_purposes b))"

definition bind_bridge ::
  "'s bridge \<Rightarrow> 's \<Rightarrow> string \<Rightarrow> channel_purpose list option \<Rightarrow> channel_error + 's bound_bridge" where
  "bind_bridge B s tenant_id purposes =
     (let c = br_capabilities B s; refuse = (\<lambda>why. Inl (BridgeRefused (bc_name c) why));
          supported = supported_purposes c;
          asked = (case purposes of Some ps \<Rightarrow> ps | None \<Rightarrow> supported);
          unsupported = filter (\<lambda>p. p \<notin> set supported) asked
      in if bc_principal_kind c = PrincipalHuman then refuse HumanPrincipal
         else if bc_principal_kind c \<noteq> PrincipalService then refuse NoPrincipal
         else if \<not> bc_can_mint_bot_principal c then refuse CannotMint
         else if bc_bot_principal_id c = [] then refuse UnnamedPrincipal
         else if tenant_id = [] then refuse NoTenant
         else if bc_tenant_id c \<noteq> [] \<and> bc_tenant_id c \<noteq> tenant_id then refuse (ServesOtherTenant (bc_tenant_id c) tenant_id)
         else if PurposeApprove \<in> set asked \<and> \<not> bc_interactive_callbacks c then refuse (NoAuthenticCallback supported)
         else if unsupported \<noteq> [] then refuse (UnsupportedPurposes unsupported supported)
         else Inr \<lparr>bb_bridge = B, bb_capabilities = c, bb_tenant_id = tenant_id, bb_purposes = asked\<rparr>)"

section \<open>The ledger\<close>

record ledger =
  lg_tenant_id :: string
  lg_requests :: "(string \<times> approval_request) list"

definition new_ledger :: "string \<Rightarrow> channel_error + ledger" where
  "new_ledger tenant_id = (if tenant_id = [] then Inl NoLedgerTenant else Inr \<lparr>lg_tenant_id = tenant_id, lg_requests = []\<rparr>)"

definition ledger_get :: "ledger \<Rightarrow> string \<Rightarrow> approval_request option" where
  "ledger_get lg k = map_of (lg_requests lg) k"

text \<open>A field of a stored request is set.\<close>

definition ledger_put :: "approval_request \<Rightarrow> ledger \<Rightarrow> ledger" where
  "ledger_put r lg = lg\<lparr>lg_requests := AList.update (ar_id r) r (lg_requests lg)\<rparr>"

text \<open>What a request is opened with.\<close>

record ask =
  ak_agent_id :: string
  ak_session_id :: string
  ak_channel_id :: string
  ak_question :: string
  ak_expected_approvers :: "string list"
  ak_detail :: string
  ak_expires_in_minutes :: int

definition minutes_us :: "int \<Rightarrow> int" where
  "minutes_us m = m * 60000000"

definition ledger_open :: "string \<Rightarrow> instant \<Rightarrow> ask \<Rightarrow> ledger \<Rightarrow> channel_error + approval_request \<times> ledger" where
  "ledger_open fresh started a lg =
     (let approvers = fromkeys (filter (\<lambda>x. x \<noteq> []) (ak_expected_approvers a))
      in if approvers = [] then Inl NoApprovers
         else if ak_expires_in_minutes a \<le> 0 then Inl NoExpiry
         else (let r = \<lparr>ar_id = fresh, ar_tenant_id = lg_tenant_id lg, ar_agent_id = ak_agent_id a, ar_session_id = ak_session_id a,
                        ar_channel_id = ak_channel_id a, ar_question = ak_question a, ar_detail = ak_detail a,
                        ar_expected_approvers = approvers, ar_requested_at = started,
                        ar_expires_at = started + minutes_us (ak_expires_in_minutes a), ar_state = ApprovalPending,
                        ar_decision = None, ar_decided_by = [], ar_decided_at = None, ar_post_id = []\<rparr>
               in Inr (r, ledger_put r lg)))"

definition ledger_pending :: "ledger \<Rightarrow> instant \<Rightarrow> approval_request list" where
  "ledger_pending lg moment = filter (\<lambda>r. ar_state r = ApprovalPending \<and> \<not> is_expired r moment) (map snd (lg_requests lg))"

definition out_of_time :: "instant \<Rightarrow> approval_request \<Rightarrow> bool" where
  "out_of_time moment r = (ar_state r = ApprovalPending \<and> is_expired r moment)"

definition expire_due :: "instant \<Rightarrow> ledger \<Rightarrow> ledger \<times> approval_request list" where
  "expire_due moment lg =
     (let mark = (\<lambda>r. if out_of_time moment r then r\<lparr>ar_state := ApprovalExpired\<rparr> else r)
      in (lg\<lparr>lg_requests := map (\<lambda>(k, r). (k, mark r)) (lg_requests lg)\<rparr>,
          map mark (filter (out_of_time moment) (map snd (lg_requests lg)))))"

definition responder_of :: "approval_callback \<Rightarrow> string" where
  "responder_of cb = (if cb_responder_contact cb \<noteq> [] then cb_responder_contact cb else cb_responder_id cb)"

definition resolve_click ::
  "approval_callback \<Rightarrow> instant option \<Rightarrow> ledger \<Rightarrow> ledger \<times> (channel_error + approval_request)" where
  "resolve_click cb moment lg =
     (let at = (case moment of Some t \<Rightarrow> t | None \<Rightarrow> cb_received_at cb)
      in if cb_tenant_id cb \<noteq> [] \<and> cb_tenant_id cb \<noteq> lg_tenant_id lg then
           (lg, Inl (ApprovalRefused (cb_request_id cb) (CrossTenantCallback (cb_tenant_id cb) (lg_tenant_id lg))))
         else (case ledger_get lg (cb_request_id cb) of
           None \<Rightarrow> (lg, Inl (ApprovalRefused (cb_request_id cb) UnknownApproval))
         | Some r \<Rightarrow>
             if ar_state r \<noteq> ApprovalPending then
               (lg, Inl (ApprovalRefused (ar_id r) (AlreadyAnswered (ar_state r) (ar_decided_by r))))
             else if is_expired r at then
               (ledger_put (r\<lparr>ar_state := ApprovalExpired\<rparr>) lg, Inl (ApprovalRefused (ar_id r) (StaleApproval (ar_expires_at r) at)))
             else if responder_of cb \<notin> set (ar_expected_approvers r) then
               (lg, Inl (ApprovalRefused (ar_id r) (UnexpectedApprover (responder_of cb) (ar_expected_approvers r))))
             else (let r' = r\<lparr>ar_state := (if cb_decision cb = Approve then ApprovalApproved else ApprovalDenied),
                             ar_decision := Some (cb_decision cb), ar_decided_by := responder_of cb, ar_decided_at := Some at\<rparr>
                   in (ledger_put r' lg, Inr r'))))"

section \<open>The service\<close>

record 's channel_service =
  cs_bound :: "'s bound_bridge"
  cs_ledger :: ledger
  cs_state :: 's

type_synonym ('s, 'a) channel_op = "'s channel_service \<Rightarrow> 's channel_service \<times> (channel_error + 'a)"

definition new_service :: "'s bound_bridge \<Rightarrow> ledger option \<Rightarrow> 's \<Rightarrow> channel_error + 's channel_service" where
  "new_service b given s =
     ebind (case given of Some lg \<Rightarrow> Inr lg | None \<Rightarrow> new_ledger (bb_tenant_id b)) (\<lambda>lg.
     if lg_tenant_id lg \<noteq> bb_tenant_id b then Inl (TenantMismatch (bb_tenant_id b) (lg_tenant_id lg))
     else Inr \<lparr>cs_bound = b, cs_ledger = lg, cs_state = s\<rparr>)"

text \<open>A call on the bridge.\<close>

definition on_bridge :: "('s, 'a) bridge_op \<Rightarrow> ('s, 'a) channel_op" where
  "on_bridge f cs = (case f (cs_state cs) of (s', r) \<Rightarrow> (cs\<lparr>cs_state := s'\<rparr>, r))"

abbreviation bridge_of :: "'s channel_service \<Rightarrow> 's bridge" where
  "bridge_of cs \<equiv> bb_bridge (cs_bound cs)"

definition announce :: "string \<Rightarrow> string \<Rightarrow> string \<Rightarrow> channel_purpose \<Rightarrow> ('s, posted_message) channel_op" where
  "announce channel_id text agent_id purpose cs =
     (if \<not> carries (cs_bound cs) purpose then (cs, Inl (PurposeNotBound purpose (bb_purposes (cs_bound cs))))
      else on_bridge (br_post (bridge_of cs) channel_id text agent_id) cs)"

datatype heard = HeardPost posted_message | HeardInbound inbound_message

fun heard_channel :: "heard \<Rightarrow> string" where
  "heard_channel (HeardPost m) = pm_channel_id m"
| "heard_channel (HeardInbound m) = im_channel_id m"

fun heard_thread :: "heard \<Rightarrow> string" where
  "heard_thread (HeardPost m) = (if pm_thread_id m \<noteq> [] then pm_thread_id m else pm_id m)"
| "heard_thread (HeardInbound m) = im_thread_id m"

definition respond :: "heard \<Rightarrow> string \<Rightarrow> string \<Rightarrow> ('s, posted_message) channel_op" where
  "respond m text agent_id cs = on_bridge (br_reply (bridge_of cs) (heard_channel m) (heard_thread m) text agent_id) cs"

definition request_approval :: "string \<Rightarrow> instant \<Rightarrow> ask \<Rightarrow> ('s, approval_request) channel_op" where
  "request_approval fresh started a cs =
     (if \<not> carries (cs_bound cs) PurposeApprove then (cs, Inl (PurposeNotBound PurposeApprove (bb_purposes (cs_bound cs))))
      else (case ledger_open fresh started a (cs_ledger cs) of
        Inl err \<Rightarrow> (cs, Inl err)
      | Inr (r, lg) \<Rightarrow>
          (case on_bridge (br_open_approval (bridge_of cs) r) (cs\<lparr>cs_ledger := lg\<rparr>) of
             (cs', Inl err) \<Rightarrow> (cs', Inl err)
           | (cs', Inr m) \<Rightarrow> (let r' = r\<lparr>ar_post_id := pm_id m\<rparr> in (cs'\<lparr>cs_ledger := ledger_put r' (cs_ledger cs')\<rparr>, Inr r')))))"

definition handle_callback :: "payload \<Rightarrow> instant \<Rightarrow> instant option \<Rightarrow> ('s, approval_request) channel_op" where
  "handle_callback payload now moment cs =
     (case br_resolve_approval (bridge_of cs) (cs_state cs) payload now of
        Inl err \<Rightarrow> (cs, Inl err)
      | Inr cb \<Rightarrow> (case resolve_click cb moment (cs_ledger cs) of (lg, r) \<Rightarrow> (cs\<lparr>cs_ledger := lg\<rparr>, r)))"

definition service_expire_due :: "instant \<Rightarrow> 's channel_service \<Rightarrow> 's channel_service \<times> approval_request list" where
  "service_expire_due moment cs = (case expire_due moment (cs_ledger cs) of (lg, rs) \<Rightarrow> (cs\<lparr>cs_ledger := lg\<rparr>, rs))"

definition decision_of :: "'s channel_service \<Rightarrow> string \<Rightarrow> approval_state" where
  "decision_of cs k = (case ledger_get (cs_ledger cs) k of Some r \<Rightarrow> ar_state r | None \<Rightarrow> ApprovalExpired)"

text \<open>The runtime takes an agent, a prompt and who wrote it.\<close>

definition receive ::
  "(string \<Rightarrow> string \<Rightarrow> string \<Rightarrow> channel_error + 'r) option \<Rightarrow> inbound_message \<Rightarrow> string \<Rightarrow> 's channel_service \<Rightarrow>
     channel_error + 'r" where
  "receive runtime m agent_id cs =
     (if im_tenant_id m \<noteq> [] \<and> im_tenant_id m \<noteq> bb_tenant_id (cs_bound cs)
      then Inl (TenantMismatch (bb_tenant_id (cs_bound cs)) (im_tenant_id m))
      else (case runtime of
        None \<Rightarrow> Inl NoRuntime
      | Some run \<Rightarrow> run agent_id (im_text m) (if im_author_contact m \<noteq> [] then im_author_contact m else im_author_id m)))"

section \<open>What the service relies on\<close>

text \<open>\<open>clicked p cb\<close>: the payload proves what the callback says. A bridge makes a callback only of such
  a payload, puts what it posts on the surface, and stays what it declared.\<close>

locale channel_bridge =
  fixes B :: "'s bridge" and clicked :: "payload \<Rightarrow> approval_callback \<Rightarrow> bool"
  assumes authentic: "br_resolve_approval B s p now = Inr cb \<Longrightarrow> clicked p cb"
    and surfaced: "br_open_approval B r s = (s', Inr m) \<Longrightarrow> pm_id m \<noteq> []"
    and stable_post: "br_post B ch t a s = (s', q) \<Longrightarrow> br_capabilities B s' = br_capabilities B s"
    and stable_reply: "br_reply B ch th t a s = (s', q) \<Longrightarrow> br_capabilities B s' = br_capabilities B s"
    and stable_open: "br_open_approval B r s = (s', q') \<Longrightarrow> br_capabilities B s' = br_capabilities B s"

end
