(* ===== verification/Mattermost.thy ===== *)
theory Mattermost
  imports Channels
begin

text \<open>
  The Mattermost adapter (\<open>channels/mattermost.py\<close>): the bodies it sends, the bot it speaks as, and
  what it makes of a pressed button. The transport is injected in the code and a parameter here; a
  request and a response are JSON (\<open>PyValue\<close>). \<open>str\<close> of a list or dictionary, which is no value the
  platform sends, is a parameter too. The adapter is an interpretation of \<open>channel_bridge\<close>.
\<close>

section \<open>The wire\<close>

type_synonym 'w transport = "string \<Rightarrow> string \<Rightarrow> pyval \<Rightarrow> 'w \<Rightarrow> 'w \<times> (channel_error + payload)"

definition bots_path :: string where
  "bots_path = ''/api/v4/bots''"

definition posts_path :: string where
  "posts_path = ''/api/v4/posts''"

definition dialogs_open_path :: string where
  "dialogs_open_path = ''/api/v4/actions/dialogs/open''"

text \<open>\<open>d.get(key)\<close>, with \<open>None\<close> for a key that is not there.\<close>

definition got :: "payload \<Rightarrow> string \<Rightarrow> pyval" where
  "got d k = (case map_of d k of Some v \<Rightarrow> v | None \<Rightarrow> PNone)"

fun py_str :: "(pyval \<Rightarrow> string) \<Rightarrow> pyval \<Rightarrow> string" where
  "py_str rp (PStr s) = s"
| "py_str rp (PInt i) = show_int i"
| "py_str rp (PBool b) = (if b then ''True'' else ''False'')"
| "py_str rp PNone = ''None''"
| "py_str rp v = rp v"

text \<open>\<open>str(a or b or ... or "")\<close>.\<close>

definition first_text :: "(pyval \<Rightarrow> string) \<Rightarrow> pyval list \<Rightarrow> string" where
  "first_text rp vs = (case List.find truthy vs of None \<Rightarrow> [] | Some v \<Rightarrow> py_str rp v)"

definition create_bot_body :: "string \<Rightarrow> string \<Rightarrow> string \<Rightarrow> pyval" where
  "create_bot_body username display description =
     PDict [(''username'', PStr username), (''display_name'', PStr display), (''description'', PStr description)]"

definition bot_id_of :: "(pyval \<Rightarrow> string) \<Rightarrow> payload \<Rightarrow> string" where
  "bot_id_of rp response = first_text rp [got response ''user_id'', got response ''id'']"

definition post_body :: "string \<Rightarrow> string \<Rightarrow> string \<Rightarrow> pyval" where
  "post_body channel_id message root_id =
     PDict ([(''channel_id'', PStr channel_id), (''message'', PStr message)] @
       (if root_id \<noteq> [] then [(''root_id'', PStr root_id)] else []))"

definition action_body :: "approval_request \<Rightarrow> string \<Rightarrow> string \<Rightarrow> approval_decision \<Rightarrow> string \<Rightarrow> pyval" where
  "action_body r callback_url token d label =
     PDict [(''id'', PStr (ar_id r @ '':'' @ decision_value d)), (''name'', PStr label), (''type'', PStr ''button''),
       (''integration'', PDict [(''url'', PStr callback_url),
          (''context'', PDict [(''request_id'', PStr (ar_id r)), (''tenant_id'', PStr (ar_tenant_id r)),
             (''agent_id'', PStr (ar_agent_id r)), (''session_id'', PStr (ar_session_id r)),
             (''decision'', PStr (decision_value d)), (''token'', PStr token)])])]"

definition newline :: char where
  "newline = CHR 0x0A"

definition approval_post_body :: "approval_request \<Rightarrow> string \<Rightarrow> string \<Rightarrow> pyval" where
  "approval_post_body r callback_url token =
     (let text = (if ar_detail r \<noteq> [] then ar_question r @ [newline, newline] @ ar_detail r else ar_question r)
      in PDict [(''channel_id'', PStr (ar_channel_id r)), (''message'', PStr text),
           (''props'', PDict [(''attachments'', PList [PDict [(''text'', PStr text),
              (''actions'', PList [action_body r callback_url token Approve ''Approve'', action_body r callback_url token Deny ''Deny''])]])])])"

definition option_body :: "string \<Rightarrow> approval_decision \<Rightarrow> pyval" where
  "option_body label d = PDict [(''text'', PStr label), (''value'', PStr (decision_value d))]"

definition dialog_body :: "approval_request \<Rightarrow> string \<Rightarrow> string \<Rightarrow> pyval" where
  "dialog_body r trigger_id callback_url =
     PDict [(''trigger_id'', PStr trigger_id), (''url'', PStr callback_url),
       (''dialog'', PDict [(''callback_id'', PStr (ar_id r)), (''title'', PStr (take 24 ''Approval required'')),
          (''submit_label'', PStr ''Decide''), (''state'', PStr (ar_id r)),
          (''elements'', PList [PDict [(''display_name'', PStr ''Decision''), (''name'', PStr ''decision''), (''type'', PStr ''select''),
             (''options'', PList [option_body ''Approve'' Approve, option_body ''Deny'' Deny])]])])]"

section \<open>The adapter\<close>

record mattermost =
  mm_tenant_id :: string
  mm_bot_username :: string
  mm_bot_display_name :: string
  mm_callback_url :: string
  mm_callback_token :: string

datatype mattermost_error = TenantMissing | TokenMissing

definition new_mattermost :: "string \<Rightarrow> string \<Rightarrow> string \<Rightarrow> string \<Rightarrow> string \<Rightarrow> mattermost_error + mattermost" where
  "new_mattermost tenant_id username display callback_url token =
     (if tenant_id = [] then Inl TenantMissing
      else if token = [] then Inl TokenMissing
      else Inr \<lparr>mm_tenant_id = tenant_id, mm_bot_username = username, mm_bot_display_name = display,
                mm_callback_url = callback_url, mm_callback_token = token\<rparr>)"

record 'w mm_state =
  ms_principals :: "(string \<times> bot_principal) list"
  ms_world :: 'w

definition mm_capabilities :: "mattermost \<Rightarrow> bridge_capabilities" where
  "mm_capabilities M = \<lparr>bc_name = ''mattermost'', bc_principal_kind = PrincipalService, bc_bot_principal_id = mm_bot_username M,
     bc_can_mint_bot_principal = True, bc_interactive_callbacks = True, bc_threaded_replies = True,
     bc_tenant_id = mm_tenant_id M\<rparr>"

text \<open>A request over the transport, with what follows its response.\<close>

definition sent ::
  "'w transport \<Rightarrow> string \<Rightarrow> pyval \<Rightarrow> (payload \<Rightarrow> 'w mm_state \<Rightarrow> 'w mm_state \<times> (channel_error + 'a)) \<Rightarrow>
     'w mm_state \<Rightarrow> 'w mm_state \<times> (channel_error + 'a)" where
  "sent tr path body cont s =
     (case tr ''POST'' path body (ms_world s) of
        (w, Inl err) \<Rightarrow> (s\<lparr>ms_world := w\<rparr>, Inl err)
      | (w, Inr response) \<Rightarrow> cont response (s\<lparr>ms_world := w\<rparr>))"

definition mm_identify :: "(pyval \<Rightarrow> string) \<Rightarrow> 'w transport \<Rightarrow> mattermost \<Rightarrow> string \<Rightarrow> ('w mm_state, bot_principal) bridge_op" where
  "mm_identify rp tr M agent_id s =
     (let key = (if agent_id \<noteq> [] then agent_id else mm_bot_username M)
      in case map_of (ms_principals s) key of
           Some p \<Rightarrow> (s, Inr p)
         | None \<Rightarrow>
             (let username = (if agent_id \<noteq> [] then mm_bot_username M @ ''-'' @ agent_id else mm_bot_username M);
                  display = (if agent_id \<noteq> [] then mm_bot_display_name M @ '' '' @ [CHR 0xB7] @ '' '' @ agent_id else mm_bot_display_name M)
              in sent tr bots_path (create_bot_body username display (''tenant '' @ mm_tenant_id M)) (\<lambda>response s.
                   let p = \<lparr>bp_id = bot_id_of rp response, bp_username = username, bp_display_name = display,
                            bp_is_bot = True, bp_agent_id = agent_id\<rparr>
                   in if bp_id p = [] then (s, Inl (PostFailed username))
                      else (s\<lparr>ms_principals := AList.update key p (ms_principals s)\<rparr>, Inr p)) s))"

definition posted :: "(pyval \<Rightarrow> string) \<Rightarrow> payload \<Rightarrow> string \<Rightarrow> string \<Rightarrow> bot_principal \<Rightarrow> channel_error + posted_message" where
  "posted rp response channel_id text p =
     (let post_id = first_text rp [got response ''id'']
      in if post_id = [] then Inl (PostFailed channel_id)
         else Inr \<lparr>pm_id = post_id, pm_channel_id = first_text rp [got response ''channel_id'', PStr channel_id],
                   pm_thread_id = first_text rp [got response ''root_id''], pm_text = text, pm_posted_by = bp_id p\<rparr>)"

text \<open>Who speaks is settled first; then the body is sent.\<close>

definition identified ::
  "(pyval \<Rightarrow> string) \<Rightarrow> 'w transport \<Rightarrow> mattermost \<Rightarrow> string \<Rightarrow> (bot_principal \<Rightarrow> ('w mm_state, 'a) bridge_op) \<Rightarrow> ('w mm_state, 'a) bridge_op" where
  "identified rp tr M agent_id cont s =
     (case mm_identify rp tr M agent_id s of (s', Inl err) \<Rightarrow> (s', Inl err) | (s', Inr p) \<Rightarrow> cont p s')"

definition mm_post :: "(pyval \<Rightarrow> string) \<Rightarrow> 'w transport \<Rightarrow> mattermost \<Rightarrow> string \<Rightarrow> string \<Rightarrow> string \<Rightarrow> ('w mm_state, posted_message) bridge_op" where
  "mm_post rp tr M channel_id text agent_id = identified rp tr M agent_id (\<lambda>p.
     sent tr posts_path (post_body channel_id text []) (\<lambda>response s. (s, posted rp response channel_id text p)))"

definition mm_reply ::
  "(pyval \<Rightarrow> string) \<Rightarrow> 'w transport \<Rightarrow> mattermost \<Rightarrow> string \<Rightarrow> string \<Rightarrow> string \<Rightarrow> string \<Rightarrow> ('w mm_state, posted_message) bridge_op" where
  "mm_reply rp tr M channel_id thread_id text agent_id = identified rp tr M agent_id (\<lambda>p.
     sent tr posts_path (post_body channel_id text thread_id) (\<lambda>response s.
       (s, ebind (posted rp response channel_id text p) (\<lambda>m.
          Inr (m\<lparr>pm_thread_id := first_text rp [got response ''root_id'', PStr thread_id]\<rparr>)))))"

definition mm_open_approval ::
  "(pyval \<Rightarrow> string) \<Rightarrow> 'w transport \<Rightarrow> mattermost \<Rightarrow> approval_request \<Rightarrow> ('w mm_state, posted_message) bridge_op" where
  "mm_open_approval rp tr M r = identified rp tr M (ar_agent_id r) (\<lambda>p.
     sent tr posts_path (approval_post_body r (mm_callback_url M) (mm_callback_token M)) (\<lambda>response s.
       (s, posted rp response (ar_channel_id r) (ar_question r) p)))"

definition mm_open_dialog :: "'w transport \<Rightarrow> mattermost \<Rightarrow> approval_request \<Rightarrow> string \<Rightarrow> ('w mm_state, payload) bridge_op" where
  "mm_open_dialog tr M r trigger_id s =
     (if trigger_id = [] then (s, Inl (PostFailed []))
      else sent tr dialogs_open_path (dialog_body r trigger_id (mm_callback_url M)) (\<lambda>response s. (s, Inr response)) s)"

text \<open>\<open>hmac.compare_digest\<close> of two strings: a \<open>TypeError\<close> unless both are ASCII.\<close>

definition ascii :: "string \<Rightarrow> bool" where
  "ascii s = (\<forall>c \<in> set s. (of_char c :: nat) < 128)"

definition compare_digest :: "string \<Rightarrow> string \<Rightarrow> channel_error + bool" where
  "compare_digest a b = (if ascii a \<and> ascii b then Inr (a = b) else Inl (RaisedElsewhere ''TypeError''))"

definition mm_resolve_approval :: "(pyval \<Rightarrow> string) \<Rightarrow> mattermost \<Rightarrow> payload \<Rightarrow> instant \<Rightarrow> channel_error + approval_callback" where
  "mm_resolve_approval rp M p now =
     (case got p ''context'' of
        PDict ctx \<Rightarrow>
          ebind (compare_digest (first_text rp [got ctx ''token'']) (mm_callback_token M)) (\<lambda>same.
          if \<not> same then Inl (CallbackNotAuthenticated TokenMismatch)
          else (let responder = first_text rp [got p ''user_id'']; raw = first_text rp [got ctx ''decision'']
                in if responder = [] then Inl (CallbackNotAuthenticated NoActingUser)
                   else (case decision_of_value raw of
                     None \<Rightarrow> Inl (CallbackNotAuthenticated (NoDecision raw))
                   | Some d \<Rightarrow> Inr \<lparr>cb_request_id = first_text rp [got ctx ''request_id''], cb_responder_id = responder,
                       cb_responder_contact = first_text rp [got p ''user_email'', got p ''user_name'', PStr responder],
                       cb_tenant_id = first_text rp [got ctx ''tenant_id''], cb_decision = d, cb_received_at = now\<rparr>)))
      | _ \<Rightarrow> Inl (CallbackNotAuthenticated NoContext))"

definition mm_parse_inbound :: "(pyval \<Rightarrow> string) \<Rightarrow> mattermost \<Rightarrow> payload \<Rightarrow> inbound_message" where
  "mm_parse_inbound rp M p =
     \<lparr>im_channel_id = first_text rp [got p ''channel_id''], im_thread_id = first_text rp [got p ''root_id'', got p ''post_id''],
      im_author_id = first_text rp [got p ''user_id''], im_author_contact = first_text rp [got p ''user_email'', got p ''user_name''],
      im_text = first_text rp [got p ''text'', got p ''message''], im_tenant_id = mm_tenant_id M\<rparr>"

definition mattermost_bridge :: "(pyval \<Rightarrow> string) \<Rightarrow> 'w transport \<Rightarrow> mattermost \<Rightarrow> 'w mm_state bridge" where
  "mattermost_bridge rp tr M =
     \<lparr>br_capabilities = (\<lambda>_. mm_capabilities M), br_identify = mm_identify rp tr M, br_post = mm_post rp tr M,
      br_reply = mm_reply rp tr M, br_open_approval = mm_open_approval rp tr M,
      br_resolve_approval = (\<lambda>_. mm_resolve_approval rp M)\<rparr>"

section \<open>The adapter keeps the contract\<close>

text \<open>The button that was pressed: it carries this bridge's token, names who pressed it, and says which
  request it answers and how.\<close>

definition pressed :: "(pyval \<Rightarrow> string) \<Rightarrow> mattermost \<Rightarrow> payload \<Rightarrow> approval_callback \<Rightarrow> bool" where
  "pressed rp M p cb \<longleftrightarrow> (\<exists>ctx. got p ''context'' = PDict ctx \<and>
     first_text rp [got ctx ''token''] = mm_callback_token M \<and>
     first_text rp [got p ''user_id''] = cb_responder_id cb \<and> cb_responder_id cb \<noteq> [] \<and>
     first_text rp [got ctx ''request_id''] = cb_request_id cb \<and>
     first_text rp [got ctx ''tenant_id''] = cb_tenant_id cb \<and>
     first_text rp [got ctx ''decision''] = decision_value (cb_decision cb))"

lemma decision_of_value_Some: "decision_of_value v = Some d \<Longrightarrow> v = decision_value d"
  by (auto simp: decision_of_value_def split: if_splits)

lemma mm_resolve_pressed:
  assumes "mm_resolve_approval rp M p now = Inr cb"
  shows "pressed rp M p cb \<and> cb_received_at cb = now"
proof -
  obtain ctx where c: "got p ''context'' = PDict ctx"
    using assms by (auto simp: mm_resolve_approval_def split: pyval.splits)
  then show ?thesis
    using assms by (auto simp: mm_resolve_approval_def pressed_def compare_digest_def ebind_eq_Inr Let_def
        dest!: decision_of_value_Some split: if_splits option.splits)
qed

lemma posted_id: "posted rp response ch text p = Inr m \<Longrightarrow> pm_id m \<noteq> []"
  by (auto simp: posted_def Let_def split: if_splits)

interpretation mm: channel_bridge "mattermost_bridge rp tr M" "pressed rp M" for rp and tr :: "'w transport" and M
proof
  fix s :: "'w mm_state" and p now cb
  show "br_resolve_approval (mattermost_bridge rp tr M) s p now = Inr cb \<Longrightarrow> pressed rp M p cb"
    using mm_resolve_pressed by (simp add: mattermost_bridge_def)
next
  fix r s s' m
  show "br_open_approval (mattermost_bridge rp tr M) r s = (s', Inr m) \<Longrightarrow> pm_id m \<noteq> []"
    using posted_id by (fastforce simp: mattermost_bridge_def mm_open_approval_def identified_def sent_def
        split: prod.splits sum.splits)
qed (simp_all add: mattermost_bridge_def)

end
