(* ===== verification/ChannelRuns.thy ===== *)
theory ChannelRuns
  imports Mattermost
begin

text \<open>
  What a channel service promises over any run of its calls: a decision in the ledger is the click of
  somebody who was named on the request, in time, over a payload the bridge could authenticate; it
  is final; and a bridge that is bound speaks as itself, for one tenant, and carries only what it can.
\<close>

section \<open>Runs\<close>

text \<open>The callbacks a run was handed, with the time and the moment they were judged at.\<close>

type_synonym handled = "(payload \<times> instant \<times> instant option) list"

inductive channel_step :: "'s channel_service \<Rightarrow> handled \<Rightarrow> 's channel_service \<Rightarrow> bool" where
  announcing: "announce channel_id text agent_id purpose cs = (cs', r) \<Longrightarrow> channel_step cs [] cs'"
| responding: "respond m text agent_id cs = (cs', r) \<Longrightarrow> channel_step cs [] cs'"
| requesting: "ledger_get (cs_ledger cs) fresh = None \<Longrightarrow> request_approval fresh started a cs = (cs', r') \<Longrightarrow> channel_step cs [] cs'"
| clicking: "handle_callback p now moment cs = (cs', r') \<Longrightarrow> channel_step cs [(p, now, moment)] cs'"
| expiring: "service_expire_due moment cs = (cs', rs) \<Longrightarrow> channel_step cs [] cs'"

inductive channel_run :: "'s channel_service \<Rightarrow> handled \<Rightarrow> 's channel_service \<Rightarrow> bool" where
  start: "channel_run cs [] cs"
| onward: "channel_run cs hs cs' \<Longrightarrow> channel_step cs' new cs'' \<Longrightarrow> channel_run cs (hs @ new) cs''"

section \<open>One step\<close>

lemma ledger_get_put: "ledger_get (ledger_put r lg) k = (if k = ar_id r then Some r else ledger_get lg k)"
  by (simp add: ledger_get_def ledger_put_def)

lemma ledger_put_tenant [simp]: "lg_tenant_id (ledger_put r lg) = lg_tenant_id lg"
  by (simp add: ledger_put_def)

lemma map_of_map_values: "map_of (map (\<lambda>(k, v). (k, f v)) d) k = map_option f (map_of d k)"
  by (induction d) auto

lemma expire_due_get:
  "expire_due moment lg = (lg', rs) \<Longrightarrow> ledger_get lg' k = map_option (\<lambda>r. if out_of_time moment r then r\<lparr>ar_state := ApprovalExpired\<rparr> else r) (ledger_get lg k)
     \<and> lg_tenant_id lg' = lg_tenant_id lg"
  by (auto simp: expire_due_def Let_def ledger_get_def map_of_map_values)

text \<open>How a request under a key may change: opened, put on the surface, answered, or expired.\<close>

definition told :: "'s bridge \<Rightarrow> handled \<Rightarrow> approval_request \<Rightarrow> approval_request \<Rightarrow> bool" where
  "told B hs r r' \<longleftrightarrow> (\<exists>p now moment s cb. (p, now, moment) \<in> set hs \<and> br_resolve_approval B s p now = Inr cb \<and>
     cb_request_id cb = ar_id r \<and> (cb_tenant_id cb = [] \<or> cb_tenant_id cb = ar_tenant_id r) \<and>
     responder_of cb \<in> set (ar_expected_approvers r) \<and>
     (case moment of Some t \<Rightarrow> t | None \<Rightarrow> cb_received_at cb) \<le> ar_expires_at r \<and>
     r' = r\<lparr>ar_state := (if cb_decision cb = Approve then ApprovalApproved else ApprovalDenied),
            ar_decision := Some (cb_decision cb), ar_decided_by := responder_of cb,
            ar_decided_at := Some (case moment of Some t \<Rightarrow> t | None \<Rightarrow> cb_received_at cb)\<rparr>)"

inductive request_step :: "'s bridge \<Rightarrow> string \<Rightarrow> handled \<Rightarrow> approval_request option \<Rightarrow> approval_request option \<Rightarrow> bool" for B tenant hs where
  unchanged: "request_step B tenant hs q q"
| opened: "ar_state r = ApprovalPending \<Longrightarrow> ar_decision r = None \<Longrightarrow> ar_expected_approvers r \<noteq> [] \<Longrightarrow> [] \<notin> set (ar_expected_approvers r) \<Longrightarrow>
    ar_tenant_id r = tenant \<Longrightarrow> ar_requested_at r < ar_expires_at r \<Longrightarrow> request_step B tenant hs None (Some r)"
| expired: "ar_state r = ApprovalPending \<Longrightarrow> request_step B tenant hs (Some r) (Some (r\<lparr>ar_state := ApprovalExpired\<rparr>))"
| decided: "ar_state r = ApprovalPending \<Longrightarrow> told B hs r r' \<Longrightarrow> request_step B tenant hs (Some r) (Some r')"

definition keyed_ledger :: "ledger \<Rightarrow> bool" where
  "keyed_ledger lg \<longleftrightarrow> (\<forall>k r. ledger_get lg k = Some r \<longrightarrow> ar_id r = k \<and> ar_tenant_id r = lg_tenant_id lg)"

definition ledger_step :: "'s bridge \<Rightarrow> handled \<Rightarrow> ledger \<Rightarrow> ledger \<Rightarrow> bool" where
  "ledger_step B hs lg lg' \<longleftrightarrow> lg_tenant_id lg' = lg_tenant_id lg \<and> keyed_ledger lg' \<and>
     (\<forall>k. request_step B (lg_tenant_id lg) hs (ledger_get lg k) (ledger_get lg' k))"

lemma ledger_step_refl: "keyed_ledger lg \<Longrightarrow> ledger_step B hs lg lg"
  by (simp add: ledger_step_def unchanged)

lemma expire_step:
  assumes "keyed_ledger lg" and "expire_due moment lg = (lg', rs)"
  shows "ledger_step B hs lg lg'"
proof -
  note e = expire_due_get [OF assms(2)]
  have "request_step B (lg_tenant_id lg) hs (ledger_get lg k) (ledger_get lg' k)" for k
    using e [of k] by (cases "ledger_get lg k") (auto simp: out_of_time_def intro: request_step.intros)
  then show ?thesis using assms(1) e by (auto simp: ledger_step_def keyed_ledger_def split: if_splits)
qed

lemma click_step:
  assumes "keyed_ledger lg" and "br_resolve_approval B s p now = Inr cb" and "resolve_click cb moment lg = (lg', res)"
  shows "ledger_step B [(p, now, moment)] lg lg'"
proof (cases "lg' = lg")
  case True
  then show ?thesis using ledger_step_refl [OF assms(1)] by simp
next
  case False
  let ?at = "case moment of Some t \<Rightarrow> t | None \<Rightarrow> cb_received_at cb"
  obtain r where r: "ledger_get lg (cb_request_id cb) = Some r" "ar_state r = ApprovalPending"
      "cb_tenant_id cb = [] \<or> cb_tenant_id cb = lg_tenant_id lg"
    and cases: "is_expired r ?at \<and> lg' = ledger_put (r\<lparr>ar_state := ApprovalExpired\<rparr>) lg \<or>
      \<not> is_expired r ?at \<and> responder_of cb \<in> set (ar_expected_approvers r) \<and>
      lg' = ledger_put (r\<lparr>ar_state := (if cb_decision cb = Approve then ApprovalApproved else ApprovalDenied),
              ar_decision := Some (cb_decision cb), ar_decided_by := responder_of cb, ar_decided_at := Some ?at\<rparr>) lg"
    using assms(3) False unfolding resolve_click_def Let_def by (auto split: if_splits option.splits)
  have id: "ar_id r = cb_request_id cb" "ar_tenant_id r = lg_tenant_id lg" using assms(1) r(1) by (auto simp: keyed_ledger_def)
  from cases show ?thesis
  proof
    assume "is_expired r ?at \<and> lg' = ledger_put (r\<lparr>ar_state := ApprovalExpired\<rparr>) lg"
    then show ?thesis using assms(1) r id
      by (auto simp: ledger_step_def keyed_ledger_def ledger_get_put intro: request_step.intros)
  next
    let ?r = "r\<lparr>ar_state := (if cb_decision cb = Approve then ApprovalApproved else ApprovalDenied),
              ar_decision := Some (cb_decision cb), ar_decided_by := responder_of cb, ar_decided_at := Some ?at\<rparr>"
    assume c: "\<not> is_expired r ?at \<and> responder_of cb \<in> set (ar_expected_approvers r) \<and> lg' = ledger_put ?r lg"
    have "told B [(p, now, moment)] r ?r"
      unfolding told_def using c assms(2) r(3) id by (intro exI [of _ p] exI [of _ now] exI [of _ moment] exI [of _ s] exI [of _ cb])
        (simp add: is_expired_def not_less)
    then have step: "request_step B (lg_tenant_id lg) [(p, now, moment)] (Some r) (Some ?r)" by (rule decided [OF r(2)])
    define r' where "r' = ?r"
    have "ar_id r' = cb_request_id cb" "ar_tenant_id r' = lg_tenant_id lg" using id by (simp_all add: r'_def)
    then show ?thesis using assms(1) r(1) c step unfolding r'_def [symmetric]
      by (auto simp: ledger_step_def keyed_ledger_def ledger_get_put unchanged)
  qed
qed

lemma open_step:
  assumes "keyed_ledger lg" and "ledger_get lg fresh = None" and "ledger_open fresh started a lg = Inr (r, lg')"
  shows "ledger_step B hs lg (ledger_put (r\<lparr>ar_post_id := q\<rparr>) lg')" and "ledger_step B hs lg lg'" and "ledger_get lg' fresh = Some r"
    and "ar_id r = fresh"
proof -
  let ?as = "fromkeys (filter (\<lambda>x. x \<noteq> []) (ak_expected_approvers a))"
  have o: "?as \<noteq> []" "0 < ak_expires_in_minutes a" "lg' = ledger_put r lg" "ar_state r = ApprovalPending" "ar_decision r = None"
    "ar_expected_approvers r = ?as" "ar_id r = fresh" "ar_tenant_id r = lg_tenant_id lg" "ar_requested_at r = started"
    "ar_expires_at r = started + minutes_us (ak_expires_in_minutes a)"
    using assms(3) by (auto simp: ledger_open_def Let_def split: if_splits)
  then have late: "ar_requested_at r < ar_expires_at r" "[] \<notin> set ?as" by (simp_all add: minutes_us_def)
  have "request_step B (lg_tenant_id lg) hs None (Some (r\<lparr>ar_post_id := q\<rparr>))" for q
    using o late by (intro opened) simp_all
  then show "ledger_step B hs lg (ledger_put (r\<lparr>ar_post_id := q\<rparr>) lg')"
    using assms(1,2) o by (auto simp: ledger_step_def keyed_ledger_def ledger_get_put unchanged)
  have "request_step B (lg_tenant_id lg) hs None (Some r)" using o late by (intro opened) simp_all
  then show "ledger_step B hs lg lg'"
    using assms(1,2) o by (auto simp: ledger_step_def keyed_ledger_def ledger_get_put unchanged)
  show "ledger_get lg' fresh = Some r" "ar_id r = fresh" using o by (simp_all add: ledger_get_put)
qed

lemma channel_step_ledger:
  assumes "channel_step cs hs cs'" and "keyed_ledger (cs_ledger cs)"
  shows "ledger_step (bridge_of cs) hs (cs_ledger cs) (cs_ledger cs') \<and> cs_bound cs' = cs_bound cs"
  using assms
proof cases
  case (announcing ch words ag pu r)
  then show ?thesis using assms(2) ledger_step_refl
    by (auto simp: announce_def on_bridge_def split: if_splits prod.splits)
next
  case (responding m words ag r)
  then show ?thesis using assms(2) ledger_step_refl by (auto simp: respond_def on_bridge_def split: prod.splits)
next
  case (requesting fresh started a r')
  show ?thesis
  proof (cases "carries (cs_bound cs) PurposeApprove")
    case False
    then show ?thesis using requesting assms(2) ledger_step_refl by (auto simp: request_approval_def)
  next
    case True
    show ?thesis
    proof (cases "ledger_open fresh started a (cs_ledger cs)")
      case (Inl err)
      then show ?thesis using requesting assms(2) ledger_step_refl True by (auto simp: request_approval_def)
    next
      case (Inr q)
      obtain r lg where q: "q = (r, lg)" by (cases q)
      note o = open_step(1,2) [OF assms(2) requesting(2) Inr [unfolded q], where B = "bridge_of cs" and hs = "[]"]
      show ?thesis using requesting True Inr q o(1,2)
        by (auto simp: request_approval_def on_bridge_def Let_def split: prod.splits sum.splits)
    qed
  qed
next
  case (clicking p now moment r')
  show ?thesis
  proof (cases "br_resolve_approval (bridge_of cs) (cs_state cs) p now")
    case (Inl err)
    then show ?thesis using clicking assms(2) ledger_step_refl by (auto simp: handle_callback_def)
  next
    case (Inr cb)
    obtain lg res where r: "resolve_click cb moment (cs_ledger cs) = (lg, res)" by fastforce
    then show ?thesis using clicking Inr click_step [OF assms(2) Inr r] by (auto simp: handle_callback_def)
  qed
next
  case (expiring moment rs)
  obtain lg res where r: "expire_due moment (cs_ledger cs) = (lg, res)" by fastforce
  then show ?thesis using expiring expire_step [OF assms(2) r] by (auto simp: service_expire_due_def)
qed

section \<open>Over a run\<close>

definition closed :: "approval_request \<Rightarrow> bool" where
  "closed r \<longleftrightarrow> ar_state r \<noteq> ApprovalPending"

text \<open>The decision was made by a callback the run was handed, or there is none.\<close>

definition explained :: "'s bridge \<Rightarrow> handled \<Rightarrow> approval_request \<Rightarrow> bool" where
  "explained B hs r \<longleftrightarrow> ar_expected_approvers r \<noteq> [] \<and> [] \<notin> set (ar_expected_approvers r) \<and> ar_requested_at r < ar_expires_at r \<and>
     (if ar_state r \<in> {ApprovalApproved, ApprovalDenied} then \<exists>r0. told B hs r0 r else ar_decision r = None)"

lemma told_more: "told B hs r r' \<Longrightarrow> told B (hs @ new) r r' \<and> told B (new @ hs) r r'"
  unfolding told_def by fastforce

lemma told_keeps:
  "told B hs r r' \<Longrightarrow> ar_expected_approvers r' = ar_expected_approvers r \<and> ar_requested_at r' = ar_requested_at r \<and>
     ar_expires_at r' = ar_expires_at r \<and> ar_state r' \<in> {ApprovalApproved, ApprovalDenied}"
  unfolding told_def by (elim exE conjE) simp

lemma explained_step:
  assumes "request_step B tenant new q (Some r')" and "\<And>r. q = Some r \<Longrightarrow> explained B hs r"
  shows "explained B (hs @ new) r'"
  using assms(1)
proof cases
  case unchanged
  then have "explained B hs r'" using assms(2) by simp
  then show ?thesis unfolding explained_def using told_more [of B hs _ r' new] by (auto split: if_splits)
next
  case opened
  then show ?thesis by (simp add: explained_def)
next
  case (expired r)
  then show ?thesis using assms(2) [of r] by (auto simp: explained_def)
next
  case (decided r)
  then have "told B (hs @ new) r r'" using told_more by blast
  then show ?thesis using assms(2) [OF decided(1)] told_keeps [OF decided(3)] by (auto simp: explained_def)
qed

lemma channel_run_explained:
  assumes "channel_run cs hs cs'" and "lg_requests (cs_ledger cs) = []"
  shows "keyed_ledger (cs_ledger cs') \<and> cs_bound cs' = cs_bound cs \<and> lg_tenant_id (cs_ledger cs') = lg_tenant_id (cs_ledger cs) \<and>
    (\<forall>k r. ledger_get (cs_ledger cs') k = Some r \<longrightarrow> explained (bridge_of cs) hs r)"
  using assms
proof (induction rule: channel_run.induct)
  case (start cs)
  then show ?case by (simp add: keyed_ledger_def ledger_get_def)
next
  case (onward cs hs cs' new cs'')
  then have IH: "keyed_ledger (cs_ledger cs')" "cs_bound cs' = cs_bound cs" "lg_tenant_id (cs_ledger cs') = lg_tenant_id (cs_ledger cs)"
    "\<And>k r. ledger_get (cs_ledger cs') k = Some r \<Longrightarrow> explained (bridge_of cs) hs r" by auto
  from channel_step_ledger [OF onward.hyps(2) IH(1)] IH(2)
  have step: "ledger_step (bridge_of cs) new (cs_ledger cs') (cs_ledger cs'')" "cs_bound cs'' = cs_bound cs" by auto
  have "explained (bridge_of cs) (hs @ new) r" if "ledger_get (cs_ledger cs'') k = Some r" for k r
    using step(1) that explained_step IH(4) unfolding ledger_step_def by metis
  then show ?case using step IH(3) by (auto simp: ledger_step_def)
qed

lemma channel_run_closed:
  assumes "channel_run cs hs cs'" and "keyed_ledger (cs_ledger cs)" and "ledger_get (cs_ledger cs) k = Some r" and "closed r"
  shows "keyed_ledger (cs_ledger cs') \<and> ledger_get (cs_ledger cs') k = Some r"
  using assms
proof (induction rule: channel_run.induct)
  case (onward cs hs cs' new cs'')
  then have IH: "keyed_ledger (cs_ledger cs')" "ledger_get (cs_ledger cs') k = Some r" by auto
  from channel_step_ledger [OF onward.hyps(2) IH(1)]
  have "ledger_step (bridge_of cs') new (cs_ledger cs') (cs_ledger cs'')" by simp
  then have "keyed_ledger (cs_ledger cs'')" "request_step (bridge_of cs') (lg_tenant_id (cs_ledger cs')) new (Some r) (ledger_get (cs_ledger cs'') k)"
    using IH(2) by (auto simp: ledger_step_def) metis
  then show ?case using onward.prems(3) by (auto simp: closed_def elim: request_step.cases)
qed simp

text \<open>What a client of any bridge that keeps the contract may rely on.\<close>

context channel_bridge
begin

lemma decision_was_clicked:
  assumes "channel_run cs hs cs'" and "bridge_of cs = B" and "lg_requests (cs_ledger cs) = []"
    and "ledger_get (cs_ledger cs') k = Some r" and "ar_state r \<in> {ApprovalApproved, ApprovalDenied}"
  shows "\<exists>p now moment cb. (p, now, moment) \<in> set hs \<and> clicked p cb \<and> cb_request_id cb = k \<and>
    (cb_tenant_id cb = [] \<or> cb_tenant_id cb = lg_tenant_id (cs_ledger cs)) \<and>
    responder_of cb \<in> set (ar_expected_approvers r) \<and> ar_decided_by r = responder_of cb \<and> responder_of cb \<noteq> [] \<and>
    ar_state r = (if cb_decision cb = Approve then ApprovalApproved else ApprovalDenied) \<and>
    (\<exists>at \<le> ar_expires_at r. ar_decided_at r = Some at \<and> (moment = None \<longrightarrow> at = cb_received_at cb))"
proof -
  note e = channel_run_explained [OF assms(1,3)]
  have r: "ar_id r = k" "ar_tenant_id r = lg_tenant_id (cs_ledger cs)" "explained B hs r"
    using e assms(2,4) by (auto simp: keyed_ledger_def)
  then obtain r0 where "told B hs r0 r" "[] \<notin> set (ar_expected_approvers r)" using assms(5) by (auto simp: explained_def)
  then obtain p now moment s cb where t: "(p, now, moment) \<in> set hs" "br_resolve_approval B s p now = Inr cb"
    "cb_request_id cb = ar_id r0" "cb_tenant_id cb = [] \<or> cb_tenant_id cb = ar_tenant_id r0"
    "responder_of cb \<in> set (ar_expected_approvers r0)"
    "(case moment of Some t \<Rightarrow> t | None \<Rightarrow> cb_received_at cb) \<le> ar_expires_at r0"
    "r = r0\<lparr>ar_state := (if cb_decision cb = Approve then ApprovalApproved else ApprovalDenied),
            ar_decision := Some (cb_decision cb), ar_decided_by := responder_of cb,
            ar_decided_at := Some (case moment of Some t \<Rightarrow> t | None \<Rightarrow> cb_received_at cb)\<rparr>" and named: "[] \<notin> set (ar_expected_approvers r)"
    by (auto simp: told_def)
  have "clicked p cb" using authentic t(2) .
  moreover have "ar_id r0 = k" "ar_tenant_id r0 = lg_tenant_id (cs_ledger cs)" "ar_expected_approvers r0 = ar_expected_approvers r"
    "ar_expires_at r0 = ar_expires_at r" using r t(7) by simp_all
  moreover have "responder_of cb \<noteq> []" using t(5) named \<open>ar_expected_approvers r0 = ar_expected_approvers r\<close> by auto
  moreover have d: "ar_decided_by r = responder_of cb" "ar_state r = (if cb_decision cb = Approve then ApprovalApproved else ApprovalDenied)"
    "ar_decided_at r = Some (case moment of Some t \<Rightarrow> t | None \<Rightarrow> cb_received_at cb)" using t(7) by simp_all
  moreover have "\<exists>at \<le> ar_expires_at r0. ar_decided_at r = Some at \<and> (moment = None \<longrightarrow> at = cb_received_at cb)"
    using d(3) t(6) by (intro exI [of _ "case moment of Some t \<Rightarrow> t | None \<Rightarrow> cb_received_at cb"]) simp
  ultimately show ?thesis using t(1,3-5) by metis
qed

end

section \<open>Properties\<close>

lemma new_service_empty:
  assumes "new_service b None s = Inr cs"
  shows "cs_bound cs = b \<and> lg_requests (cs_ledger cs) = [] \<and> lg_tenant_id (cs_ledger cs) = bb_tenant_id b"
  using assms by (auto simp: new_service_def new_ledger_def ebind_eq_Inr split: if_splits)

lemma bind_bridge_Inr:
  assumes "bind_bridge B s tenant ps = Inr b"
  shows "bb_bridge b = B \<and> bb_tenant_id b = tenant"
  using assms by (auto simp: bind_bridge_def Let_def split: if_splits)


text \<open>C27: A request that was answered, or that expired, is never changed again: no later click, true or
  forged, in time or late, turns a denial into an approval.\<close>

theorem answer_is_final:
  assumes "new_service b None s = Inr cs" and "channel_run cs hs cs1" and "ledger_get (cs_ledger cs1) k = Some r"
    and "ar_state r \<noteq> ApprovalPending" and "channel_run cs1 hs' cs2"
  shows "ledger_get (cs_ledger cs2) k = Some r \<and> decision_of cs2 k = ar_state r"
proof -
  have "keyed_ledger (cs_ledger cs1)" using channel_run_explained [OF assms(2)] new_service_empty [OF assms(1)] by simp
  then have "ledger_get (cs_ledger cs2) k = Some r"
    using channel_run_closed [OF assms(5) _ assms(3)] assms(4) by (simp add: closed_def)
  then show ?thesis by (simp add: decision_of_def)
qed

text \<open>A bridge is bound exactly if it speaks as a named service of its own that it can make, serves
  no other tenant than the one it is bound for, and is asked only for what it supports; for approvals
  that takes callbacks it can authenticate. The service then carries what was asked for and nothing else.\<close>

lemma binding_rule:
  "bind_bridge B s tenant ps = Inr b \<longleftrightarrow>
     (let c = br_capabilities B s; asked = (case ps of Some qs \<Rightarrow> qs | None \<Rightarrow> supported_purposes c) in
      bc_principal_kind c = PrincipalService \<and> bc_can_mint_bot_principal c \<and> bc_bot_principal_id c \<noteq> [] \<and>
      tenant \<noteq> [] \<and> bc_tenant_id c \<in> {[], tenant} \<and>
      (\<forall>p \<in> set asked. p = PurposeApprove \<longrightarrow> bc_interactive_callbacks c) \<and>
      b = \<lparr>bb_bridge = B, bb_capabilities = c, bb_tenant_id = tenant, bb_purposes = asked\<rparr>)"
proof -
  let ?c = "br_capabilities B s"
  let ?asked = "case ps of Some qs \<Rightarrow> qs | None \<Rightarrow> supported_purposes ?c"
  have post: "p \<in> set (supported_purposes ?c) \<longleftrightarrow> p = PurposeApprove \<longrightarrow> bc_interactive_callbacks ?c" for p
    by (cases p) (simp_all add: supported_purposes_def post_only_purposes_def)
  have "filter (\<lambda>p. p \<notin> set (supported_purposes ?c)) ?asked = [] \<longleftrightarrow> (\<forall>p \<in> set ?asked. p = PurposeApprove \<longrightarrow> bc_interactive_callbacks ?c)"
    using post by (simp add: filter_empty_conv)
  then show ?thesis unfolding bind_bridge_def Let_def by auto
qed

text \<open>A callback that is refused decides nothing: every request is as it was, but for one whose time
  had run out, which is marked expired.\<close>

theorem refused_click_decides_nothing:
  assumes "handle_callback p now moment cs = (cs', Inl err)" and "new_service b None s = Inr cs0" and "channel_run cs0 hs cs"
  shows "ledger_get (cs_ledger cs') k = ledger_get (cs_ledger cs) k \<or>
    (\<exists>r. ledger_get (cs_ledger cs) k = Some r \<and> ar_state r = ApprovalPending \<and>
       ledger_get (cs_ledger cs') k = Some (r\<lparr>ar_state := ApprovalExpired\<rparr>))"
proof -
  have keyed: "keyed_ledger (cs_ledger cs)" using channel_run_explained [OF assms(3)] new_service_empty [OF assms(2)] by simp
  show ?thesis
  proof (cases "br_resolve_approval (bridge_of cs) (cs_state cs) p now")
    case (Inl e)
    then show ?thesis using assms(1) by (simp add: handle_callback_def)
  next
    case (Inr cb)
    then obtain lg where r: "resolve_click cb moment (cs_ledger cs) = (lg, Inl err)" "cs' = cs\<lparr>cs_ledger := lg\<rparr>"
      using assms(1) by (auto simp: handle_callback_def split: prod.splits)
    then show ?thesis using keyed
      by (auto simp: resolve_click_def Let_def keyed_ledger_def ledger_get_put is_expired_def split: if_splits option.splits)
  qed
qed

section \<open>Witnesses\<close>

text \<open>A platform that answers every request with the id \<open>p1\<close>.\<close>

definition example_transport :: "unit transport" where
  "example_transport meth path body w = (w, Inr [(''id'', PStr ''p1'')])"

definition example_mattermost :: mattermost where
  "example_mattermost = \<lparr>mm_tenant_id = ''acme'', mm_bot_username = ''orgagents'', mm_bot_display_name = ''OrgAgents'',
     mm_callback_url = ''https://agents.test/cb'', mm_callback_token = ''s3cret''\<rparr>"

definition no_repr :: "pyval \<Rightarrow> string" where
  "no_repr v = []"

abbreviation example_bridge :: "unit mm_state bridge" where
  "example_bridge \<equiv> mattermost_bridge no_repr example_transport example_mattermost"

definition fresh_state :: "unit mm_state" where
  "fresh_state = \<lparr>ms_principals = [], ms_world = ()\<rparr>"

definition example_bound :: "unit mm_state bound_bridge" where
  "example_bound = \<lparr>bb_bridge = example_bridge, bb_capabilities = mm_capabilities example_mattermost, bb_tenant_id = ''acme'',
     bb_purposes = [PurposeApprove]\<rparr>"

definition example_service :: "unit mm_state channel_service" where
  "example_service = \<lparr>cs_bound = example_bound, cs_ledger = \<lparr>lg_tenant_id = ''acme'', lg_requests = []\<rparr>, cs_state = fresh_state\<rparr>"

definition example_ask :: ask where
  "example_ask = \<lparr>ak_agent_id = ''clerk'', ak_session_id = ''s1'', ak_channel_id = ''ops'', ak_question = ''Pay?'',
     ak_expected_approvers = [''ann@acme''], ak_detail = [], ak_expires_in_minutes = 60\<rparr>"

definition button :: "string \<Rightarrow> string \<Rightarrow> string \<Rightarrow> payload" where
  "button token who decision = [(''user_id'', PStr ''u1''), (''user_email'', PStr who), (''context'', PDict [(''token'', PStr token),
     (''request_id'', PStr ''apr_1''), (''tenant_id'', PStr ''acme''), (''decision'', PStr decision)])]"

lemma example_bind: "bind_bridge example_bridge fresh_state ''acme'' (Some [PurposeApprove]) = Inr example_bound"
  unfolding binding_rule by (simp add: mattermost_bridge_def mm_capabilities_def example_mattermost_def example_bound_def)

lemma example_new: "new_service example_bound None fresh_state = Inr example_service"
  by (simp add: new_service_def new_ledger_def example_bound_def example_service_def)

definition asked_service :: "unit mm_state channel_service" where
  "asked_service = fst (request_approval ''apr_1'' 0 example_ask example_service)"

definition approved_service :: "unit mm_state channel_service" where
  "approved_service = fst (handle_callback (button ''s3cret'' ''ann@acme'' ''approve'') 1000 None asked_service)"

definition pressed_again :: "unit mm_state channel_service" where
  "pressed_again = fst (handle_callback (button ''s3cret'' ''ann@acme'' ''deny'') 2000 None approved_service)"

lemma asked_run: "channel_run example_service [] asked_service"
proof -
  have "channel_step example_service [] asked_service"
    unfolding asked_service_def
    by (rule requesting [OF _ prod.collapse [symmetric]]) (simp add: example_service_def ledger_get_def)
  then show ?thesis using onward [OF start] by force
qed

lemma approved_click_run: "channel_run example_service [(button ''s3cret'' ''ann@acme'' ''approve'', 1000, None)] approved_service"
  using onward [OF asked_run clicking [OF prod.collapse [symmetric]]] unfolding approved_service_def by force

lemma pressed_again_run: "channel_run approved_service [(button ''s3cret'' ''ann@acme'' ''deny'', 2000, None)] pressed_again"
  using onward [OF start clicking [OF prod.collapse [symmetric]]] unfolding pressed_again_def by force

lemma approved_request:
  obtains r where "ledger_get (cs_ledger approved_service) ''apr_1'' = Some r" "ar_state r = ApprovalApproved" "ar_decided_by r = ''ann@acme''"
proof -
  have "(case ledger_get (cs_ledger approved_service) ''apr_1'' of None \<Rightarrow> False
     | Some r \<Rightarrow> ar_state r = ApprovalApproved \<and> ar_decided_by r = ''ann@acme'')" by code_simp
  then show ?thesis using that by (auto split: option.splits)
qed


theorem answer_is_final_witness: "decision_of pressed_again ''apr_1'' = ApprovalApproved"
proof -
  obtain r where r: "ledger_get (cs_ledger approved_service) ''apr_1'' = Some r" "ar_state r = ApprovalApproved"
    by (rule approved_request)
  then have "ar_state r \<noteq> ApprovalPending" by simp
  from answer_is_final [OF example_new approved_click_run r(1) this pressed_again_run] r(2) show ?thesis by simp
qed

theorem refused_click_decides_nothing_witness:
  "ledger_get (cs_ledger (fst (handle_callback (button ''guess'' ''ann@acme'' ''approve'') 1000 None asked_service))) ''apr_1'' \<noteq> None"
proof -
  let ?out = "handle_callback (button ''guess'' ''ann@acme'' ''approve'') 1000 None asked_service"
  have "(case snd ?out of Inl e \<Rightarrow> True | Inr r \<Rightarrow> False)" by code_simp
  then obtain e where h: "?out = (fst ?out, Inl e)" by (cases "snd ?out") (auto simp: prod_eq_iff)
  have "(case ledger_get (cs_ledger asked_service) ''apr_1'' of None \<Rightarrow> False | Some r \<Rightarrow> True)" by code_simp
  then show ?thesis
    using refused_click_decides_nothing [OF h example_new asked_run, of "''apr_1''"] by (auto split: option.splits)
qed

section \<open>What the adapter does not keep\<close>

text \<open>Nothing that is sent says which bot speaks: two agents with a bot each send the same request.\<close>

lemma posts_do_not_say_who_speaks:
  assumes "map_of (ms_principals s) a = Some p" and "map_of (ms_principals s) b = Some q" and "a \<noteq> []" and "b \<noteq> []"
  shows "fst (mm_post rp tr M ch words a s) = fst (mm_post rp tr M ch words b s)"
  using assms by (auto simp: mm_post_def identified_def mm_identify_def sent_def Let_def split: prod.splits sum.splits)

text \<open>A forged token outside ASCII is not refused: comparing it raises a \<open>TypeError\<close>.\<close>

lemma forged_token_is_a_type_error:
  "\<not> ascii token \<Longrightarrow> got p ''context'' = PDict [(''token'', PStr token)] \<Longrightarrow>
     mm_resolve_approval rp M p now = Inl (RaisedElsewhere ''TypeError'')"
  by (cases "token = []") (auto simp: mm_resolve_approval_def got_def first_text_def compare_digest_def ascii_def)

text \<open>Without an e-mail address the name a person chose stands for who they are.\<close>

lemma chosen_name_is_taken_for_a_contact:
  "(case resolve_click (projr (mm_resolve_approval no_repr example_mattermost
      [(''user_id'', PStr ''mallory''), (''user_name'', PStr ''ann@acme''), (''context'', PDict [(''token'', PStr ''s3cret''),
         (''request_id'', PStr ''apr_1''), (''tenant_id'', PStr ''acme''), (''decision'', PStr ''approve'')])] 1000)) None
      (cs_ledger asked_service) of
     (lg, Inr r) \<Rightarrow> ar_state r = ApprovalApproved \<and> ar_decided_by r = ''ann@acme'' | _ \<Rightarrow> False)"
  by code_simp

text \<open>A click on a request that was marked expired is refused as one already answered, by nobody.\<close>

lemma expired_request_is_refused_as_answered:
  "(case snd (handle_callback (button ''s3cret'' ''ann@acme'' ''approve'') 4000000000 None
       (fst (service_expire_due 4000000000 asked_service))) of
     Inl (ApprovalRefused k (AlreadyAnswered ApprovalExpired by_)) \<Rightarrow> k = ''apr_1'' \<and> by_ = [] | _ \<Rightarrow> False)"
  by code_simp

text \<open>A request that could not be posted stays open in the ledger.\<close>

lemma failed_post_leaves_the_request_open:
  assumes "carries (cs_bound cs) PurposeApprove" and "ledger_open fresh started a (cs_ledger cs) = Inr (r, lg)"
    and "br_open_approval (bridge_of cs) r (cs_state cs) = (s', Inl err)" and "ar_id r = fresh"
  shows "\<exists>cs'. request_approval fresh started a cs = (cs', Inl err) \<and> cs_ledger cs' = lg"
  using assms by (simp add: request_approval_def on_bridge_def)

end
