(* ===== verification/Humans.thy ===== *)
theory Humans
  imports Scheduling Channels
begin

text \<open>
  Human contact (\<open>humans.py\<close>): whether the people on a channel are available, when they next are, the
  plan for one request (when to deliver, when the reply is due, who is tried next), and the choice of
  a channel. Instants and wall clocks are those of \<open>Scheduling\<close>, with the data of time zones as a
  parameter; a holiday is the number of its day, counted as wall-clock days are.

  The search for the next working hours misses nothing, and fails only if there are none within the
  days it looks at (\<open>next_available_is_the_first\<close>, \<open>next_available_finds\<close>).
\<close>

section \<open>Availability\<close>

record working_hours =
  wh_timezone :: string
  wh_days :: "int list"
  wh_start_hour :: int
  wh_end_hour :: int
  wh_holidays :: "int list"

datatype routing_error =
    BadZone schedule_error | NoWorkingHours string | HourOutOfRange int | ForbiddenContent string "string list"
  | PurposeNotServed string channel_purpose "channel_purpose list"

definition hour_length :: int where
  "hour_length = 3600000000"

definition day_length :: int where
  "day_length = 24 * hour_length"

definition day_number :: "int \<Rightarrow> int" where
  "day_number l = l div day_length"

definition hour_at :: "int \<Rightarrow> int" where
  "hour_at l = l mod day_length div hour_length"

text \<open>\<open>weekday() + 1\<close>; day 0 was a Thursday.\<close>

definition iso_weekday :: "int \<Rightarrow> int" where
  "iso_weekday d = (d + 3) mod 7 + 1"

text \<open>On the wall clock.\<close>

definition open_at :: "working_hours \<Rightarrow> int \<Rightarrow> bool" where
  "open_at h l =
     (if day_number l \<in> set (wh_holidays h) then False
      else if iso_weekday (day_number l) \<notin> set (wh_days h) then False
      else wh_start_hour h \<le> hour_at l \<and> hour_at l < wh_end_hour h)"

definition zone_of :: "zone_db \<Rightarrow> working_hours \<Rightarrow> routing_error + zone" where
  "zone_of db h = (case resolve_timezone db (wh_timezone h) of Inl e \<Rightarrow> Inl (BadZone e) | Inr z \<Rightarrow> Inr z)"

definition is_available :: "zone_db \<Rightarrow> working_hours option \<Rightarrow> instant \<Rightarrow> routing_error + bool" where
  "is_available db hours moment =
     (case hours of
        None \<Rightarrow> Inr True
      | Some h \<Rightarrow> ebind (zone_of db h) (\<lambda>z. Inr (open_at h (zn_to_local z moment))))"

text \<open>\<open>local.replace(hour=start, minute=0, second=0, microsecond=0)\<close>, a \<open>ValueError\<close> for no hour of the day.\<close>

definition at_start :: "working_hours \<Rightarrow> int \<Rightarrow> routing_error + int" where
  "at_start h l =
     (if 0 \<le> wh_start_hour h \<and> wh_start_hour h < 24 then Inr (day_number l * day_length + wh_start_hour h * hour_length)
      else Inl (HourOutOfRange (wh_start_hour h)))"

fun search_open :: "nat \<Rightarrow> zone \<Rightarrow> working_hours \<Rightarrow> int \<Rightarrow> routing_error + instant" where
  "search_open 0 z h l = Inl (NoWorkingHours (wh_timezone h))"
| "search_open (Suc n) z h l =
     (if open_at h (zn_to_local z (zn_to_utc z l)) then Inr (zn_to_utc z l)
      else if iso_weekday (day_number l) \<in> set (wh_days h) \<and> hour_at l < wh_start_hour h
           then ebind (at_start h l) (search_open n z h)
      else ebind (at_start h (l + day_length)) (search_open n z h))"

definition next_available :: "zone_db \<Rightarrow> working_hours option \<Rightarrow> instant \<Rightarrow> routing_error + instant" where
  "next_available db hours moment =
     (case hours of
        None \<Rightarrow> Inr moment
      | Some h \<Rightarrow> ebind (is_available db hours moment) (\<lambda>now_open.
          if now_open then Inr moment
          else ebind (zone_of db h) (\<lambda>z. search_open 400 z h (zn_to_local z moment))))"

section \<open>Routing\<close>

datatype out_of_hours = QueueUntilOpen | EscalateNow | NotifyAnyway

record escalation_step =
  es_after_minutes :: int
  es_notify :: string
  es_channel :: "string option"
  es_note :: string

record contact_channel =
  cc_id :: string
  cc_human_facing :: bool
  cc_purposes :: "channel_purpose list"
  cc_working_hours :: "working_hours option"
  cc_response_sla_minutes :: "int option"
  cc_escalation :: "escalation_step list"
  cc_forbid_data_classes :: "string list"
  cc_out_of_hours :: out_of_hours

record escalation_hop =
  eh_due_at :: instant
  eh_notify :: string
  eh_channel :: string
  eh_note :: string

datatype plan_reason = WithinHours | QueuedUntilOpen | EscalatingAtOnce | DeliveringAnyway

record routing_plan =
  rp_channel :: string
  rp_purpose :: channel_purpose
  rp_deliver_at :: instant
  rp_deferred :: bool
  rp_sla_expires_at :: "instant option"
  rp_escalations :: "escalation_hop list"
  rp_reason :: plan_reason

definition due_hops :: "routing_plan \<Rightarrow> instant \<Rightarrow> escalation_hop list" where
  "due_hops p now = filter (\<lambda>h. eh_due_at h \<le> now) (rp_escalations p)"

definition breached :: "routing_plan \<Rightarrow> instant \<Rightarrow> bool" where
  "breached p now = (case rp_sla_expires_at p of None \<Rightarrow> False | Some t \<Rightarrow> now > t)"

definition check_content :: "contact_channel \<Rightarrow> string list \<Rightarrow> routing_error + unit" where
  "check_content c data_classes =
     (let forbidden = sorted_set (filter (\<lambda>d. d \<in> set data_classes) (cc_forbid_data_classes c))
      in if forbidden \<noteq> [] then Inl (ForbiddenContent (cc_id c) forbidden) else Inr ())"

text \<open>\<open>step.channel or channel.id\<close>.\<close>

definition step_channel :: "contact_channel \<Rightarrow> escalation_step \<Rightarrow> string" where
  "step_channel c st = (case es_channel st of Some k \<Rightarrow> if k \<noteq> [] then k else cc_id c | None \<Rightarrow> cc_id c)"

definition later_hop :: "contact_channel \<Rightarrow> instant \<Rightarrow> escalation_step \<Rightarrow> escalation_hop" where
  "later_hop c base st = \<lparr>eh_due_at = base + minutes_us (es_after_minutes st), eh_notify = es_notify st,
     eh_channel = step_channel c st, eh_note = es_note st\<rparr>"

definition first_hop :: "contact_channel \<Rightarrow> instant \<Rightarrow> escalation_step \<Rightarrow> escalation_hop" where
  "first_hop c now st = \<lparr>eh_due_at = now, eh_notify = es_notify st, eh_channel = step_channel c st,
     eh_note = (if es_note st \<noteq> [] then es_note st else ''out-of-hours escalation'')\<rparr>"

definition hops_of :: "contact_channel \<Rightarrow> bool \<Rightarrow> instant \<Rightarrow> instant \<Rightarrow> escalation_hop list" where
  "hops_of c available now base =
     (case cc_escalation c of
        st # rest \<Rightarrow>
          if \<not> available \<and> cc_out_of_hours c = EscalateNow then first_hop c now st # map (later_hop c base) rest
          else map (later_hop c base) (st # rest)
      | [] \<Rightarrow> [])"

definition route_plan :: "zone_db \<Rightarrow> contact_channel \<Rightarrow> channel_purpose \<Rightarrow> instant \<Rightarrow> string list \<Rightarrow> routing_error + routing_plan" where
  "route_plan db c purpose now data_classes =
     (if cc_purposes c \<noteq> [] \<and> purpose \<notin> set (cc_purposes c) then Inl (PurposeNotServed (cc_id c) purpose (cc_purposes c))
      else ebind (check_content c data_classes) (\<lambda>_.
      ebind (is_available db (cc_working_hours c) now) (\<lambda>available.
      ebind (if available then Inr (now, False, WithinHours)
             else (case cc_out_of_hours c of
               QueueUntilOpen \<Rightarrow> ebind (next_available db (cc_working_hours c) now) (\<lambda>t. Inr (t, True, QueuedUntilOpen))
             | EscalateNow \<Rightarrow> Inr (now, False, EscalatingAtOnce)
             | NotifyAnyway \<Rightarrow> Inr (now, False, DeliveringAnyway))) (\<lambda>(deliver_at, deferred, reason).
      Inr \<lparr>rp_channel = cc_id c, rp_purpose = purpose, rp_deliver_at = deliver_at, rp_deferred = deferred,
           rp_sla_expires_at = (case cc_response_sla_minutes c of
             Some m \<Rightarrow> if m \<noteq> 0 then Some (deliver_at + minutes_us m) else None | None \<Rightarrow> None),
           rp_escalations = sort_key eh_due_at (hops_of c available now deliver_at), rp_reason = reason\<rparr>))))"

section \<open>Choosing a channel\<close>

definition approval_channels :: "contact_channel list \<Rightarrow> contact_channel list" where
  "approval_channels cs = filter (\<lambda>c. cc_human_facing c \<and> PurposeApprove \<in> set (cc_purposes c)) cs"

text \<open>\<open>{cid: i for i, cid in enumerate(preferred)}\<close>.\<close>

definition preferred_order :: "string list \<Rightarrow> (string \<times> nat) list" where
  "preferred_order preferred = fold (\<lambda>(i, k). AList.update k i) (enumerate 0 preferred) []"

fun with_keys ::
  "zone_db \<Rightarrow> (string \<times> nat) list \<Rightarrow> instant \<Rightarrow> contact_channel list \<Rightarrow>
     routing_error + ((nat \<times> bool \<times> int) \<times> contact_channel) list" where
  "with_keys db order now [] = Inr []"
| "with_keys db order now (c # cs) =
     ebind (is_available db (cc_working_hours c) now) (\<lambda>available.
     ebind (with_keys db order now cs) (\<lambda>rest.
     Inr (((dict_get order (cc_id c) (length order), \<not> available,
            case cc_response_sla_minutes c of Some m \<Rightarrow> if m \<noteq> 0 then m else 1000000 | None \<Rightarrow> 1000000), c) # rest)))"

definition choose_channel ::
  "zone_db \<Rightarrow> contact_channel list \<Rightarrow> channel_purpose \<Rightarrow> string list \<Rightarrow> instant \<Rightarrow> routing_error + contact_channel option" where
  "choose_channel db cs purpose preferred now =
     (case filter (\<lambda>c. cc_human_facing c \<and> (cc_purposes c = [] \<or> purpose \<in> set (cc_purposes c))) cs of
        [] \<Rightarrow> Inr None
      | candidates \<Rightarrow>
          ebind (with_keys db (preferred_order preferred) now candidates) (\<lambda>keyed.
          Inr (Some (snd (hd (sort_key fst keyed))))))"

text \<open>The service asks for a plan as it is (\<open>ChannelService.routing_plan\<close>).\<close>

definition service_routing_plan ::
  "'s channel_service \<Rightarrow> zone_db \<Rightarrow> contact_channel \<Rightarrow> channel_purpose \<Rightarrow> instant \<Rightarrow> string list \<Rightarrow> routing_error + routing_plan" where
  "service_routing_plan cs db c purpose now data_classes = route_plan db c purpose now data_classes"

section \<open>The next working hours\<close>

lemma clock_pos [simp]: "0 < hour_length" "0 < day_length" "0 \<le> hour_length" "0 \<le> day_length" "day_length \<noteq> 0" "hour_length \<noteq> 0"
  by (simp_all add: day_length_def hour_length_def)

lemma day_split: "l = day_number l * day_length + l mod day_length"
  by (simp add: day_number_def)

lemma clock_bounds: "day_number l * day_length \<le> l" "l < (day_number l + 1) * day_length"
proof -
  have "0 \<le> l mod day_length" "l mod day_length < day_length" by simp_all
  then show "day_number l * day_length \<le> l" "l < (day_number l + 1) * day_length"
    using day_split [of l] unfolding distrib_right by linarith+
qed

lemma hour_mono:
  assumes "day_number u = day_number l" and "l \<le> u"
  shows "hour_at l \<le> hour_at u"
proof -
  have "l mod day_length \<le> u mod day_length" using day_split [of l] day_split [of u] assms(2) unfolding assms(1) by linarith
  then show ?thesis by (simp add: hour_at_def zdiv_mono1)
qed

lemma day_unique: "d * day_length \<le> u \<Longrightarrow> u < (d + 1) * day_length \<Longrightarrow> day_number u = d"
  unfolding day_number_def by (rule int_div_pos_eq [where r = "u - d * day_length"]) (auto simp: algebra_simps)

lemma before_start:
  assumes "start < 24" and "u < d * day_length + start * hour_length" and "d * day_length \<le> u"
  shows "day_number u = d" and "hour_at u < start"
proof -
  have "start * hour_length \<le> 24 * hour_length" using assms(1) by (intro mult_right_mono) simp_all
  then have "start * hour_length \<le> day_length" by (simp only: day_length_def)
  then have "u < (d + 1) * day_length" using assms(2) unfolding distrib_right by linarith
  then show d: "day_number u = d" using assms(3) by (rule day_unique [rotated])
  have "u mod day_length < start * hour_length" using day_split [of u, unfolded d] assms(2) by linarith
  moreover have "hour_at u * hour_length \<le> u mod day_length"
    unfolding hour_at_def using pos_mod_sign [of hour_length "u mod day_length"] div_mult_mod_eq [of "u mod day_length" hour_length]
    by (smt (verit) clock_pos(1))
  ultimately have "hour_at u * hour_length < start * hour_length" by linarith
  then show "hour_at u < start" by (simp add: mult_less_cancel_right)
qed

lemma at_start_hour:
  assumes "0 \<le> start" and "start < 24"
  shows "day_number (d * day_length + start * hour_length) = d" and "hour_at (d * day_length + start * hour_length) = start"
proof -
  have lt: "start * hour_length < day_length"
    using assms(2) mult_strict_right_mono [of start 24 hour_length] by (simp add: day_length_def)
  have ge: "0 \<le> start * hour_length" using assms(1) by (rule mult_nonneg_nonneg) simp
  show "day_number (d * day_length + start * hour_length) = d"
    using lt ge by (intro day_unique) (auto simp: algebra_simps)
  have "(d * day_length + start * hour_length) mod day_length = start * hour_length" using lt ge by simp
  then show "hour_at (d * day_length + start * hour_length) = start" by (simp add: hour_at_def)
qed

text \<open>Where the search goes on.\<close>

definition jump :: "working_hours \<Rightarrow> int \<Rightarrow> int" where
  "jump h l = (if iso_weekday (day_number l) \<in> set (wh_days h) \<and> hour_at l < wh_start_hour h
     then day_number l * day_length + wh_start_hour h * hour_length
     else (day_number l + 1) * day_length + wh_start_hour h * hour_length)"

lemma jump_skips_closed:
  assumes "\<not> open_at h l" and "wh_start_hour h < 24" and "l \<le> u" and "u < jump h l"
  shows "\<not> open_at h u"
proof (cases "day_number u = day_number l")
  case True
  show ?thesis
  proof (cases "iso_weekday (day_number l) \<in> set (wh_days h) \<and> hour_at l < wh_start_hour h")
    case early: True
    then have "u < day_number l * day_length + wh_start_hour h * hour_length" using assms(4) by (simp add: jump_def)
    moreover have "day_number l * day_length \<le> u" using clock_bounds(1) [of u] True by simp
    ultimately have "hour_at u < wh_start_hour h" by (rule before_start(2) [OF assms(2)])
    then show ?thesis by (simp add: open_at_def)
  next
    case False
    then show ?thesis using assms(1) hour_mono [OF True assms(3)] True by (auto simp: open_at_def split: if_splits)
  qed
next
  case False
  have "day_number l \<le> day_number u" using assms(3) by (simp add: day_number_def zdiv_mono1)
  then have "day_number l + 1 \<le> day_number u" using False by simp
  then have le: "(day_number l + 1) * day_length \<le> u"
    by (rule order_trans [OF mult_right_mono [OF _ clock_pos(4)] clock_bounds(1)])
  have "\<not> (iso_weekday (day_number l) \<in> set (wh_days h) \<and> hour_at l < wh_start_hour h)"
  proof
    assume "iso_weekday (day_number l) \<in> set (wh_days h) \<and> hour_at l < wh_start_hour h"
    then have "u < day_number l * day_length + wh_start_hour h * hour_length" using assms(4) by (simp add: jump_def)
    moreover have "day_number l * day_length \<le> u" using le clock_pos(4) unfolding distrib_right by linarith
    ultimately have "day_number u = day_number l" by (rule before_start(1) [OF assms(2)])
    then show False using \<open>day_number l + 1 \<le> day_number u\<close> by simp
  qed
  then have "u < (day_number l + 1) * day_length + wh_start_hour h * hour_length" using assms(4) by (simp only: jump_def if_False)
  from before_start(2) [OF assms(2) this le] show ?thesis by (simp add: open_at_def)
qed

lemma jump_later:
  assumes "0 \<le> wh_start_hour h" and "wh_start_hour h < 24"
  shows "l < jump h l"
proof (cases "iso_weekday (day_number l) \<in> set (wh_days h) \<and> hour_at l < wh_start_hour h")
  case True
  have "\<not> jump h l \<le> l"
  proof
    assume "jump h l \<le> l"
    then have le: "day_number l * day_length + wh_start_hour h * hour_length \<le> l" using True by (simp add: jump_def)
    have "hour_at (day_number l * day_length + wh_start_hour h * hour_length) \<le> hour_at l"
      using at_start_hour [OF assms] by (intro hour_mono [OF _ le]) simp
    then show False using at_start_hour [OF assms] True by simp
  qed
  then show ?thesis by simp
next
  case False
  then have "jump h l = (day_number l + 1) * day_length + wh_start_hour h * hour_length" by (simp only: jump_def if_False)
  moreover have "0 \<le> wh_start_hour h * hour_length" using assms(1) by (rule mult_nonneg_nonneg) simp
  ultimately show ?thesis using clock_bounds(2) [of l] by linarith
qed

definition still_zone :: "zone \<Rightarrow> int \<Rightarrow> bool" where
  "still_zone z off \<longleftrightarrow> (\<forall>t. zn_to_local z t = t + off) \<and> (\<forall>l. zn_to_utc z l = l - off)"

lemma search_open_step:
  assumes "still_zone z off" and "0 \<le> wh_start_hour h" and "wh_start_hour h < 24"
  shows "search_open (Suc n) z h l = (if open_at h l then Inr (l - off) else search_open n z h (jump h l))"
proof -
  have "day_number (l + day_length) = day_number l + 1" unfolding day_number_def by (rule div_add_self2) simp
  then show ?thesis using assms by (simp add: still_zone_def jump_def at_start_def)
qed

lemma search_open_first:
  assumes "still_zone z off" and "0 \<le> wh_start_hour h" and "wh_start_hour h < 24" and "search_open n z h l = Inr t"
  shows "l \<le> t + off \<and> open_at h (t + off) \<and> (\<forall>u. l \<le> u \<longrightarrow> u < t + off \<longrightarrow> \<not> open_at h u)"
  using assms(4)
proof (induction n arbitrary: l)
  case (Suc n)
  show ?case
  proof (cases "open_at h l")
    case True
    then show ?thesis using Suc.prems search_open_step [OF assms(1-3), of n l] by simp
  next
    case False
    then have "search_open n z h (jump h l) = Inr t" using Suc.prems search_open_step [OF assms(1-3), of n l] by simp
    from Suc.IH [OF this] have IH: "jump h l \<le> t + off" "open_at h (t + off)" "\<And>u. jump h l \<le> u \<Longrightarrow> u < t + off \<Longrightarrow> \<not> open_at h u"
      by auto
    have "\<not> open_at h u" if "l \<le> u" "u < t + off" for u
      using jump_skips_closed [OF False assms(3) that(1)] IH(3) that(2) by (cases "u < jump h l") simp_all
    then show ?thesis using IH jump_later [OF assms(2,3), of l] by auto
  qed
qed simp

text \<open>The search looks at the days from the first on, one start of hours each, so it finds the hours of any
  working day it gets to.\<close>

definition working_day :: "working_hours \<Rightarrow> int \<Rightarrow> bool" where
  "working_day h d \<longleftrightarrow> d \<notin> set (wh_holidays h) \<and> iso_weekday d \<in> set (wh_days h)"

definition opens_on :: "working_hours \<Rightarrow> int \<Rightarrow> int" where
  "opens_on h d = d * day_length + wh_start_hour h * hour_length"

lemma opening_open:
  assumes "0 \<le> wh_start_hour h" and "wh_start_hour h < wh_end_hour h" and "wh_start_hour h < 24" and "working_day h d"
  shows "open_at h (opens_on h d)"
  using at_start_hour [OF assms(1,3), of d] assms(2,4) by (simp add: open_at_def working_day_def opens_on_def)

lemma search_from_opening:
  assumes "still_zone z off" and "0 \<le> wh_start_hour h" and "wh_start_hour h < wh_end_hour h" and "wh_start_hour h < 24"
    and "working_day h d" and "e \<le> d" and "d - e < int n"
  shows "\<exists>t. search_open n z h (opens_on h e) = Inr t"
  using assms(6,7)
proof (induction n arbitrary: e)
  case (Suc n)
  note step = search_open_step [OF assms(1,2,4), of n "opens_on h e"]
  show ?case
  proof (cases "open_at h (opens_on h e)")
    case True
    then show ?thesis using step by simp
  next
    case False
    then have "e \<noteq> d" using opening_open [OF assms(2-5)] by auto
    moreover have "jump h (opens_on h e) = opens_on h (e + 1)"
      using at_start_hour [OF assms(2,4), of e] by (simp add: jump_def opens_on_def)
    ultimately show ?thesis using Suc.IH [of "e + 1"] Suc.prems step False by simp
  qed
qed simp

lemma search_open_finds:
  assumes "still_zone z off" and "0 \<le> wh_start_hour h" and "wh_start_hour h < wh_end_hour h" and "wh_start_hour h < 24"
    and "working_day h d" and "l \<le> opens_on h d" and "d - day_number l < int n"
  shows "\<exists>t. search_open (Suc n) z h l = Inr t"
proof (cases "open_at h l")
  case True
  then show ?thesis using search_open_step [OF assms(1,2,4), of n l] by simp
next
  case False
  define e where "e = (if iso_weekday (day_number l) \<in> set (wh_days h) \<and> hour_at l < wh_start_hour h
    then day_number l else day_number l + 1)"
  have j: "jump h l = opens_on h e" by (simp add: jump_def opens_on_def e_def)
  have "opens_on h e \<le> opens_on h d"
    using jump_skips_closed [OF False assms(4,6)] opening_open [OF assms(2-5)] j by (metis not_le)
  then have "e \<le> d" by (simp add: opens_on_def)
  moreover have "d - e < int n" using assms(7) by (simp add: e_def split: if_splits)
  ultimately obtain t where "search_open n z h (opens_on h e) = Inr t"
    using search_from_opening [OF assms(1-5)] by blast
  then show ?thesis using search_open_step [OF assms(1,2,4), of n l] False j by simp
qed

lemma next_available_is_the_first_aux:
  assumes "zone_of db h = Inr z" and "still_zone z off" and "0 \<le> wh_start_hour h" and "wh_start_hour h < wh_end_hour h"
    and "wh_start_hour h < 24"
  shows "case next_available db (Some h) moment of
      Inr t \<Rightarrow> moment \<le> t \<and> is_available db (Some h) t = Inr True \<and>
        (\<forall>u. moment \<le> u \<and> u < t \<longrightarrow> is_available db (Some h) u = Inr False)
    | Inl _ \<Rightarrow> \<forall>d. working_day h d \<longrightarrow> moment + off \<le> opens_on h d \<longrightarrow> d > day_number (moment + off) + 398"
proof -
  have avail: "is_available db (Some h) t = Inr (open_at h (t + off))" for t
    using assms(1,2) by (simp add: is_available_def still_zone_def)
  show ?thesis
  proof (cases "open_at h (moment + off)")
    case True
    then show ?thesis by (auto simp: next_available_def avail)
  next
    case False
    then have n: "next_available db (Some h) moment = search_open 400 z h (moment + off)"
      using assms(1,2) by (simp add: next_available_def avail still_zone_def del: search_open.simps)
    show ?thesis
    proof (cases "search_open 400 z h (moment + off)")
      case (Inr t)
      from search_open_first [OF assms(2,3,5) Inr]
      have f: "moment \<le> t" "open_at h (t + off)" "\<And>u. moment + off \<le> u \<Longrightarrow> u < t + off \<Longrightarrow> \<not> open_at h u" by auto
      have "\<not> open_at h (u + off)" if "moment \<le> u" "u < t" for u using f(3) [of "u + off"] that by simp
      then show ?thesis using n Inr f by (simp add: avail)
    next
      case (Inl err)
      have "\<not> (d - day_number (moment + off) < int 399)" if "working_day h d" "moment + off \<le> opens_on h d" for d
        using search_open_finds [OF assms(2-5) that, of 399] Inl by auto
      then show ?thesis using n Inl by fastforce
    qed
  qed
qed

section \<open>Properties\<close>


text \<open>A plan is made only for a purpose the channel serves and content it allows. It delivers no
  earlier than now, with the escalations in the order they are due; one that waits for working hours
  delivers at the first moment they are open, so nobody is contacted out of hours unless the channel
  says so.\<close>

theorem plan_waits_for_open_hours:
  assumes "route_plan db c purpose now data_classes = Inr p" and "cc_working_hours c = Some h"
    and "zone_of db h = Inr z" and "still_zone z off" and "0 \<le> wh_start_hour h" and "wh_start_hour h < wh_end_hour h"
    and "wh_start_hour h < 24"
  shows "(cc_purposes c \<noteq> [] \<longrightarrow> purpose \<in> set (cc_purposes c)) \<and> set (cc_forbid_data_classes c) \<inter> set data_classes = {} \<and>
    now \<le> rp_deliver_at p \<and> sorted (map eh_due_at (rp_escalations p)) \<and> length (rp_escalations p) = length (cc_escalation c) \<and>
    (cc_out_of_hours c = QueueUntilOpen \<longrightarrow> is_available db (Some h) (rp_deliver_at p) = Inr True \<and>
       (\<forall>u. now \<le> u \<and> u < rp_deliver_at p \<longrightarrow> is_available db (Some h) u = Inr False)) \<and>
    (cc_out_of_hours c \<noteq> QueueUntilOpen \<longrightarrow> rp_deliver_at p = now)"
proof -
  have served: "\<not> (cc_purposes c \<noteq> [] \<and> purpose \<notin> set (cc_purposes c))"
    using assms(1) by (rule contrapos_pn) (simp add: route_plan_def)
  have allowed: "check_content c data_classes = Inr ()"
    using assms(1) served by (cases "check_content c data_classes") (simp_all add: route_plan_def)
  obtain available where a: "is_available db (Some h) now = Inr available"
    using assms(1,2) served allowed by (cases "is_available db (Some h) now") (simp_all add: route_plan_def)
  define timing where "timing = (if available then Inr (now, False, WithinHours)
             else (case cc_out_of_hours c of
               QueueUntilOpen \<Rightarrow> ebind (next_available db (Some h) now) (\<lambda>t. Inr (t, True, QueuedUntilOpen))
             | EscalateNow \<Rightarrow> Inr (now, False, EscalatingAtOnce)
             | NotifyAnyway \<Rightarrow> Inr (now, False, DeliveringAnyway)))"
  have plan: "ebind timing (\<lambda>(deliver_at, deferred, reason).
      Inr \<lparr>rp_channel = cc_id c, rp_purpose = purpose, rp_deliver_at = deliver_at, rp_deferred = deferred,
           rp_sla_expires_at = (case cc_response_sla_minutes c of
             Some m \<Rightarrow> if m \<noteq> 0 then Some (deliver_at + minutes_us m) else None | None \<Rightarrow> None),
           rp_escalations = sort_key eh_due_at (hops_of c available now deliver_at), rp_reason = reason\<rparr>) = Inr p"
    using assms(1) served unfolding route_plan_def assms(2) allowed a ebind_simps timing_def by (simp only: if_False)
  then obtain deliver_at deferred reason where d: "timing = Inr (deliver_at, deferred, reason)" by (cases timing) auto
  then have p: "rp_deliver_at p = deliver_at" "rp_escalations p = sort_key eh_due_at (hops_of c available now deliver_at)"
    using plan by auto
  have content: "set (cc_forbid_data_classes c) \<inter> set data_classes = {}"
    using allowed set_sorted_set [of "filter (\<lambda>d. d \<in> set data_classes) (cc_forbid_data_classes c)"]
    by (auto simp: check_content_def Let_def simp del: set_sorted_set split: if_splits)
  have len: "length (hops_of c available now deliver_at) = length (cc_escalation c)"
    by (simp add: hops_of_def split: list.split)
  have "now \<le> deliver_at \<and> (cc_out_of_hours c = QueueUntilOpen \<longrightarrow> is_available db (Some h) deliver_at = Inr True \<and>
       (\<forall>u. now \<le> u \<and> u < deliver_at \<longrightarrow> is_available db (Some h) u = Inr False)) \<and>
    (cc_out_of_hours c \<noteq> QueueUntilOpen \<longrightarrow> deliver_at = now)"
  proof (cases "available \<or> cc_out_of_hours c \<noteq> QueueUntilOpen")
    case True
    then have "deliver_at = now" using d unfolding timing_def by (cases available; cases "cc_out_of_hours c") simp_all
    then show ?thesis using a True by auto
  next
    case False
    then have n: "next_available db (Some h) now = Inr deliver_at"
      using d unfolding timing_def by (cases "next_available db (Some h) now") simp_all
    show ?thesis using next_available_is_the_first_aux [OF assms(3-7), of now] False unfolding n sum.case by blast
  qed
  moreover have "cc_purposes c \<noteq> [] \<longrightarrow> purpose \<in> set (cc_purposes c)" using served by blast
  ultimately show ?thesis using p content len by simp
qed

section \<open>Witnesses\<close>

definition office :: working_hours where
  "office = \<lparr>wh_timezone = ''UTC'', wh_days = [1, 2, 3, 4, 5], wh_start_hour = 9, wh_end_hour = 17, wh_holidays = [1]\<rparr>"

definition no_zone_data :: zone_db where
  "no_zone_data name = None"

definition office_channel :: contact_channel where
  "office_channel = \<lparr>cc_id = ''ops'', cc_human_facing = True, cc_purposes = [PurposeApprove], cc_working_hours = Some office,
     cc_response_sla_minutes = Some 30, cc_escalation = [\<lparr>es_after_minutes = 60, es_notify = ''head'', es_channel = None, es_note = []\<rparr>],
     cc_forbid_data_classes = [''secret''], cc_out_of_hours = QueueUntilOpen\<rparr>"

lemma office_zone: "zone_of no_zone_data office = Inr utc_zone" "still_zone utc_zone 0"
  by (simp_all add: zone_of_def resolve_timezone_def no_zone_data_def office_def py_upper_def char_upper_def still_zone_def utc_zone_def)

lemma office_hours: "0 \<le> wh_start_hour office" "wh_start_hour office < wh_end_hour office" "wh_start_hour office < 24"
  by (simp_all add: office_def)


theorem plan_waits_for_open_hours_witness:
  "\<exists>p. route_plan no_zone_data office_channel PurposeApprove (18 * 3600000000) [''public''] = Inr p \<and>
     is_available no_zone_data (Some office) (rp_deliver_at p) = Inr True \<and> length (rp_escalations p) = 1"
proof -
  let ?r = "route_plan no_zone_data office_channel PurposeApprove (18 * 3600000000) [''public'']"
  have "(case ?r of Inl e \<Rightarrow> False | Inr p \<Rightarrow> True)" by code_simp
  then obtain p where p: "?r = Inr p" by (cases ?r) auto
  have h: "cc_working_hours office_channel = Some office" by (simp add: office_channel_def)
  from plan_waits_for_open_hours [OF p h office_zone office_hours] p show ?thesis by (simp add: office_channel_def)
qed

section \<open>Hours the model cannot say\<close>

text \<open>Hours that pass midnight are never open, and the search for them fails.\<close>

lemma night_shift_is_never_available:
  "wh_end_hour h \<le> wh_start_hour h \<Longrightarrow> \<not> open_at h l"
  by (simp add: open_at_def)

text \<open>A reply that is due at once counts as the slowest when a channel is chosen.\<close>

definition sla_channel :: "string \<Rightarrow> int \<Rightarrow> contact_channel" where
  "sla_channel k m = office_channel\<lparr>cc_id := k, cc_response_sla_minutes := Some m\<rparr>"

lemma immediate_channel_is_chosen_last:
  "(case choose_channel no_zone_data [sla_channel ''at_once'' 0, sla_channel ''in_a_day'' 1440] PurposeApprove [] 0 of
     Inr (Some c) \<Rightarrow> cc_id c = ''in_a_day'' | _ \<Rightarrow> False)"
  by code_simp

end
