(* ===== verification/AgentLinks.thy ===== *)
theory AgentLinks
  imports Continuity PyValue
begin

text \<open>
  Who may reach whom over the bus (\<open>compiler/links.py\<close>), with the subjects it is spelled in
  (\<open>SubjectNamespace\<close> of \<open>bus.py\<close>). A compiled edge is the list of its grants, oldest first; a
  grant has a window only when one of its dates is set. \<open>compute_edges\<close> reads the compiled agents,
  teams, flows and unit links; \<open>agent_links\<close> is each agent's own configuration and
  \<open>nats_permissions\<close> what the broker lets its connection do. The lemmas show that a standing
  delegation edge is a declared one, that a dated one comes from a mission, that what one agent may
  send is what the other may receive, and that the broker's inboxes are the outbound edges.
  \<open>str.isalnum\<close> is its ASCII part. The text of the broker's configuration file is not modelled.
\<close>

section \<open>Subjects\<close>

definition is_alnum :: "char \<Rightarrow> bool" where
  "is_alnum c = (let n = (of_char c :: nat) in
     (48 \<le> n \<and> n \<le> 57) \<or> (65 \<le> n \<and> n \<le> 90) \<or> (97 \<le> n \<and> n \<le> 122))"

definition token_char :: "char \<Rightarrow> char" where
  "token_char c = (if is_alnum c \<or> c = CHR 0x2D \<or> c = CHR 0x5F then c else CHR 0x2D)"

definition bus_token :: "string \<Rightarrow> string" where
  "bus_token v = (case map token_char v of [] \<Rightarrow> ''unknown'' | t \<Rightarrow> t)"

record subject_namespace =
  ns_tenant :: string
  ns_root :: string

definition subject_root :: string where
  "subject_root = ''orgagents''"

definition subj_prefix :: "subject_namespace \<Rightarrow> string" where
  "subj_prefix n = ns_root n @ ''.'' @ bus_token (ns_tenant n)"

definition subj_agent :: "subject_namespace \<Rightarrow> string \<Rightarrow> string" where
  "subj_agent n a = subj_prefix n @ ''.agent.'' @ bus_token a"

definition subj_inbox :: "subject_namespace \<Rightarrow> string \<Rightarrow> string \<Rightarrow> string" where
  "subj_inbox n receiver sender = subj_agent n receiver @ ''.inbox.'' @ bus_token sender"

definition subj_reply :: "subject_namespace \<Rightarrow> string \<Rightarrow> string \<Rightarrow> string" where
  "subj_reply n receiver sender = subj_agent n receiver @ ''.reply.'' @ bus_token sender"

definition subj_mailbox :: "subject_namespace \<Rightarrow> string \<Rightarrow> string" where
  "subj_mailbox n a = subj_agent n a @ ''.>''"

definition agents_wildcard :: "subject_namespace \<Rightarrow> string" where
  "agents_wildcard n = subj_prefix n @ ''.agent.>''"

definition subj_stream :: "subject_namespace \<Rightarrow> string" where
  "subj_stream n = ''ORGAGENTS_'' @
     map (\<lambda>c. if c = CHR 0x2D then CHR 0x5F else c) (py_upper (bus_token (ns_tenant n)))"

definition subj_consumer :: "string \<Rightarrow> string" where
  "subj_consumer a = ''agent_'' @ bus_token a"

definition bus_inbox_prefix :: "string \<Rightarrow> string" where
  "bus_inbox_prefix a = ''_INBOX_'' @ bus_token a"

definition env_suffix :: "string \<Rightarrow> string" where
  "env_suffix a = py_upper (map (\<lambda>c. if is_alnum c then c else CHR 0x5F) a)"

definition bus_nkey_ref :: "string \<Rightarrow> string" where
  "bus_nkey_ref a = ''ORGAGENTS_BUS_NKEY_'' @ env_suffix a"

definition bus_seed_ref :: "string \<Rightarrow> string" where
  "bus_seed_ref a = ''ORGAGENTS_BUS_SEED_'' @ env_suffix a"

section \<open>What is compiled\<close>

record ir_mission_grant = mission_grant +
  gr_mission :: string

record ir_agent =
  ia_id :: string
  ia_team_id :: string
  ia_leader_of :: "string option"
  ia_reports_to :: "string option"
  ia_shared_service :: bool
  ia_decisions :: "string list"
  ia_max_depth :: int
  ia_standing :: "string list"
  ia_missions :: "ir_mission_grant list"
  ia_consults :: "string list"
  ia_notifies :: "string list"
  ia_escalations :: "string list"

record ir_team =
  it_id :: string
  it_parent_id :: "string option"
  it_leader :: string

datatype flow_kind = FlowDelegate | FlowConsult | FlowNotify | FlowEscalate

record ir_flow =
  if_source :: string
  if_target :: string
  if_kind :: flow_kind

datatype unit_link_kind = Oversees | EscalatesTo | Serves | PartnersWith

fun unit_link_kind_value :: "unit_link_kind \<Rightarrow> string" where
  "unit_link_kind_value Oversees = ''oversees''"
| "unit_link_kind_value EscalatesTo = ''escalates_to''"
| "unit_link_kind_value Serves = ''serves''"
| "unit_link_kind_value PartnersWith = ''partners_with''"

record ir_unit_link =
  iu_source :: string
  iu_target :: string
  iu_kind :: unit_link_kind

record bus_ir =
  bi_tenant :: "string option"
  bi_agents :: "ir_agent list"
  bi_teams :: "ir_team list"
  bi_flows :: "ir_flow list"
  bi_unit_links :: "ir_unit_link list"
  bi_separations :: "separation list"

definition subjects_for :: "bus_ir \<Rightarrow> subject_namespace" where
  "subjects_for ir =
     \<lparr>ns_tenant = (case bi_tenant ir of Some t \<Rightarrow> t | None \<Rightarrow> ''local''), ns_root = subject_root\<rparr>"

section \<open>Edges\<close>

datatype link_kind = Delegate | Message

fun link_kind_value :: "link_kind \<Rightarrow> string" where
  "link_kind_value Delegate = ''delegate''"
| "link_kind_value Message = ''message''"

record link_grant =
  lg_kind :: link_kind
  lg_via :: string
  lg_window :: "(date_text \<times> date_text) option"

type_synonym edge_map = "(string \<times> link_grant list) list"

type_synonym edges = "(string \<times> edge_map) list"

fun date_set :: "date_text \<Rightarrow> bool" where
  "date_set NoDate = False"
| "date_set (BadDate s) = (s \<noteq> [])"
| "date_set (Day d) = True"

definition made_grant :: "link_kind \<Rightarrow> string \<Rightarrow> date_text \<Rightarrow> date_text \<Rightarrow> link_grant" where
  "made_grant k via s e =
     \<lparr>lg_kind = k, lg_via = via, lg_window = (if date_set s \<or> date_set e then Some (s, e) else None)\<rparr>"

definition outs_of :: "edges \<Rightarrow> string \<Rightarrow> edge_map" where
  "outs_of es a = dict_get es a []"

definition grants_of :: "edges \<Rightarrow> string \<Rightarrow> string \<Rightarrow> link_grant list" where
  "grants_of es a b = dict_get (outs_of es a) b []"

definition edges_add :: "string list \<Rightarrow> string \<Rightarrow> string \<Rightarrow> link_grant \<Rightarrow> edges \<Rightarrow> edges" where
  "edges_add known src dst g es =
     (if src = [] \<or> dst = [] \<or> src = dst then es
      else if src \<notin> set known \<or> dst \<notin> set known then es
      else (let gs = grants_of es src dst in
            AList.update src
              (AList.update dst (if g \<in> set gs then gs else gs @ [g]) (outs_of es src)) es))"

definition find_agent :: "bus_ir \<Rightarrow> string \<Rightarrow> ir_agent option" where
  "find_agent ir a = List.find (\<lambda>x. ia_id x = a) (rev (bi_agents ir))"

definition link_team_leader :: "bus_ir \<Rightarrow> string \<Rightarrow> string" where
  "link_team_leader ir t =
     (case List.find (\<lambda>x. it_id x = t) (rev (bi_teams ir)) of Some x \<Rightarrow> it_leader x | None \<Rightarrow> [])"

text \<open>The team an agent leads: its members, and the leaders of its sub-teams.\<close>

definition led_members :: "bus_ir \<Rightarrow> ir_agent \<Rightarrow> string list" where
  "led_members ir a =
     (case ia_leader_of a of
        None \<Rightarrow> []
      | Some t \<Rightarrow> if t = [] then []
          else map ia_id (filter (\<lambda>m. ia_team_id m = t) (bi_agents ir)) @
               map it_leader (filter (\<lambda>x. it_parent_id x = Some t \<and> it_leader x \<noteq> []) (bi_teams ir)))"

definition standing_via :: "bus_ir \<Rightarrow> ir_agent \<Rightarrow> string \<Rightarrow> string" where
  "standing_via ir a dst =
     (if dst \<in> set (led_members ir a)
      then ''leads:'' @ (case ia_leader_of a of Some t \<Rightarrow> t | None \<Rightarrow> ''None'')
      else (case find_agent ir dst of
              Some x \<Rightarrow> if ia_shared_service x then ''shared_service'' else ''delegates_to''
            | None \<Rightarrow> ''delegates_to''))"

text \<open>The grants one agent's own declarations ask for, in the order they are added.\<close>

definition plain_grant :: "link_kind \<Rightarrow> string \<Rightarrow> link_grant" where
  "plain_grant k via = made_grant k via NoDate NoDate"

definition agent_requests :: "bus_ir \<Rightarrow> ir_agent \<Rightarrow> (string \<times> link_grant) list" where
  "agent_requests ir a =
     map (\<lambda>d. (d, plain_grant Delegate (standing_via ir a d))) (ia_standing a) @
     map (\<lambda>d. (d, plain_grant Message ''flow:consult'')) (ia_consults a) @
     map (\<lambda>d. (d, plain_grant Message ''flow:notify'')) (ia_notifies a) @
     map (\<lambda>d. (d, plain_grant Message ''flow:escalate'')) (ia_escalations a) @
     (case ia_reports_to a of
        None \<Rightarrow> [] | Some r \<Rightarrow> if r = [] then [] else [(r, plain_grant Message ''reports_to'')]) @
     concat (map (\<lambda>g. map (\<lambda>d. (d, made_grant Delegate (''mission:'' @ gr_mission g)
                                     (gr_starts_on g) (gr_ends_on g)))
                          (filter (\<lambda>d. d \<notin> set (ia_standing a)) (gr_peers g)))
                 (ia_missions a))"

definition known_ids :: "bus_ir \<Rightarrow> string list" where
  "known_ids ir = map ia_id (bi_agents ir)"

definition no_edges :: "bus_ir \<Rightarrow> edges" where
  "no_edges ir = map (\<lambda>a. (a, [])) (fromkeys (known_ids ir))"

definition add_requests :: "bus_ir \<Rightarrow> ir_agent \<Rightarrow> edges \<Rightarrow> edges" where
  "add_requests ir a es =
     foldl (\<lambda>es (d, g). edges_add (known_ids ir) (ia_id a) d g es) es (agent_requests ir a)"

text \<open>A delegate flow only names the grant the standing list already gave.\<close>

definition renamed :: "link_grant \<Rightarrow> link_grant" where
  "renamed g = (if lg_kind g = Delegate \<and> lg_via g = ''delegates_to''
                then g\<lparr>lg_via := ''flow:delegate''\<rparr> else g)"

definition name_flow :: "edges \<Rightarrow> ir_flow \<Rightarrow> edges" where
  "name_flow es f =
     (if if_kind f \<noteq> FlowDelegate then es
      else (case map_of (outs_of es (if_source f)) (if_target f) of
              None \<Rightarrow> es
            | Some gs \<Rightarrow> AList.update (if_source f)
                (AList.update (if_target f) (map renamed gs) (outs_of es (if_source f))) es))"

definition add_unit_link :: "bus_ir \<Rightarrow> edges \<Rightarrow> ir_unit_link \<Rightarrow> edges" where
  "add_unit_link ir es l =
     (let src = link_team_leader ir (iu_source l); dst = link_team_leader ir (iu_target l);
          arrow = iu_source l @ ''->'' @ iu_target l
      in if iu_kind l \<in> {Oversees, EscalatesTo}
         then edges_add (known_ids ir) src dst
                (plain_grant Message (''unit_link:'' @ unit_link_kind_value (iu_kind l) @ '':'' @ arrow)) es
         else if iu_kind l = Serves
         then edges_add (known_ids ir) dst src (plain_grant Message (''unit_link:serves:'' @ arrow)) es
         else es)"

definition compute_edges :: "bus_ir \<Rightarrow> edges" where
  "compute_edges ir =
     foldl (add_unit_link ir)
       (foldl name_flow (foldl (\<lambda>es a. add_requests ir a es) (no_edges ir) (bi_agents ir)) (bi_flows ir))
       (bi_unit_links ir)"

section \<open>Each agent's configuration\<close>

definition separated_decisions :: "separation list \<Rightarrow> string list" where
  "separated_decisions rules = concat (map sp_decisions rules)"

definition separated_holdings :: "bus_ir \<Rightarrow> (string \<times> string list) list" where
  "separated_holdings ir =
     foldl (\<lambda>h a. case sorted_set (filter (\<lambda>d. d \<in> set (separated_decisions (bi_separations ir))) (ia_decisions a)) of
                    [] \<Rightarrow> h
                  | held \<Rightarrow> AList.update (ia_id a) held h) [] (bi_agents ir)"

definition inbound_of :: "edges \<Rightarrow> string \<Rightarrow> edge_map" where
  "inbound_of es b =
     concat (map (\<lambda>(a, outs). case map_of outs b of None \<Rightarrow> [] | Some gs \<Rightarrow> [(a, gs)]) es)"

record link_config =
  lc_agent :: string
  lc_subject_prefix :: string
  lc_stream :: string
  lc_consumer :: string
  lc_user :: string
  lc_inbox_prefix :: string
  lc_max_depth :: int
  lc_outbound :: edge_map
  lc_inbound :: edge_map
  lc_separations :: "separation list"
  lc_holdings :: "(string \<times> string list) list"

definition agent_config :: "bus_ir \<Rightarrow> edges \<Rightarrow> ir_agent \<Rightarrow> link_config" where
  "agent_config ir es a = (let n = subjects_for ir in
     \<lparr>lc_agent = ia_id a, lc_subject_prefix = subj_prefix n, lc_stream = subj_stream n,
      lc_consumer = subj_consumer (ia_id a), lc_user = bus_token (ia_id a),
      lc_inbox_prefix = bus_inbox_prefix (ia_id a), lc_max_depth = ia_max_depth a,
      lc_outbound = sort_key fst (outs_of es (ia_id a)),
      lc_inbound = sort_key fst (inbound_of es (ia_id a)),
      lc_separations = bi_separations ir, lc_holdings = separated_holdings ir\<rparr>)"

definition agent_links :: "bus_ir \<Rightarrow> (string \<times> link_config) list" where
  "agent_links ir = (let es = compute_edges ir in
     foldl (\<lambda>out a. AList.update (ia_id a) (agent_config ir es a) out) [] (bi_agents ir))"

text \<open>\<open>links[agent_id]\<close>; \<open>None\<close> is its \<open>KeyError\<close>.\<close>

definition nats_permissions :: "bus_ir \<Rightarrow> string \<Rightarrow> (string list \<times> string list) option" where
  "nats_permissions ir a =
     (case map_of (agent_links ir) a of
        None \<Rightarrow> None
      | Some me \<Rightarrow>
          (let n = subjects_for ir; tail = lc_stream me @ ''.'' @ lc_consumer me
           in Some (sort (map (\<lambda>b. subj_inbox n b a) (map fst (lc_outbound me))) @
                    sort (map (\<lambda>b. subj_reply n b a) (map fst (lc_inbound me))) @
                    [''$JS.API.CONSUMER.MSG.NEXT.'' @ tail, ''$JS.API.CONSUMER.INFO.'' @ tail,
                     ''$JS.ACK.'' @ tail @ ''.>''],
                    [lc_inbox_prefix me @ ''.>''])))"

text \<open>The stream, its subjects and a consumer per agent, which \<open>bus-init\<close> creates.\<close>

definition bus_plan :: "bus_ir \<Rightarrow> string \<times> string list \<times> (string \<times> string) list" where
  "bus_plan ir =
     (let n = \<lparr>ns_tenant = (case bi_tenant ir of Some t \<Rightarrow> if t = [] then ''local'' else t | None \<Rightarrow> ''local''),
                ns_root = subject_root\<rparr>
      in (subj_stream n, [agents_wildcard n],
          foldl (\<lambda>d a. AList.update (subj_consumer (ia_id a)) (subj_mailbox n (ia_id a)) d) [] (bi_agents ir)))"

section \<open>Grants after the compiler has run\<close>

definition edge_ok :: "string list \<Rightarrow> string \<Rightarrow> string \<Rightarrow> bool" where
  "edge_ok known src dst \<longleftrightarrow> src \<noteq> [] \<and> dst \<noteq> [] \<and> src \<noteq> dst \<and> src \<in> set known \<and> dst \<in> set known"

definition reach_of :: "link_grant \<Rightarrow> link_kind \<times> (date_text \<times> date_text) option" where
  "reach_of g = (lg_kind g, lg_window g)"

lemma outs_of_update: "outs_of (AList.update s m es) a = (if a = s then m else outs_of es a)"
  by (simp add: outs_of_def)

lemma grants_of_add:
  "set (grants_of (edges_add known s d g es) a b) =
     set (grants_of es a b) \<union> (if edge_ok known s d \<and> a = s \<and> b = d then {g} else {})"
  by (auto simp: edges_add_def edge_ok_def grants_of_def outs_of_update Let_def)

lemma grants_of_adds:
  "set (grants_of (foldl (\<lambda>es (d, g). edges_add known s d g es) es rs) a b) =
     set (grants_of es a b) \<union> {g. (b, g) \<in> set rs \<and> edge_ok known s b \<and> a = s}"
  by (induction rs arbitrary: es) (auto simp: grants_of_add split: if_splits)

lemma grants_of_agents:
  "set (grants_of (foldl (\<lambda>es x. add_requests ir x es) es xs) a b) =
     set (grants_of es a b) \<union>
     {g. \<exists>x \<in> set xs. ia_id x = a \<and> (b, g) \<in> set (agent_requests ir x) \<and> edge_ok (known_ids ir) a b}"
  by (induction xs arbitrary: es) (auto simp: grants_of_adds add_requests_def)

lemma reach_of_renamed [simp]: "reach_of (renamed g) = reach_of g"
  by (simp add: reach_of_def renamed_def)

lemma reach_of_name_flow:
  "reach_of ` set (grants_of (name_flow es f) a b) = reach_of ` set (grants_of es a b)"
  by (auto simp: name_flow_def grants_of_def outs_of_update dict_get_def image_image split: option.splits)

lemma reach_of_name_flows:
  "reach_of ` set (grants_of (foldl name_flow es fs) a b) = reach_of ` set (grants_of es a b)"
  by (induction fs arbitrary: es) (simp_all add: reach_of_name_flow)

lemma made_grant_simps [simp]:
  "lg_kind (made_grant k via s e) = k"
  "lg_window (made_grant k via s e) = (if date_set s \<or> date_set e then Some (s, e) else None)"
  by (simp_all add: made_grant_def)

lemma plain_grant_simps [simp]:
  "lg_kind (plain_grant k via) = k" "lg_window (plain_grant k via) = None"
  by (simp_all add: plain_grant_def)

lemma delegate_of_unit_link:
  "lg_kind g = Delegate \<Longrightarrow> g \<in> set (grants_of (add_unit_link ir es l) a b) \<longleftrightarrow> g \<in> set (grants_of es a b)"
  by (cases "iu_kind l") (auto simp: add_unit_link_def grants_of_add Let_def)

lemma delegate_of_unit_links:
  "lg_kind g = Delegate \<Longrightarrow>
     g \<in> set (grants_of (foldl (add_unit_link ir) es ls) a b) \<longleftrightarrow> g \<in> set (grants_of es a b)"
  by (induction ls arbitrary: es) (simp_all add: delegate_of_unit_link)

lemma dict_get_empties: "dict_get (map (\<lambda>a. (a, [])) xs) a [] = []"
  by (induction xs) simp_all

lemma grants_of_no_edges [simp]: "grants_of (no_edges ir) a b = []"
  by (simp add: no_edges_def grants_of_def outs_of_def dict_get_empties)

definition mission_window :: "ir_mission_grant \<Rightarrow> (date_text \<times> date_text) option" where
  "mission_window m =
     (if date_set (gr_starts_on m) \<or> date_set (gr_ends_on m) then Some (gr_starts_on m, gr_ends_on m) else None)"

definition declared_reach :: "ir_agent \<Rightarrow> string \<Rightarrow> (date_text \<times> date_text) option \<Rightarrow> bool" where
  "declared_reach x b w \<longleftrightarrow>
     (if b \<in> set (ia_standing x) then w = None
      else (\<exists>m \<in> set (ia_missions x). b \<in> set (gr_peers m) \<and> w = mission_window m))"

lemma delegate_request_iff:
  "(b, g) \<in> set (agent_requests ir x) \<and> lg_kind g = Delegate \<longleftrightarrow>
     b \<in> set (ia_standing x) \<and> g = plain_grant Delegate (standing_via ir x b) \<or>
     (\<exists>m \<in> set (ia_missions x). b \<in> set (gr_peers m) \<and> b \<notin> set (ia_standing x) \<and>
        g = made_grant Delegate (''mission:'' @ gr_mission m) (gr_starts_on m) (gr_ends_on m))"
  (is "?l \<longleftrightarrow> ?s \<or> ?m")
proof -
  let ?standing = "map (\<lambda>d. (d, plain_grant Delegate (standing_via ir x d))) (ia_standing x)"
  let ?missions = "concat (map (\<lambda>g. map (\<lambda>d. (d, made_grant Delegate (''mission:'' @ gr_mission g)
      (gr_starts_on g) (gr_ends_on g))) (filter (\<lambda>d. d \<notin> set (ia_standing x)) (gr_peers g))) (ia_missions x))"
  have other: "\<not> (lg_kind g = Delegate \<and> (b, g) \<in> set (map (\<lambda>d. (d, plain_grant Message v)) xs))" for v xs
    by auto
  have "?l \<longleftrightarrow> (b, g) \<in> set ?standing \<or> (b, g) \<in> set ?missions"
  proof -
    have "lg_kind g = Delegate" if "(b, g) \<in> set ?standing \<or> (b, g) \<in> set ?missions" using that by auto
    moreover have "\<not> (lg_kind g = Delegate \<and> (b, g) \<in> set (case ia_reports_to x of
        None \<Rightarrow> [] | Some r \<Rightarrow> if r = [] then [] else [(r, plain_grant Message ''reports_to'')]))"
      by (auto split: option.splits)
    ultimately show ?thesis unfolding agent_requests_def set_append Un_iff using other by blast
  qed
  moreover have "(b, g) \<in> set ?standing \<longleftrightarrow> ?s" by auto
  moreover have "(b, g) \<in> set ?missions \<longleftrightarrow> ?m" by auto
  ultimately show ?thesis by simp
qed

lemma delegate_requests:
  "(\<exists>g. (b, g) \<in> set (agent_requests ir x) \<and> lg_kind g = Delegate \<and> lg_window g = w) \<longleftrightarrow> declared_reach x b w"
proof -
  have "(\<exists>g. (b, g) \<in> set (agent_requests ir x) \<and> lg_kind g = Delegate \<and> lg_window g = w) \<longleftrightarrow>
      (\<exists>g. ((b, g) \<in> set (agent_requests ir x) \<and> lg_kind g = Delegate) \<and> lg_window g = w)" by simp
  also have "\<dots> \<longleftrightarrow> declared_reach x b w"
    unfolding delegate_request_iff declared_reach_def mission_window_def by auto
  finally show ?thesis .
qed

lemma delegate_edges:
  "(\<exists>g \<in> set (grants_of (compute_edges ir) a b). lg_kind g = Delegate \<and> lg_window g = w) \<longleftrightarrow>
     edge_ok (known_ids ir) a b \<and> (\<exists>x \<in> set (bi_agents ir). ia_id x = a \<and> declared_reach x b w)"
proof -
  let ?flows = "foldl name_flow (foldl (\<lambda>es x. add_requests ir x es) (no_edges ir) (bi_agents ir)) (bi_flows ir)"
  have "g \<in> set (grants_of (compute_edges ir) a b) \<longleftrightarrow> g \<in> set (grants_of ?flows a b)"
    if "lg_kind g = Delegate" for g
    unfolding compute_edges_def using that by (rule delegate_of_unit_links)
  then have "(\<exists>g \<in> set (grants_of (compute_edges ir) a b). lg_kind g = Delegate \<and> lg_window g = w) \<longleftrightarrow>
      (\<exists>g \<in> set (grants_of ?flows a b). lg_kind g = Delegate \<and> lg_window g = w)" by blast
  also have "\<dots> \<longleftrightarrow> (Delegate, w) \<in> reach_of ` set (grants_of ?flows a b)"
    by (simp add: reach_of_def image_iff) metis
  also have "\<dots> \<longleftrightarrow> edge_ok (known_ids ir) a b \<and>
      (\<exists>x \<in> set (bi_agents ir). ia_id x = a \<and>
        (\<exists>g. (b, g) \<in> set (agent_requests ir x) \<and> lg_kind g = Delegate \<and> lg_window g = w))"
    unfolding reach_of_name_flows grants_of_agents by (simp add: reach_of_def image_iff) metis
  finally show ?thesis by (simp add: delegate_requests)
qed

section \<open>Both ends of an edge\<close>

lemma agent_links_invariant:
  "map_of (foldl (\<lambda>out x. AList.update (ia_id x) (agent_config ir es x) out) out xs) a = Some c \<Longrightarrow>
     map_of out a = Some c \<or> (\<exists>x \<in> set xs. ia_id x = a \<and> c = agent_config ir es x)"
proof (induction xs arbitrary: out)
  case (Cons x xs)
  from Cons.IH [of "AList.update (ia_id x) (agent_config ir es x) out"] Cons.prems show ?case
    by (auto split: if_splits)
qed simp

lemma agent_links_lookup:
  assumes "map_of (agent_links ir) a = Some c"
  obtains x where "x \<in> set (bi_agents ir)" "ia_id x = a" "c = agent_config ir (compute_edges ir) x"
  using assms agent_links_invariant [of ir "compute_edges ir" "[]" "bi_agents ir" a c]
  by (auto simp: agent_links_def Let_def)

lemma distinct_edges_add: "distinct (map fst es) \<Longrightarrow> distinct (map fst (edges_add known s d g es))"
  by (simp add: edges_add_def Let_def distinct_update)

lemma distinct_add_requests: "distinct (map fst es) \<Longrightarrow> distinct (map fst (add_requests ir x es))"
proof -
  have "distinct (map fst es) \<Longrightarrow>
      distinct (map fst (foldl (\<lambda>es (d, g). edges_add known s d g es) es rs))" for known s rs
    by (induction rs arbitrary: es) (auto simp: distinct_edges_add)
  then show "distinct (map fst es) \<Longrightarrow> ?thesis" by (simp add: add_requests_def)
qed

lemma distinct_name_flow: "distinct (map fst es) \<Longrightarrow> distinct (map fst (name_flow es f))"
  by (simp add: name_flow_def distinct_update split: option.splits)

lemma distinct_add_unit_link: "distinct (map fst es) \<Longrightarrow> distinct (map fst (add_unit_link ir es l))"
  by (simp add: add_unit_link_def Let_def distinct_edges_add)

lemma foldl_keeps: "(\<And>x y. P x \<Longrightarrow> P (f x y)) \<Longrightarrow> P x \<Longrightarrow> P (foldl f x ys)"
  by (induction ys arbitrary: x) simp_all

lemma distinct_compute_edges: "distinct (map fst (compute_edges ir))"
proof -
  have "distinct (map fst (no_edges ir))" by (simp add: no_edges_def comp_def)
  then show ?thesis unfolding compute_edges_def
    by (intro foldl_keeps [where P = "\<lambda>es. distinct (map fst es)"]
          distinct_add_requests distinct_name_flow distinct_add_unit_link)
qed

lemma map_of_inbound:
  "distinct (map fst es) \<Longrightarrow> map_of (inbound_of es b) a = map_of (outs_of es a) b"
proof (induction es)
  case Nil
  show ?case by (simp add: inbound_of_def outs_of_def)
next
  case (Cons e es)
  obtain s outs where e: "e = (s, outs)" by (cases e)
  have rest: "inbound_of ((s, outs) # es) b =
      (case map_of outs b of None \<Rightarrow> [] | Some gs \<Rightarrow> [(s, gs)]) @ inbound_of es b"
    by (simp add: inbound_of_def)
  show ?case
  proof (cases "a = s")
    case True
    with Cons.prems e have "map_of es a = None" by (simp add: map_of_eq_None_iff)
    then have "outs_of es a = []" by (simp add: outs_of_def dict_get_def)
    with Cons e True show ?thesis by (simp add: rest outs_of_def map_add_def split: option.splits)
  next
    case False
    with Cons e show ?thesis by (simp add: rest outs_of_def map_add_def split: option.splits)
  qed
qed

lemma config_edges:
  assumes "map_of (agent_links ir) a = Some c"
  shows "map_of (lc_outbound c) b = map_of (outs_of (compute_edges ir) a) b"
    and "map_of (lc_inbound c) b = map_of (outs_of (compute_edges ir) b) a"
    and "lc_agent c = a" and "a \<in> set (known_ids ir)"
    and "lc_subject_prefix c = subj_prefix (subjects_for ir)"
  using assms
  by (auto elim!: agent_links_lookup
        simp: agent_config_def Let_def map_of_sort_key map_of_inbound [OF distinct_compute_edges] known_ids_def)

text \<open>What one agent is told it may send is what the other is told it may receive.\<close>

lemma sent_is_received:
  assumes "map_of (agent_links ir) a = Some ca" and "map_of (agent_links ir) b = Some cb"
  shows "map_of (lc_inbound cb) a = map_of (lc_outbound ca) b"
  by (simp add: config_edges(1) [OF assms(1)] config_edges(2) [OF assms(2)])

section \<open>Every edge has a grant\<close>

definition edges_sound :: "string list \<Rightarrow> edges \<Rightarrow> bool" where
  "edges_sound known es \<longleftrightarrow>
     (\<forall>a b gs. map_of (outs_of es a) b = Some gs \<longrightarrow> gs \<noteq> [] \<and> edge_ok known a b)"

lemma edges_sound_add: "edges_sound known es \<Longrightarrow> edges_sound known (edges_add known s d g es)"
  by (auto simp: edges_sound_def edges_add_def edge_ok_def outs_of_update Let_def)

lemma edges_sound_name_flow: "edges_sound known es \<Longrightarrow> edges_sound known (name_flow es f)"
  by (auto simp: edges_sound_def name_flow_def outs_of_update split: option.splits)

lemma edges_sound_requests: "edges_sound (known_ids ir) es \<Longrightarrow> edges_sound (known_ids ir) (add_requests ir x es)"
  unfolding add_requests_def
  by (rule foldl_keeps [where P = "edges_sound (known_ids ir)"]) (auto intro: edges_sound_add)

lemma edges_sound_unit_link: "edges_sound (known_ids ir) es \<Longrightarrow> edges_sound (known_ids ir) (add_unit_link ir es l)"
  by (simp add: add_unit_link_def Let_def edges_sound_add)

lemma compute_edges_sound: "edges_sound (known_ids ir) (compute_edges ir)"
proof -
  have "edges_sound (known_ids ir) (no_edges ir)"
    by (simp add: edges_sound_def no_edges_def outs_of_def dict_get_empties)
  then show ?thesis unfolding compute_edges_def
    by (intro foldl_keeps [where P = "edges_sound (known_ids ir)"]
          edges_sound_requests edges_sound_name_flow edges_sound_unit_link)
qed

lemma config_edges_sound:
  assumes "map_of (agent_links ir) a = Some c"
  shows "map_of (lc_outbound c) b = Some gs \<Longrightarrow> gs \<noteq> [] \<and> edge_ok (known_ids ir) a b"
    and "map_of (lc_inbound c) b = Some gs \<Longrightarrow> gs \<noteq> [] \<and> edge_ok (known_ids ir) b a"
  using compute_edges_sound [of ir] by (simp_all add: config_edges [OF assms] edges_sound_def)

section \<open>The broker\<close>

lemma bus_token_eq: "subj_inbox n b a = subj_inbox n c a \<longleftrightarrow> bus_token b = bus_token c"
  by (simp add: subj_inbox_def subj_agent_def)

lemma inbox_neq_reply: "subj_inbox n b a \<noteq> subj_reply n c a"
proof
  assume "subj_inbox n b a = subj_reply n c a"
  then have eq: "bus_token b @ ''.inbox.'' = bus_token c @ ''.reply.''"
    by (simp add: subj_inbox_def subj_reply_def subj_agent_def flip: append_assoc)
  from arg_cong [OF eq, of length] have "length (bus_token b) = length (bus_token c)" by simp
  with eq show False by simp
qed

text \<open>Two identifiers that differ only in a character a subject cannot hold share their subjects.\<close>

lemma tokens_collide: "bus_token ''pay.agent'' = bus_token ''pay agent''"
  by code_simp


definition example_ir_agent :: "string \<Rightarrow> string list \<Rightarrow> ir_mission_grant list \<Rightarrow> string list \<Rightarrow> ir_agent" where
  "example_ir_agent a standing missions decisions =
     \<lparr>ia_id = a, ia_team_id = ''ops'', ia_leader_of = (if standing = [] then None else Some ''ops''),
      ia_reports_to = (if standing = [] then Some ''coo'' else None), ia_shared_service = False,
      ia_decisions = decisions, ia_max_depth = 3, ia_standing = standing, ia_missions = missions,
      ia_consults = [], ia_notifies = [], ia_escalations = []\<rparr>"

definition example_bus_ir :: bus_ir where
  "example_bus_ir =
     \<lparr>bi_tenant = None,
      bi_agents = [example_ir_agent ''coo'' [''buyer''] [] [],
        example_ir_agent ''buyer'' [] [\<lparr>gr_status = ''active'', gr_starts_on = Day 10, gr_ends_on = Day 20,
          gr_peers = [''ap''], gr_mission = ''peak''\<rparr>] [''raise''],
        example_ir_agent ''ap'' [] [] [''pay'']],
      bi_teams = [\<lparr>it_id = ''ops'', it_parent_id = None, it_leader = ''coo''\<rparr>],
      bi_flows = [], bi_unit_links = [],
      bi_separations = [\<lparr>sp_id = ''s1'', sp_reason = ''fraud'', sp_decisions = [''raise'', ''pay'']\<rparr>]\<rparr>"

lemma example_edges:
  "compute_edges example_bus_ir =
     [(''coo'', [(''buyer'', [\<lparr>lg_kind = Delegate, lg_via = ''leads:ops'', lg_window = None\<rparr>])]),
      (''buyer'', [(''coo'', [\<lparr>lg_kind = Message, lg_via = ''reports_to'', lg_window = None\<rparr>]),
                   (''ap'', [\<lparr>lg_kind = Delegate, lg_via = ''mission:peak'', lg_window = Some (Day 10, Day 20)\<rparr>])]),
      (''ap'', [(''coo'', [\<lparr>lg_kind = Message, lg_via = ''reports_to'', lg_window = None\<rparr>])])]"
  by code_simp

lemma example_links: "map fst (agent_links example_bus_ir) = [''coo'', ''buyer'', ''ap'']"
  by code_simp

lemma example_permissions:
  "fst (the (nats_permissions example_bus_ir ''buyer'')) =
     [''orgagents.local.agent.ap.inbox.buyer'', ''orgagents.local.agent.coo.inbox.buyer'',
      ''orgagents.local.agent.coo.reply.buyer'',
      ''$JS.API.CONSUMER.MSG.NEXT.ORGAGENTS_LOCAL.agent_buyer'',
      ''$JS.API.CONSUMER.INFO.ORGAGENTS_LOCAL.agent_buyer'', ''$JS.ACK.ORGAGENTS_LOCAL.agent_buyer.>'']"
  by code_simp


end
