(* ===== verification/PyText.thy ===== *)
theory PyText
  imports PyValue
begin

text \<open>
  The text of JSON-like values: \<open>json.dumps\<close> with its escapes (ASCII output, keys sorted on request)
  and \<open>str()\<close> with the \<open>repr\<close> of strings, lists and dictionaries, and the reading of a field of a
  decoded object.
\<close>

section \<open>JSON text\<close>

definition hex_digit :: "nat \<Rightarrow> char" where
  "hex_digit n = (if n < 10 then char_of (48 + n) else char_of (87 + n))"

definition hex2 :: "nat \<Rightarrow> string" where
  "hex2 n = [hex_digit (n div 16), hex_digit (n mod 16)]"

definition json_char :: "char \<Rightarrow> string" where
  "json_char c = (let n = (of_char c :: nat) in
     if n = 34 then [CHR 0x5C, CHR 0x22]
     else if n = 92 then [CHR 0x5C, CHR 0x5C]
     else if n = 8 then [CHR 0x5C] @ ''b''
     else if n = 9 then [CHR 0x5C] @ ''t''
     else if n = 10 then [CHR 0x5C] @ ''n''
     else if n = 12 then [CHR 0x5C] @ ''f''
     else if n = 13 then [CHR 0x5C] @ ''r''
     else if n < 32 \<or> 126 < n then [CHR 0x5C] @ ''u00'' @ hex2 n
     else [c])"

definition json_string :: "string \<Rightarrow> string" where
  "json_string s = [CHR 0x22] @ concat (map json_char s) @ [CHR 0x22]"

fun json_text :: "string \<Rightarrow> string \<Rightarrow> pyval \<Rightarrow> string" where
  "json_text sep colon PNone = ''null''"
| "json_text sep colon (PBool b) = (if b then ''true'' else ''false'')"
| "json_text sep colon (PInt i) = show_int i"
| "json_text sep colon (PStr s) = json_string s"
| "json_text sep colon (PList xs) = ''['' @ join_with sep (map (json_text sep colon) xs) @ '']''"
| "json_text sep colon (PDict d) =
     ''{'' @ join_with sep (map (\<lambda>(k, v). json_string k @ colon @ json_text sep colon v) d) @ ''}''"

fun sort_keys :: "pyval \<Rightarrow> pyval" where
  "sort_keys (PList xs) = PList (map sort_keys xs)"
| "sort_keys (PDict d) = PDict (sort_key fst (map (\<lambda>(k, v). (k, sort_keys v)) d))"
| "sort_keys v = v"

text \<open>\<open>json.dumps(v)\<close>, and \<open>_canon(v)\<close>: sorted keys and no blanks.\<close>

definition json_dumps :: "pyval \<Rightarrow> string" where
  "json_dumps v = json_text '', '' '': '' v"

definition canon_json :: "pyval \<Rightarrow> string" where
  "canon_json v = json_text '','' '':'' (sort_keys v)"

definition repr_char :: "char \<Rightarrow> char \<Rightarrow> string" where
  "repr_char q c = (let n = (of_char c :: nat) in
     if c = q \<or> n = 92 then [CHR 0x5C, c]
     else if n = 9 then [CHR 0x5C] @ ''t''
     else if n = 10 then [CHR 0x5C] @ ''n''
     else if n = 13 then [CHR 0x5C] @ ''r''
     else if n < 32 \<or> n = 127 then [CHR 0x5C] @ ''x'' @ hex2 n
     else [c])"

definition repr_string :: "string \<Rightarrow> string" where
  "repr_string s =
     (let q = (if CHR 0x27 \<in> set s \<and> CHR 0x22 \<notin> set s then CHR 0x22 else CHR 0x27)
      in [q] @ concat (map (repr_char q) s) @ [q])"

fun py_repr :: "pyval \<Rightarrow> string" where
  "py_repr PNone = ''None''"
| "py_repr (PBool b) = (if b then ''True'' else ''False'')"
| "py_repr (PInt i) = show_int i"
| "py_repr (PStr s) = repr_string s"
| "py_repr (PList xs) = ''['' @ join_with '', '' (map py_repr xs) @ '']''"
| "py_repr (PDict d) = ''{'' @ join_with '', '' (map (\<lambda>(k, v). repr_string k @ '': '' @ py_repr v) d) @ ''}''"

fun py_str :: "pyval \<Rightarrow> string" where
  "py_str (PStr s) = s"
| "py_str v = py_repr v"

text \<open>\<open>v or ''''\<close> under \<open>str\<close>, and \<open>body.get(k)\<close> of a decoded object.\<close>

definition str_or_empty :: "pyval \<Rightarrow> string" where
  "str_or_empty v = (if truthy v then py_str v else [])"

definition get_key :: "(string \<times> pyval) list \<Rightarrow> string \<Rightarrow> pyval" where
  "get_key d k = dict_get d k PNone"

end
