(* ===== verification/BusPolicy.thy ===== *)
theory BusPolicy
  imports AgentLinks PyText
begin

text \<open>
  What an agent's worker decides from its compiled links (\<open>LinkPolicy\<close>, \<open>named_decisions\<close>,
  \<open>render_task\<close> and \<open>separation_guard\<close> of \<open>runtime/agent_bus.py\<close>). A date is its day number. A refusal is a constructor that carries what
  its sentence interpolates. The identifiers an agent knows are a Python set, whose order of
  iteration is a parameter.

  The lemmas show that the two ends of a link decide alike, that on a day a delegation is allowed
  exactly to the standing delegates and to the peers of the missions that are open then, and what
  a separation conflict and a named decision are.
\<close>

section \<open>The link policy\<close>

datatype bus_exn = IndexErr | ValueErr | TypeErr

datatype link_refusal =
    NoEdge
  | WrongKind link_grant link_kind
  | OutOfWindow link_grant

type_synonym link_verdict = "link_refusal + string"

definition bus_in_window :: "link_grant \<Rightarrow> int \<Rightarrow> bool" where
  "bus_in_window g day =
     (case lg_window g of
        None \<Rightarrow> True
      | Some (start, end_) \<Rightarrow>
          (case start of
             Day s \<Rightarrow> \<not> day < s
           | BadDate t \<Rightarrow> t = []
           | NoDate \<Rightarrow> True) \<and>
          (case end_ of
             Day e \<Rightarrow> \<not> day > e
           | BadDate t \<Rightarrow> t = []
           | NoDate \<Rightarrow> True))"

definition link_max_depth :: "link_config \<Rightarrow> int" where
  "link_max_depth c = (if lc_max_depth c = 0 then 3 else lc_max_depth c)"

definition wanted_kinds :: "link_kind \<Rightarrow> link_kind list" where
  "wanted_kinds k = (if k = Delegate then [Delegate] else [Delegate, Message])"

definition link_allows :: "edge_map \<Rightarrow> string \<Rightarrow> link_kind \<Rightarrow> int \<Rightarrow> bus_exn + link_verdict" where
  "link_allows es other k day =
     (case map_of es other of
        None \<Rightarrow> Inr (Inl NoEdge)
      | Some gs \<Rightarrow>
          (case filter (\<lambda>g. lg_kind g \<in> set (wanted_kinds k)) gs of
             [] \<Rightarrow> (case gs of [] \<Rightarrow> Inl IndexErr | g # _ \<Rightarrow> Inr (Inl (WrongKind g k)))
           | l # live \<Rightarrow>
               (case filter (\<lambda>g. bus_in_window g day) (l # live) of
                  [] \<Rightarrow> Inr (Inl (OutOfWindow l))
                | g # _ \<Rightarrow> Inr (Inr (lg_via g)))))"

definition may_send :: "link_config \<Rightarrow> string \<Rightarrow> link_kind \<Rightarrow> int \<Rightarrow> bus_exn + link_verdict" where
  "may_send c receiver k day = link_allows (lc_outbound c) receiver k day"

definition may_receive :: "link_config \<Rightarrow> string \<Rightarrow> link_kind \<Rightarrow> int \<Rightarrow> bus_exn + link_verdict" where
  "may_receive c sender k day = link_allows (lc_inbound c) sender k day"

definition may_reply_to :: "link_config \<Rightarrow> string \<Rightarrow> bool" where
  "may_reply_to c a \<longleftrightarrow> map_of (lc_inbound c) a \<noteq> None"

fun find_map :: "('a \<Rightarrow> 'b option) \<Rightarrow> 'a list \<Rightarrow> 'b option" where
  "find_map f [] = None"
| "find_map f (x # xs) = (case f x of None \<Rightarrow> find_map f xs | Some y \<Rightarrow> Some y)"

text \<open>The rule, the principal and the other decisions it holds, which the sentence names.\<close>

type_synonym conflict_found = "separation \<times> string \<times> string list"

definition rule_conflict ::
    "(string \<times> string list) list \<Rightarrow> string list \<Rightarrow> string \<Rightarrow> separation \<Rightarrow> conflict_found option" where
  "rule_conflict holdings principals decision rule =
     (if decision \<notin> set (sp_decisions rule) then None
      else find_map (\<lambda>p.
             case filter (\<lambda>d. d \<in> set (sp_decisions rule) \<and> d \<noteq> decision) (dict_get holdings p []) of
               [] \<Rightarrow> None
             | other \<Rightarrow> Some (rule, p, other)) (fromkeys principals))"

definition separation_conflict :: "link_config \<Rightarrow> string list \<Rightarrow> string \<Rightarrow> conflict_found option" where
  "separation_conflict c principals decision =
     (if decision = [] then None
      else find_map (rule_conflict (lc_holdings c) principals decision) (lc_separations c))"

definition known_agents :: "link_config \<Rightarrow> string list" where
  "known_agents c = remdups (map fst (lc_outbound c) @ map fst (lc_inbound c))"

definition agent_for_token :: "(string list \<Rightarrow> string list) \<Rightarrow> link_config \<Rightarrow> string \<Rightarrow> string option" where
  "agent_for_token set_order c t = List.find (\<lambda>a. bus_token a = t) (set_order (known_agents c))"

definition link_inbox :: "link_config \<Rightarrow> string \<Rightarrow> string \<Rightarrow> string" where
  "link_inbox c receiver sender =
     lc_subject_prefix c @ ''.agent.'' @ bus_token receiver @ ''.inbox.'' @ bus_token sender"

definition link_reply :: "link_config \<Rightarrow> string \<Rightarrow> string \<Rightarrow> string" where
  "link_reply c receiver sender =
     lc_subject_prefix c @ ''.agent.'' @ bus_token receiver @ ''.reply.'' @ bus_token sender"

section \<open>Decisions a task names\<close>

text \<open>The pattern of an identifier: its characters, or with each underscore a run of blanks and
  hyphens. It stands alone when no ASCII letter or digit is on either side of it.\<close>

datatype spelled = Letter char | Gap

definition is_gap :: "char \<Rightarrow> bool" where
  "is_gap c \<longleftrightarrow> is_space c \<or> c = CHR 0x2D"

function spelled_here :: "spelled list \<Rightarrow> string \<Rightarrow> bool" where
  "spelled_here [] s = (case s of [] \<Rightarrow> True | c # _ \<Rightarrow> \<not> is_alnum c)"
| "spelled_here (p # ps) [] = False"
| "spelled_here (Letter a # ps) (c # cs) = (char_lower a = char_lower c \<and> spelled_here ps cs)"
| "spelled_here (Gap # ps) (c # cs) = (is_gap c \<and> (spelled_here ps cs \<or> spelled_here (Gap # ps) cs))"
  by pat_completeness auto
termination by (relation "measure (\<lambda>(ps, s). length s)") auto

fun spelled_after :: "char option \<Rightarrow> spelled list \<Rightarrow> string \<Rightarrow> bool" where
  "spelled_after prev ps s =
     ((case prev of None \<Rightarrow> True | Some c \<Rightarrow> \<not> is_alnum c) \<and> spelled_here ps s \<or>
      (case s of [] \<Rightarrow> False | c # cs \<Rightarrow> spelled_after (Some c) ps cs))"

declare spelled_after.simps [simp del]

definition spellings :: "string \<Rightarrow> spelled list list" where
  "spellings d = map Letter d #
     (if CHR 0x5F \<in> set d then [map (\<lambda>c. if c = CHR 0x5F then Gap else Letter c) d] else [])"

definition written_in :: "string \<Rightarrow> string \<Rightarrow> bool" where
  "written_in haystack d \<longleftrightarrow> list_ex (\<lambda>ps. spelled_after None ps haystack) (spellings d)"

definition named_decisions :: "link_config \<Rightarrow> string \<Rightarrow> (string \<times> pyval) list \<Rightarrow> string list" where
  "named_decisions c txt inputs =
     (let explicit = str_or_empty (get_key inputs ''decision'');
          haystack = txt @ [CHR 0x0A] @ json_dumps (PDict (filter (\<lambda>(k, v). k \<noteq> ''decision'') inputs))
      in foldl (\<lambda>found d. if written_in haystack d \<and> d \<notin> set found then found @ [d] else found)
           (if explicit \<noteq> [] then [explicit] else [])
           (sorted_set (separated_decisions (lc_separations c))))"

section \<open>Received work\<close>

definition render_task :: "string \<Rightarrow> string \<Rightarrow> string \<Rightarrow> (string \<times> pyval) list \<Rightarrow> string" where
  "render_task kind sender txt inputs =
     (let head = ''['' @ (if kind = ''delegate'' then ''task delegated'' else ''message'') @
                 '' from '' @ sender @ ''] '' @ txt;
          rest = filter (\<lambda>(k, v). k \<noteq> ''script'') inputs
      in join_with [CHR 0x0A]
           (head # (case get_key inputs ''script'' of PList xs \<Rightarrow> map py_str xs | _ \<Rightarrow> []) @
            (if rest \<noteq> [] then [''Inputs: '' @ json_dumps (sort_keys (PDict rest))] else [])))"

text \<open>A guarded tool is the conflict it is refused for, or left as it was.\<close>

definition separation_guard ::
    "link_config \<Rightarrow> string list \<Rightarrow> (string \<Rightarrow> string option) \<Rightarrow> string list \<Rightarrow>
     (string \<times> conflict_found option) list" where
  "separation_guard c chain decision_of tools =
     (let upstream = filter (\<lambda>p. p \<noteq> lc_agent c) chain
      in if upstream = [] then map (\<lambda>t. (t, None)) tools
         else map (\<lambda>t. (t, separation_conflict c upstream
                             (case decision_of t of None \<Rightarrow> [] | Some d \<Rightarrow> d))) tools)"

section \<open>Both ends of a link decide alike\<close>

lemma find_map_SomeD: "find_map f xs = Some y \<Longrightarrow> \<exists>x \<in> set xs. f x = Some y"
  by (induction xs) (auto split: option.splits)

lemma find_map_None_iff: "find_map f xs = None \<longleftrightarrow> (\<forall>x \<in> set xs. f x = None)"
  by (induction xs) (auto split: option.splits)

text \<open>
  The two ends of a link never disagree: whatever the kind and the day, an agent's worker lets
  it send to another exactly when the other's worker, from its own configuration, lets it be
  received, with the same grant named or the same refusal.
\<close>

theorem both_ends_decide_alike:
  assumes "map_of (agent_links ir) a = Some ca" and "map_of (agent_links ir) b = Some cb"
  shows "may_send ca b k day = may_receive cb a k day"
  by (simp add: may_send_def may_receive_def link_allows_def sent_is_received [OF assms])

definition example_link :: "string \<Rightarrow> link_config" where
  "example_link a = the (map_of (agent_links example_bus_ir) a)"

lemma example_link_found:
  assumes "a \<in> {''coo'', ''buyer'', ''ap''}"
  shows "map_of (agent_links example_bus_ir) a = Some (example_link a)"
proof -
  have "a \<in> set (map fst (agent_links example_bus_ir))" using assms unfolding example_links by auto
  then have "map_of (agent_links example_bus_ir) a \<noteq> None" by (simp add: map_of_eq_None_iff)
  then show ?thesis by (auto simp: example_link_def)
qed

lemma example_may_send:
  "may_send (example_link ''buyer'') ''ap'' Delegate 12 = Inr (Inr ''mission:peak'')"
  by code_simp

lemma both_ends_decide_alike_witness:
  "may_receive (example_link ''ap'') ''buyer'' Delegate 12 = Inr (Inr ''mission:peak'')"
  using both_ends_decide_alike [OF example_link_found example_link_found, of "''buyer''" "''ap''" Delegate 12]
  by (simp add: example_may_send)

text \<open>
  C14: Compiled links are well formed: every edge an agent is given, in either direction, joins two
  different agents of the system and holds at least one grant. Therefore asking whether a message or
  a delegation may be sent or received never raises, whatever agent, kind and day is asked about.
\<close>

theorem compiled_links_never_raise:
  assumes "map_of (agent_links ir) a = Some c"
  shows "may_send c b k day \<noteq> Inl e \<and> may_receive c b k day \<noteq> Inl e \<and>
    (b \<in> set (known_agents c) \<longrightarrow> b \<noteq> a \<and> b \<in> set (known_ids ir))"
proof -
  have "link_allows es b k day \<noteq> Inl e" if "\<And>gs. map_of es b = Some gs \<Longrightarrow> gs \<noteq> []" for es
    using that by (auto simp: link_allows_def split: option.splits list.splits)
  then have "may_send c b k day \<noteq> Inl e \<and> may_receive c b k day \<noteq> Inl e"
    using config_edges_sound [OF assms] by (simp add: may_send_def may_receive_def)
  moreover have "b \<noteq> a \<and> b \<in> set (known_ids ir)" if "b \<in> set (known_agents c)"
  proof -
    from that have "map_of (lc_outbound c) b \<noteq> None \<or> map_of (lc_inbound c) b \<noteq> None"
      by (auto simp: known_agents_def map_of_eq_None_iff)
    with config_edges_sound [OF assms] show ?thesis by (auto simp: edge_ok_def)
  qed
  ultimately show ?thesis by blast
qed

lemma compiled_links_never_raise_witness:
  "may_send (example_link ''buyer'') ''coo'' Delegate 12 \<noteq> Inl IndexErr"
  using compiled_links_never_raise [OF example_link_found [of "''buyer''"], of "''coo''" Delegate 12 IndexErr] by simp

section \<open>Whom an agent may delegate to\<close>

lemma filter_Cons_hd: "filter p xs = y # ys \<Longrightarrow> y \<in> set xs \<and> p y"
  by (metis filter_eq_ConsD in_set_conv_decomp)

lemma link_allows_iff:
  "(\<exists>via. link_allows es b k day = Inr (Inr via)) \<longleftrightarrow>
     (\<exists>gs. map_of es b = Some gs \<and> (\<exists>g \<in> set gs. lg_kind g \<in> set (wanted_kinds k) \<and> bus_in_window g day))"
proof (cases "map_of es b")
  case None
  then show ?thesis by (simp add: link_allows_def)
next
  case (Some gs)
  let ?live = "filter (\<lambda>g. lg_kind g \<in> set (wanted_kinds k)) gs"
  show ?thesis
  proof (cases ?live)
    case Nil
    then have "\<not> (\<exists>g \<in> set gs. lg_kind g \<in> set (wanted_kinds k))" by (simp add: filter_empty_conv)
    with Some Nil show ?thesis by (auto simp: link_allows_def split: list.splits)
  next
    case (Cons l live)
    have "(\<exists>via. link_allows es b k day = Inr (Inr via)) \<longleftrightarrow> filter (\<lambda>g. bus_in_window g day) ?live \<noteq> []"
      using Some Cons by (simp add: link_allows_def split: list.splits)
    also have "\<dots> \<longleftrightarrow> (\<exists>g \<in> set gs. lg_kind g \<in> set (wanted_kinds k) \<and> bus_in_window g day)"
      unfolding filter_filter filter_empty_conv by auto
    finally show ?thesis using Some by simp
  qed
qed

definition date_is_good :: "date_text \<Rightarrow> bool" where
  "date_is_good d \<longleftrightarrow> (case d of BadDate _ \<Rightarrow> False | _ \<Rightarrow> True)"

definition mission_is_sound :: "ir_mission_grant \<Rightarrow> bool" where
  "mission_is_sound m \<longleftrightarrow> gr_status m \<in> set open_statuses \<and>
     date_is_good (gr_starts_on m) \<and> date_is_good (gr_ends_on m)"

definition window_holds :: "(date_text \<times> date_text) option \<Rightarrow> int \<Rightarrow> bool" where
  "window_holds w day = bus_in_window \<lparr>lg_kind = Delegate, lg_via = [], lg_window = w\<rparr> day"

lemma bus_in_window_window: "bus_in_window g day = window_holds (lg_window g) day"
  by (simp add: window_holds_def bus_in_window_def)

text \<open>On dates that parse, the bus keeps a mission's window as \<open>missions.py\<close> does.\<close>

lemma mission_window_holds:
  assumes "mission_is_sound m"
  shows "window_holds (mission_window m) day \<longleftrightarrow> grant_is_open (mission_grant.truncate m) day"
proof -
  have status: "gr_status m \<notin> set closed_statuses" "gr_status m \<in> set open_statuses"
    using assms by (auto simp: mission_is_sound_def open_statuses_def closed_statuses_def)
  have dates: "date_is_good (gr_starts_on m)" "date_is_good (gr_ends_on m)"
    using assms by (simp_all add: mission_is_sound_def)
  from dates show ?thesis
    by (cases "gr_starts_on m"; cases "gr_ends_on m")
       (simp_all add: status window_holds_def bus_in_window_def mission_window_def grant_is_open_def
         window_is_open_def mission_grant.defs date_is_good_def)
qed

lemma grants_of_lookup: "map_of (outs_of es a) b = Some gs \<Longrightarrow> grants_of es a b = gs"
  by (simp add: grants_of_def dict_get_def)

lemma grants_of_missing: "map_of (outs_of es a) b = None \<Longrightarrow> grants_of es a b = []"
  by (simp add: grants_of_def dict_get_def)

lemma delegation_needs_reach:
  assumes "map_of (agent_links ir) a = Some c"
  shows "(\<exists>via. may_send c b Delegate day = Inr (Inr via)) \<longleftrightarrow>
    edge_ok (known_ids ir) a b \<and>
    (\<exists>x \<in> set (bi_agents ir). ia_id x = a \<and> (\<exists>w. declared_reach x b w \<and> window_holds w day))"
proof -
  have "(\<exists>via. may_send c b Delegate day = Inr (Inr via)) \<longleftrightarrow>
      (\<exists>g \<in> set (grants_of (compute_edges ir) a b). lg_kind g = Delegate \<and> window_holds (lg_window g) day)"
    unfolding may_send_def link_allows_iff config_edges(1) [OF assms]
    by (cases "map_of (outs_of (compute_edges ir) a) b")
       (simp_all add: grants_of_lookup grants_of_missing bus_in_window_window wanted_kinds_def)
  also have "\<dots> \<longleftrightarrow> (\<exists>w. (\<exists>g \<in> set (grants_of (compute_edges ir) a b). lg_kind g = Delegate \<and> lg_window g = w) \<and>
      window_holds w day)" by blast
  also have "\<dots> \<longleftrightarrow> edge_ok (known_ids ir) a b \<and>
      (\<exists>x \<in> set (bi_agents ir). ia_id x = a \<and> (\<exists>w. declared_reach x b w \<and> window_holds w day))"
    unfolding delegate_edges by blast
  finally show ?thesis .
qed

lemma declared_reach_holds:
  assumes "\<forall>m \<in> set (ia_missions x). mission_is_sound m"
  shows "(\<exists>w. declared_reach x b w \<and> window_holds w day) \<longleftrightarrow>
    b \<in> set (ia_standing x) \<or> b \<in> set (open_peers (map mission_grant.truncate (ia_missions x)) day)"
proof -
  have "window_holds None day" by (simp add: window_holds_def bus_in_window_def)
  moreover have "b \<in> set (open_peers (map mission_grant.truncate (ia_missions x)) day) \<longleftrightarrow>
      (\<exists>m \<in> set (ia_missions x). b \<in> set (gr_peers m) \<and> window_holds (mission_window m) day)"
    using assms by (auto simp: open_peers_def mission_window_holds mission_grant.defs)
  ultimately show ?thesis by (auto simp: declared_reach_def)
qed

text \<open>
  C11: The bus lends no reach of its own: with one entry per agent and missions whose dates parse,
  an agent may hand work to another over the bus on a day exactly when the other is one of its
  standing delegates or a peer of one of its missions that the mission rules themselves count as
  open on that day (and both are agents of the system, and not the same one).
\<close>

theorem delegation_is_standing_or_open_mission:
  assumes "distinct (known_ids ir)" and "x \<in> set (bi_agents ir)"
    and "\<forall>m \<in> set (ia_missions x). mission_is_sound m"
    and "map_of (agent_links ir) (ia_id x) = Some c"
  shows "(\<exists>via. may_send c b Delegate day = Inr (Inr via)) \<longleftrightarrow>
    edge_ok (known_ids ir) (ia_id x) b \<and>
    (b \<in> set (ia_standing x) \<or> b \<in> set (open_peers (map mission_grant.truncate (ia_missions x)) day))"
proof -
  have "y = x" if "y \<in> set (bi_agents ir)" "ia_id y = ia_id x" for y
    using assms(1,2) that by (auto simp: known_ids_def distinct_map dest: inj_onD)
  with assms(2) show ?thesis
    unfolding delegation_needs_reach [OF assms(4)] declared_reach_holds [OF assms(3), symmetric] by blast
qed

lemma delegation_is_standing_or_open_mission_witness:
  "\<not> (\<exists>via. may_send (example_link ''buyer'') ''ap'' Delegate 21 = Inr (Inr via))"
proof -
  let ?x = "bi_agents example_bus_ir ! 1"
  have id: "ia_id ?x = ''buyer''" by code_simp
  have "?x \<in> set (bi_agents example_bus_ir)" by (simp add: example_bus_ir_def)
  moreover have "distinct (known_ids example_bus_ir)" by code_simp
  moreover have "\<forall>m \<in> set (ia_missions ?x). mission_is_sound m" by code_simp
  moreover have "map_of (agent_links example_bus_ir) (ia_id ?x) = Some (example_link ''buyer'')"
    unfolding id by (simp add: example_link_found)
  moreover have "''ap'' \<notin> set (ia_standing ?x) \<and>
      ''ap'' \<notin> set (open_peers (map mission_grant.truncate (ia_missions ?x)) 21)" by code_simp
  ultimately show ?thesis
    using delegation_is_standing_or_open_mission [of example_bus_ir ?x "example_link ''buyer''" "''ap''" 21]
    by blast
qed

text \<open>On a date that does not parse the two differ: the mission rules take an unreadable end date as
  none, the bus refuses.\<close>

lemma unreadable_end_closes_the_bus:
  "window_is_open ''active'' (Day 1) (BadDate ''soon'') 5"
  "\<not> window_holds (mission_window \<lparr>gr_status = ''active'', gr_starts_on = Day 1, gr_ends_on = BadDate ''soon'',
     gr_peers = [], gr_mission = ''m''\<rparr>) 5"
  by code_simp+

text \<open>A depth of zero is read as unset: the agent may still delegate three deep.\<close>

lemma zero_depth_is_three: "link_max_depth (c\<lparr>lc_max_depth := 0\<rparr>) = 3"
  by (simp add: link_max_depth_def)

section \<open>Separations and named decisions\<close>

lemma separation_conflict_None_iff:
  "separation_conflict c principals decision = None \<longleftrightarrow>
     decision = [] \<or>
     (\<forall>rule \<in> set (lc_separations c). decision \<in> set (sp_decisions rule) \<longrightarrow>
        (\<forall>p \<in> set principals. set (dict_get (lc_holdings c) p []) \<inter> set (sp_decisions rule) \<subseteq> {decision}))"
proof -
  have "rule_conflict (lc_holdings c) principals decision rule = None \<longleftrightarrow>
      (decision \<in> set (sp_decisions rule) \<longrightarrow>
        (\<forall>p \<in> set principals. set (dict_get (lc_holdings c) p []) \<inter> set (sp_decisions rule) \<subseteq> {decision}))" for rule
  proof (cases "decision \<in> set (sp_decisions rule)")
    case True
    have "(case filter (\<lambda>d. d \<in> set (sp_decisions rule) \<and> d \<noteq> decision) ds of
            [] \<Rightarrow> None | other \<Rightarrow> Some (rule, p, other)) = None \<longleftrightarrow>
        set ds \<inter> set (sp_decisions rule) \<subseteq> {decision}" for ds :: "string list" and p :: string
    proof -
      have "(case xs of [] \<Rightarrow> None | other \<Rightarrow> Some (rule, p, other)) = None \<longleftrightarrow> xs = []" for xs :: "string list"
        by (cases xs) simp_all
      then show ?thesis by (auto simp: filter_empty_conv)
    qed
    with True show ?thesis by (simp add: rule_conflict_def find_map_None_iff)
  qed (simp add: rule_conflict_def)
  then show ?thesis by (simp add: separation_conflict_def find_map_None_iff)
qed

lemma separation_conflict_antimono:
  "set ps \<subseteq> set qs \<Longrightarrow> separation_conflict c qs d = None \<Longrightarrow> separation_conflict c ps d = None"
  unfolding separation_conflict_None_iff by (elim disjE) (auto dest: subsetD)

text \<open>A principal without separated holdings never stands in the way.\<close>

lemma no_conflict_without_holdings:
  "\<forall>p \<in> set ps. dict_get (lc_holdings c) p [] = [] \<Longrightarrow> separation_conflict c ps d = None"
  by (simp add: separation_conflict_None_iff)

lemma set_named_decisions:
  "set (named_decisions c txt inputs) =
     {d. d = str_or_empty (get_key inputs ''decision'') \<and> d \<noteq> []} \<union>
     {d \<in> set (separated_decisions (lc_separations c)).
        written_in (txt @ [CHR 0x0A] @ json_dumps (PDict (filter (\<lambda>(k, v). k \<noteq> ''decision'') inputs))) d}"
proof -
  have "set (foldl (\<lambda>found d. if P d \<and> d \<notin> set found then found @ [d] else found) acc xs) =
      set acc \<union> {d \<in> set xs. P d}" for P :: "string \<Rightarrow> bool" and acc xs
    by (induction xs arbitrary: acc) (auto simp: insert_absorb)
  then show ?thesis by (auto simp: named_decisions_def Let_def)
qed

lemma ex_append_Cons:
  "(\<exists>u v. c # cs = u @ v \<and> Q u v) \<longleftrightarrow> Q [] (c # cs) \<or> (\<exists>u v. cs = u @ v \<and> Q (c # u) v)"
  (is "?l \<longleftrightarrow> ?r")
proof
  assume ?l
  then obtain u v where "c # cs = u @ v" "Q u v" by blast
  then show ?r by (cases u) auto
next
  assume ?r
  then show ?l
  proof
    assume "\<exists>u v. cs = u @ v \<and> Q (c # u) v"
    then obtain u v where "c # cs = (c # u) @ v" "Q (c # u) v" by auto
    then show ?l by blast
  qed (metis append_Nil)
qed

lemma spelled_here_letters:
  "spelled_here (map Letter d) s \<longleftrightarrow>
     (\<exists>w v. s = w @ v \<and> py_lower w = py_lower d \<and> (v = [] \<or> \<not> is_alnum (hd v)))"
proof (induction d arbitrary: s)
  case Nil
  show ?case by (cases s) (auto simp: py_lower_def)
next
  case (Cons a d)
  show ?case
  proof (cases s)
    case Nil
    then show ?thesis by (simp add: py_lower_def)
  next
    case s: (Cons c cs)
    have lower: "py_lower (x # xs) = char_lower x # py_lower xs" "py_lower [] = []" for x xs
      by (simp_all add: py_lower_def)
    show ?thesis unfolding s ex_append_Cons lower list.map spelled_here.simps Cons.IH list.inject
      by (simp only: list.distinct simp_thms eq_commute [of "char_lower c"] ex_simps conj_assoc) blast
  qed
qed

lemma spelled_after_iff:
  "spelled_after prev ps s \<longleftrightarrow>
     (\<exists>u v. s = u @ v \<and> spelled_here ps v \<and>
        (case (if u = [] then prev else Some (last u)) of None \<Rightarrow> True | Some c \<Rightarrow> \<not> is_alnum c))"
proof (induction s arbitrary: prev)
  case Nil
  show ?case by (subst spelled_after.simps) (simp add: conj_commute)
next
  case (Cons c cs)
  have last: "(if c # u = [] then prev else Some (last (c # u))) = (if u = [] then Some c else Some (last u))" for u
    by simp
  show ?case unfolding ex_append_Cons last
    by (subst spelled_after.simps) (simp add: Cons.IH [of "Some c"] conj_commute)
qed

text \<open>A separated decision written as it is declared, in any case and with no letter or digit on
  either side, is named.\<close>

lemma written_decision_is_named:
  assumes "d \<in> set (separated_decisions (lc_separations c))" and "txt = u @ w @ v"
    and "py_lower w = py_lower d" and "u = [] \<or> \<not> is_alnum (last u)" and "v = [] \<or> \<not> is_alnum (hd v)"
  shows "d \<in> set (named_decisions c txt inputs)"
proof -
  let ?rest = "v @ [CHR 0x0A] @ json_dumps (PDict (filter (\<lambda>(k, v). k \<noteq> ''decision'') inputs))"
  have "hd ?rest = (if v = [] then CHR 0x0A else hd v)" by (cases v) simp_all
  moreover have "\<not> is_alnum (CHR 0x0A)" by code_simp
  ultimately have "\<not> is_alnum (hd ?rest)" using assms(5) by (auto split: if_splits)
  then have "spelled_here (map Letter d) (w @ ?rest)"
    unfolding spelled_here_letters using assms(3) by blast
  then have "spelled_after None (map Letter d) (u @ w @ ?rest)"
    unfolding spelled_after_iff using assms(4)
    by (intro exI [of _ u] exI [of _ "w @ ?rest"]) (auto split: option.splits)
  then show ?thesis using assms(1,2) by (simp add: set_named_decisions written_in_def spellings_def)
qed

lemma named_decision_spelled_apart:
  "written_in ''please Pay - Invoice 7'' ''pay_invoice''" "\<not> written_in ''repay_invoices'' ''pay_invoice''"
  by code_simp+

end
