(* ===== verification/HopChain.thy ===== *)
theory HopChain
  imports BusPolicy
begin

text \<open>
  Signed delegation hops (\<open>HopKeys\<close>, \<open>hop_hash\<close>, \<open>body_digest\<close> and \<open>verify_chain\<close> of
  \<open>runtime/agent_bus.py\<close>). A hop is a JSON object of claims and a signature; it arrives from the wire,
  so it may be any value. The digest (SHA-256), the signature (Ed25519 in the spelling of
  \<open>security/nkey.py\<close>, with its base64 text) and \<open>float()\<close> of a text are parameters, collected in
  \<open>hop_world\<close>; nothing is assumed of them except where a lemma says so. Times are whole seconds.

  \<open>check_hops\<close> is the loop of \<open>verify_chain\<close>. The lemmas show what a verified chain proves
  (\<open>proven_chain\<close>), that it names its principals in order, and that what an agent signs on top of a
  chain that was verified for it is verified by the agent it sends it to.
\<close>

section \<open>Signing\<close>

record hop_world =
  hw_sha256 :: "string \<Rightarrow> string"
  hw_sign :: "string \<Rightarrow> string \<Rightarrow> string"
  hw_verify :: "string \<Rightarrow> string \<Rightarrow> string \<Rightarrow> bool"
  hw_float :: "string \<Rightarrow> int option"

record hop_keys =
  hk_seed :: string
  hk_public :: "(string \<times> string) list"

type_synonym claims = "(string \<times> pyval) list"

definition hop_version :: int where
  "hop_version = 1"

definition hop_skew :: int where
  "hop_skew = 60"

definition hop_hash :: "hop_world \<Rightarrow> pyval \<Rightarrow> string" where
  "hop_hash w hop = hw_sha256 w (canon_json hop)"

definition body_digest :: "hop_world \<Rightarrow> string \<Rightarrow> string \<Rightarrow> pyval \<Rightarrow> string" where
  "body_digest w kind txt inputs =
     hw_sha256 w (canon_json (PDict [(''kind'', PStr kind), (''text'', PStr txt),
       (''inputs'', if truthy inputs then inputs else PDict [])]))"

definition hop_sign :: "hop_world \<Rightarrow> hop_keys \<Rightarrow> claims \<Rightarrow> pyval" where
  "hop_sign w hk c =
     PDict [(''claims'', PDict c), (''sig'', PStr (hw_sign w (hk_seed hk) (canon_json (PDict c))))]"

text \<open>\<open>agent:U...,agent:U...\<close>; \<open>rpartition\<close> splits at the last colon.\<close>

definition parse_key_part :: "string \<Rightarrow> (string \<times> string) option" where
  "parse_key_part part =
     (let p = rev (py_strip part);
          key = rev (takeWhile (\<lambda>c. c \<noteq> CHR 0x3A) p);
          agent = rev (tl (dropWhile (\<lambda>c. c \<noteq> CHR 0x3A) p))
      in if CHR 0x3A \<in> set p \<and> agent \<noteq> [] \<and> key \<noteq> [] then Some (agent, key) else None)"

definition parse_bus_public_keys :: "string \<Rightarrow> (string \<times> string) list" where
  "parse_bus_public_keys spec =
     foldl (\<lambda>out part. case parse_key_part part of None \<Rightarrow> out | Some (agent, key) \<Rightarrow> AList.update agent key out)
       [] (split_on (CHR 0x2C) spec)"

text \<open>The hop \<open>_outbound\<close> signs on top of the hops its run was given.\<close>

definition made_claims ::
    "hop_world \<Rightarrow> string \<Rightarrow> pyval list \<Rightarrow> string \<Rightarrow> string \<Rightarrow> string \<Rightarrow> string \<Rightarrow> int \<Rightarrow> string \<Rightarrow>
     (string \<times> pyval) list \<Rightarrow> string list \<Rightarrow> int \<Rightarrow> int \<Rightarrow> claims" where
  "made_claims w me hops kind task trace receiver depth txt inputs decisions now deadline =
     [(''v'', PInt hop_version), (''kind'', PStr kind), (''task'', PStr task), (''trace_id'', PStr trace),
      (''from'', PStr me), (''to'', PStr receiver), (''depth'', PInt depth),
      (''prev'', PStr (if hops = [] then [] else hop_hash w (last hops))),
      (''digest'', PStr (body_digest w kind txt (PDict inputs))),
      (''decisions'', PList (map PStr decisions)), (''iat'', PInt now), (''exp'', PInt (now + deadline))]"

text \<open>The settings a worker on the broker starts from; \<open>None\<close> is the \<open>SystemExit\<close>. \<open>public_of\<close> derives
  the public key of a seed, or refuses what is none.\<close>

definition hop_keys_from_env ::
    "(string \<Rightarrow> string option) \<Rightarrow> string \<Rightarrow> (string \<times> string) list \<Rightarrow> hop_keys option" where
  "hop_keys_from_env public_of agent env =
     (let seed = dict_get env ''ORGAGENTS_BUS_NKEY_SEED'' [];
          keys = parse_bus_public_keys (dict_get env ''ORGAGENTS_BUS_PUBLIC_KEYS'' [])
      in if seed = [] \<or> keys = [] then None
         else (case public_of seed of
                 None \<Rightarrow> None
               | Some mine \<Rightarrow>
                   if map_of keys agent \<noteq> Some mine then None
                   else Some \<lparr>hk_seed = seed, hk_public = keys\<rparr>))"

section \<open>Verifying\<close>

datatype hop_error =
    NoHops
  | HopShape nat
  | UnknownSigner nat string
  | BadSignature nat string
  | UnknownVersion nat
  | NotAfter nat
  | WrongSigner nat string
  | AfterExpiry nat
  | TraceChanged nat
  | WrongEnds
  | ChainExpired
  | ChainFuture
  | OtherMessage
  | Altered
  | Replay string
  | Malformed

fun py_float :: "hop_world \<Rightarrow> pyval \<Rightarrow> int option" where
  "py_float w (PStr s) = hw_float w s"
| "py_float w v = number v"

fun hop_claims :: "pyval \<Rightarrow> claims option" where
  "hop_claims (PDict h) = (case map_of h ''claims'' of Some (PDict c) \<Rightarrow> Some c | _ \<Rightarrow> None)"
| "hop_claims v = None"

fun hop_sig :: "pyval \<Rightarrow> string" where
  "hop_sig (PDict h) = py_str (dict_get h ''sig'' (PStr []))"
| "hop_sig v = []"

definition claim :: "claims \<Rightarrow> string \<Rightarrow> pyval" where
  "claim c k = dict_get c k PNone"

definition signer_of :: "claims \<Rightarrow> string" where
  "signer_of c = str_or_empty (claim c ''from'')"

definition time_claim :: "hop_world \<Rightarrow> claims \<Rightarrow> string \<Rightarrow> int option" where
  "time_claim w c k = py_float w (dict_get c k (PInt 0))"

text \<open>What a hop must be to follow the one before it.\<close>

definition follows :: "hop_world \<Rightarrow> nat \<Rightarrow> claims \<Rightarrow> claims \<Rightarrow> hop_error option" where
  "follows w i p c =
     (case map_of p ''to'' of
        None \<Rightarrow> Some Malformed
      | Some t \<Rightarrow>
          if \<not> py_eq (PStr (signer_of c)) t then Some (WrongSigner i (signer_of c))
          else (case (time_claim w c ''iat'', time_claim w p ''exp'') of
                  (Some iat, Some exp) \<Rightarrow>
                    if iat > exp then Some (AfterExpiry i)
                    else if \<not> py_eq (claim c ''trace_id'') (claim p ''trace_id'') then Some (TraceChanged i)
                    else None
                | _ \<Rightarrow> Some Malformed))"

definition check_hop ::
    "hop_world \<Rightarrow> hop_keys \<Rightarrow> nat \<Rightarrow> string \<Rightarrow> claims option \<Rightarrow> pyval \<Rightarrow> hop_error + claims" where
  "check_hop w hk i prev_hash prev hop =
     (case hop_claims hop of
        None \<Rightarrow> Inl (HopShape i)
      | Some c \<Rightarrow>
          (let key = dict_get (hk_public hk) (signer_of c) []
           in if key = [] then Inl (UnknownSigner i (signer_of c))
              else if \<not> hw_verify w key (canon_json (PDict c)) (hop_sig hop)
              then Inl (BadSignature i (signer_of c))
              else if \<not> py_eq (claim c ''v'') (PInt hop_version) then Inl (UnknownVersion i)
              else if \<not> py_eq (dict_get c ''prev'' (PStr [])) (PStr prev_hash) then Inl (NotAfter i)
              else (case prev of
                      None \<Rightarrow> Inr c
                    | Some p \<Rightarrow> (case follows w i p c of None \<Rightarrow> Inr c | Some e \<Rightarrow> Inl e))))"

fun check_hops ::
    "hop_world \<Rightarrow> hop_keys \<Rightarrow> nat \<Rightarrow> string \<Rightarrow> claims option \<Rightarrow> pyval list \<Rightarrow> hop_error + claims list" where
  "check_hops w hk i prev_hash prev [] = Inr []"
| "check_hops w hk i prev_hash prev (hop # hops) =
     ebind (check_hop w hk i prev_hash prev hop) (\<lambda>c.
     ebind (check_hops w hk (Suc i) (hop_hash w hop) (Some c) hops) (\<lambda>cs. Inr (c # cs)))"

text \<open>The checks of the last hop against the message it came with.\<close>

definition check_last ::
    "hop_world \<Rightarrow> string \<Rightarrow> string \<Rightarrow> (string \<times> pyval) list \<Rightarrow> int \<Rightarrow> claims \<Rightarrow> hop_error + unit" where
  "check_last w me sender body now c =
     (if \<not> py_eq (claim c ''from'') (PStr sender) \<or> \<not> py_eq (claim c ''to'') (PStr me) then Inl WrongEnds
      else (case time_claim w c ''exp'' of
              None \<Rightarrow> Inl Malformed
            | Some exp \<Rightarrow>
      if exp < now then Inl ChainExpired
      else (case time_claim w c ''iat'' of
              None \<Rightarrow> Inl Malformed
            | Some iat \<Rightarrow>
      if iat > now + hop_skew then Inl ChainFuture
      else if \<not> py_eq (claim c ''task'') (get_key body ''id'') \<or>
              \<not> py_eq (claim c ''kind'') (get_key body ''kind'') \<or>
              \<not> py_eq (claim c ''trace_id'') (get_key body ''trace_id'') then Inl OtherMessage
      else (case (py_int (dict_get c ''depth'' (PInt (- 1))),
                  py_int (if truthy (get_key body ''depth'') then get_key body ''depth'' else PInt 0)) of
              (Some d, Some d') \<Rightarrow>
                if d \<noteq> d' then Inl OtherMessage
                else if \<not> py_eq (claim c ''digest'')
                          (PStr (body_digest w (str_or_empty (get_key body ''kind''))
                                   (str_or_empty (get_key body ''text'')) (get_key body ''inputs'')))
                then Inl Altered
                else Inr ()
            | _ \<Rightarrow> Inl Malformed))))"

definition principals_of :: "claims list \<Rightarrow> string list option" where
  "principals_of cs =
     (if list_ex (\<lambda>c. map_of c ''to'' = None) cs \<or> map_of (hd cs) ''from'' = None then None
      else Some (py_str (claim (hd cs) ''from'') # map (\<lambda>c. py_str (claim c ''to'')) cs))"

definition verify_chain ::
    "hop_world \<Rightarrow> hop_keys \<Rightarrow> string \<Rightarrow> string \<Rightarrow> (string \<times> pyval) list \<Rightarrow> int \<Rightarrow> pyval list \<Rightarrow>
     hop_error + string list" where
  "verify_chain w hk me sender body now hops =
     (if hops = [] then Inl NoHops
      else ebind (check_hops w hk 1 [] None hops) (\<lambda>cs.
           ebind (check_last w me sender body now (last cs)) (\<lambda>_.
           case principals_of cs of None \<Rightarrow> Inl Malformed | Some ps \<Rightarrow> Inr ps)))"

text \<open>The keys a worker starts with name no empty agent and no empty key, and list its own.\<close>

lemma parse_key_part_Some: "parse_key_part part = Some (agent, key) \<Longrightarrow> agent \<noteq> [] \<and> key \<noteq> []"
  by (auto simp: parse_key_part_def Let_def split: if_splits)

lemma parsed_keys:
  "map_of (parse_bus_public_keys spec) [] = None"
  "map_of (parse_bus_public_keys spec) a = Some key \<Longrightarrow> key \<noteq> []"
proof -
  let ?ok = "\<lambda>d. map_of d [] = None \<and> (\<forall>a key. map_of d a = Some key \<longrightarrow> key \<noteq> [])"
  have "?ok (parse_bus_public_keys spec)"
    unfolding parse_bus_public_keys_def
    by (rule foldl_keeps) (auto dest: parse_key_part_Some split: option.splits)
  then show "map_of (parse_bus_public_keys spec) [] = None"
    and "map_of (parse_bus_public_keys spec) a = Some key \<Longrightarrow> key \<noteq> []" by blast+
qed

lemma started_keys:
  assumes "hop_keys_from_env public_of agent env = Some hk"
  shows "map_of (hk_public hk) [] = None" and "map_of (hk_public hk) agent = public_of (hk_seed hk)"
    and "map_of (hk_public hk) agent \<noteq> None"
  using assms by (auto simp: hop_keys_from_env_def Let_def parsed_keys split: if_splits option.splits)

section \<open>What a verified chain proves\<close>

definition signed_hop :: "hop_world \<Rightarrow> hop_keys \<Rightarrow> pyval \<Rightarrow> claims \<Rightarrow> bool" where
  "signed_hop w hk hop c \<longleftrightarrow>
     hop_claims hop = Some c \<and>
     (\<exists>key. map_of (hk_public hk) (signer_of c) = Some key \<and> key \<noteq> [] \<and>
            hw_verify w key (canon_json (PDict c)) (hop_sig hop))"

text \<open>A hop carries the hash of the one before it, comes from whom that one went to, in the same
  trace and no later than it expired.\<close>

definition linked_hop :: "hop_world \<Rightarrow> pyval \<Rightarrow> claims \<Rightarrow> claims \<Rightarrow> bool" where
  "linked_hop w before p c \<longleftrightarrow>
     dict_get c ''prev'' (PStr []) = PStr (hop_hash w before) \<and> claim p ''to'' = PStr (signer_of c) \<and>
     py_eq (claim c ''trace_id'') (claim p ''trace_id'') \<and>
     (\<exists>iat exp. time_claim w c ''iat'' = Some iat \<and> time_claim w p ''exp'' = Some exp \<and> iat \<le> exp)"

definition proven_chain :: "hop_world \<Rightarrow> hop_keys \<Rightarrow> pyval list \<Rightarrow> claims list \<Rightarrow> bool" where
  "proven_chain w hk hops cs \<longleftrightarrow>
     length cs = length hops \<and>
     (\<forall>i < length hops. signed_hop w hk (hops ! i) (cs ! i)) \<and>
     (\<forall>i. Suc i < length hops \<longrightarrow> linked_hop w (hops ! i) (cs ! i) (cs ! Suc i))"

lemma py_eq_PStr [simp]: "py_eq v (PStr s) \<longleftrightarrow> v = PStr s" "py_eq (PStr s) v \<longleftrightarrow> v = PStr s"
  by (cases v; auto simp: py_eq_def)+

lemma claim_found: "map_of c k = Some v \<Longrightarrow> claim c k = v"
  by (simp add: claim_def dict_get_def)

lemma follows_None_iff:
  "follows w i p c = None \<longleftrightarrow>
     claim p ''to'' = PStr (signer_of c) \<and> py_eq (claim c ''trace_id'') (claim p ''trace_id'') \<and>
     (\<exists>iat exp. time_claim w c ''iat'' = Some iat \<and> time_claim w p ''exp'' = Some exp \<and> iat \<le> exp)"
proof (cases "map_of p ''to''")
  case None
  then show ?thesis by (simp add: follows_def claim_def dict_get_def)
next
  case (Some t)
  then show ?thesis by (auto simp: follows_def claim_found split: option.splits)
qed

lemma check_hop_Inr:
  "check_hop w hk i ph prev hop = Inr c \<longleftrightarrow>
     signed_hop w hk hop c \<and> py_eq (claim c ''v'') (PInt hop_version) \<and>
     dict_get c ''prev'' (PStr []) = PStr ph \<and> (\<forall>p. prev = Some p \<longrightarrow> follows w i p c = None)"
  by (cases "map_of (hk_public hk) (signer_of c)")
     (auto simp: check_hop_def signed_hop_def Let_def dict_get_def split: option.splits if_splits)

lemma check_hops_proven:
  "check_hops w hk i ph prev hops = Inr cs \<Longrightarrow>
     proven_chain w hk hops cs \<and>
     (\<forall>c. cs \<noteq> [] \<and> c = hd cs \<longrightarrow> dict_get c ''prev'' (PStr []) = PStr ph \<and>
        (\<forall>p. prev = Some p \<longrightarrow> follows w i p c = None))"
proof (induction hops arbitrary: i ph prev cs)
  case (Cons hop hops)
  from Cons.prems obtain c ds where cs: "cs = c # ds"
    and hop: "check_hop w hk i ph prev hop = Inr c"
    and rest: "check_hops w hk (Suc i) (hop_hash w hop) (Some c) hops = Inr ds"
    by (auto simp: ebind_eq_Inr)
  note IH = Cons.IH [OF rest]
  have link: "linked_hop w hop c (hd ds)" if "ds \<noteq> []"
    using IH that by (auto simp: linked_hop_def follows_None_iff)
  have "proven_chain w hk (hop # hops) cs"
    unfolding proven_chain_def
  proof (intro conjI allI impI)
    show "length cs = length (hop # hops)" using IH by (simp add: cs proven_chain_def)
    show "signed_hop w hk ((hop # hops) ! k) (cs ! k)" if "k < length (hop # hops)" for k
      using IH hop that by (cases k) (simp_all add: cs proven_chain_def check_hop_Inr)
    show "linked_hop w ((hop # hops) ! k) (cs ! k) (cs ! Suc k)" if "Suc k < length (hop # hops)" for k
    proof (cases k)
      case 0
      with that IH have "ds \<noteq> []" by (auto simp: proven_chain_def)
      with link 0 show ?thesis by (simp add: cs hd_conv_nth)
    next
      case (Suc m)
      with that IH show ?thesis by (simp add: cs proven_chain_def)
    qed
  qed
  with hop show ?case by (simp add: cs check_hop_Inr)
qed (simp add: proven_chain_def)

lemma check_hops_length: "check_hops w hk i ph prev hops = Inr cs \<Longrightarrow> length cs = length hops"
  using check_hops_proven by (fastforce simp: proven_chain_def)

text \<open>The last hop against the message: whom it is from and for, that it is in time, and that it is
  this message.\<close>

definition hop_matches ::
    "hop_world \<Rightarrow> string \<Rightarrow> string \<Rightarrow> (string \<times> pyval) list \<Rightarrow> int \<Rightarrow> claims \<Rightarrow> bool" where
  "hop_matches w me sender body now c \<longleftrightarrow>
     claim c ''from'' = PStr sender \<and> claim c ''to'' = PStr me \<and>
     (\<exists>exp. time_claim w c ''exp'' = Some exp \<and> now \<le> exp) \<and>
     (\<exists>iat. time_claim w c ''iat'' = Some iat \<and> iat \<le> now + hop_skew) \<and>
     py_eq (claim c ''task'') (get_key body ''id'') \<and> py_eq (claim c ''kind'') (get_key body ''kind'') \<and>
     py_eq (claim c ''trace_id'') (get_key body ''trace_id'') \<and>
     (\<exists>d. py_int (dict_get c ''depth'' (PInt (- 1))) = Some d \<and>
          py_int (if truthy (get_key body ''depth'') then get_key body ''depth'' else PInt 0) = Some d) \<and>
     claim c ''digest'' = PStr (body_digest w (str_or_empty (get_key body ''kind''))
       (str_or_empty (get_key body ''text'')) (get_key body ''inputs''))"

lemma check_last_Inr: "check_last w me sender body now c = Inr u \<longleftrightarrow> hop_matches w me sender body now c"
  by (auto simp: check_last_def hop_matches_def split: option.splits)

lemma verify_chain_Inr:
  "verify_chain w hk me sender body now hops = Inr ps \<longleftrightarrow>
     hops \<noteq> [] \<and> (\<exists>cs. check_hops w hk 1 [] None hops = Inr cs \<and>
       hop_matches w me sender body now (last cs) \<and> principals_of cs = Some ps)"
  by (auto simp: verify_chain_def ebind_eq_Inr check_last_Inr split: option.splits)

lemma principals_of_Some:
  assumes "principals_of cs = Some ps" and "cs \<noteq> []"
  shows "length ps = Suc (length cs)" and "hd ps = py_str (claim (hd cs) ''from'')"
    and "i < length cs \<Longrightarrow> ps ! Suc i = py_str (claim (cs ! i) ''to'')"
  using assms by (auto simp: principals_of_def split: if_splits)


section \<open>What is signed is verified\<close>

lemma check_hops_snoc:
  "check_hops w hk i ph prev (hops @ [hop]) =
     ebind (check_hops w hk i ph prev hops) (\<lambda>cs.
     ebind (check_hop w hk (i + length hops) (if hops = [] then ph else hop_hash w (last hops))
              (if cs = [] then prev else Some (last cs)) hop) (\<lambda>c. Inr (cs @ [c])))"
proof (induction hops arbitrary: i ph prev)
  case Nil
  show ?case by (simp add: ebind_def split: sum.splits)
next
  case (Cons h hops)
  show ?case
  proof (cases "check_hop w hk i ph prev h")
    case (Inr c)
    show ?thesis
    proof (cases "check_hops w hk (Suc i) (hop_hash w h) (Some c) hops")
      case r: (Inr ds)
      then have "(ds = []) = (hops = [])" using check_hops_length by fastforce
      with r Inr show ?thesis by (auto simp: Cons.IH ebind_def split: sum.splits)
    qed (simp add: Inr Cons.IH)
  qed simp
qed

text \<open>What the sender holds: no hops of its own account, or hops verified for it.\<close>

definition held_chain ::
    "hop_world \<Rightarrow> hop_keys \<Rightarrow> string \<Rightarrow> string \<Rightarrow> int \<Rightarrow> pyval list \<Rightarrow> string list \<Rightarrow> bool" where
  "held_chain w hk me trace now hops ps \<longleftrightarrow>
     (if hops = [] then ps = [me]
      else (\<exists>cs exp. check_hops w hk 1 [] None hops = Inr cs \<and> principals_of cs = Some ps \<and>
              claim (last cs) ''to'' = PStr me \<and> claim (last cs) ''trace_id'' = PStr trace \<and>
              time_claim w (last cs) ''exp'' = Some exp \<and> now \<le> exp))"

lemma made_claims_simps [simp]:
  "claim (made_claims w me hops kind task trace receiver depth txt inputs decisions now deadline) ''v'' = PInt hop_version"
  "claim (made_claims w me hops kind task trace receiver depth txt inputs decisions now deadline) ''kind'' = PStr kind"
  "claim (made_claims w me hops kind task trace receiver depth txt inputs decisions now deadline) ''task'' = PStr task"
  "claim (made_claims w me hops kind task trace receiver depth txt inputs decisions now deadline) ''trace_id'' = PStr trace"
  "claim (made_claims w me hops kind task trace receiver depth txt inputs decisions now deadline) ''from'' = PStr me"
  "claim (made_claims w me hops kind task trace receiver depth txt inputs decisions now deadline) ''to'' = PStr receiver"
  "claim (made_claims w me hops kind task trace receiver depth txt inputs decisions now deadline) ''digest'' =
     PStr (body_digest w kind txt (PDict inputs))"
  "dict_get (made_claims w me hops kind task trace receiver depth txt inputs decisions now deadline) ''depth'' v = PInt depth"
  "dict_get (made_claims w me hops kind task trace receiver depth txt inputs decisions now deadline) ''prev'' v =
     PStr (if hops = [] then [] else hop_hash w (last hops))"
  "time_claim w (made_claims w me hops kind task trace receiver depth txt inputs decisions now deadline) ''iat'' = Some now"
  "time_claim w (made_claims w me hops kind task trace receiver depth txt inputs decisions now deadline) ''exp'' = Some (now + deadline)"
  "map_of (made_claims w me hops kind task trace receiver depth txt inputs decisions now deadline) ''to'' = Some (PStr receiver)"
  "map_of (made_claims w me hops kind task trace receiver depth txt inputs decisions now deadline) ''from'' = Some (PStr me)"
  by (simp_all add: made_claims_def claim_def time_claim_def)

lemma signer_of_made [simp]:
  "signer_of (made_claims w me hops kind task trace receiver depth txt inputs decisions now deadline) = me"
  by (simp add: signer_of_def str_or_empty_def)

definition signs_for :: "hop_world \<Rightarrow> string \<Rightarrow> string \<Rightarrow> hop_keys \<Rightarrow> bool" where
  "signs_for w seed agent hk \<longleftrightarrow>
     (\<exists>key. map_of (hk_public hk) agent = Some key \<and> key \<noteq> [] \<and>
            (\<forall>d. hw_verify w key d (hw_sign w seed d)))"

lemma signed_hop_made:
  assumes "signs_for w (hk_seed mine) (signer_of c) hk"
  shows "signed_hop w hk (hop_sign w mine c) c"
  using assms by (auto simp: signed_hop_def signs_for_def hop_sign_def)

lemma check_hop_made:
  assumes "signs_for w (hk_seed mine) me hk"
    and "held_chain w hk me trace now hops ps"
    and "hops \<noteq> [] \<Longrightarrow> check_hops w hk 1 [] None hops = Inr cs"
    and "c = made_claims w me hops kind task trace receiver depth txt inputs decisions now deadline"
  shows "check_hop w hk i (if hops = [] then [] else hop_hash w (last hops))
           (if hops = [] then None else Some (last cs)) (hop_sign w mine c) = Inr c"
proof -
  have "follows w i (last cs) c = None" if "hops \<noteq> []" for i
    using assms(2,3) that unfolding follows_None_iff assms(4) by (auto simp: held_chain_def)
  moreover have "signed_hop w hk (hop_sign w mine c) c"
    using assms(1) by (intro signed_hop_made) (simp add: assms(4))
  ultimately show ?thesis by (simp add: check_hop_Inr assms(4))
qed

lemma principals_of_snoc:
  "principals_of cs = Some ps \<Longrightarrow> cs \<noteq> [] \<Longrightarrow> map_of c ''to'' = Some (PStr r) \<Longrightarrow>
     principals_of (cs @ [c]) = Some (ps @ [r])"
  by (auto simp: principals_of_def claim_found split: if_splits)

lemma signed_hop_extends:
  assumes "signs_for w (hk_seed mine) me hk" and "held_chain w hk me trace now hops ps"
    and "c = made_claims w me hops kind task trace receiver depth txt inputs decisions now deadline"
  shows "\<exists>cs. check_hops w hk 1 [] None (hops @ [hop_sign w mine c]) = Inr cs \<and> last cs = c \<and>
    principals_of cs = Some (ps @ [receiver])"
proof (cases "hops = []")
  case True
  have "check_hop w hk 1 [] None (hop_sign w mine c) = Inr c"
    using check_hop_made [OF assms(1,2) _ assms(3), of undefined 1] True by simp
  with True assms(2) show ?thesis by (simp add: held_chain_def principals_of_def assms(3) claim_found)
next
  case False
  with assms(2) obtain ds where run: "check_hops w hk 1 [] None hops = Inr ds" and held: "principals_of ds = Some ps"
    by (auto simp: held_chain_def)
  from check_hops_length [OF run] False have ne: "ds \<noteq> []" by auto
  have "check_hop w hk (1 + length hops) (hop_hash w (last hops)) (Some (last ds)) (hop_sign w mine c) = Inr c"
    using check_hop_made [OF assms(1,2) _ assms(3), of ds "1 + length hops"] False run by simp
  then have "check_hops w hk 1 [] None (hops @ [hop_sign w mine c]) = Inr (ds @ [c])"
    using False run ne by (simp add: check_hops_snoc)
  moreover have "principals_of (ds @ [c]) = Some (ps @ [receiver])"
    by (rule principals_of_snoc [OF held ne]) (simp add: assms(3))
  ultimately show ?thesis by simp
qed

text \<open>The chain a receiver verified is one it may extend in turn.\<close>

lemma extended_chain_is_held:
  assumes "signs_for w (hk_seed mine) me hk" and "held_chain w hk me trace now hops ps"
    and "c = made_claims w me hops kind task trace receiver depth txt inputs decisions now deadline"
    and "later \<le> now + deadline"
  shows "held_chain w hk receiver trace later (hops @ [hop_sign w mine c]) (ps @ [receiver])"
  using signed_hop_extends [OF assms(1-3)] assms(4) by (auto simp: held_chain_def assms(3))

text \<open>
  C12: What an honest agent sends is accepted: when an agent signs its hop on top of no hops, or of a
  chain that verifies and was addressed to it in this trace and has not expired, the worker it sends
  to, holding its public key, verifies the longer chain, until the new hop expires, and judges by
  the principals the sender had, followed by the receiver. Hence a chain grows through any number of
  agents without ever being refused for its signatures.
\<close>

theorem signed_delegation_is_verified:
  assumes "signs_for w (hk_seed mine) me hk" and "held_chain w hk me trace now hops ps"
    and "hop = hop_sign w mine (made_claims w me hops kind task trace receiver depth txt inputs decisions now deadline)"
    and "get_key body ''id'' = PStr task" and "get_key body ''kind'' = PStr kind"
    and "get_key body ''trace_id'' = PStr trace" and "get_key body ''text'' = PStr txt"
    and "get_key body ''inputs'' = PDict inputs" and "get_key body ''depth'' = PInt depth"
    and "now - hop_skew \<le> at" and "at \<le> now + deadline"
  shows "verify_chain w hk receiver me body at (hops @ [hop]) = Inr (ps @ [receiver])"
proof -
  define c where "c = made_claims w me hops kind task trace receiver depth txt inputs decisions now deadline"
  have "hop_matches w receiver me body at c"
    using assms(4-11) by (auto simp: hop_matches_def c_def str_or_empty_def body_digest_def)
  with signed_hop_extends [OF assms(1,2) c_def] show ?thesis
    by (auto simp: verify_chain_Inr assms(3) c_def)
qed

text \<open>A world for the examples: the digest of a text is its length, and a signature names its seed.\<close>

definition example_hop_world :: hop_world where
  "example_hop_world = \<lparr>hw_sha256 = (\<lambda>t. show_nat (length t)), hw_sign = (\<lambda>seed t. seed @ show_nat (length t)),
     hw_verify = (\<lambda>key t sig. sig = key @ show_nat (length t)), hw_float = (\<lambda>t. None)\<rparr>"

definition example_hop_keys :: "string \<Rightarrow> hop_keys" where
  "example_hop_keys seed = \<lparr>hk_seed = seed, hk_public = [(''coo'', ''C''), (''buyer'', ''B''), (''ap'', ''A'')]\<rparr>"

definition example_first_hop :: pyval where
  "example_first_hop = hop_sign example_hop_world (example_hop_keys ''C'')
     (made_claims example_hop_world ''coo'' [] ''delegate'' ''t1'' ''r1'' ''buyer'' 1 ''buy'' [] [] 100 900)"

definition example_second_hop :: pyval where
  "example_second_hop = hop_sign example_hop_world (example_hop_keys ''B'')
     (made_claims example_hop_world ''buyer'' [example_first_hop] ''delegate'' ''t2'' ''r1'' ''ap'' 2 ''check'' [] [] 130 900)"

definition example_body :: "string \<Rightarrow> int \<Rightarrow> string \<Rightarrow> (string \<times> pyval) list" where
  "example_body task depth txt =
     [(''id'', PStr task), (''kind'', PStr ''delegate''), (''trace_id'', PStr ''r1''), (''text'', PStr txt),
      (''inputs'', PDict []), (''depth'', PInt depth)]"

lemma example_signs:
  "(seed, agent) \<in> {(''C'', ''coo''), (''B'', ''buyer''), (''A'', ''ap'')} \<Longrightarrow>
     signs_for example_hop_world (hk_seed (example_hop_keys seed)) agent (example_hop_keys s)"
  by (auto simp: signs_for_def example_hop_world_def example_hop_keys_def)

lemma example_held:
  "held_chain example_hop_world (example_hop_keys s) ''buyer'' ''r1'' 130 [example_first_hop] [''coo'', ''buyer'']"
proof -
  have "held_chain example_hop_world (example_hop_keys s) ''coo'' ''r1'' 100 [] [''coo'']"
    by (simp add: held_chain_def)
  from extended_chain_is_held [OF _ this refl, of "example_hop_keys ''C''" 130 900] show ?thesis
    by (simp add: example_signs example_first_hop_def)
qed

lemma signed_delegation_is_verified_witness:
  "verify_chain example_hop_world (example_hop_keys ''A'') ''ap'' ''buyer'' (example_body ''t2'' 2 ''check'') 140
     [example_first_hop, example_second_hop] = Inr [''coo'', ''buyer'', ''ap'']"
  using signed_delegation_is_verified [OF _ example_held example_second_hop_def, of "''A''" "example_body ''t2'' 2 ''check''" 140]
  by (simp add: example_signs example_body_def get_key_def hop_skew_def)


end
