(* ===== verification/AgentBus.thy ===== *)
theory AgentBus
  imports HopChain
begin

text \<open>
  One agent's side of the bus (\<open>AgentMessenger\<close> of \<open>runtime/agent_bus.py\<close>). \<open>messenger\<close> is its state:
  the compiled links, the keys, the replay table, the delegation handles, the last 2000 events, the
  work handed to its pool and what the transport has taken. An operation happens at one time \<open>now\<close>
  (\<open>time.time()\<close>, whole seconds) on one day; the identifiers it mints, the answer of the transport and
  what a run returns are its arguments. A body on the wire is the decoded JSON object, or the error of
  decoding it. Every field of a body may be anything: where the code raises on it, so does the model. The
  sentence of a refusal is a constructor here and is not rendered, so the reply to a refused
  delegation carries its handle and state, and not the sentence.
\<close>

section \<open>State\<close>

record hop_ctx =
  hc_trace :: string
  hc_chain :: "string list"
  hc_depth :: int
  hc_session :: string
  hc_handle :: string
  hc_hops :: "pyval list"

record bus_handle =
  bh_to :: string
  bh_task :: string
  bh_state :: string
  bh_output :: pyval
  bh_error :: pyval
  bh_child :: pyval
  bh_trace :: string
  bh_sent_at :: int
  bh_session :: string

datatype bus_reason =
    LinkReason link_refusal
  | TooDeep int int
  | Separated conflict_found
  | TransportReason string
  | NotMine string
  | Undecodable string
  | Stranger string
  | Spoofed pyval string
  | UnknownBox string
  | UnknownHandle string string
  | UnknownKind pyval
  | PastDepth int
  | ChainReason hop_error

datatype refused_by = ByLocal | ByBroker | ByFailure

datatype bus_event =
    EvRefused refused_by string string link_kind bus_reason string int
  | EvSent string string link_kind string string string string int "string list" string
  | EvRefusedInbound pyval "string option" bus_reason "string list"
  | EvReplyReceived pyval string string string
  | EvReceived string string link_kind string int "string list" string
  | EvTaskDone string string link_kind string pyval
  | EvReplySent string string pyval
  | EvReplyFailed string string string

type_synonym body = "(string \<times> pyval) list"

record bus_run =
  br_ctx :: hop_ctx
  br_sender :: string
  br_kind :: link_kind
  br_body :: body

record messenger =
  ms_policy :: link_config
  ms_keys :: "hop_keys option"
  ms_deadline :: int
  ms_connected :: bool
  ms_seen :: "(string \<times> int) list"
  ms_handles :: "(string \<times> bus_handle) list"
  ms_events :: "(int \<times> bus_event) list"
  ms_queue :: "bus_run list"
  ms_sent :: "(string \<times> body) list"

definition ms_me :: "messenger \<Rightarrow> string" where
  "ms_me st = lc_agent (ms_policy st)"

definition new_messenger :: "link_config \<Rightarrow> hop_keys option \<Rightarrow> int \<Rightarrow> bool \<Rightarrow> messenger" where
  "new_messenger c keys deadline connected =
     \<lparr>ms_policy = c, ms_keys = keys, ms_deadline = deadline, ms_connected = connected, ms_seen = [],
      ms_handles = [], ms_events = [], ms_queue = [], ms_sent = []\<rparr>"

definition kept_events :: nat where
  "kept_events = 2000"

definition record_event :: "int \<Rightarrow> bus_event \<Rightarrow> messenger \<Rightarrow> messenger" where
  "record_event now ev st =
     (let evs = ms_events st @ [(now, ev)]
      in st\<lparr>ms_events := drop (length evs - kept_events) evs\<rparr>)"

fun event_trace :: "bus_event \<Rightarrow> pyval" where
  "event_trace (EvRefused _ t _ _ _ _ _) = PStr t"
| "event_trace (EvSent t _ _ _ _ _ _ _ _ _) = PStr t"
| "event_trace (EvRefusedInbound t _ _ _) = t"
| "event_trace (EvReplyReceived t _ _ _) = t"
| "event_trace (EvReceived t _ _ _ _ _ _) = PStr t"
| "event_trace (EvTaskDone t _ _ _ _) = PStr t"
| "event_trace (EvReplySent t _ _) = PStr t"
| "event_trace (EvReplyFailed t _ _) = PStr t"

definition bus_trace :: "messenger \<Rightarrow> string \<Rightarrow> (int \<times> bus_event) list" where
  "bus_trace st t = filter (\<lambda>(at, ev). py_eq (event_trace ev) (PStr t)) (ms_events st)"

section \<open>Sending\<close>

datatype publish_result = PubOk | PubRefused string | PubFailed string

definition bus_publish ::
    "publish_result \<Rightarrow> string \<Rightarrow> body \<Rightarrow> messenger \<Rightarrow> publish_result \<times> messenger" where
  "bus_publish answer subject body st =
     (if \<not> ms_connected st then (PubRefused ''this worker is not connected to a bus'', st)
      else (case answer of
              PubOk \<Rightarrow> (PubOk, st\<lparr>ms_sent := ms_sent st @ [(subject, body)]\<rparr>)
            | r \<Rightarrow> (r, st)))"

datatype out_result = OutOk string string | OutRefused refused_by bus_reason

definition bus_refuse ::
    "int \<Rightarrow> refused_by \<Rightarrow> hop_ctx \<Rightarrow> string \<Rightarrow> link_kind \<Rightarrow> bus_reason \<Rightarrow> messenger \<Rightarrow> out_result \<times> messenger" where
  "bus_refuse now stage ctx receiver k reason st =
     (OutRefused stage reason,
      record_event now (EvRefused stage (hc_trace ctx) receiver k reason (hc_session ctx) (hc_depth ctx + 1)) st)"

definition out_chain :: "string \<Rightarrow> hop_ctx \<Rightarrow> string list" where
  "out_chain me ctx =
     (let chain = (if hc_chain ctx = [] then [me] else hc_chain ctx)
      in if last chain \<noteq> me then chain @ [me] else chain)"

definition out_decisions :: "link_config \<Rightarrow> link_kind \<Rightarrow> string \<Rightarrow> body \<Rightarrow> string list" where
  "out_decisions c k txt inputs =
     (let decision = str_or_empty (get_key inputs ''decision'')
      in if k = Delegate then named_decisions c txt inputs
         else if decision \<noteq> [] then [decision] else [])"

definition out_body ::
    "hop_world \<Rightarrow> messenger \<Rightarrow> int \<Rightarrow> string \<Rightarrow> hop_ctx \<Rightarrow> string \<Rightarrow> link_kind \<Rightarrow> string \<Rightarrow> body \<Rightarrow> string \<Rightarrow> body" where
  "out_body w st now fresh ctx receiver k txt inputs handle =
     (let me = ms_me st; depth = hc_depth ctx + 1 in
      [(''id'', PStr fresh), (''kind'', PStr (link_kind_value k)), (''from'', PStr me), (''to'', PStr receiver),
       (''text'', PStr txt), (''inputs'', PDict inputs), (''handle'', PStr handle),
       (''decision'', PStr (str_or_empty (get_key inputs ''decision''))), (''trace_id'', PStr (hc_trace ctx)),
       (''chain'', PList (map PStr (out_chain me ctx))), (''depth'', PInt depth),
       (''parent_session'', PStr (hc_session ctx)), (''sent_at'', PInt now)] @
      (case ms_keys st of
         None \<Rightarrow> []
       | Some hk \<Rightarrow>
           [(''hops'', PList (hc_hops ctx @
               [hop_sign w hk (made_claims w me (hc_hops ctx) (link_kind_value k) fresh (hc_trace ctx) receiver
                  depth txt inputs (out_decisions (ms_policy st) k txt inputs) now (ms_deadline st))]))]))"

definition outbound ::
    "hop_world \<Rightarrow> publish_result \<Rightarrow> int \<Rightarrow> int \<Rightarrow> string \<Rightarrow> hop_ctx \<Rightarrow> string \<Rightarrow> link_kind \<Rightarrow> string \<Rightarrow> body \<Rightarrow>
     string \<Rightarrow> messenger \<Rightarrow> (bus_exn + out_result) \<times> messenger" where
  "outbound w answer now day fresh ctx receiver k txt inputs handle st =
     (let me = ms_me st; c = ms_policy st; depth = hc_depth ctx + 1;
          refuse = (\<lambda>stage reason st. apfst Inr (bus_refuse now stage ctx receiver k reason st))
      in case may_send c receiver k day of
           Inl e \<Rightarrow> (Inl e, st)
         | Inr (Inl why) \<Rightarrow> refuse ByLocal (LinkReason why) st
         | Inr (Inr via) \<Rightarrow>
             if k = Delegate \<and> depth > link_max_depth c then refuse ByLocal (TooDeep depth (link_max_depth c)) st
             else (case find_map (separation_conflict c (out_chain me ctx)) (out_decisions c k txt inputs) of
                     Some conflict \<Rightarrow> refuse ByLocal (Separated conflict) st
                   | None \<Rightarrow>
                       (case bus_publish answer (link_inbox c receiver me)
                               (out_body w st now fresh ctx receiver k txt inputs handle) st of
                          (PubRefused e, st) \<Rightarrow> refuse ByBroker (TransportReason e) st
                        | (PubFailed e, st) \<Rightarrow> refuse ByFailure (TransportReason e) st
                        | (PubOk, st) \<Rightarrow>
                            (Inr (OutOk fresh via),
                             record_event now (EvSent (hc_trace ctx) receiver k via handle fresh
                               (hc_session ctx) depth (out_chain me ctx) (take 200 txt)) st))))"

definition send_message ::
    "hop_world \<Rightarrow> publish_result \<Rightarrow> int \<Rightarrow> int \<Rightarrow> string \<Rightarrow> hop_ctx \<Rightarrow> string \<Rightarrow> string \<Rightarrow> messenger \<Rightarrow>
     (bus_exn + out_result) \<times> messenger" where
  "send_message w answer now day fresh ctx receiver txt st =
     outbound w answer now day fresh ctx receiver Message txt [] [] st"

definition pending_handle :: "int \<Rightarrow> hop_ctx \<Rightarrow> string \<Rightarrow> string \<Rightarrow> bus_handle" where
  "pending_handle now ctx receiver task =
     \<lparr>bh_to = receiver, bh_task = task, bh_state = ''pending'', bh_output = PStr [], bh_error = PNone,
      bh_child = PStr [], bh_trace = hc_trace ctx, bh_sent_at = now, bh_session = hc_session ctx\<rparr>"

definition bus_delegate ::
    "hop_world \<Rightarrow> publish_result \<Rightarrow> int \<Rightarrow> int \<Rightarrow> string \<Rightarrow> string \<Rightarrow> hop_ctx \<Rightarrow> string \<Rightarrow> string \<Rightarrow> body \<Rightarrow> messenger \<Rightarrow>
     (bus_exn + out_result) \<times> messenger" where
  "bus_delegate w answer now day fresh handle ctx receiver task inputs st =
     (case outbound w answer now day fresh ctx receiver Delegate task inputs handle
             (st\<lparr>ms_handles := AList.update handle (pending_handle now ctx receiver task) (ms_handles st)\<rparr>) of
        (Inr (OutRefused stage reason), st) \<Rightarrow>
          (Inr (OutRefused stage reason), st\<lparr>ms_handles := AList.delete handle (ms_handles st)\<rparr>)
      | r \<Rightarrow> r)"

text \<open>One turn of the loop of \<open>check_delegation\<close>: the handle is unknown, is returned, or the caller
  waits for a reply or for its deadline.\<close>

definition max_wait :: int where
  "max_wait = 170"

definition wait_until :: "int \<Rightarrow> int \<Rightarrow> int" where
  "wait_until now wait = now + max 0 (min wait max_wait)"

datatype poll_result = PollUnknown | PollReturned bus_handle | PollWaits

definition check_poll :: "int \<Rightarrow> int \<Rightarrow> string \<Rightarrow> messenger \<Rightarrow> poll_result \<times> messenger" where
  "check_poll now until handle st =
     (case map_of (ms_handles st) handle of
        None \<Rightarrow> (PollUnknown, st)
      | Some held \<Rightarrow>
          (let held' = (if bh_state held = ''pending'' \<and> now - bh_sent_at held > ms_deadline st
                        then held\<lparr>bh_state := ''failed'', bh_error := PStr (''no answer from '' @ bh_to held @
                               '' within '' @ show_int (ms_deadline st) @ ''s'')\<rparr>
                        else held);
               st' = st\<lparr>ms_handles := AList.update handle held' (ms_handles st)\<rparr>
           in if bh_state held' \<noteq> ''pending'' \<or> now \<ge> until then (PollReturned held', st') else (PollWaits, st')))"

section \<open>Replying\<close>

definition bus_reply ::
    "publish_result \<Rightarrow> int \<Rightarrow> string \<Rightarrow> string \<Rightarrow> string \<Rightarrow> body \<Rightarrow> messenger \<Rightarrow> messenger" where
  "bus_reply answer now fresh receiver trace contents st =
     (let body = [(''id'', PStr fresh), (''kind'', PStr ''reply''), (''from'', PStr (ms_me st)),
                  (''to'', PStr receiver), (''trace_id'', PStr trace)] @ contents
      in case bus_publish answer (link_reply (ms_policy st) receiver (ms_me st)) body st of
           (PubOk, st) \<Rightarrow> record_event now (EvReplySent trace receiver (get_key contents ''state'')) st
         | (PubRefused e, st) \<Rightarrow> record_event now (EvReplyFailed trace receiver e) st
         | (PubFailed e, st) \<Rightarrow> record_event now (EvReplyFailed trace receiver e) st)"

section \<open>Receiving\<close>

text \<open>Iterating a decoded value; \<open>None\<close> is the \<open>TypeError\<close>.\<close>

fun py_iter :: "pyval \<Rightarrow> pyval list option" where
  "py_iter (PList xs) = Some xs"
| "py_iter (PStr s) = Some (map (\<lambda>c. PStr [c]) s)"
| "py_iter (PDict d) = Some (map (\<lambda>(k, v). PStr k) d)"
| "py_iter v = None"

definition iter_or_empty :: "pyval \<Rightarrow> pyval list option" where
  "iter_or_empty v = (if truthy v then py_iter v else Some [])"

fun int_exn :: "pyval \<Rightarrow> bus_exn" where
  "int_exn (PStr s) = ValueErr"
| "int_exn v = TypeErr"

definition body_depth :: "body \<Rightarrow> bus_exn + int" where
  "body_depth body =
     (let v = get_key body ''depth'' in
      if truthy v then (case py_int v of Some d \<Rightarrow> Inr d | None \<Rightarrow> Inl (int_exn v)) else Inr 1)"

definition claimed_chain :: "string \<Rightarrow> body \<Rightarrow> bus_exn + string list" where
  "claimed_chain sender body =
     (case iter_or_empty (get_key body ''chain'') of
        None \<Rightarrow> Inl TypeErr
      | Some vs \<Rightarrow> (let chain = map py_str vs
                    in Inr (if chain = [] \<or> last chain \<noteq> sender then chain @ [sender] else chain)))"

fun kind_of :: "pyval \<Rightarrow> link_kind option" where
  "kind_of (PStr s) = (if s = ''delegate'' then Some Delegate else if s = ''message'' then Some Message else None)"
| "kind_of v = None"

text \<open>The replay table: what has expired is dropped, a task still in it is a replay. The table, and
  the reason when the chain is refused.\<close>

definition seen_now :: "int \<Rightarrow> (string \<times> int) list \<Rightarrow> (string \<times> int) list" where
  "seen_now now seen = filter (\<lambda>(t, exp). \<not> exp < now) seen"

definition check_replay ::
    "hop_world \<Rightarrow> int \<Rightarrow> claims \<Rightarrow> (string \<times> int) list \<Rightarrow> hop_error option \<times> (string \<times> int) list" where
  "check_replay w now c seen =
     (case map_of c ''task'' of
        None \<Rightarrow> (Some Malformed, seen)
      | Some t \<Rightarrow>
          (let task = py_str t; seen' = seen_now now seen
           in if map_of seen' task \<noteq> None then (Some (Replay task), seen')
              else (case map_of c ''exp'' of
                      None \<Rightarrow> (Some Malformed, seen')
                    | Some e \<Rightarrow> (case py_float w e of
                                  None \<Rightarrow> (Some Malformed, seen')
                                | Some exp \<Rightarrow> (None, AList.update task exp seen')))))"

record chain_check =
  cc_reason :: "hop_error option"
  cc_chain :: "string list"
  cc_hops :: "pyval list"
  cc_seen :: "(string \<times> int) list"

definition check_signed ::
    "hop_world \<Rightarrow> hop_keys option \<Rightarrow> string \<Rightarrow> string \<Rightarrow> body \<Rightarrow> int \<Rightarrow> string list \<Rightarrow> (string \<times> int) list \<Rightarrow> chain_check" where
  "check_signed w keys me sender body now chain seen =
     (case keys of
        None \<Rightarrow> \<lparr>cc_reason = None, cc_chain = chain, cc_hops = [], cc_seen = seen\<rparr>
      | Some hk \<Rightarrow>
          (case iter_or_empty (get_key body ''hops'') of
             None \<Rightarrow> \<lparr>cc_reason = Some Malformed, cc_chain = chain, cc_hops = [], cc_seen = seen\<rparr>
           | Some hops \<Rightarrow>
               (case verify_chain w hk me sender body now hops of
                  Inl e \<Rightarrow> \<lparr>cc_reason = Some e, cc_chain = chain, cc_hops = hops, cc_seen = seen\<rparr>
                | Inr ps \<Rightarrow>
                    (case check_replay w now (case hop_claims (last hops) of Some c \<Rightarrow> c | None \<Rightarrow> []) seen of
                       (reason, seen') \<Rightarrow> \<lparr>cc_reason = reason, cc_chain = butlast ps, cc_hops = hops, cc_seen = seen'\<rparr>))))"

definition in_decisions :: "link_config \<Rightarrow> link_kind \<Rightarrow> body \<Rightarrow> string list" where
  "in_decisions c k body =
     (let d = get_key body ''decision'';
          inputs = (case get_key body ''inputs'' of PDict i \<Rightarrow> i | _ \<Rightarrow> [])
      in if k = Delegate
         then named_decisions c (str_or_empty (get_key body ''text''))
                (if truthy d then AList.update ''decision'' d inputs else inputs)
         else if truthy d then [py_str d] else [])"

definition refuse_inbound ::
    "publish_result \<Rightarrow> int \<Rightarrow> string \<Rightarrow> string \<Rightarrow> pyval \<Rightarrow> string \<Rightarrow> string \<Rightarrow> bus_reason \<Rightarrow> string list \<Rightarrow>
     messenger \<Rightarrow> messenger" where
  "refuse_inbound answer now fresh sender kind trace handle reason chain st =
     (let st = record_event now (EvRefusedInbound (PStr trace) (Some sender) reason chain) st
      in if kind_of kind = Some Delegate \<and> handle \<noteq> [] \<and> may_reply_to (ms_policy st) sender
         then bus_reply answer now fresh sender trace
                [(''handle'', PStr handle), (''state'', PStr ''refused'')] st
         else st)"

definition on_inbox ::
    "hop_world \<Rightarrow> publish_result \<Rightarrow> int \<Rightarrow> int \<Rightarrow> string \<Rightarrow> string \<Rightarrow> body \<Rightarrow> messenger \<Rightarrow> bus_exn + messenger" where
  "on_inbox w answer now day fresh sender body st =
     (let c = ms_policy st; kind = get_key body ''kind''; trace = str_or_empty (get_key body ''trace_id'');
          handle = str_or_empty (get_key body ''handle'')
      in ebind (body_depth body) (\<lambda>depth.
         ebind (claimed_chain sender body) (\<lambda>chain.
         (case kind_of kind of
            None \<Rightarrow> Inr (refuse_inbound answer now fresh sender kind trace handle (UnknownKind kind) chain st)
          | Some k \<Rightarrow>
              ebind (may_receive c sender k day) (\<lambda>verdict.
              (case verdict of
                 Inl why \<Rightarrow> Inr (refuse_inbound answer now fresh sender kind trace handle (LinkReason why) chain st)
               | Inr via \<Rightarrow>
                   if k = Delegate \<and> depth > link_max_depth c + 1
                   then Inr (refuse_inbound answer now fresh sender kind trace handle (PastDepth depth) chain st)
                   else (let cc = check_signed w (ms_keys st) (ms_me st) sender body now chain (ms_seen st);
                             st = st\<lparr>ms_seen := cc_seen cc\<rparr>
                         in case cc_reason cc of
                              Some e \<Rightarrow> Inr (refuse_inbound answer now fresh sender kind trace handle (ChainReason e) (cc_chain cc) st)
                            | None \<Rightarrow>
                                (case find_map (separation_conflict c (cc_chain cc)) (in_decisions c k body) of
                                   Some conflict \<Rightarrow>
                                     Inr (refuse_inbound answer now fresh sender kind trace handle (Separated conflict) (cc_chain cc) st)
                                 | None \<Rightarrow>
                                     (let ctx = \<lparr>hc_trace = trace, hc_chain = cc_chain cc @ [ms_me st], hc_depth = depth,
                                                 hc_session = [], hc_handle = handle, hc_hops = cc_hops cc\<rparr>
                                      in Inr ((record_event now (EvReceived trace sender k handle depth (cc_chain cc)
                                                 (take 200 (str_or_empty (get_key body ''text'')))) st)
                                              \<lparr>ms_queue := ms_queue st @
                                                 [\<lparr>br_ctx = ctx, br_sender = sender, br_kind = k, br_body = body\<rparr>]\<rparr>))))))))))"

definition on_reply :: "int \<Rightarrow> string \<Rightarrow> body \<Rightarrow> messenger \<Rightarrow> messenger" where
  "on_reply now sender body st =
     (let handle = str_or_empty (get_key body ''handle'');
          trace = dict_get body ''trace_id'' (PStr []);
          refused = record_event now (EvRefusedInbound trace (Some sender) (UnknownHandle handle sender) []) st
      in case map_of (ms_handles st) handle of
           None \<Rightarrow> refused
         | Some held \<Rightarrow>
             if bh_to held \<noteq> sender then refused
             else (let state = (if truthy (get_key body ''state'') then py_str (get_key body ''state'') else ''failed'');
                       or_empty = (\<lambda>v. if truthy v then v else PStr []);
                       held' = held\<lparr>bh_state := state, bh_output := or_empty (get_key body ''output''),
                                    bh_error := get_key body ''error'', bh_child := or_empty (get_key body ''session_id'')\<rparr>
                   in record_event now (EvReplyReceived trace sender handle state)
                        (st\<lparr>ms_handles := AList.update handle held' (ms_handles st)\<rparr>)))"

definition bus_mine :: "messenger \<Rightarrow> string" where
  "bus_mine st = lc_subject_prefix (ms_policy st) @ ''.agent.'' @ bus_token (ms_me st)"

definition is_prefix_of :: "'a list \<Rightarrow> 'a list \<Rightarrow> bool" where
  "is_prefix_of p s \<longleftrightarrow> take (length p) s = p"

definition on_delivery ::
    "(string list \<Rightarrow> string list) \<Rightarrow> hop_world \<Rightarrow> publish_result \<Rightarrow> int \<Rightarrow> int \<Rightarrow> string \<Rightarrow> string \<Rightarrow> string + pyval \<Rightarrow>
     messenger \<Rightarrow> bus_exn + messenger" where
  "on_delivery set_order w answer now day fresh subject decoded st =
     (let parts = split_on (CHR 0x2E) subject; mine = bus_mine st;
          refused = (\<lambda>trace frm reason. Inr (record_event now (EvRefusedInbound trace frm reason []) st))
      in if \<not> is_prefix_of (mine @ ''.'') subject \<or> length parts \<noteq> length (split_on (CHR 0x2E) mine) + 2
         then refused (PStr []) None (NotMine subject)
         else (let box = last (butlast parts); sender_token = last parts
               in case decoded of
                    Inl e \<Rightarrow> refused (PStr []) None (Undecodable e)
                  | Inr (PDict body) \<Rightarrow>
                      (let trace = str_or_empty (get_key body ''trace_id'')
                       in case agent_for_token set_order (ms_policy st) sender_token of
                            None \<Rightarrow> refused (PStr trace) None (Stranger sender_token)
                          | Some sender \<Rightarrow>
                              if get_key body ''from'' \<noteq> PStr sender
                              then refused (PStr trace) (Some sender) (Spoofed (get_key body ''from'') sender)
                              else if box = ''reply'' then Inr (on_reply now sender body st)
                              else if box \<noteq> ''inbox'' then refused (PStr trace) (Some sender) (UnknownBox box)
                              else on_inbox w answer now day fresh sender body st)
                  | Inr _ \<Rightarrow> refused (PStr []) None (Undecodable ''not an object'')))"

section \<open>Running\<close>

text \<open>The pool runs a piece of its work, whichever; what the run returned, or its exception's text.\<close>

definition bus_run_task ::
    "publish_result \<Rightarrow> int \<Rightarrow> string \<Rightarrow> nat \<Rightarrow> string + body \<Rightarrow> messenger \<Rightarrow> messenger option" where
  "bus_run_task answer now fresh i outcome st =
     (if i \<ge> length (ms_queue st) then None
      else (let r = ms_queue st ! i; ctx = br_ctx r;
                result = (case outcome of
                            Inl e \<Rightarrow> [(''state'', PStr ''failed''), (''error'', PStr e)]
                          | Inr d \<Rightarrow> d);
                st = record_event now (EvTaskDone (hc_trace ctx) (br_sender r) (br_kind r) (hc_handle ctx)
                       (get_key result ''state'')) (st\<lparr>ms_queue := take i (ms_queue st) @ drop (Suc i) (ms_queue st)\<rparr>)
            in Some (if br_kind r = Delegate \<and> hc_handle ctx \<noteq> []
                     then bus_reply answer now fresh (br_sender r) (hc_trace ctx)
                            ((''handle'', PStr (hc_handle ctx)) #
                             map (\<lambda>k. (k, get_key result k)) [''state'', ''output'', ''error'', ''session_id'']) st
                     else st)))"

end
