(* ===== verification/BusRuns.thy ===== *)
theory BusRuns
  imports AgentBus
begin

text \<open>
  What holds of the agents on the bus over any sequence of their operations: what a worker accepts was
  checked, a hop is accepted once, a handle is settled only by whom it was sent to, and what one
  worker sends another accepts. \<open>bus_apply\<close> is one operation at a time, and \<open>bus_reaches\<close> relates two
  states of a worker at two times by the operations between them.
\<close>

section \<open>Frames\<close>

lemma record_event_simps [simp]:
  "ms_policy (record_event now ev st) = ms_policy st" "ms_keys (record_event now ev st) = ms_keys st"
  "ms_deadline (record_event now ev st) = ms_deadline st" "ms_connected (record_event now ev st) = ms_connected st"
  "ms_seen (record_event now ev st) = ms_seen st" "ms_handles (record_event now ev st) = ms_handles st"
  "ms_queue (record_event now ev st) = ms_queue st" "ms_sent (record_event now ev st) = ms_sent st"
  "ms_me (record_event now ev st) = ms_me st"
  by (simp_all add: record_event_def Let_def ms_me_def)

lemma ms_me_update [simp]:
  "ms_me (st\<lparr>ms_seen := a\<rparr>) = ms_me st" "ms_me (st\<lparr>ms_handles := h\<rparr>) = ms_me st"
  "ms_me (st\<lparr>ms_queue := q\<rparr>) = ms_me st" "ms_me (st\<lparr>ms_sent := x\<rparr>) = ms_me st"
  by (simp_all add: ms_me_def)

text \<open>Nothing changes but the transport and the events.\<close>

definition same_desk :: "messenger \<Rightarrow> messenger \<Rightarrow> bool" where
  "same_desk st st' \<longleftrightarrow> ms_policy st' = ms_policy st \<and> ms_keys st' = ms_keys st \<and> ms_deadline st' = ms_deadline st \<and>
     ms_seen st' = ms_seen st \<and> ms_handles st' = ms_handles st \<and> ms_queue st' = ms_queue st"

lemma same_desk_refl [simp]: "same_desk st st"
  by (simp add: same_desk_def)

lemma same_desk_trans: "same_desk a b \<Longrightarrow> same_desk b c \<Longrightarrow> same_desk a c"
  by (simp add: same_desk_def)

lemma same_desk_event [simp]: "same_desk st (record_event now ev st') \<longleftrightarrow> same_desk st st'"
  by (simp add: same_desk_def)

lemma same_desk_publish: "bus_publish answer subject body st = (r, st') \<Longrightarrow> same_desk st st'"
  by (auto simp: bus_publish_def same_desk_def split: if_splits publish_result.splits)

lemma same_desk_reply: "same_desk st (bus_reply answer now fresh receiver trace contents st)"
proof -
  obtain r st' where p: "bus_publish answer (link_reply (ms_policy st) receiver (ms_me st))
      ([(''id'', PStr fresh), (''kind'', PStr ''reply''), (''from'', PStr (ms_me st)),
        (''to'', PStr receiver), (''trace_id'', PStr trace)] @ contents) st = (r, st')" (is "?p = _")
    by (cases ?p)
  then show ?thesis using same_desk_publish [OF p]
    by (cases r) (simp_all add: bus_reply_def Let_def)
qed

lemma same_desk_refuse_inbound:
  "same_desk st (refuse_inbound answer now fresh sender kind trace handle reason chain st)"
proof -
  have "same_desk st (record_event now ev st)" for ev by simp
  then show ?thesis
    unfolding refuse_inbound_def Let_def by (auto intro: same_desk_trans [OF _ same_desk_reply])
qed

lemma outbound_cases:
  assumes "outbound w answer now day fresh ctx receiver k txt inputs handle st = (r, st')"
  shows "same_desk st st' \<and>
    ((\<exists>via. r = Inr (OutOk fresh via) \<and> may_send (ms_policy st) receiver k day = Inr (Inr via) \<and>
        (k = Delegate \<longrightarrow> hc_depth ctx + 1 \<le> link_max_depth (ms_policy st)) \<and>
        (\<forall>d \<in> set (out_decisions (ms_policy st) k txt inputs).
           separation_conflict (ms_policy st) (out_chain (ms_me st) ctx) d = None) \<and>
        ms_connected st \<and> answer = PubOk \<and>
        ms_sent st' = ms_sent st @ [(link_inbox (ms_policy st) receiver (ms_me st),
          out_body w st now fresh ctx receiver k txt inputs handle)]) \<or>
     (\<nexists>m via. r = Inr (OutOk m via)) \<and> ms_sent st' = ms_sent st)"
proof -
  let ?c = "ms_policy st"
  have refuse: ?thesis if "(r, st') = apfst Inr (bus_refuse now stage ctx receiver k reason st)" for stage reason
    using that by (simp add: bus_refuse_def)
  show ?thesis
  proof (cases "may_send ?c receiver k day")
    case (Inl e)
    with assms show ?thesis by (auto simp: outbound_def Let_def)
  next
    case (Inr verdict)
    show ?thesis
    proof (cases verdict)
      case (Inl why)
      with Inr assms show ?thesis
        by (intro refuse [of ByLocal "LinkReason why"]) (rule sym, simp add: outbound_def Let_def)
    next
      case ok: (Inr via)
      show ?thesis
      proof (cases "k = Delegate \<and> hc_depth ctx + 1 > link_max_depth ?c")
        case True
        with Inr ok assms show ?thesis
          by (intro refuse [of ByLocal "TooDeep (hc_depth ctx + 1) (link_max_depth ?c)"])
             (rule sym, simp add: outbound_def Let_def)
      next
        case depth: False
        have shallow: "(if k = Delegate \<and> hc_depth ctx + 1 > link_max_depth ?c then x else y) = y" for x y :: "'z"
          using depth by (rule if_not_P)
        show ?thesis
        proof (cases "find_map (separation_conflict ?c (out_chain (ms_me st) ctx)) (out_decisions ?c k txt inputs)")
          case (Some conflict)
          with assms have "(r, st') = apfst Inr (bus_refuse now ByLocal ctx receiver k (Separated conflict) st)"
            unfolding outbound_def Let_def Inr ok sum.case shallow by simp
          then show ?thesis by (rule refuse)
        next
          case None
          have sep: "\<forall>d \<in> set (out_decisions ?c k txt inputs).
              separation_conflict ?c (out_chain (ms_me st) ctx) d = None"
            using None by (simp add: find_map_None_iff)
          show ?thesis
          proof (cases "ms_connected st")
            case False
            with assms None have "(r, st') = apfst Inr (bus_refuse now ByBroker ctx receiver k
                (TransportReason ''this worker is not connected to a bus'') st)"
              unfolding outbound_def Let_def Inr ok sum.case shallow by (simp add: bus_publish_def)
            then show ?thesis by (rule refuse)
          next
            case on: True
            show ?thesis
            proof (cases answer)
              case PubOk
              with assms None on have "r = Inr (OutOk fresh via)"
                "st' = record_event now (EvSent (hc_trace ctx) receiver k via handle fresh (hc_session ctx)
                  (hc_depth ctx + 1) (out_chain (ms_me st) ctx) (take 200 txt))
                  (st\<lparr>ms_sent := ms_sent st @ [(link_inbox ?c receiver (ms_me st),
                    out_body w st now fresh ctx receiver k txt inputs handle)]\<rparr>)"
                unfolding outbound_def Let_def Inr ok sum.case shallow by (auto simp: bus_publish_def)
              with PubOk Inr ok depth sep on show ?thesis by (auto simp: same_desk_def)
            next
              case (PubRefused e)
              with assms None on have "(r, st') = apfst Inr (bus_refuse now ByBroker ctx receiver k (TransportReason e) st)"
                unfolding outbound_def Let_def Inr ok sum.case shallow by (simp add: bus_publish_def)
              then show ?thesis by (rule refuse)
            next
              case (PubFailed e)
              with assms None on have "(r, st') = apfst Inr (bus_refuse now ByFailure ctx receiver k (TransportReason e) st)"
                unfolding outbound_def Let_def Inr ok sum.case shallow by (simp add: bus_publish_def)
              then show ?thesis by (rule refuse)
            qed
          qed
        qed
      qed
    qed
  qed
qed

section \<open>What a delivery does\<close>

definition accepted_run ::
    "hop_world \<Rightarrow> int \<Rightarrow> int \<Rightarrow> messenger \<Rightarrow> string \<Rightarrow> body \<Rightarrow> bus_run \<Rightarrow> string list \<Rightarrow> bool" where
  "accepted_run w now day st sender body run chain \<longleftrightarrow>
     br_sender run = sender \<and> br_body run = body \<and> kind_of (get_key body ''kind'') = Some (br_kind run) \<and>
     hc_chain (br_ctx run) = chain @ [ms_me st] \<and>
     (\<exists>via. may_receive (ms_policy st) sender (br_kind run) day = Inr (Inr via)) \<and>
     (br_kind run = Delegate \<longrightarrow> hc_depth (br_ctx run) \<le> link_max_depth (ms_policy st) + 1) \<and>
     (\<forall>d \<in> set (in_decisions (ms_policy st) (br_kind run) body). separation_conflict (ms_policy st) chain d = None) \<and>
     (\<forall>hk. ms_keys st = Some hk \<longrightarrow>
        verify_chain w hk (ms_me st) sender body now (hc_hops (br_ctx run)) = Inr (chain @ [ms_me st]))"

lemma verified_chain_ends:
  assumes "verify_chain w hk me sender body now hops = Inr ps"
  shows "ps = butlast ps @ [me]"
proof -
  from assms obtain cs where cs: "hops \<noteq> []" "check_hops w hk 1 [] None hops = Inr cs"
      "hop_matches w me sender body now (last cs)" "principals_of cs = Some ps"
    by (auto simp: verify_chain_Inr)
  with check_hops_length have ne: "cs \<noteq> []" by fastforce
  have "ps = py_str (claim (hd cs) ''from'') # map (\<lambda>c. py_str (claim c ''to'')) cs"
    using cs(4) by (simp add: principals_of_def split: if_splits)
  then have "last ps = me" and "ps \<noteq> []" using ne cs(3) by (simp_all add: last_map hop_matches_def)
  then show ?thesis by (metis append_butlast_last_id)
qed

text \<open>What \<open>on_inbox\<close> keeps whatever it decides, beside its replay table.\<close>

definition same_office :: "messenger \<Rightarrow> messenger \<Rightarrow> bool" where
  "same_office st st' \<longleftrightarrow> ms_policy st' = ms_policy st \<and> ms_keys st' = ms_keys st \<and> ms_deadline st' = ms_deadline st \<and>
     ms_handles st' = ms_handles st"

lemma same_office_refuse:
  "same_office st (refuse_inbound answer now fresh sender kind trace handle reason chain (st\<lparr>ms_seen := seen\<rparr>))"
  "ms_seen (refuse_inbound answer now fresh sender kind trace handle reason chain (st\<lparr>ms_seen := seen\<rparr>)) = seen"
  "ms_queue (refuse_inbound answer now fresh sender kind trace handle reason chain (st\<lparr>ms_seen := seen\<rparr>)) = ms_queue st"
  using same_desk_refuse_inbound [of "st\<lparr>ms_seen := seen\<rparr>"]
  by (simp_all add: same_desk_def same_office_def)

lemma ms_seen_same: "st\<lparr>ms_seen := ms_seen st\<rparr> = st"
  by simp

lemma check_signed_None:
  "cc_reason (check_signed w keys me sender body now chain seen) = None \<Longrightarrow>
     (case keys of
        None \<Rightarrow> cc_chain (check_signed w keys me sender body now chain seen) = chain
      | Some hk \<Rightarrow> verify_chain w hk me sender body now (cc_hops (check_signed w keys me sender body now chain seen)) =
          Inr (cc_chain (check_signed w keys me sender body now chain seen) @ [me]))"
proof (cases keys)
  case None
  then show ?thesis by (simp add: check_signed_def)
next
  case (Some hk)
  assume reason: "cc_reason (check_signed w keys me sender body now chain seen) = None"
  then obtain hops where hops: "iter_or_empty (get_key body ''hops'') = Some hops"
    using Some by (cases "iter_or_empty (get_key body ''hops'')") (simp_all add: check_signed_def)
  then obtain ps where ps: "verify_chain w hk me sender body now hops = Inr ps"
    using Some reason by (cases "verify_chain w hk me sender body now hops") (simp_all add: check_signed_def)
  obtain r seen' where "check_replay w now (case hop_claims (last hops) of Some c \<Rightarrow> c | None \<Rightarrow> []) seen = (r, seen')"
    by fastforce
  with Some hops ps verified_chain_ends [OF ps] show ?thesis by (simp add: check_signed_def)
qed

text \<open>The replay table after a delivery: unchanged, purged, or with the task of the last hop.\<close>

lemma on_inbox_cases:
  assumes "on_inbox w answer now day fresh sender body st = Inr st'"
  shows "same_office st st' \<and>
    (\<exists>chain0. let cc = check_signed w (ms_keys st) (ms_me st) sender body now chain0 (ms_seen st) in
      ms_queue st' = ms_queue st \<and> ms_seen st' \<in> {ms_seen st, cc_seen cc} \<or>
      cc_reason cc = None \<and> ms_seen st' = cc_seen cc \<and>
      (\<exists>run. ms_queue st' = ms_queue st @ [run] \<and> hc_hops (br_ctx run) = cc_hops cc \<and>
         accepted_run w now day st sender body run (cc_chain cc)))"
proof -
  let ?c = "ms_policy st" and ?kind = "get_key body ''kind''"
  let ?trace = "str_or_empty (get_key body ''trace_id'')" and ?handle = "str_or_empty (get_key body ''handle'')"
  from assms obtain depth chain where d: "body_depth body = Inr depth" and ch: "claimed_chain sender body = Inr chain"
    by (auto simp: on_inbox_def Let_def ebind_eq_Inr)
  let ?cc = "check_signed w (ms_keys st) (ms_me st) sender body now chain (ms_seen st)"
  have refused: ?thesis
    if "st' = refuse_inbound answer now fresh sender ?kind ?trace ?handle reason ch (st\<lparr>ms_seen := seen\<rparr>)"
      and "seen \<in> {ms_seen st, cc_seen ?cc}" for reason ch seen
  proof -
    have "same_office st st'" "ms_seen st' = seen" "ms_queue st' = ms_queue st"
      unfolding that(1) by (rule same_office_refuse)+
    with that(2) show ?thesis unfolding Let_def by (intro conjI exI [of _ chain]) simp_all
  qed
  show ?thesis
  proof (cases "kind_of ?kind")
    case None
    with assms d ch show ?thesis
      by (intro refused [of "UnknownKind ?kind" chain "ms_seen st"]) (simp_all add: on_inbox_def Let_def)
  next
    case k: (Some k)
    from assms d ch k obtain verdict where v: "may_receive ?c sender k day = Inr verdict"
      by (auto simp: on_inbox_def Let_def ebind_eq_Inr)
    show ?thesis
    proof (cases verdict)
      case (Inl why)
      with assms d ch k v show ?thesis
        by (intro refused [of "LinkReason why" chain "ms_seen st"]) (simp_all add: on_inbox_def Let_def)
    next
      case via: (Inr via)
      show ?thesis
      proof (cases "k = Delegate \<and> depth > link_max_depth ?c + 1")
        case True
        with assms d ch k v via show ?thesis
          by (intro refused [of "PastDepth depth" chain "ms_seen st"]) (simp_all add: on_inbox_def Let_def)
      next
        case depth: False
        show ?thesis
        proof (cases "cc_reason ?cc")
          case (Some e)
          with assms d ch k v via depth show ?thesis
            by (intro refused [of "ChainReason e" "cc_chain ?cc" "cc_seen ?cc"]) (auto simp: on_inbox_def Let_def)
        next
          case signed: None
          show ?thesis
          proof (cases "find_map (separation_conflict ?c (cc_chain ?cc)) (in_decisions ?c k body)")
            case (Some conflict)
            with assms d ch k v via depth signed show ?thesis
              by (intro refused [of "Separated conflict" "cc_chain ?cc" "cc_seen ?cc"]) (auto simp: on_inbox_def Let_def)
          next
            case sep: None
            define ctx where "ctx = \<lparr>hc_trace = ?trace, hc_chain = cc_chain ?cc @ [ms_me st], hc_depth = depth,
              hc_session = [], hc_handle = ?handle, hc_hops = cc_hops ?cc\<rparr>"
            define run where "run = \<lparr>br_ctx = ctx, br_sender = sender, br_kind = k, br_body = body\<rparr>"
            have st': "st' = (record_event now (EvReceived ?trace sender k ?handle depth (cc_chain ?cc)
                  (take 200 (str_or_empty (get_key body ''text'')))) (st\<lparr>ms_seen := cc_seen ?cc\<rparr>))
                \<lparr>ms_queue := ms_queue st @ [run]\<rparr>"
              using assms d ch k v via depth signed sep
              by (auto simp: on_inbox_def Let_def run_def ctx_def)
            have "accepted_run w now day st sender body run (cc_chain ?cc)"
              using k v via depth sep check_signed_None [OF signed]
              by (auto simp: accepted_run_def run_def ctx_def find_map_None_iff)
            moreover have "hc_hops (br_ctx run) = cc_hops ?cc" by (simp add: run_def ctx_def)
            moreover have "same_office st st'" by (simp add: st' same_office_def)
            ultimately show ?thesis unfolding Let_def using signed
              by (intro conjI exI [of _ chain]) (auto simp: st')
          qed
        qed
      qed
    qed
  qed
qed

section \<open>Subjects\<close>

lemma split_on_append: "split_on sep (a @ sep # b) = split_on sep a @ split_on sep b"
  by (induction a) (auto split: list.splits)

lemma split_on_two: "split_on sep s = [a, b] \<Longrightarrow> s = a @ sep # b"
proof (induction s arbitrary: a)
  case (Cons c cs)
  show ?case
  proof (cases "c = sep")
    case True
    with Cons.prems have a: "a = []" and rest: "split_on sep cs = [b]" by simp_all
    have "split_on sep xs = [b] \<Longrightarrow> xs = b" for xs
      by (induction xs arbitrary: b) (auto split: list.splits if_splits)
    with rest True a show ?thesis by simp
  next
    case False
    then obtain p where "split_on sep cs = [p, b]" "a = c # p"
      using Cons.prems by (auto split: list.splits)
    with Cons.IH show ?thesis by simp
  qed
qed simp

lemma is_prefix_ofD: "is_prefix_of p s \<Longrightarrow> \<exists>r. s = p @ r"
  by (metis append_take_drop_id is_prefix_of_def)

lemma mailbox_subject:
  assumes "is_prefix_of (mine @ ''.'') subject"
    and "length (split_on (CHR 0x2E) subject) = length (split_on (CHR 0x2E) mine) + 2"
  shows "subject = mine @ ''.'' @ last (butlast (split_on (CHR 0x2E) subject)) @ ''.'' @
    last (split_on (CHR 0x2E) subject)"
proof -
  from is_prefix_ofD [OF assms(1)] obtain r where subject: "subject = mine @ CHR 0x2E # r" by auto
  with assms(2) have "length (split_on (CHR 0x2E) r) = 2" by (simp add: split_on_append)
  then obtain a b where ab: "split_on (CHR 0x2E) r = [a, b]"
    by (cases "split_on (CHR 0x2E) r" rule: list.exhaust; cases "tl (split_on (CHR 0x2E) r)") auto
  with split_on_two [OF ab] show ?thesis by (simp add: subject split_on_append butlast_append)
qed

lemma agent_for_token_Some:
  "agent_for_token order c t = Some a \<Longrightarrow> a \<in> set (order (known_agents c)) \<and> bus_token a = t"
  by (auto simp: agent_for_token_def dest: find_SomeD)

text \<open>A delivery leaves the desk as it was, settles a handle, or is decided as mail of the agent that
  was let publish it.\<close>

lemma on_delivery_cases:
  assumes "on_delivery order w answer now day fresh subject decoded st = Inr st'"
  obtains (dropped) "same_desk st st'"
  | (reply) sender body where "decoded = Inr (PDict body)" "get_key body ''from'' = PStr sender"
      "subject = link_reply (ms_policy st) (ms_me st) sender" "sender \<in> set (order (known_agents (ms_policy st)))"
      "st' = on_reply now sender body st"
  | (mail) sender body where "decoded = Inr (PDict body)" "get_key body ''from'' = PStr sender"
      "subject = link_inbox (ms_policy st) (ms_me st) sender" "sender \<in> set (order (known_agents (ms_policy st)))"
      "on_inbox w answer now day fresh sender body st = Inr st'"
proof -
  let ?parts = "split_on (CHR 0x2E) subject" and ?mine = "bus_mine st"
  show thesis
  proof (cases "is_prefix_of (?mine @ ''.'') subject \<and> length ?parts = length (split_on (CHR 0x2E) ?mine) + 2")
    case False
    with assms show thesis by (intro dropped) (auto simp: on_delivery_def Let_def)
  next
    case True
    then have subject: "subject = ?mine @ ''.'' @ last (butlast ?parts) @ ''.'' @ last ?parts"
      by (intro mailbox_subject) simp_all
    show thesis
    proof (cases "\<exists>body. decoded = Inr (PDict body)")
      case False
      with True assms show thesis
        by (intro dropped) (auto simp: on_delivery_def Let_def split: sum.splits pyval.splits)
    next
      case body: True
      then obtain body where body: "decoded = Inr (PDict body)" by blast
      show thesis
      proof (cases "agent_for_token order (ms_policy st) (last ?parts)")
        case None
        with True body assms show thesis by (intro dropped) (auto simp: on_delivery_def Let_def)
      next
        case (Some sender)
        note known = agent_for_token_Some [OF Some]
        show thesis
        proof (cases "get_key body ''from'' = PStr sender")
          case False
          with True body Some assms show thesis by (intro dropped) (auto simp: on_delivery_def Let_def)
        next
          case honest: True
          consider "last (butlast ?parts) = ''reply''" | "last (butlast ?parts) = ''inbox''"
            | "last (butlast ?parts) \<notin> {''reply'', ''inbox''}" by blast
          then show thesis
          proof cases
            case 1
            with True body Some honest assms known subject show thesis
              by (intro reply [of body sender]) (simp_all add: on_delivery_def Let_def link_reply_def bus_mine_def)
          next
            case 2
            with True body Some honest assms known subject show thesis
              by (intro mail [of body sender]) (simp_all add: on_delivery_def Let_def link_inbox_def bus_mine_def)
          next
            case 3
            with True body Some honest assms show thesis by (intro dropped) (auto simp: on_delivery_def Let_def)
          qed
        qed
      qed
    qed
  qed
qed

lemma on_reply_queue [simp]:
  "ms_queue (on_reply now sender body st) = ms_queue st" "ms_seen (on_reply now sender body st) = ms_seen st"
  "ms_policy (on_reply now sender body st) = ms_policy st" "ms_keys (on_reply now sender body st) = ms_keys st"
  "ms_deadline (on_reply now sender body st) = ms_deadline st"
  by (auto simp: on_reply_def Let_def split: option.splits)

lemma on_inbox_accepted:
  assumes "on_inbox w answer now day fresh sender body st = Inr st'" and "ms_queue st' \<noteq> ms_queue st"
  shows "\<exists>run chain. ms_queue st' = ms_queue st @ [run] \<and> accepted_run w now day st sender body run chain"
  using on_inbox_cases [OF assms(1)] assms(2) by (auto simp: Let_def)

text \<open>
  C8: A worker takes up work from the bus only after every check. Whatever is delivered, its work
  grows only by one run, of a decodable message that was published on this worker's own inbox by the
  agent the subject names and its body admits to be; the compiled links let that agent reach this
  one with a message of that kind on that day; a delegation is no deeper than one beyond the
  worker's bound; with signed hops, the run's chain is that of the verified hops it arrived with;
  and none of the decisions the message names is separated from one a principal of the chain holds.
\<close>

theorem accepted_delivery_was_checked:
  assumes "on_delivery order w answer now day fresh subject decoded st = Inr st'"
    and "ms_queue st' \<noteq> ms_queue st"
  shows "\<exists>sender body run chain. ms_queue st' = ms_queue st @ [run] \<and> decoded = Inr (PDict body) \<and>
    subject = link_inbox (ms_policy st) (ms_me st) sender \<and> get_key body ''from'' = PStr sender \<and>
    accepted_run w now day st sender body run chain"
  using assms(1)
proof (cases rule: on_delivery_cases)
  case dropped
  with assms(2) show ?thesis by (simp add: same_desk_def)
next
  case (reply sender body)
  with assms(2) show ?thesis by simp
next
  case (mail sender body)
  from on_inbox_accepted [OF mail(5) assms(2)] mail show ?thesis by blast
qed

definition example_mail :: body where
  "example_mail =
     [(''id'', PStr ''t9''), (''kind'', PStr ''delegate''), (''from'', PStr ''buyer''), (''text'', PStr ''check''),
      (''handle'', PStr ''h1''), (''trace_id'', PStr ''r1''), (''chain'', PList [PStr ''buyer'']), (''depth'', PInt 1)]"

definition example_receiver :: messenger where
  "example_receiver = new_messenger (example_link ''ap'') None 900 True"

lemma example_accepted:
  "case on_delivery id example_hop_world PubOk 100 12 ''m1'' ''orgagents.local.agent.ap.inbox.buyer''
      (Inr (PDict example_mail)) example_receiver of
     Inr st \<Rightarrow> length (ms_queue st) = 1 | Inl _ \<Rightarrow> False"
  by code_simp

lemma accepted_delivery_was_checked_witness:
  "\<exists>run chain. accepted_run example_hop_world 100 12 example_receiver ''buyer'' example_mail run chain"
proof -
  obtain st where st: "on_delivery id example_hop_world PubOk 100 12 ''m1'' ''orgagents.local.agent.ap.inbox.buyer''
      (Inr (PDict example_mail)) example_receiver = Inr st" "length (ms_queue st) = 1"
    using example_accepted by (auto split: sum.splits)
  have "ms_queue example_receiver = []" by (simp add: example_receiver_def new_messenger_def)
  with st(2) have "ms_queue st \<noteq> ms_queue example_receiver" by auto
  from accepted_delivery_was_checked [OF st(1) this] show ?thesis
    by (auto simp: example_mail_def get_key_def)
qed

end
