(* ===== verification/BusDelivery.thy ===== *)
theory BusDelivery
  imports BusRuns
begin

text \<open>
  Two workers of one system: what the sender's \<open>outbound\<close> publishes, the receiver's \<open>on_delivery\<close>
  takes up, with the chain the sender held and itself added to it. The lemmas before it read the
  fields of a sent body back and show that both ends name the same decisions and judge them by the
  same holdings.
\<close>

lemma out_body_keys:
  assumes "body = out_body w st now fresh ctx receiver k txt inputs handle"
  shows "get_key body ''id'' = PStr fresh" and "get_key body ''kind'' = PStr (link_kind_value k)"
    and "get_key body ''from'' = PStr (ms_me st)" and "get_key body ''text'' = PStr txt"
    and "get_key body ''inputs'' = PDict inputs" and "get_key body ''handle'' = PStr handle"
    and "get_key body ''decision'' = PStr (str_or_empty (get_key inputs ''decision''))"
    and "get_key body ''trace_id'' = PStr (hc_trace ctx)"
    and "get_key body ''chain'' = PList (map PStr (out_chain (ms_me st) ctx))"
    and "get_key body ''depth'' = PInt (hc_depth ctx + 1)"
    and "ms_keys st = Some hk \<Longrightarrow> get_key body ''hops'' = PList (hc_hops ctx @
      [hop_sign w hk (made_claims w (ms_me st) (hc_hops ctx) (link_kind_value k) fresh (hc_trace ctx) receiver
        (hc_depth ctx + 1) txt inputs (out_decisions (ms_policy st) k txt inputs) now (ms_deadline st))])"
  by (simp_all add: assms out_body_def get_key_def Let_def)

lemma filter_update: "filter (\<lambda>(k, v). k \<noteq> a) (AList.update a b d) = filter (\<lambda>(k, v). k \<noteq> a) d"
  by (induction d) auto

lemma get_key_update [simp]: "get_key (AList.update a b d) k = (if k = a then b else get_key d k)"
  by (simp add: get_key_def)

lemma str_or_empty_PStr [simp]: "str_or_empty (PStr s) = s"
  by (simp add: str_or_empty_def)

lemma both_ends_name_the_same:
  assumes "lc_separations c = lc_separations c'"
    and "get_key body ''inputs'' = PDict inputs" and "get_key body ''text'' = PStr txt"
    and "get_key body ''decision'' = PStr (str_or_empty (get_key inputs ''decision''))"
  shows "in_decisions c' k body = out_decisions c k txt inputs"
  using assms by (auto simp: in_decisions_def out_decisions_def named_decisions_def Let_def filter_update)

lemma config_separations:
  assumes "map_of (agent_links ir) a = Some c"
  shows "lc_separations c = bi_separations ir" and "lc_holdings c = separated_holdings ir"
  using assms by (auto elim!: agent_links_lookup simp: agent_config_def Let_def)

lemma separation_conflict_config:
  "lc_separations c = lc_separations c' \<Longrightarrow> lc_holdings c = lc_holdings c' \<Longrightarrow>
     separation_conflict c ps d = separation_conflict c' ps d"
  by (simp add: separation_conflict_def)

lemma split_on_none: "sep \<notin> set s \<Longrightarrow> split_on sep s = [s]"
  by (induction s) auto

lemma bus_token_no_dot: "CHR 0x2E \<notin> set (bus_token v)"
proof -
  have "\<not> is_alnum (CHR 0x2E)" by code_simp
  then have "token_char c \<noteq> CHR 0x2E" for c by (auto simp: token_char_def)
  then have "CHR 0x2E \<notin> set (map token_char v)" by (metis ex_map_conv)
  then show ?thesis unfolding bus_token_def by (cases "map token_char v") simp_all
qed

lemma find_unique_edge:
  assumes "x \<in> set xs" and "P x" and "\<And>y. y \<in> set xs \<Longrightarrow> P y \<Longrightarrow> y = x"
  shows "List.find P xs = Some x"
proof (cases "List.find P xs")
  case None
  with assms(1,2) show ?thesis by (simp add: find_None_iff')
next
  case (Some y)
  with find_SomeD [OF Some] assms(3) show ?thesis by simp
qed

lemma delivered_to_inbox:
  assumes "\<And>xs. set (order xs) = set xs" and "a \<in> set (known_agents (ms_policy st))"
    and "\<forall>x \<in> set (known_agents (ms_policy st)). bus_token x = bus_token a \<longrightarrow> x = a"
    and "get_key body ''from'' = PStr a"
  shows "on_delivery order w answer now day fresh (link_inbox (ms_policy st) (ms_me st) a) (Inr (PDict body)) st =
    on_inbox w answer now day fresh a body st"
proof -
  let ?mine = "bus_mine st"
  have subject: "link_inbox (ms_policy st) (ms_me st) a = ?mine @ CHR 0x2E # ''inbox'' @ CHR 0x2E # bus_token a"
    by (simp add: link_inbox_def bus_mine_def)
  have split: "split_on (CHR 0x2E) (link_inbox (ms_policy st) (ms_me st) a) =
      split_on (CHR 0x2E) ?mine @ [''inbox'', bus_token a]"
    unfolding subject by (simp add: split_on_append split_on_none [OF bus_token_no_dot] split_on_none)
  have "agent_for_token order (ms_policy st) (bus_token a) = Some a"
    unfolding agent_for_token_def using assms(1-3) by (intro find_unique_edge) auto
  moreover have "is_prefix_of (?mine @ ''.'') (link_inbox (ms_policy st) (ms_me st) a)"
    by (simp add: subject is_prefix_of_def)
  ultimately show ?thesis using assms(4) by (simp add: on_delivery_def Let_def split butlast_append)
qed

lemma received_is_known:
  "may_receive c a k day = Inr (Inr via) \<Longrightarrow> a \<in> set (known_agents c)"
proof -
  assume "may_receive c a k day = Inr (Inr via)"
  then have "map_of (lc_inbound c) a \<noteq> None" by (auto simp: may_receive_def link_allows_def split: option.splits)
  then show ?thesis by (auto simp: known_agents_def map_of_eq_None_iff)
qed

lemma kind_of_value [simp]: "kind_of (PStr (link_kind_value k)) = Some k"
  by (cases k) simp_all

lemma on_inbox_takes_up:
  assumes "get_key body ''kind'' = PStr (link_kind_value k)" and "get_key body ''depth'' = PInt depth" and "depth \<noteq> 0"
    and "get_key body ''chain'' = PList vs" and "get_key body ''hops'' = PList hops" and "hops \<noteq> []"
    and "may_receive (ms_policy st) sender k day = Inr (Inr via)"
    and "k = Delegate \<Longrightarrow> depth \<le> link_max_depth (ms_policy st) + 1"
    and "ms_keys st = Some hk" and "verify_chain w hk (ms_me st) sender body now hops = Inr (chain @ [ms_me st])"
    and "hop_claims (last hops) = Some c" and "map_of c ''task'' = Some (PStr task)"
    and "map_of c ''exp'' = Some (PInt exp)" and "map_of (seen_now now (ms_seen st)) task = None"
    and "\<forall>d \<in> set (in_decisions (ms_policy st) k body). separation_conflict (ms_policy st) chain d = None"
  shows "\<exists>st' run. on_inbox w answer now day fresh sender body st = Inr st' \<and>
    ms_queue st' = ms_queue st @ [run] \<and> br_sender run = sender \<and> br_kind run = k \<and>
    hc_chain (br_ctx run) = chain @ [ms_me st] \<and> hc_hops (br_ctx run) = hops"
proof -
  obtain ch where ch: "claimed_chain sender body = Inr ch"
    unfolding claimed_chain_def iter_or_empty_def assms(4) Let_def by (cases "vs = []") simp_all
  have signed: "check_signed w (ms_keys st) (ms_me st) sender body now ch (ms_seen st) =
      \<lparr>cc_reason = None, cc_chain = chain, cc_hops = hops,
       cc_seen = AList.update task exp (seen_now now (ms_seen st))\<rparr>"
    using assms(5,6,9-14) by (simp add: check_signed_def iter_or_empty_def check_replay_def Let_def)
  have shallow: "(if k = Delegate \<and> depth > link_max_depth (ms_policy st) + 1 then x else y) = y" for x y :: "'z"
    using assms(8) by auto
  have "find_map (separation_conflict (ms_policy st) chain) (in_decisions (ms_policy st) k body) = None"
    using assms(15) by (simp add: find_map_None_iff)
  moreover have "body_depth body = Inr depth" using assms(2,3) by (simp add: body_depth_def)
  ultimately show ?thesis
    unfolding on_inbox_def Let_def assms(1) kind_of_value
    by (simp only: ch ebind_simps option.case assms(7) sum.case shallow signed chain_check.simps) simp
qed

lemma taken_up:
  assumes links: "map_of (agent_links ir) a = Some (ms_policy s)" "map_of (agent_links ir) b = Some (ms_policy r)"
    and keys: "ms_keys s = Some mine" "ms_keys r = Some hk" "signs_for w (hk_seed mine) a hk"
    and held: "held_chain w hk a (hc_trace ctx) now (hc_hops ctx) (out_chain a ctx)"
    and sent: "outbound w answer now day fresh ctx b k txt inputs handle s = (Inr (OutOk m via), s')"
    and depth: "0 \<le> hc_depth ctx" "k = Delegate \<Longrightarrow> hc_depth ctx \<le> link_max_depth (ms_policy r)"
    and names: "\<And>xs. set (order xs) = set xs"
      "\<forall>x \<in> set (known_agents (ms_policy r)). bus_token x = bus_token a \<longrightarrow> x = a"
    and unseen: "map_of (seen_now at (ms_seen r)) fresh = None"
    and time: "now - hop_skew \<le> at" "at \<le> now + ms_deadline s"
  shows "\<exists>subject body r' run. ms_sent s' = ms_sent s @ [(subject, body)] \<and>
    on_delivery order w answer' at day fresh' subject (Inr (PDict body)) r = Inr r' \<and>
    ms_queue r' = ms_queue r @ [run] \<and> br_sender run = a \<and> br_kind run = k \<and>
    hc_chain (br_ctx run) = out_chain a ctx @ [b] \<and>
    iter_or_empty (get_key body ''hops'') = Some (hc_hops (br_ctx run)) \<and>
    held_chain w hk b (hc_trace ctx) at (hc_hops (br_ctx run)) (hc_chain (br_ctx run))"
proof -
  have me: "ms_me s = a" "ms_me r = b" using config_edges(3) links by (simp_all add: ms_me_def)
  define body where "body = out_body w s now fresh ctx b k txt inputs handle"
  note keys_of = out_body_keys [OF body_def]
  from outbound_cases [OF sent] have allowed: "may_send (ms_policy s) b k day = Inr (Inr via)"
    and sep: "\<forall>d \<in> set (out_decisions (ms_policy s) k txt inputs).
        separation_conflict (ms_policy s) (out_chain a ctx) d = None"
    and out: "ms_sent s' = ms_sent s @ [(link_inbox (ms_policy s) b a, body)]"
    by (auto simp: me body_def)
  define c where "c = made_claims w a (hc_hops ctx) (link_kind_value k) fresh (hc_trace ctx) b
    (hc_depth ctx + 1) txt inputs (out_decisions (ms_policy s) k txt inputs) now (ms_deadline s)"
  let ?hops = "hc_hops ctx @ [hop_sign w mine c]"
  have hops: "get_key body ''hops'' = PList ?hops" using keys_of(11) [OF keys(1)] by (simp add: c_def me)
  have "hop_matches w b a body at c"
    using time keys_of by (auto simp: hop_matches_def c_def me body_digest_def)
  with signed_hop_extends [OF keys(3) held c_def]
  have verified: "verify_chain w hk (ms_me r) a body at ?hops = Inr (out_chain a ctx @ [ms_me r])"
    by (auto simp: verify_chain_Inr me)
  have receive: "may_receive (ms_policy r) a k day = Inr (Inr via)"
    using allowed by (simp add: may_send_def may_receive_def link_allows_def sent_is_received [OF links])
  note same = config_separations [OF links(1)] config_separations [OF links(2)]
  have "in_decisions (ms_policy r) k body = out_decisions (ms_policy s) k txt inputs"
    by (rule both_ends_name_the_same) (simp_all add: same keys_of)
  with sep have judged: "\<forall>d \<in> set (in_decisions (ms_policy r) k body).
      separation_conflict (ms_policy r) (out_chain a ctx) d = None"
    using separation_conflict_config [of "ms_policy s" "ms_policy r"] by (simp add: same)
  have claims: "hop_claims (last ?hops) = Some c" "map_of c ''task'' = Some (PStr fresh)"
      "map_of c ''exp'' = Some (PInt (now + ms_deadline s))"
    by (simp_all add: hop_sign_def c_def made_claims_def)
  obtain r' run where inbox: "on_inbox w answer' at day fresh' a body r = Inr r'"
    and run: "ms_queue r' = ms_queue r @ [run]" "br_sender run = a" "br_kind run = k"
      "hc_chain (br_ctx run) = out_chain a ctx @ [ms_me r]" "hc_hops (br_ctx run) = ?hops"
    using on_inbox_takes_up [OF keys_of(2) keys_of(10) _ keys_of(9) hops _ receive _ keys(2) verified claims
        unseen judged, of answer' fresh'] depth
    by (auto simp: me)
  have subject: "link_inbox (ms_policy s) b a = link_inbox (ms_policy r) (ms_me r) a"
    using config_edges(5) [OF links(1)] config_edges(5) [OF links(2)] by (simp add: link_inbox_def me)
  have "on_delivery order w answer' at day fresh' (link_inbox (ms_policy s) b a) (Inr (PDict body)) r = Inr r'"
    unfolding subject
    by (subst delivered_to_inbox [OF names(1) received_is_known [OF receive] names(2)])
       (simp_all add: keys_of(3) me inbox)
  moreover have "held_chain w hk b (hc_trace ctx) at (hc_hops (br_ctx run)) (hc_chain (br_ctx run))"
    unfolding run(4,5) me by (rule extended_chain_is_held [OF keys(3) held c_def time(2)])
  moreover have "iter_or_empty (get_key body ''hops'') = Some (hc_hops (br_ctx run))"
    by (simp add: run(5) hops iter_or_empty_def)
  ultimately show ?thesis using out run(1-4) unfolding me by blast
qed


definition example_bus_sender :: messenger where
  "example_bus_sender = new_messenger (example_link ''buyer'') (Some (example_hop_keys ''B'')) 900 True"

definition example_bus_receiver :: messenger where
  "example_bus_receiver = new_messenger (example_link ''ap'') (Some (example_hop_keys ''A'')) 900 True"

definition example_ctx :: hop_ctx where
  "example_ctx = \<lparr>hc_trace = ''r1'', hc_chain = [''coo'', ''buyer''], hc_depth = 1, hc_session = ''s'',
     hc_handle = ''h0'', hc_hops = [example_first_hop]\<rparr>"

lemma example_outbound:
  "\<exists>s'. outbound example_hop_world PubOk 130 12 ''t2'' example_ctx ''ap'' Delegate ''check'' [] ''h1'' example_bus_sender
     = (Inr (OutOk ''t2'' ''mission:peak''), s')"
proof -
  have "link_max_depth (example_link ''buyer'') = 3" by code_simp
  moreover have "out_decisions (example_link ''buyer'') Delegate ''check'' [] = []" by code_simp
  ultimately show ?thesis
    by (simp add: outbound_def example_bus_sender_def new_messenger_def example_may_send example_ctx_def
        bus_publish_def Let_def)
qed

lemma example_links_known:
  "lc_agent (example_link ''buyer'') = ''buyer''" "lc_agent (example_link ''ap'') = ''ap''"
  "known_agents (example_link ''ap'') = [''coo'', ''buyer'']" "link_max_depth (example_link ''ap'') = 3"
  by code_simp+

lemma example_tokens: "bus_token ''coo'' \<noteq> bus_token ''buyer''"
  by code_simp

lemmas example_bus = example_bus_sender_def example_bus_receiver_def new_messenger_def example_link_found
  example_signs example_ctx_def out_chain_def example_links_known seen_now_def hop_skew_def

lemma example_taken_up:
  "\<exists>subject body r' run.
     on_delivery id example_hop_world PubOk 140 12 ''m1'' subject (Inr (PDict body)) example_bus_receiver = Inr r' \<and>
     ms_queue r' = [run] \<and> iter_or_empty (get_key body ''hops'') = Some (hc_hops (br_ctx run))"
proof -
  obtain s' where out: "outbound example_hop_world PubOk 130 12 ''t2'' example_ctx ''ap'' Delegate ''check'' [] ''h1''
      example_bus_sender = (Inr (OutOk ''t2'' ''mission:peak''), s')"
    using example_outbound by blast
  have "ms_queue example_bus_receiver = []" by (simp add: example_bus)
  then show ?thesis
    using taken_up [OF _ _ _ _ _ _ out, of example_bus_ir "''buyer''" example_bus_receiver "example_hop_keys ''B''"
        "example_hop_keys ''A''" id 140 PubOk "''m1''"] example_held [of "''A''"] example_tokens
    by (fastforce simp: example_bus)
qed


end
