(* ===== verification/BusTraces.thy ===== *)
theory BusTraces
  imports BusDelivery
begin

text \<open>
  What holds of a worker on the bus over any sequence of its operations. \<open>bus_apply\<close> is one operation
  at a time \<open>now\<close>, one that raises leaving the state as it was; \<open>bus_reaches\<close> relates two states of a
  worker at two times by the operations between them. A hop is accepted once, a handle is settled by
  its deadline or by the agent it was sent to, and what one worker sends another accepts.
\<close>

section \<open>Operations\<close>

datatype bus_op =
    OpSend publish_result int string hop_ctx string string
  | OpDelegate publish_result int string string hop_ctx string string body
  | OpPoll int string
  | OpDeliver publish_result int string string "string + pyval"
  | OpRun publish_result string nat "string + body"

fun bus_apply :: "(string list \<Rightarrow> string list) \<Rightarrow> hop_world \<Rightarrow> int \<Rightarrow> bus_op \<Rightarrow> messenger \<Rightarrow> messenger" where
  "bus_apply order w now (OpSend answer day fresh ctx receiver words) st =
     snd (send_message w answer now day fresh ctx receiver words st)"
| "bus_apply order w now (OpDelegate answer day fresh handle ctx receiver task inputs) st =
     snd (bus_delegate w answer now day fresh handle ctx receiver task inputs st)"
| "bus_apply order w now (OpPoll until handle) st = snd (check_poll now until handle st)"
| "bus_apply order w now (OpDeliver answer day fresh subject decoded) st =
     (case on_delivery order w answer now day fresh subject decoded st of Inl e \<Rightarrow> st | Inr st' \<Rightarrow> st')"
| "bus_apply order w now (OpRun answer fresh i outcome) st =
     (case bus_run_task answer now fresh i outcome st of None \<Rightarrow> st | Some st' \<Rightarrow> st')"

inductive bus_reaches :: "(string list \<Rightarrow> string list) \<Rightarrow> hop_world \<Rightarrow> int \<Rightarrow> messenger \<Rightarrow> int \<Rightarrow> messenger \<Rightarrow> bool"
  for order :: "string list \<Rightarrow> string list" and w :: hop_world and t :: int and st :: messenger
where
  here: "bus_reaches order w t st t st"
| later: "bus_reaches order w t st t1 st1 \<Longrightarrow> t1 \<le> t2 \<Longrightarrow> bus_reaches order w t st t2 (bus_apply order w t2 op st1)"

inductive_cases bus_reaches_now: "bus_reaches order w t st t' st'"

lemma send_message_desk: "same_desk st (snd (send_message w answer now day fresh ctx receiver words st))"
  using outbound_cases [of w answer now day fresh ctx receiver Message words "[]" "[]" st]
  by (cases "send_message w answer now day fresh ctx receiver words st") (simp add: send_message_def)

lemma run_task_desk:
  assumes "bus_run_task answer now fresh i outcome st = Some st'"
  shows "ms_policy st' = ms_policy st \<and> ms_keys st' = ms_keys st \<and> ms_deadline st' = ms_deadline st \<and>
    ms_seen st' = ms_seen st \<and> ms_handles st' = ms_handles st"
proof -
  let ?base = "st\<lparr>ms_queue := take i (ms_queue st) @ drop (Suc i) (ms_queue st)\<rparr>"
  have "same_desk ?base (bus_reply answer now fresh receiver trace contents (record_event now ev ?base))"
    for receiver trace contents ev
    by (rule same_desk_trans [OF _ same_desk_reply]) simp
  with assms have "same_desk ?base st'" by (auto simp: bus_run_task_def Let_def split: if_splits)
  then show ?thesis by (simp add: same_desk_def)
qed

text \<open>The handle table of a delegation: only the new handle is touched.\<close>

lemma bus_delegate_desk:
  "ms_policy (snd (bus_delegate w answer now day fresh handle ctx receiver task inputs st)) = ms_policy st \<and>
   ms_keys (snd (bus_delegate w answer now day fresh handle ctx receiver task inputs st)) = ms_keys st \<and>
   ms_deadline (snd (bus_delegate w answer now day fresh handle ctx receiver task inputs st)) = ms_deadline st \<and>
   ms_seen (snd (bus_delegate w answer now day fresh handle ctx receiver task inputs st)) = ms_seen st \<and>
   (h \<noteq> handle \<longrightarrow>
     map_of (ms_handles (snd (bus_delegate w answer now day fresh handle ctx receiver task inputs st))) h =
     map_of (ms_handles st) h)"
proof -
  let ?held = "st\<lparr>ms_handles := AList.update handle (pending_handle now ctx receiver task) (ms_handles st)\<rparr>"
  obtain r st' where out: "outbound w answer now day fresh ctx receiver Delegate task inputs handle ?held = (r, st')"
    by fastforce
  then have desk: "same_desk ?held st'" using outbound_cases by blast
  have "snd (bus_delegate w answer now day fresh handle ctx receiver task inputs st) =
      (case r of Inr (OutRefused stage reason) \<Rightarrow> st'\<lparr>ms_handles := AList.delete handle (ms_handles st')\<rparr> | _ \<Rightarrow> st')"
    by (simp add: bus_delegate_def out split: sum.splits out_result.splits)
  with desk show ?thesis
    by (auto simp: same_desk_def delete_conv' split: sum.splits out_result.splits)
qed

section \<open>Replays\<close>

definition spent :: "string \<Rightarrow> int \<Rightarrow> int \<Rightarrow> (string \<times> int) list \<Rightarrow> bool" where
  "spent task exp now seen \<longleftrightarrow> exp < now \<or> (\<exists>e. map_of seen task = Some e \<and> exp \<le> e)"

lemma map_of_seen_now: "map_of seen k = Some e \<Longrightarrow> \<not> e < now \<Longrightarrow> map_of (seen_now now seen) k = Some e"
  unfolding seen_now_def by (induction seen) (auto split: if_splits)

lemma spent_seen_now: "spent task exp t seen \<Longrightarrow> t \<le> now \<Longrightarrow> spent task exp now (seen_now now seen)"
  using map_of_seen_now [of seen task _ now] by (fastforce simp: spent_def)

lemma spent_mono: "spent task exp t seen \<Longrightarrow> t \<le> now \<Longrightarrow> spent task exp now seen"
  by (auto simp: spent_def)

lemma spent_check_replay:
  assumes "spent task exp t seen" and "t \<le> now"
  shows "spent task exp now (snd (check_replay w now c seen))"
proof -
  have "spent task exp now (AList.update k e (seen_now now seen))" if "map_of (seen_now now seen) k = None" for k e
    using spent_seen_now [OF assms] that by (auto simp: spent_def)
  with spent_mono [OF assms] spent_seen_now [OF assms] show ?thesis
    by (auto simp: check_replay_def Let_def split: option.splits)
qed

lemma check_signed_seen:
  "cc_seen (check_signed w keys me sender body now chain seen) = seen \<or>
   (\<exists>c. cc_seen (check_signed w keys me sender body now chain seen) = snd (check_replay w now c seen))"
proof (cases keys)
  case (Some hk)
  show ?thesis
  proof (cases "iter_or_empty (get_key body ''hops'')")
    case hops: (Some hops)
    let ?r = "check_replay w now (case hop_claims (last hops) of Some c \<Rightarrow> c | None \<Rightarrow> []) seen"
    show ?thesis
    proof (cases "verify_chain w hk me sender body now hops")
      case (Inr ps)
      with Some hops have "cc_seen (check_signed w keys me sender body now chain seen) = snd ?r"
        by (simp add: check_signed_def split: prod.splits)
      then show ?thesis by blast
    qed (simp add: check_signed_def Some hops)
  qed (simp add: check_signed_def Some)
qed (simp add: check_signed_def)

lemma spent_on_delivery:
  assumes "on_delivery order w answer now day fresh subject decoded st = Inr st'"
    and "spent task exp t (ms_seen st)" and "t \<le> now"
  shows "spent task exp now (ms_seen st')"
  using assms(1)
proof (cases rule: on_delivery_cases)
  case dropped
  with spent_mono [OF assms(2,3)] show ?thesis by (simp add: same_desk_def)
next
  case (reply sender body)
  with spent_mono [OF assms(2,3)] show ?thesis by simp
next
  case (mail sender body)
  from on_inbox_cases [OF mail(5)] obtain chain0 where
    "ms_seen st' = ms_seen st \<or>
     ms_seen st' = cc_seen (check_signed w (ms_keys st) (ms_me st) sender body now chain0 (ms_seen st))"
    by (auto simp: Let_def)
  with check_signed_seen [of w "ms_keys st" "ms_me st" sender body now chain0 "ms_seen st"]
    spent_mono [OF assms(2,3)] spent_check_replay [OF assms(2,3)]
  show ?thesis by metis
qed

lemma spent_bus_apply:
  assumes "spent task exp t (ms_seen st)" and "t \<le> now"
  shows "spent task exp now (ms_seen (bus_apply order w now op st))"
proof (cases op)
  case (OpSend answer day fresh ctx receiver words)
  with spent_mono [OF assms] send_message_desk [of st] show ?thesis by (simp add: same_desk_def)
next
  case (OpDelegate answer day fresh handle ctx receiver task inputs)
  with spent_mono [OF assms] show ?thesis by (simp add: bus_delegate_desk)
next
  case (OpPoll until handle)
  with spent_mono [OF assms] show ?thesis by (simp add: check_poll_def Let_def split: option.splits)
next
  case (OpDeliver answer day fresh subject decoded)
  with spent_mono [OF assms] spent_on_delivery [OF _ assms] show ?thesis by (auto split: sum.splits)
next
  case (OpRun answer fresh i outcome)
  with spent_mono [OF assms] run_task_desk show ?thesis by (fastforce split: option.splits)
qed

lemma spent_reaches:
  assumes "bus_reaches order w t st t' st'" and "spent task exp t (ms_seen st)"
  shows "spent task exp t' (ms_seen st')"
  using assms by (induction rule: bus_reaches.induct) (auto intro: spent_bus_apply)

lemma keys_on_delivery:
  assumes "on_delivery order w answer now day fresh subject decoded st = Inr st'"
  shows "ms_keys st' = ms_keys st"
  using assms
proof (cases rule: on_delivery_cases)
  case (mail sender body)
  from on_inbox_cases [OF mail(5)] show ?thesis by (simp add: same_office_def)
qed (simp_all add: same_desk_def)

lemma keys_bus_apply: "ms_keys (bus_apply order w now op st) = ms_keys st"
proof (cases op)
  case (OpSend answer day fresh ctx receiver words)
  with send_message_desk [of st] show ?thesis by (simp add: same_desk_def)
next
  case (OpPoll until handle)
  then show ?thesis by (simp add: check_poll_def Let_def split: option.splits)
next
  case (OpDeliver answer day fresh subject decoded)
  with keys_on_delivery show ?thesis by (auto split: sum.splits)
next
  case (OpRun answer fresh i outcome)
  with run_task_desk show ?thesis by (fastforce split: option.splits)
qed (simp add: bus_delegate_desk)

lemma keys_reaches: "bus_reaches order w t st t' st' \<Longrightarrow> ms_keys st' = ms_keys st"
  by (induction rule: bus_reaches.induct) (simp_all add: keys_bus_apply)

text \<open>What the acceptance of a signed message says of its last hop and of the table.\<close>

lemma accepted_hop:
  assumes "on_delivery order w answer now day fresh subject decoded st = Inr st'"
    and "ms_queue st' = ms_queue st @ [run]" and "ms_keys st = Some hk"
  obtains body c t exp where "decoded = Inr (PDict body)"
    "iter_or_empty (get_key body ''hops'') = Some (hc_hops (br_ctx run))"
    "hop_claims (last (hc_hops (br_ctx run))) = Some c" "map_of c ''task'' = Some t"
    "time_claim w c ''exp'' = Some exp" "now \<le> exp" "map_of (seen_now now (ms_seen st)) (py_str t) = None"
    "spent (py_str t) exp now (ms_seen st')"
  using assms(1)
proof (cases rule: on_delivery_cases)
  case dropped
  with assms(2) show thesis by (simp add: same_desk_def)
next
  case (reply sender body)
  with assms(2) show thesis by simp
next
  case (mail sender body)
  from on_inbox_cases [OF mail(5)] assms(2) obtain chain0 where
    reason: "cc_reason (check_signed w (ms_keys st) (ms_me st) sender body now chain0 (ms_seen st)) = None" and
    seen: "ms_seen st' = cc_seen (check_signed w (ms_keys st) (ms_me st) sender body now chain0 (ms_seen st))" and
    hops: "hc_hops (br_ctx run) = cc_hops (check_signed w (ms_keys st) (ms_me st) sender body now chain0 (ms_seen st))"
    by (auto simp: Let_def)
  let ?hops = "hc_hops (br_ctx run)"
  from check_signed_None [OF reason] obtain ps where
    "verify_chain w hk (ms_me st) sender body now ?hops = Inr ps" by (auto simp: hops assms(3))
  then obtain cs where cs: "?hops \<noteq> []" "check_hops w hk 1 [] None ?hops = Inr cs"
      "hop_matches w (ms_me st) sender body now (last cs)" and ps: "verify_chain w hk (ms_me st) sender body now ?hops = Inr ps"
    by (auto simp: verify_chain_Inr)
  then have "length cs = length ?hops" "signed_hop w hk (?hops ! (length ?hops - 1)) (cs ! (length ?hops - 1))"
    using check_hops_proven [OF cs(2)] by (auto simp: proven_chain_def)
  moreover from this cs(1) have "last cs = cs ! (length ?hops - 1)"
    by (metis last_conv_nth length_0_conv)
  ultimately have claims: "hop_claims (last ?hops) = Some (last cs)"
    using cs(1) by (auto simp: signed_hop_def last_conv_nth)
  have iter: "iter_or_empty (get_key body ''hops'') = Some ?hops"
    using reason hops assms(3) by (auto simp: check_signed_def split: option.splits sum.splits prod.splits)
  from reason have replay: "fst (check_replay w now (last cs) (ms_seen st)) = None"
    using iter ps claims assms(3) by (simp add: check_signed_def split: prod.splits)
  moreover have "ms_seen st' = snd (check_replay w now (last cs) (ms_seen st))"
    using iter ps claims assms(3) by (simp add: seen check_signed_def split: prod.splits)
  ultimately obtain t v exp where "map_of (last cs) ''task'' = Some t" "map_of (last cs) ''exp'' = Some v"
      "py_float w v = Some exp" "map_of (seen_now now (ms_seen st)) (py_str t) = None"
      "ms_seen st' = AList.update (py_str t) exp (seen_now now (ms_seen st))"
    by (auto simp: check_replay_def Let_def split: option.splits if_splits)
  moreover from this have "time_claim w (last cs) ''exp'' = Some exp" by (simp add: time_claim_def dict_get_def)
  moreover from this cs(3) have "now \<le> exp" by (auto simp: hop_matches_def)
  ultimately show thesis using claims iter mail(1) by (intro that [of body "last cs" t exp]) (simp_all add: spent_def)
qed

lemma queue_on_delivery:
  assumes "on_delivery order w answer now day fresh subject decoded st = Inr st'"
  shows "ms_queue st' = ms_queue st \<or> (\<exists>run. ms_queue st' = ms_queue st @ [run])"
  using assms
proof (cases rule: on_delivery_cases)
  case dropped
  then show ?thesis by (simp add: same_desk_def)
next
  case (reply sender body)
  then show ?thesis by simp
next
  case (mail sender body)
  from on_inbox_cases [OF mail(5)] show ?thesis by (auto simp: Let_def)
qed


section \<open>Handles\<close>

lemma handles_on_delivery:
  assumes "on_delivery order w answer now day fresh subject decoded st = Inr st'"
    and "map_of (ms_handles st') h \<noteq> map_of (ms_handles st) h"
  shows "\<exists>held body. map_of (ms_handles st) h = Some held \<and> decoded = Inr (PDict body) \<and>
    subject = link_reply (ms_policy st) (ms_me st) (bh_to held) \<and> get_key body ''from'' = PStr (bh_to held) \<and>
    str_or_empty (get_key body ''handle'') = h"
  using assms(1)
proof (cases rule: on_delivery_cases)
  case dropped
  with assms(2) show ?thesis by (simp add: same_desk_def)
next
  case (mail sender body)
  from on_inbox_cases [OF mail(5)] assms(2) show ?thesis by (simp add: same_office_def)
next
  case (reply sender body)
  let ?h = "str_or_empty (get_key body ''handle'')"
  from assms(2) reply(5) obtain held where held: "map_of (ms_handles st) ?h = Some held" "bh_to held = sender"
    by (auto simp: on_reply_def Let_def split: option.splits if_splits)
  with assms(2) reply(5) have "?h = h"
    by (auto simp: on_reply_def Let_def split: if_splits)
  with held reply show ?thesis by auto
qed

text \<open>
  C13: Only two things change what a worker holds of a delegation it made, short of minting the same
  handle again: asking after it when its deadline has passed while it was still pending, or a reply
  for that handle, published on the reply subject of the agent the delegation was sent to and
  admitted by its body. No other agent and no other operation can settle it.
\<close>

theorem handle_is_settled_by_its_addressee:
  assumes "map_of (ms_handles st) h = Some held"
    and "map_of (ms_handles (bus_apply order w now op st)) h \<noteq> Some held"
    and "\<And>answer day fresh ctx receiver task inputs. op \<noteq> OpDelegate answer day fresh h ctx receiver task inputs"
  shows "(\<exists>until. op = OpPoll until h \<and> bh_state held = ''pending'' \<and> now - bh_sent_at held > ms_deadline st) \<or>
    (\<exists>answer day fresh body. op = OpDeliver answer day fresh
        (link_reply (ms_policy st) (ms_me st) (bh_to held)) (Inr (PDict body)) \<and>
      get_key body ''from'' = PStr (bh_to held) \<and> str_or_empty (get_key body ''handle'') = h)"
proof (cases op)
  case (OpSend answer day fresh ctx receiver words)
  with assms(1,2) send_message_desk [of st] show ?thesis by (simp add: same_desk_def)
next
  case (OpDelegate answer day fresh handle ctx receiver task inputs)
  with assms(3) have "h \<noteq> handle" by blast
  with OpDelegate assms(1,2) show ?thesis by (simp add: bus_delegate_desk)
next
  case (OpPoll until handle)
  show ?thesis
  proof (cases "map_of (ms_handles st) handle")
    case None
    with OpPoll assms(1,2) show ?thesis by (simp add: check_poll_def)
  next
    case (Some held')
    with OpPoll assms(1,2) show ?thesis
      by (cases "h = handle") (auto simp: check_poll_def Let_def split: if_splits)
  qed
next
  case (OpDeliver answer day fresh subject decoded)
  with assms(1,2) obtain st' where st': "on_delivery order w answer now day fresh subject decoded st = Inr st'"
      "map_of (ms_handles st') h \<noteq> map_of (ms_handles st) h"
    by (auto split: sum.splits)
  from handles_on_delivery [OF this] assms(1) OpDeliver show ?thesis by auto
next
  case (OpRun answer fresh i outcome)
  with assms(1,2) run_task_desk show ?thesis by (fastforce split: option.splits)
qed

text \<open>
  Asking after a delegation always ends, with an answer within the bound. A handle the worker
  made is returned, settled, as soon as its deadline has passed, whatever the addressee did or did
  not answer; and a caller who set out to wait is answered at the latest at the moment it named,
  which is never more than 170 seconds away.
\<close>

theorem check_always_answers:
  assumes "map_of (ms_handles st) h = Some held"
  shows "(now - bh_sent_at held > ms_deadline st \<longrightarrow>
      (\<exists>held' st'. check_poll now until h st = (PollReturned held', st') \<and> bh_state held' \<noteq> ''pending'')) \<and>
    (now \<ge> wait_until start wait \<longrightarrow> (\<exists>held' st'. check_poll now (wait_until start wait) h st = (PollReturned held', st'))) \<and>
    start \<le> wait_until start wait \<and> wait_until start wait \<le> start + 170"
  using assms by (auto simp: check_poll_def Let_def wait_until_def max_wait_def)

text \<open>A handle that has settled is not settled for good: a reply that comes after the deadline
  replaces the failure that was already returned.\<close>

lemma late_reply_replaces_failure:
  assumes "map_of (ms_handles st) h = Some held" and "bh_state held = ''failed''"
    and "get_key body ''handle'' = PStr h" and "get_key body ''state'' = PStr ''completed''"
  shows "\<exists>held'. map_of (ms_handles (on_reply now (bh_to held) body st)) h = Some held' \<and> bh_state held' = ''completed''"
  using assms by (simp add: on_reply_def Let_def)

text \<open>A depth that is no number raises out of \<open>on_delivery\<close>, and with it ends the consumer that called
  it.\<close>

lemma bad_depth_raises:
  assumes "get_key body ''depth'' = PStr ''deep''"
  shows "on_inbox w answer now day fresh sender body st = Inl ValueErr"
proof -
  have "parse_int ''deep'' = None" by code_simp
  with assms show ?thesis by (simp add: on_inbox_def body_depth_def Let_def)
qed

section \<open>Examples\<close>

definition example_asker :: messenger where
  "example_asker = (new_messenger (example_link ''buyer'') None 900 True)
     \<lparr>ms_handles := [(''h1'', pending_handle 100 \<lparr>hc_trace = ''r1'', hc_chain = [''buyer''], hc_depth = 0,
        hc_session = [], hc_handle = [], hc_hops = []\<rparr> ''ap'' ''check'')]\<rparr>"

definition example_reply :: body where
  "example_reply = [(''from'', PStr ''ap''), (''handle'', PStr ''h1''), (''state'', PStr ''completed'')]"

lemma example_answered:
  "map_option bh_state (map_of (ms_handles (bus_apply id example_hop_world 120
     (OpDeliver PubOk 12 ''m'' ''orgagents.local.agent.buyer.reply.ap'' (Inr (PDict example_reply))) example_asker)) ''h1'') =
   Some ''completed''"
  by code_simp

lemma handle_is_settled_by_its_addressee_witness:
  "\<exists>held. map_of (ms_handles example_asker) ''h1'' = Some held \<and> bh_state held = ''pending'' \<and>
     ''orgagents.local.agent.buyer.reply.ap'' =
       link_reply (ms_policy example_asker) (ms_me example_asker) (bh_to held)"
proof -
  obtain held where held: "map_of (ms_handles example_asker) ''h1'' = Some held" "bh_state held = ''pending''"
    by (simp add: example_asker_def pending_handle_def)
  with example_answered have "map_of (ms_handles (bus_apply id example_hop_world 120
     (OpDeliver PubOk 12 ''m'' ''orgagents.local.agent.buyer.reply.ap'' (Inr (PDict example_reply))) example_asker)) ''h1''
     \<noteq> Some held" by auto
  from handle_is_settled_by_its_addressee [OF held(1) this] held show ?thesis by auto
qed

lemma check_always_answers_witness:
  "\<exists>held st. check_poll 1001 0 ''h1'' example_asker = (PollReturned held, st) \<and> bh_state held \<noteq> ''pending''"
proof -
  obtain held where held: "map_of (ms_handles example_asker) ''h1'' = Some held" "bh_sent_at held = 100"
    by (simp add: example_asker_def pending_handle_def)
  have "ms_deadline example_asker = 900" by (simp add: example_asker_def new_messenger_def)
  with check_always_answers [OF held(1), of 1001 0 0 0] held(2) show ?thesis by auto
qed


end
