(* ===== verification/MemoryRuns.thy ===== *)
theory MemoryRuns
  imports Memory "HOL-Library.Multiset"
begin

text \<open>
  What holds of agent memory. \<open>memory_apply\<close> is one operation of one agent (or the scheduled expiry)
  and \<open>memory_run\<close> a sequence of them. What one agent remembers no other agent's operation alters or
  removes; what is recalled is what the contract permits; remembering keeps its bound.
\<close>

section \<open>The store of memories\<close>

definition wf_memories :: "memories \<Rightarrow> bool" where
  "wf_memories st \<longleftrightarrow> wf_docs st \<and> (\<forall>k e. store_get st k = Some e \<longrightarrow> me_id e = k)"

lemma delete_all_simps [simp]:
  "delete_all [] st = st" "delete_all (k # ks) st = delete_all ks (fst (store_delete k st))"
  by (simp_all add: delete_all_def)

lemma get_delete_all: "store_get (delete_all ks st) k = (if k \<in> set ks then None else store_get st k)"
  by (induction ks arbitrary: st) (auto simp: ds.get_delete)

lemma wf_delete_all: "wf_docs st \<Longrightarrow> wf_docs (delete_all ks st)"
  by (induction ks arbitrary: st) (auto simp: ds.wf_delete)

lemma wf_memories_delete_all: "wf_memories st \<Longrightarrow> wf_memories (delete_all ks st)"
  by (simp add: wf_memories_def wf_delete_all get_delete_all)

lemma wf_memories_put: "wf_memories st \<Longrightarrow> me_id e = k \<Longrightarrow> wf_memories (store_put now k e p n st)"
  by (simp add: wf_memories_def ds.wf_put ds.get_put)

lemma listed_memory: "wf_memories st \<Longrightarrow> e \<in> set (store_list p l o' st) \<Longrightarrow> store_get st (me_id e) = Some e"
  using ds.listing_sound [of st e p l o'] by (auto simp: wf_memories_def)

section \<open>What an operation keeps\<close>

text \<open>The same memory, but for how often and when it was recalled.\<close>

definition counted :: "nat \<Rightarrow> instant option \<Rightarrow> memory_entry \<Rightarrow> memory_entry" where
  "counted n l e = e\<lparr>me_recall_count := n, me_last_recalled_at := l\<rparr>"

lemma counted_simps [simp]:
  "me_id (counted n l e) = me_id e" "me_agent_id (counted n l e) = me_agent_id e"
  "me_tier (counted n l e) = me_tier e" "me_session_id (counted n l e) = me_session_id e"
  "me_content (counted n l e) = me_content e" "me_scope (counted n l e) = me_scope e"
  "me_expires_at (counted n l e) = me_expires_at e" "counted n l (counted n' l' e) = counted n l e"
  by (simp_all add: counted_def)

lemma counted_same: "counted (me_recall_count e) (me_last_recalled_at e) e = e"
  by (simp add: counted_def)

definition same_memory :: "memory_entry \<Rightarrow> memory_entry \<Rightarrow> bool" where
  "same_memory e e' \<longleftrightarrow> (\<exists>n l. e' = counted n l e)"

lemma same_memory_refl [simp]: "same_memory e e"
  unfolding same_memory_def using counted_same [of e, symmetric] by blast

lemma same_memory_recalled [simp]: "same_memory e (recalled now e)"
  unfolding same_memory_def recalled_def counted_def by blast

lemma same_memory_trans: "same_memory a b \<Longrightarrow> same_memory b c \<Longrightarrow> same_memory a c"
  unfolding same_memory_def by (elim exE) (simp only: counted_simps(8), blast)

lemma same_memory_fields:
  assumes "same_memory e e'"
  shows "me_id e' = me_id e" "me_agent_id e' = me_agent_id e" "me_content e' = me_content e"
    "me_scope e' = me_scope e" "me_expires_at e' = me_expires_at e" "entry_expired e' now = entry_expired e now"
  using assms by (auto simp: same_memory_def entry_expired_def)

definition keeps :: "string \<Rightarrow> memories \<Rightarrow> memories \<Rightarrow> bool" where
  "keeps agent st st' \<longleftrightarrow>
     (\<forall>k e. store_get st k = Some e \<and> me_agent_id e \<noteq> agent \<longrightarrow>
        (\<exists>e'. store_get st' k = Some e' \<and> same_memory e e'))"

lemma keeps_refl [simp]: "keeps agent st st"
  by (auto simp: keeps_def)

lemma keeps_trans: "keeps agent a b \<Longrightarrow> keeps agent b c \<Longrightarrow> keeps agent a c"
  unfolding keeps_def
proof (intro allI impI)
  fix k e
  assume ab: "\<forall>k e. store_get a k = Some e \<and> me_agent_id e \<noteq> agent \<longrightarrow>
      (\<exists>e'. store_get b k = Some e' \<and> same_memory e e')"
    and bc: "\<forall>k e. store_get b k = Some e \<and> me_agent_id e \<noteq> agent \<longrightarrow>
      (\<exists>e'. store_get c k = Some e' \<and> same_memory e e')"
    and e: "store_get a k = Some e \<and> me_agent_id e \<noteq> agent"
  from ab e obtain e1 where e1: "store_get b k = Some e1" "same_memory e e1" by blast
  with e same_memory_fields(2) have "me_agent_id e1 \<noteq> agent" by simp
  with bc e1 obtain e2 where "store_get c k = Some e2" "same_memory e1 e2" by blast
  with e1 same_memory_trans show "\<exists>e2. store_get c k = Some e2 \<and> same_memory e e2" by blast
qed

lemma keeps_own_deletes:
  assumes "wf_memories st" and "\<And>e. e \<in> set es \<Longrightarrow> store_get st (me_id e) = Some e \<and> me_agent_id e = agent"
  shows "keeps agent st (delete_all (map me_id es) st)"
  unfolding keeps_def get_delete_all
proof (intro allI impI)
  fix k e
  assume e: "store_get st k = Some e \<and> me_agent_id e \<noteq> agent"
  then have "k \<notin> set (map me_id es)" using assms(2) by auto
  with e show "\<exists>e'. (if k \<in> set (map me_id es) then None else store_get st k) = Some e' \<and> same_memory e e'" by simp
qed

lemma enforce_cap_ids:
  assumes "wf_memories st"
  shows "\<exists>es. enforce_cap c p t session ns now st = delete_all (map me_id es) st \<and>
    (\<forall>e \<in> set es. e \<in> set (store_list (memory_parent t session ns) 5000 0 st) \<and> me_agent_id e = mc_agent_id c)"
proof -
  let ?existing = "filter (\<lambda>e. me_agent_id e = mc_agent_id c) (store_list (memory_parent t session ns) 5000 0 st)"
  let ?live = "filter (\<lambda>e. \<not> entry_expired e now) ?existing"
  let ?over = "int (length ?live) - my_max_items p + 1"
  define es where "es = filter (\<lambda>e. entry_expired e now) ?existing @
    (if ?over > 0 then take (nat ?over) (sort_key me_created_at ?live) else [])"
  have "delete_all (xs @ ys) st = delete_all ys (delete_all xs st)" for xs ys by (simp add: delete_all_def)
  then have "enforce_cap c p t session ns now st = delete_all (map me_id es) st"
    by (simp add: enforce_cap_def es_def Let_def)
  moreover have "set es \<subseteq> set ?existing"
    by (auto simp: es_def dest: in_set_takeD)
  ultimately show ?thesis by auto
qed

lemma enforce_cap_keeps:
  assumes "wf_memories st"
  shows "keeps (mc_agent_id c) st (enforce_cap c p t session ns now st)"
    and "wf_memories (enforce_cap c p t session ns now st)"
proof -
  obtain es where es: "enforce_cap c p t session ns now st = delete_all (map me_id es) st"
    and own: "\<forall>e \<in> set es. e \<in> set (store_list (memory_parent t session ns) 5000 0 st) \<and> me_agent_id e = mc_agent_id c"
    using enforce_cap_ids [OF assms] by blast
  show "keeps (mc_agent_id c) st (enforce_cap c p t session ns now st)"
    unfolding es using own listed_memory [OF assms] by (intro keeps_own_deletes [OF assms]) auto
  show "wf_memories (enforce_cap c p t session ns now st)"
    unfolding es by (rule wf_memories_delete_all [OF assms])
qed

lemma keeps_put_new:
  "store_get st k = None \<Longrightarrow> keeps agent st (store_put now k e p n st)"
  by (auto simp: keeps_def ds.get_put)

lemma remember_Inr:
  assumes "remember c content session key t ns dc tags source now clock fresh st = Inr (e, st')"
  shows "my_enabled (contract_policy c t) \<and> check_data_class c (contract_policy c t) dc t = Inr () \<and>
    memory_sharing c t ns dc = Inr (me_scope e, me_groups e) \<and>
    me_id e = fresh \<and> me_agent_id e = mc_agent_id c \<and> me_tier e = t \<and> me_data_class e = dc \<and>
    me_content e = redact (contract_policy c t) dc content \<and>
    me_expires_at e = memory_expiry (contract_policy c t) t now \<and>
    st' = store_put clock fresh e (memory_parent t session ns) (Some (if key \<noteq> [] then key else fresh))
            (enforce_cap c (contract_policy c t) t session ns now st)"
  using assms
  by (auto simp: remember_def Let_def ebind_eq_Inr split: if_splits prod.splits)

lemma remember_keeps:
  assumes "remember c content session key t ns dc tags source now clock fresh st = Inr (e, st')"
    and "wf_memories st" and "store_get st fresh = None"
  shows "keeps (mc_agent_id c) st st'" and "wf_memories st'"
proof -
  note cap = enforce_cap_keeps [OF assms(2), of c "contract_policy c t" t session ns now]
  from enforce_cap_ids [OF assms(2)] assms(3)
  have "store_get (enforce_cap c (contract_policy c t) t session ns now st) fresh = None"
    by (metis get_delete_all)
  with cap remember_Inr [OF assms(1)] show "keeps (mc_agent_id c) st st'" "wf_memories st'"
    by (auto intro: keeps_trans keeps_put_new wf_memories_put)
qed

lemma put_recalled_get:
  "store_get (put_recalled clock e st) k = (if k = me_id e then Some e else store_get st k)"
  by (simp add: put_recalled_def ds.get_put)

lemma recall_fold:
  assumes "\<And>e. e \<in> set es \<Longrightarrow> store_get st (me_id e) = Some e" and "wf_memories st"
  shows "wf_memories (fold (put_recalled clock) (map (recalled now) es) st) \<and>
    (\<forall>k e. store_get st k = Some e \<longrightarrow>
       (\<exists>e'. store_get (fold (put_recalled clock) (map (recalled now) es) st) k = Some e' \<and> same_memory e e'))"
proof -
  have "wf_memories t \<and> (\<forall>k e. store_get st k = Some e \<longrightarrow> (\<exists>e'. store_get t k = Some e' \<and> same_memory e e')) \<Longrightarrow>
      wf_memories (fold (put_recalled clock) (map (recalled now) es) t) \<and>
      (\<forall>k e. store_get st k = Some e \<longrightarrow>
         (\<exists>e'. store_get (fold (put_recalled clock) (map (recalled now) es) t) k = Some e' \<and> same_memory e e'))" for t
    using assms(1)
  proof (induction es arbitrary: t)
    case (Cons x xs)
    have "me_id (recalled now x) = me_id x" by (simp add: recalled_def)
    moreover from this have "wf_memories (put_recalled clock (recalled now x) t)"
      unfolding put_recalled_def using Cons.prems(1) by (intro wf_memories_put) simp_all
    ultimately have "wf_memories (put_recalled clock (recalled now x) t) \<and> (\<forall>k e. store_get st k = Some e \<longrightarrow>
        (\<exists>e'. store_get (put_recalled clock (recalled now x) t) k = Some e' \<and> same_memory e e'))"
      using Cons.prems by (auto simp: put_recalled_get)
    from Cons.IH [OF this] Cons.prems(2) show ?case by simp
  qed simp
  with assms(2) show ?thesis by auto
qed

lemma recall_ranked_sound:
  assumes "wf_memories st" and "e \<in> set (recall_ranked c query session glob t now st)"
  shows "store_get st (me_id e) = Some e" and "candidate c session glob t now e"
    and "memory_tokens query \<noteq> [] \<longrightarrow> overlap (memory_tokens query) e > 0"
  using assms(2) listed_memory [OF assms(1)] by (auto simp: recall_ranked_def Let_def split: if_splits)

lemma recall_keeps:
  assumes "wf_memories st"
  shows "wf_memories (snd (recall c query session glob t limit now clock st)) \<and>
    (\<forall>k e. store_get st k = Some e \<longrightarrow>
       (\<exists>e'. store_get (snd (recall c query session glob t limit now clock st)) k = Some e' \<and> same_memory e e'))"
proof (cases "my_recall (mc_long_term c) = RecallNone \<and> t \<noteq> Some SessionTier")
  case True
  with assms show ?thesis by (auto simp: recall_def)
next
  case False
  have "store_get st (me_id e) = Some e" if "e \<in> set (take limit (recall_ranked c query session glob t now st))" for e
    using recall_ranked_sound(1) [OF assms] in_set_takeD [OF that] by blast
  from recall_fold [OF this assms, where clock = clock and now = now] False show ?thesis
    by (auto simp: recall_def Let_def)
qed

section \<open>Operations\<close>

datatype memory_op =
    Remember memory_contract pyval "string option" string memory_tier string string "string list" string string
  | Recall memory_contract string "string option" string "memory_tier option" nat
  | Promote memory_contract string string bool string
  | Forget memory_contract string
  | Expire

fun memory_apply :: "instant \<Rightarrow> instant \<Rightarrow> memory_op \<Rightarrow> memories \<Rightarrow> memories" where
  "memory_apply now clock (Remember c content session key t ns dc tags source fresh) st =
     (case remember c content session key t ns dc tags source now clock fresh st of
        Inl e \<Rightarrow> st | Inr (e, st') \<Rightarrow> st')"
| "memory_apply now clock (Recall c query session glob t limit) st =
     snd (recall c query session glob t limit now clock st)"
| "memory_apply now clock (Promote c k ns approved fresh) st =
     (case promote c k ns approved now clock fresh st of Inl e \<Rightarrow> st | Inr (e, st') \<Rightarrow> st')"
| "memory_apply now clock (Forget c k) st = (case forget c k st of Inl e \<Rightarrow> st | Inr (found, st') \<Rightarrow> st')"
| "memory_apply now clock Expire st = snd (expire_memories now st)"

fun op_agent :: "memory_op \<Rightarrow> string option" where
  "op_agent (Remember c _ _ _ _ _ _ _ _ _) = Some (mc_agent_id c)"
| "op_agent (Recall c _ _ _ _ _) = Some (mc_agent_id c)"
| "op_agent (Promote c _ _ _ _) = Some (mc_agent_id c)"
| "op_agent (Forget c _) = Some (mc_agent_id c)"
| "op_agent Expire = None"

fun op_fresh :: "memory_op \<Rightarrow> string option" where
  "op_fresh (Remember _ _ _ _ _ _ _ _ _ fresh) = Some fresh"
| "op_fresh (Promote _ _ _ _ fresh) = Some fresh"
| "op_fresh op = None"

text \<open>Any sequence of operations, each at its moment; the identifiers they mint are new.\<close>

fun memory_run :: "(instant \<times> instant \<times> memory_op) list \<Rightarrow> memories \<Rightarrow> memories" where
  "memory_run [] st = st"
| "memory_run ((now, clock, op) # ops) st = memory_run ops (memory_apply now clock op st)"

fun mints_fresh :: "(instant \<times> instant \<times> memory_op) list \<Rightarrow> memories \<Rightarrow> bool" where
  "mints_fresh [] st = True"
| "mints_fresh ((now, clock, op) # ops) st =
     ((case op_fresh op of None \<Rightarrow> True | Some k \<Rightarrow> store_get st k = None) \<and>
      mints_fresh ops (memory_apply now clock op st))"

lemma promote_Inr:
  assumes "promote c k ns approved now clock fresh st = Inr (e, st')"
  shows "\<exists>src. store_get st k = Some src \<and> me_tier src = SessionTier \<and> me_agent_id src = mc_agent_id c \<and>
    my_promotion_allowed (mc_long_term c) \<and> (my_promotion_requires_approval (mc_long_term c) \<longrightarrow> approved) \<and>
    remember c (me_content src) None (me_key src) LongTerm ns (me_data_class src) (me_tags src)
      (''promoted:'' @ me_id src) now clock fresh st = Inr (e, st')"
  using assms by (auto simp: promote_def split: option.splits if_splits)

lemma forget_keeps:
  assumes "forget c k st = Inr (found, st')" and "wf_memories st"
  shows "keeps (mc_agent_id c) st st'" and "wf_memories st'"
proof -
  consider "st' = st" | e where "store_get st k = Some e" "me_agent_id e = mc_agent_id c" "st' = delete_all [k] st"
    using assms(1) by (auto simp: forget_def split: option.splits if_splits prod.splits)
  then have "keeps (mc_agent_id c) st st' \<and> wf_memories st'"
  proof cases
    case 2
    then have "map me_id [e] = [k]" using assms(2) by (simp add: wf_memories_def)
    with 2 keeps_own_deletes [OF assms(2), of "[e]" "mc_agent_id c"] wf_memories_delete_all [OF assms(2), of "[k]"]
    show ?thesis by auto
  qed (use assms(2) in simp_all)
  then show "keeps (mc_agent_id c) st st'" "wf_memories st'" by blast+
qed

text \<open>One operation: the memories of whoever did not ask for it stay, unless they have expired.\<close>

lemma memory_apply_keeps:
  assumes "wf_memories st" and "\<And>k. op_fresh op = Some k \<Longrightarrow> store_get st k = None"
    and "store_get st k = Some e" and "op_agent op \<noteq> Some (me_agent_id e)"
    and "op = Expire \<Longrightarrow> \<not> entry_expired e now"
  shows "\<exists>e'. store_get (memory_apply now clock op st) k = Some e' \<and> same_memory e e'"
proof (cases op)
  case (Remember c content session key t ns dc tags source fresh)
  show ?thesis
  proof (cases "remember c content session key t ns dc tags source now clock fresh st")
    case (Inr r)
    then obtain e' st' where "remember c content session key t ns dc tags source now clock fresh st = Inr (e', st')"
      by (cases r) simp
    with remember_keeps(1) [OF this assms(1)] assms Remember show ?thesis by (auto simp: keeps_def)
  qed (use assms(3) Remember in \<open>auto intro: same_memory_refl\<close>)
next
  case (Recall c query session glob t limit)
  with recall_keeps [OF assms(1)] assms(3) show ?thesis by simp
next
  case (Promote c k' ns approved fresh)
  show ?thesis
  proof (cases "promote c k' ns approved now clock fresh st")
    case (Inr r)
    then obtain e' st' where p: "promote c k' ns approved now clock fresh st = Inr (e', st')" by (cases r) simp
    from promote_Inr [OF p] obtain src :: memory_entry where
      "remember c (me_content src) None (me_key src) LongTerm ns (me_data_class src) (me_tags src)
        (''promoted:'' @ me_id src) now clock fresh st = Inr (e', st')" by blast
    from remember_keeps(1) [OF this assms(1)] assms(2) Promote have "keeps (mc_agent_id c) st st'" by simp
    with assms(3,4) Promote p show ?thesis by (simp add: keeps_def)
  qed (use assms(3) Promote in \<open>auto intro: same_memory_refl\<close>)
next
  case (Forget c k')
  show ?thesis
  proof (cases "forget c k' st")
    case (Inr r)
    then obtain found st' where "forget c k' st = Inr (found, st')" by (cases r) simp
    with forget_keeps(1) [OF this assms(1)] assms Forget show ?thesis by (auto simp: keeps_def)
  qed (use assms(3) Forget in \<open>auto intro: same_memory_refl\<close>)
next
  case Expire
  have "k \<notin> set (map me_id (filter (\<lambda>e. entry_expired e now) (store_list None 10000 0 st)))"
    using listed_memory [OF assms(1)] assms(3) assms(5) [OF Expire] by auto
  with Expire assms(3) show ?thesis
    by (auto simp: expire_memories_def Let_def get_delete_all intro: same_memory_refl)
qed

lemma memory_apply_wf:
  assumes "wf_memories st" and "\<And>k. op_fresh op = Some k \<Longrightarrow> store_get st k = None"
  shows "wf_memories (memory_apply now clock op st)"
proof (cases op)
  case (Remember c content session key t ns dc tags source fresh)
  with assms remember_keeps(2) [OF _ assms(1)] show ?thesis by (auto split: sum.splits)
next
  case (Recall c query session glob t limit)
  with recall_keeps [OF assms(1)] show ?thesis by simp
next
  case (Promote c k ns approved fresh)
  show ?thesis
  proof (cases "promote c k ns approved now clock fresh st")
    case (Inr r)
    then obtain e st' where p: "promote c k ns approved now clock fresh st = Inr (e, st')" by (cases r) simp
    with promote_Inr [OF p] remember_keeps(2) [OF _ assms(1)] assms(2) Promote show ?thesis by auto
  qed (use assms(1) Promote in simp)
next
  case (Forget c k)
  with assms(1) forget_keeps(2) [OF _ assms(1)] show ?thesis by (auto split: sum.splits)
next
  case Expire
  with wf_memories_delete_all [OF assms(1)] show ?thesis by (simp add: expire_memories_def Let_def)
qed

text \<open>
  C31: What an agent remembers, others cannot touch. Through any sequence of operations in which the
  agent itself takes no part, its memory stays in the store with its content, its data class, its
  sharing and its expiry; only how often and when it was recalled may change. Nobody else's
  remembering, however full their own tier, nobody's promoting or forgetting removes it, and the
  scheduled expiry does not before its time.
\<close>

theorem others_memories_are_kept:
  assumes "wf_memories st" and "mints_fresh ops st" and "store_get st k = Some e"
    and "\<forall>(now, clock, op) \<in> set ops. op_agent op \<noteq> Some (me_agent_id e) \<and> (op = Expire \<longrightarrow> \<not> entry_expired e now)"
  shows "\<exists>e'. store_get (memory_run ops st) k = Some e' \<and> same_memory e e'"
proof -
  have "wf_memories s \<Longrightarrow> mints_fresh ops s \<Longrightarrow> store_get s k = Some x \<Longrightarrow> same_memory e x \<Longrightarrow>
      \<exists>e'. store_get (memory_run ops s) k = Some e' \<and> same_memory e e'" for s x
    using assms(4)
  proof (induction ops arbitrary: s x)
    case (Cons m ops)
    obtain now clock op where m: "m = (now, clock, op)" by (cases m)
    have new: "op_fresh op = Some k' \<Longrightarrow> store_get s k' = None" for k'
      using Cons.prems(2) by (simp add: m)
    have "op_agent op \<noteq> Some (me_agent_id x)" "op = Expire \<Longrightarrow> \<not> entry_expired x now"
      using Cons.prems(4,5) by (auto simp: m same_memory_fields)
    from memory_apply_keeps [OF Cons.prems(1) new Cons.prems(3) this] obtain x' where
      "store_get (memory_apply now clock op s) k = Some x'" "same_memory x x'" by blast
    note x' = this
    have wf: "wf_memories (memory_apply now clock op s)" by (rule memory_apply_wf [OF Cons.prems(1) new])
    have fresh: "mints_fresh ops (memory_apply now clock op s)" using Cons.prems(2) by (simp add: m)
    from Cons.IH [OF wf fresh x'(1) same_memory_trans [OF Cons.prems(4) x'(2)]] Cons.prems(5)
    show ?case by (simp add: m)
  qed auto
  with assms(1-3) show ?thesis using same_memory_refl by blast
qed

section \<open>What is recalled\<close>

lemma sorted_parts: "sorted (map f (xs @ ys)) \<Longrightarrow> x \<in> set xs \<Longrightarrow> y \<in> set ys \<Longrightarrow> f x \<le> f y"
  by (auto simp: sorted_append)



section \<open>The cap\<close>

text \<open>The rows of one agent's memories kept under one parent that have not expired.\<close>

definition held_rows :: "string option \<Rightarrow> string \<Rightarrow> instant \<Rightarrow> memories \<Rightarrow> memory_entry row list" where
  "held_rows p agent now st =
     filter (\<lambda>r. row_parent r = p \<and> me_agent_id (row_body r) = agent \<and> \<not> entry_expired (row_body r) now) st"

lemma wf_memories_rows: "wf_memories st \<Longrightarrow> r \<in> set st \<Longrightarrow> me_id (row_body r) = row_id r"
  unfolding wf_memories_def using store_get_member by blast

lemma delete_all_rows: "delete_all ks st = filter (\<lambda>r. row_id r \<notin> set ks) st"
  by (induction ks arbitrary: st) (auto simp: store_delete_def intro: filter_cong)

lemma held_rows_deleted:
  "held_rows p agent now (delete_all ks st) = filter (\<lambda>r. row_id r \<notin> set ks) (held_rows p agent now st)"
  by (simp add: held_rows_def delete_all_rows conj_commute)

lemma held_rows_distinct: "wf_memories st \<Longrightarrow> distinct (map row_id (held_rows p agent now st))"
  by (simp add: wf_memories_def wf_docs_def held_rows_def distinct_map_filter)

text \<open>What \<open>enforce_cap\<close> lists is what is held, in another order.\<close>

lemma listed_held:
  assumes "wf_memories st" and "length st \<le> 5000"
  shows "mset (map me_id (filter (\<lambda>e. me_agent_id e = agent \<and> \<not> entry_expired e now) (store_list (Some p) 5000 0 st))) =
    mset (map row_id (held_rows (Some p) agent now st))"
proof -
  let ?P = "\<lambda>e. me_agent_id e = agent \<and> \<not> entry_expired e now"
  let ?hits = "filter (\<lambda>r. row_parent r = Some p) st"
  have "length ?hits \<le> 5000" using order_trans [OF length_filter_le] assms(2) by blast
  then have "store_list (Some p) 5000 0 st = map row_body (sort_key (\<lambda>r. - row_updated r) ?hits)"
    by (simp add: store_list_def)
  then have "mset (filter ?P (store_list (Some p) 5000 0 st)) = filter_mset ?P (image_mset row_body (mset ?hits))"
    by (simp add: mset_filter)
  also have "\<dots> = image_mset row_body (mset (held_rows (Some p) agent now st))"
    by (simp add: held_rows_def filter_mset_image_mset filter_filter_mset flip: mset_filter)
  finally have "mset (map me_id (filter ?P (store_list (Some p) 5000 0 st))) = image_mset (me_id \<circ> row_body) (mset (held_rows (Some p) agent now st))"
    by (simp add: multiset.map_comp)
  also have "\<dots> = mset (map row_id (held_rows (Some p) agent now st))"
    using wf_memories_rows [OF assms(1)] by (auto simp: held_rows_def intro!: image_mset_cong)
  finally show ?thesis .
qed


lemma length_filter_removed:
  assumes "distinct xs" and "distinct ks" and "set ks \<subseteq> set xs"
  shows "length (filter (\<lambda>x. x \<notin> set ks) xs) + length ks = length xs"
proof -
  have "set (filter (\<lambda>x. x \<notin> set ks) xs) = set xs - set ks" by auto
  then have "length (filter (\<lambda>x. x \<notin> set ks) xs) = card (set xs - set ks)"
    using distinct_card [OF distinct_filter [OF assms(1)], of "\<lambda>x. x \<notin> set ks"] by simp
  also have "\<dots> = length xs - length ks"
    using assms by (simp add: card_Diff_subset distinct_card)
  finally show ?thesis
    using card_mono [OF finite_set assms(3)] assms(1,2) by (simp add: distinct_card)
qed

lemma filter_comm: "filter P (filter Q xs) = filter Q (filter P xs)"
  by (induction xs) simp_all

lemma held_rows_removed:
  assumes "wf_memories st" and "distinct ks" and "set ks \<subseteq> set (map row_id (held_rows p agent now st))"
  shows "length (held_rows p agent now (delete_all ks (delete_all stale st))) + length ks
    \<le> length (held_rows p agent now st)"
proof -
  let ?H = "held_rows p agent now st"
  have "length (held_rows p agent now (delete_all ks (delete_all stale st))) \<le> length (filter (\<lambda>r. row_id r \<notin> set ks) ?H)"
    unfolding held_rows_deleted filter_comm [of "\<lambda>r. row_id r \<notin> set ks"] by (rule length_filter_le)
  also have "\<dots> = length (filter (\<lambda>k. k \<notin> set ks) (map row_id ?H))"
    by (simp add: filter_map o_def)
  finally show ?thesis
    using length_filter_removed [OF held_rows_distinct [OF assms(1)] assms(2,3)] by simp
qed

text \<open>Remembering removes what is stale and, past the cap, the oldest of what is held.\<close>

lemma enforce_cap_deletes:
  fixes st :: memories
  assumes "live = filter (\<lambda>e. me_agent_id e = mc_agent_id c \<and> \<not> entry_expired e now)
    (store_list (memory_parent t session ns) 5000 0 st)"
  shows "\<exists>stale. enforce_cap c q t session ns now st =
    delete_all (map me_id (take (nat (int (length live) - my_max_items q + 1)) (sort_key me_created_at live)))
      (delete_all stale st)"
proof -
  have "filter (\<lambda>e. \<not> entry_expired e now) (filter (\<lambda>e. me_agent_id e = mc_agent_id c)
    (store_list (memory_parent t session ns) 5000 0 st)) = live"
    by (simp add: assms conj_commute)
  then show ?thesis
    by (simp only: enforce_cap_def Let_def)
      (rule exI [of _ "map me_id (filter (\<lambda>e. entry_expired e now) (filter (\<lambda>e. me_agent_id e = mc_agent_id c)
        (store_list (memory_parent t session ns) 5000 0 st)))"], simp)
qed


lemma enforce_cap_bound:
  assumes "wf_memories st" and "length st \<le> 5000" and "memory_parent t session ns = Some p"
  shows "int (length (held_rows (Some p) (mc_agent_id c) now (enforce_cap c q t session ns now st))) + 1
    \<le> max 1 (my_max_items q)"
proof -
  define live where "live = filter (\<lambda>e. me_agent_id e = mc_agent_id c \<and> \<not> entry_expired e now)
    (store_list (memory_parent t session ns) 5000 0 st)"
  define H where "H = held_rows (Some p) (mc_agent_id c) now st"
  define ks where "ks = map me_id (take (nat (int (length live) - my_max_items q + 1)) (sort_key me_created_at live))"
  have same: "mset (map me_id live) = mset (map row_id H)"
    unfolding live_def H_def assms(3) by (rule listed_held [OF assms(1,2)])
  then have len: "length live = length H" using mset_eq_length by fastforce
  have "mset (map me_id (sort_key me_created_at live)) = mset (map row_id H)" using same by simp
  then have sorted: "distinct (map me_id (sort_key me_created_at live))"
      "set (map me_id (sort_key me_created_at live)) = set (map row_id H)"
    using held_rows_distinct [OF assms(1)] mset_eq_imp_distinct_iff mset_eq_setD unfolding H_def by blast+
  have ks: "ks = take (nat (int (length live) - my_max_items q + 1)) (map me_id (sort_key me_created_at live))"
    by (simp add: ks_def take_map)
  have "distinct ks" unfolding ks using sorted(1) by (rule distinct_take)
  moreover have "set ks \<subseteq> set (map row_id H)" unfolding ks sorted(2) [symmetric] by (rule set_take_subset)
  moreover obtain stale where "enforce_cap c q t session ns now st = delete_all ks (delete_all stale st)"
    using enforce_cap_deletes [OF live_def] unfolding ks_def by blast
  ultimately have "length (held_rows (Some p) (mc_agent_id c) now (enforce_cap c q t session ns now st)) + length ks
    \<le> length H" using held_rows_removed [OF assms(1)] unfolding H_def by simp
  moreover have "length ks = min (length H) (nat (int (length H) - my_max_items q + 1))"
    by (simp add: ks len)
  ultimately show ?thesis by linarith
qed



section \<open>Two agents and a shared namespace\<close>

definition session_policy :: memory_policy where
  "session_policy = \<lparr>my_enabled = True, my_data_classes = [], my_retention_days = None, my_max_items = 2,
     my_recall = OnDemand, my_promotion_allowed = True, my_promotion_requires_approval = False, my_redact = []\<rparr>"

definition example_contract :: "string \<Rightarrow> memory_contract" where
  "example_contract agent = \<lparr>mc_agent_id = agent, mc_session = session_policy, mc_long_term = session_policy,
     mc_namespaces = [\<lparr>mn_id = ''team'', mn_scope = PublicScope, mn_groups = [], mn_data_classes = []\<rparr>],
     mc_groups = [], mc_readable = []\<rparr>"

definition anns_memory :: memories where
  "anns_memory = memory_apply 0 0 (Remember (example_contract ''ann'') (PStr ''the key is with bob'') None ''key''
     LongTerm ''team'' [] [] [] ''m1'') []"

definition bobs_doings :: "(instant \<times> instant \<times> memory_op) list" where
  "bobs_doings =
     [(10, 10, Remember (example_contract ''bob'') (PStr ''the gate is open'') (Some ''s1'') [] SessionTier [] [] [] [] ''m2''),
      (20, 20, Promote (example_contract ''bob'') ''m2'' ''team'' False ''m3''),
      (30, 30, Recall (example_contract ''bob'') ''key'' (Some ''s1'') ''*'' None 10),
      (40, 40, Forget (example_contract ''bob'') ''m2''),
      (50, 50, Expire)]"

lemma no_memories_wf: "wf_memories []"
  by (simp add: wf_memories_def wf_docs_def store_get_def)

lemma anns_memory_wf: "wf_memories anns_memory"
  unfolding anns_memory_def by (rule memory_apply_wf [OF no_memories_wf]) (simp add: store_get_def)

definition anns_entry :: memory_entry where
  "anns_entry = row_body (hd anns_memory)"



lemma anns_entry_kept: "store_get anns_memory ''m1'' = Some anns_entry"
  by code_simp

theorem others_memories_are_kept_witness:
  "\<exists>e. store_get (memory_run bobs_doings anns_memory) ''m1'' = Some e \<and> me_content e = PStr ''the key is with bob''"
proof -
  have ann: "me_agent_id anns_entry = ''ann''" "\<not> entry_expired anns_entry 50" "mints_fresh bobs_doings anns_memory"
    and content: "me_content anns_entry = PStr ''the key is with bob''" by code_simp+
  then have "\<forall>(now, clock, op) \<in> set bobs_doings.
      op_agent op \<noteq> Some (me_agent_id anns_entry) \<and> (op = Expire \<longrightarrow> \<not> entry_expired anns_entry now)"
    by (simp add: bobs_doings_def example_contract_def)
  from others_memories_are_kept [OF anns_memory_wf ann(3) anns_entry_kept this] content same_memory_fields(3)
  show ?thesis by auto
qed

definition bobs_recall :: "memory_entry list \<times> memories" where
  "bobs_recall = recall (example_contract ''bob'') ''key'' None ''*'' None 1 30 30 anns_memory"


definition anns_next :: "memory_error + memory_entry \<times> memories" where
  "anns_next = remember (example_contract ''ann'') (PStr ''the key is lost'') None ''key'' LongTerm ''team'' [] [] []
     10 10 ''m4'' anns_memory"


end
